(* ===== verification/Prelude.thy ===== *)
theory Prelude
  imports
    "HOL-Library.Word"
    "HOL-Library.List_Lexorder"
    "HOL-Library.Char_ord"
    "HOL-Library.Product_Lexorder"
begin

text \<open>
  Vocabulary shared by every component of the development.

  \<^item> Bytes and byte strings, and the checked and saturating integer operations
    of Rust's \<open>u64\<close> and \<open>u128\<close>.  An unsigned integer of the program is a
    \<open>nat\<close>, and the width appears in the operations that can leave it.
  \<^item> \<open>btree_map\<close>: Rust's \<open>BTreeMap\<close>, an association list strictly sorted by key,
    so that two maps with the same entries are equal and iteration order is the
    key order.  The interface its clients use is the locale \<open>ordered_map\<close>; the sums
    over the entries that the conservation proofs need are proved in that locale.
  \<^item> \<open>btree_set\<close>: Rust's \<open>BTreeSet\<close>, a map to \<open>unit\<close>.
\<close>

section \<open>Bytes\<close>

type_synonym byte = "8 word"
type_synonym bytes = "byte list"
type_synonym hash = bytes

definition ascii :: "string \<Rightarrow> bytes" where
  "ascii s = map (\<lambda>c. of_nat (of_char c)) s"

definition to_le_bytes :: "nat \<Rightarrow> nat \<Rightarrow> bytes" where
  "to_le_bytes n x = map (\<lambda>i. of_nat (x div 256 ^ i)) [0..<n]"

lemma length_to_le_bytes [simp]: "length (to_le_bytes n x) = n"
  by (simp add: to_le_bytes_def)

lemma length_ascii [simp]: "length (ascii s) = length s"
  by (simp add: ascii_def)

lemma ascii_append [simp]: "ascii (s @ t) = ascii s @ ascii t"
  by (simp add: ascii_def)

lemma byte_of_char_inj: "(of_nat (of_char c) :: byte) = of_nat (of_char d) \<longleftrightarrow> c = d"
proof
  assume "(of_nat (of_char c) :: byte) = of_nat (of_char d)"
  then have "unat (of_nat (of_char c) :: byte) = unat (of_nat (of_char d) :: byte)" by simp
  then have "(of_char c :: nat) mod 256 = of_char d mod 256" by (simp add: unat_of_nat)
  then have "(of_char c :: nat) = of_char d" by (simp only: of_char_mod_256)
  then show "c = d" by simp
qed simp

lemma ascii_inj [simp]: "ascii s = ascii t \<longleftrightarrow> s = t"
  by (auto simp: ascii_def inj_map_eq_map inj_def byte_of_char_inj)

section \<open>Machine integers\<close>

definition checked_add :: "nat \<Rightarrow> nat \<Rightarrow> nat \<Rightarrow> nat option" where
  "checked_add w a b = (if a + b < 2 ^ w then Some (a + b) else None)"

definition checked_sub :: "nat \<Rightarrow> nat \<Rightarrow> nat option" where
  "checked_sub a b = (if b \<le> a then Some (a - b) else None)"

definition checked_mul :: "nat \<Rightarrow> nat \<Rightarrow> nat \<Rightarrow> nat option" where
  "checked_mul w a b = (if a * b < 2 ^ w then Some (a * b) else None)"

definition saturating_add :: "nat \<Rightarrow> nat \<Rightarrow> nat \<Rightarrow> nat" where
  "saturating_add w a b = min (a + b) (2 ^ w - 1)"

definition saturating_mul :: "nat \<Rightarrow> nat \<Rightarrow> nat \<Rightarrow> nat" where
  "saturating_mul w a b = min (a * b) (2 ^ w - 1)"

definition saturating_sub :: "nat \<Rightarrow> nat \<Rightarrow> nat" where
  "saturating_sub a b = a - b"

lemma checked_add_Some [simp]: "checked_add w a b = Some c \<longleftrightarrow> c = a + b \<and> a + b < 2 ^ w"
  by (auto simp: checked_add_def)

lemma checked_add_None [simp]: "checked_add w a b = None \<longleftrightarrow> 2 ^ w \<le> a + b"
  by (auto simp: checked_add_def)

lemma checked_sub_Some [simp]: "checked_sub a b = Some c \<longleftrightarrow> b \<le> a \<and> c = a - b"
  by (auto simp: checked_sub_def)

lemma checked_sub_None [simp]: "checked_sub a b = None \<longleftrightarrow> a < b"
  by (auto simp: checked_sub_def)

lemma checked_mul_Some [simp]: "checked_mul w a b = Some c \<longleftrightarrow> c = a * b \<and> a * b < 2 ^ w"
  by (auto simp: checked_mul_def)

lemma saturating_add_bound: "saturating_add w a b < 2 ^ w"
  unfolding saturating_add_def by (rule le_less_trans [OF min.cobounded2]) simp

section \<open>Association lists sorted by key\<close>

fun al_insert :: "'k::linorder \<Rightarrow> 'v \<Rightarrow> ('k \<times> 'v) list \<Rightarrow> ('k \<times> 'v) list" where
  "al_insert k v [] = [(k, v)]"
| "al_insert k v ((a, b) # xs) =
     (if k < a then (k, v) # (a, b) # xs
      else if k = a then (k, v) # xs
      else (a, b) # al_insert k v xs)"

lemma al_insert_keys: "fst ` set (al_insert k v xs) = insert k (fst ` set xs)"
  by (induction k v xs rule: al_insert.induct) auto

lemma al_insert_sorted:
  assumes "sorted_wrt (<) (map fst xs)"
  shows "sorted_wrt (<) (map fst (al_insert k v xs))"
  using assms
proof (induction k v xs rule: al_insert.induct)
  case (2 k v a b xs)
  have "\<forall>y \<in> fst ` set (al_insert k v xs). a < y" if "a < k"
    using 2(2) that by (auto simp: al_insert_keys)
  with 2 show ?case by (auto simp: not_less)
qed simp

lemma al_insert_map_of:
  assumes "sorted_wrt (<) (map fst xs)"
  shows "map_of (al_insert k v xs) = (map_of xs)(k \<mapsto> v)"
  using assms
  by (induction k v xs rule: al_insert.induct) (auto simp: fun_eq_iff)

lemma sorted_filter_keys:
  "sorted_wrt (<) (map fst xs) \<Longrightarrow> sorted_wrt (<) (map fst (filter P xs))"
  by (induction xs) auto

lemma sorted_keys_distinct: "sorted_wrt (<) (map fst xs) \<Longrightarrow> distinct (map fst xs)"
  for xs :: "('k::linorder \<times> 'v) list"
  by (simp add: strict_sorted_iff)

lemma map_of_filter_key:
  "map_of (filter (\<lambda>(k, v). P k) xs) = (\<lambda>k. if P k then map_of xs k else None)"
  by (induction xs) (auto simp: fun_eq_iff)

lemma sorted_keys_map_of_eq:
  fixes xs ys :: "('k::linorder \<times> 'v) list"
  assumes "sorted_wrt (<) (map fst xs)" "sorted_wrt (<) (map fst ys)" "map_of xs = map_of ys"
  shows "xs = ys"
proof -
  have d: "distinct (map fst xs)" "distinct (map fst ys)"
    using assms(1,2) by (auto intro: sorted_keys_distinct)
  then have "set xs = set ys"
    using assms(3) by (metis map_of_inject_set)
  moreover have "sorted (map fst xs)" "sorted (map fst ys)"
    using assms(1,2) by (simp_all add: strict_sorted_iff)
  ultimately show ?thesis
    using d by (intro map_sorted_distinct_set_unique [of fst]) (auto simp: distinct_map)
qed

section \<open>Sums over the entries of a map\<close>

definition entry_sum :: "('k \<Rightarrow> 'v \<Rightarrow> nat) \<Rightarrow> ('k \<times> 'v) list \<Rightarrow> nat" where
  "entry_sum f xs = sum_list (map (\<lambda>(k, v). f k v) xs)"

definition opt_weight :: "('k \<Rightarrow> 'v \<Rightarrow> nat) \<Rightarrow> 'k \<Rightarrow> 'v option \<Rightarrow> nat" where
  "opt_weight f k ov = (case ov of None \<Rightarrow> 0 | Some v \<Rightarrow> f k v)"

lemma opt_weight_simps [simp]:
  "opt_weight f k None = 0" "opt_weight f k (Some v) = f k v"
  by (simp_all add: opt_weight_def)

lemma entry_sum_simps [simp]:
  "entry_sum f [] = 0" "entry_sum f ((k, v) # xs) = f k v + entry_sum f xs"
  by (simp_all add: entry_sum_def)

lemma entry_sum_map_of:
  "distinct (map fst xs) \<Longrightarrow>
     entry_sum f xs = (\<Sum>k \<in> dom (map_of xs). opt_weight f k (map_of xs k))"
proof (induction xs)
  case (Cons x xs)
  obtain k v where x: "x = (k, v)" by force
  have fresh: "k \<notin> dom (map_of xs)" using Cons.prems by (simp add: x dom_map_of_conv_image_fst)
  have "dom (map_of (x # xs)) = insert k (dom (map_of xs))" by (auto simp: x)
  then have "(\<Sum>j \<in> dom (map_of (x # xs)). opt_weight f j (map_of (x # xs) j))
      = f k v + (\<Sum>j \<in> dom (map_of xs). opt_weight f j (map_of (x # xs) j))"
    using fresh finite_dom_map_of [of xs] by (simp only: sum.insert) (simp add: x)
  also have "\<dots> = f k v + (\<Sum>j \<in> dom (map_of xs). opt_weight f j (map_of xs j))"
    using fresh by (intro arg_cong2 [of _ _ _ _ "(+)"] refl sum.cong) (auto simp: x)
  finally show ?case using Cons by (simp only: x) simp
qed simp

locale ordered_map =
  fixes emp :: 'm
    and get :: "'m \<Rightarrow> 'k::linorder \<Rightarrow> 'v option"
    and ins :: "'k \<Rightarrow> 'v \<Rightarrow> 'm \<Rightarrow> 'm"
    and del :: "'k \<Rightarrow> 'm \<Rightarrow> 'm"
    and ents :: "'m \<Rightarrow> ('k \<times> 'v) list"
  assumes get_emp: "get emp k = None"
    and get_ins: "get (ins k v m) j = (if j = k then Some v else get m j)"
    and get_del: "get (del k m) j = (if j = k then None else get m j)"
    and map_of_ents: "map_of (ents m) = get m"
    and ents_sorted: "sorted_wrt (<) (map fst (ents m))"
    and ext: "(\<And>k. get m k = get m' k) \<Longrightarrow> m = m'"
begin

lemma finite_keys: "finite (dom (get m))"
  by (metis finite_dom_map_of map_of_ents)

lemma ents_sum: "entry_sum f (ents m) = (\<Sum>k \<in> dom (get m). opt_weight f k (get m k))"
  using entry_sum_map_of [OF sorted_keys_distinct [OF ents_sorted]] by (simp add: map_of_ents)

lemma ents_sum_split:
  "entry_sum f (ents m)
     = (\<Sum>j \<in> dom (get m) - {k}. opt_weight f j (get m j)) + opt_weight f k (get m k)"
proof (cases "k \<in> dom (get m)")
  case True
  then show ?thesis using finite_keys [of m] by (simp add: ents_sum sum.remove [of _ k])
next
  case False
  then have "get m k = None" by blast
  with False show ?thesis by (simp add: ents_sum)
qed

lemma sum_ins:
  "entry_sum f (ents (ins k v m)) + opt_weight f k (get m k) = entry_sum f (ents m) + f k v"
proof -
  have "dom (get (ins k v m)) - {k} = dom (get m) - {k}" by (auto simp: dom_def get_ins)
  then have "(\<Sum>j \<in> dom (get (ins k v m)) - {k}. opt_weight f j (get (ins k v m) j))
           = (\<Sum>j \<in> dom (get m) - {k}. opt_weight f j (get m j))"
    by (intro sum.cong) (auto simp: get_ins)
  then show ?thesis
    using ents_sum_split [of f "ins k v m" k] ents_sum_split [of f m k] by (simp add: get_ins)
qed

lemma sum_del: "entry_sum f (ents (del k m)) + opt_weight f k (get m k) = entry_sum f (ents m)"
proof -
  have "dom (get (del k m)) - {k} = dom (get m) - {k}" by (auto simp: dom_def get_del split: if_splits)
  then have "(\<Sum>j \<in> dom (get (del k m)) - {k}. opt_weight f j (get (del k m) j))
           = (\<Sum>j \<in> dom (get m) - {k}. opt_weight f j (get m j))"
    by (intro sum.cong) (auto simp: get_del)
  then show ?thesis
    using ents_sum_split [of f "del k m" k] ents_sum_split [of f m k] by (simp add: get_del)
qed

lemma sum_member: "get m k = Some v \<Longrightarrow> f k v \<le> entry_sum f (ents m)"
  using ents_sum_split [of f m k] by simp

lemma ins_ins: "ins k v (ins k w m) = ins k v m"
  by (rule ext) (simp add: get_ins)

lemma ins_swap: "j \<noteq> k \<Longrightarrow> ins k v (ins j w m) = ins j w (ins k v m)"
  by (rule ext) (simp add: get_ins)

lemma del_ins: "get m k = None \<Longrightarrow> del k (ins k v m) = m"
  by (rule ext) (simp add: get_ins get_del)

lemma ins_restore: "get m k = Some w \<Longrightarrow> ins k w (ins k v m) = m"
  by (rule ext) (simp add: get_ins)

lemma ins_del_restore: "get m k = Some w \<Longrightarrow> ins k w (del k m) = m"
  by (rule ext) (simp add: get_ins get_del)

lemma del_absent: "get m k = None \<Longrightarrow> del k m = m"
  by (rule ext) (simp add: get_del)

end

section \<open>\<open>BTreeMap\<close> and \<open>BTreeSet\<close>\<close>

typedef (overloaded) ('k::linorder, 'v) btree_map =
  "{xs :: ('k \<times> 'v) list. sorted_wrt (<) (map fst xs)}"
  by (rule exI [of _ "[]"]) simp

setup_lifting type_definition_btree_map

lift_definition bt_empty :: "('k::linorder, 'v) btree_map" is "[]"
  by simp

lift_definition bt_get :: "('k::linorder, 'v) btree_map \<Rightarrow> 'k \<Rightarrow> 'v option" is map_of .

lift_definition bt_insert :: "'k::linorder \<Rightarrow> 'v \<Rightarrow> ('k, 'v) btree_map \<Rightarrow> ('k, 'v) btree_map"
  is al_insert by (rule al_insert_sorted)

lift_definition bt_remove :: "'k::linorder \<Rightarrow> ('k, 'v) btree_map \<Rightarrow> ('k, 'v) btree_map"
  is "\<lambda>k. filter (\<lambda>(j, v). j \<noteq> k)" by (rule sorted_filter_keys)

lift_definition bt_entries :: "('k::linorder, 'v) btree_map \<Rightarrow> ('k \<times> 'v) list" is "\<lambda>xs. xs" .

lift_definition bt_retain :: "('k::linorder \<Rightarrow> bool) \<Rightarrow> ('k, 'v) btree_map \<Rightarrow> ('k, 'v) btree_map"
  is "\<lambda>P. filter (\<lambda>(j, v). P j)" by (rule sorted_filter_keys)

interpretation bt: ordered_map bt_empty bt_get bt_insert bt_remove bt_entries
proof unfold_locales
  show "bt_get bt_empty k = None" for k :: 'a by transfer simp
  show "bt_get (bt_insert k v m) j = (if j = k then Some v else bt_get m j)"
    for k j :: 'a and v and m :: "('a, 'b) btree_map"
    by transfer (simp add: al_insert_map_of)
  show "bt_get (bt_remove k m) j = (if j = k then None else bt_get m j)"
    for k j :: 'a and m :: "('a, 'b) btree_map"
    by transfer (simp add: map_of_filter_key)
  show "map_of (bt_entries m) = bt_get m" for m :: "('a, 'b) btree_map" by transfer simp
  show "sorted_wrt (<) (map fst (bt_entries m))" for m :: "('a, 'b) btree_map" by transfer simp
  show "m = m'" if "\<And>k. bt_get m k = bt_get m' k" for m m' :: "('a, 'b) btree_map"
    using that by transfer (blast intro: sorted_keys_map_of_eq)
qed

lemmas bt_get_simps [simp] = bt.get_emp bt.get_ins bt.get_del
lemmas bt_restore [simp] = bt.ins_ins bt.del_ins bt.ins_restore bt.ins_del_restore bt.del_absent

lemma bt_get_retain [simp]: "bt_get (bt_retain P m) k = (if P k then bt_get m k else None)"
  by transfer (simp add: map_of_filter_key)

lemma bt_entries_empty [simp]: "bt_entries bt_empty = []"
  by transfer simp

lemma bt_entries_iff: "(k, v) \<in> set (bt_entries m) \<longleftrightarrow> bt_get m k = Some v"
  using bt.ents_sorted [of m] bt.map_of_ents [of m]
  by (metis map_of_eq_Some_iff sorted_keys_distinct)

lemma bt_entries_Nil: "bt_entries m = [] \<longleftrightarrow> m = bt_empty"
  by (metis bt.ext bt.map_of_ents bt_entries_empty)

instantiation btree_map :: (linorder, equal) equal
begin

definition equal_btree_map :: "('a, 'b) btree_map \<Rightarrow> ('a, 'b) btree_map \<Rightarrow> bool" where
  "equal_btree_map m m' = (bt_entries m = bt_entries m')"

instance
  by standard (metis equal_btree_map_def bt.ext bt.map_of_ents)

end

definition bt_is_empty :: "('k::linorder, 'v) btree_map \<Rightarrow> bool" where
  "bt_is_empty m = (bt_entries m = [])"

definition bt_values :: "('k::linorder, 'v) btree_map \<Rightarrow> 'v list" where
  "bt_values m = map snd (bt_entries m)"

definition bt_keys :: "('k::linorder, 'v) btree_map \<Rightarrow> 'k list" where
  "bt_keys m = map fst (bt_entries m)"

definition bt_contains :: "('k::linorder, 'v) btree_map \<Rightarrow> 'k \<Rightarrow> bool" where
  "bt_contains m k = (bt_get m k \<noteq> None)"

definition bt_put :: "'k::linorder \<Rightarrow> 'v option \<Rightarrow> ('k, 'v) btree_map \<Rightarrow> ('k, 'v) btree_map" where
  "bt_put k ov m = (case ov of None \<Rightarrow> bt_remove k m | Some v \<Rightarrow> bt_insert k v m)"

abbreviation bt_sum :: "('k::linorder \<Rightarrow> 'v \<Rightarrow> nat) \<Rightarrow> ('k, 'v) btree_map \<Rightarrow> nat" where
  "bt_sum f m \<equiv> entry_sum f (bt_entries m)"

type_synonym 'k btree_set = "('k, unit) btree_map"

definition bs_insert :: "'k::linorder \<Rightarrow> 'k btree_set \<Rightarrow> 'k btree_set" where
  "bs_insert k s = bt_insert k () s"

lemma bt_is_empty_iff [simp]: "bt_is_empty m \<longleftrightarrow> m = bt_empty"
  by (simp add: bt_is_empty_def bt_entries_Nil)

lemma bt_get_put [simp]: "bt_get (bt_put k ov m) j = (if j = k then ov else bt_get m j)"
  by (simp add: bt_put_def split: option.split)

lemma bt_put_restore [simp]: "bt_put k (bt_get m k) (bt_put k ov m) = m"
  by (rule bt.ext) simp

lemma bt_sum_put:
  "bt_sum f (bt_put k ov m) + opt_weight f k (bt_get m k) = bt_sum f m + opt_weight f k ov"
  using bt.sum_ins [of f k _ m] bt.sum_del [of f k m]
  by (simp add: bt_put_def split: option.split)

lemma bs_contains_insert [simp]: "bt_contains (bs_insert k s) j \<longleftrightarrow> j = k \<or> bt_contains s j"
  by (simp add: bt_contains_def bs_insert_def)

end
