(* ===== verification/Primitives.thy ===== *)
theory Primitives
  imports Prelude
begin

text \<open>
  The crate \<open>sov-primitives\<close>: amounts and the supply cap (\<open>amount.rs\<close>), block heights
  (\<open>height.rs\<close>), account identifiers and their validation (\<open>account.rs\<close>), and the
  network-bound signing preimages of the \<open>tx-domain\<close> fork (\<open>signing_domain.rs\<close>).
  A \<open>String\<close> of the program is the list of its UTF-8 bytes, written as characters.
\<close>

section \<open>Amounts and heights\<close>

definition DECIMALS :: nat where "DECIMALS = 8"
definition GRAINS_PER_SOV :: nat where "GRAINS_PER_SOV = 10 ^ DECIMALS"
definition MAX_SUPPLY_SOV :: nat where "MAX_SUPPLY_SOV = 21000000"
definition MAX_SUPPLY_GRAINS :: nat where "MAX_SUPPLY_GRAINS = MAX_SUPPLY_SOV * GRAINS_PER_SOV"

datatype balance_error = BalanceOverflow

type_synonym balance = nat

definition from_sov :: "nat \<Rightarrow> balance_error + balance" where
  "from_sov sov = (case checked_mul 128 sov GRAINS_PER_SOV of
      None \<Rightarrow> Inl BalanceOverflow | Some g \<Rightarrow> Inr g)"

abbreviation bal_add :: "balance \<Rightarrow> balance \<Rightarrow> balance option" where
  "bal_add \<equiv> checked_add 128"

abbreviation bal_sub :: "balance \<Rightarrow> balance \<Rightarrow> balance option" where
  "bal_sub \<equiv> checked_sub"

definition within_cap :: "balance \<Rightarrow> bool" where
  "within_cap b = (b \<le> MAX_SUPPLY_GRAINS)"

definition height_next :: "nat \<Rightarrow> nat option" where
  "height_next h = checked_add 64 h 1"

lemma MAX_SUPPLY_GRAINS_value: "MAX_SUPPLY_GRAINS = 2100000000000000"
  by (simp add: MAX_SUPPLY_GRAINS_def MAX_SUPPLY_SOV_def GRAINS_PER_SOV_def DECIMALS_def)

lemma MAX_SUPPLY_fits_u128: "MAX_SUPPLY_GRAINS < 2 ^ 128"
  by (simp add: MAX_SUPPLY_GRAINS_value)

section \<open>Account identifiers\<close>

type_synonym account_id = string

datatype account_id_error =
    Length nat
  | EdgeSeparator
  | InvalidChar char
  | AdjacentSeparators

definition MIN_LEN :: nat where "MIN_LEN = 2"
definition MAX_LEN :: nat where "MAX_LEN = 64"

definition is_ascii_lowercase :: "char \<Rightarrow> bool" where
  "is_ascii_lowercase c = (CHR ''a'' \<le> c \<and> c \<le> CHR ''z'')"

definition is_ascii_digit :: "char \<Rightarrow> bool" where
  "is_ascii_digit c = (CHR ''0'' \<le> c \<and> c \<le> CHR ''9'')"

definition is_sep :: "char \<Rightarrow> bool" where
  "is_sep c = (c = CHR ''-'' \<or> c = CHR ''_'' \<or> c = CHR ''.'')"

fun validate_chars :: "bool \<Rightarrow> string \<Rightarrow> account_id_error + unit" where
  "validate_chars prev_sep [] = Inr ()"
| "validate_chars prev_sep (b # bs) =
     (if \<not> (is_ascii_lowercase b \<or> is_ascii_digit b \<or> is_sep b) then Inl (InvalidChar b)
      else if is_sep b then
        (if prev_sep then Inl AdjacentSeparators else validate_chars True bs)
      else validate_chars False bs)"

definition validate :: "string \<Rightarrow> account_id_error + unit" where
  "validate i =
     (if \<not> (MIN_LEN \<le> length i \<and> length i \<le> MAX_LEN) then Inl (Length (length i))
      else if is_sep (hd i) \<or> is_sep (last i) then Inl EdgeSeparator
      else validate_chars False i)"

definition account_id_new :: "string \<Rightarrow> account_id_error + account_id" where
  "account_id_new raw = (case validate raw of Inl e \<Rightarrow> Inl e | Inr _ \<Rightarrow> Inr raw)"

definition top_level :: "account_id \<Rightarrow> string" where
  "top_level i = rev (takeWhile (\<lambda>c. c \<noteq> CHR ''.'') (rev i))"

definition is_implicit :: "account_id \<Rightarrow> bool" where
  "is_implicit i = (length i = 64 \<and>
     list_all (\<lambda>b. is_ascii_digit b \<or> (CHR ''a'' \<le> b \<and> b \<le> CHR ''f'')) i)"

definition ends_with :: "string \<Rightarrow> string \<Rightarrow> bool" where
  "ends_with i suf = (length suf \<le> length i \<and> drop (length i - length suf) i = suf)"

definition is_registrable_name :: "account_id \<Rightarrow> bool" where
  "is_registrable_name i = (\<not> is_implicit i \<and> ends_with i ''.sov'')"

text \<open>The rule the documentation of \<open>AccountId\<close> states, without the scan.\<close>

definition well_formed_id :: "string \<Rightarrow> bool" where
  "well_formed_id i \<longleftrightarrow>
     2 \<le> length i \<and> length i \<le> 64
     \<and> (\<forall>c \<in> set i. is_ascii_lowercase c \<or> is_ascii_digit c \<or> is_sep c)
     \<and> \<not> is_sep (hd i) \<and> \<not> is_sep (last i)
     \<and> (\<forall>j. Suc j < length i \<longrightarrow> \<not> (is_sep (i ! j) \<and> is_sep (i ! Suc j)))"

lemma validate_chars_ok_iff:
  "validate_chars p i = Inr () \<longleftrightarrow>
     (\<forall>c \<in> set i. is_ascii_lowercase c \<or> is_ascii_digit c \<or> is_sep c)
     \<and> (\<forall>j. Suc j < length i \<longrightarrow> \<not> (is_sep (i ! j) \<and> is_sep (i ! Suc j)))
     \<and> \<not> (p \<and> i \<noteq> [] \<and> is_sep (hd i))"
proof (induction p i rule: validate_chars.induct)
  case (2 p b bs)
  have split: "(\<forall>j. Suc j < length (b # bs) \<longrightarrow> \<not> (is_sep ((b # bs) ! j) \<and> is_sep ((b # bs) ! Suc j)))
      \<longleftrightarrow> \<not> (bs \<noteq> [] \<and> is_sep b \<and> is_sep (hd bs))
        \<and> (\<forall>j. Suc j < length bs \<longrightarrow> \<not> (is_sep (bs ! j) \<and> is_sep (bs ! Suc j)))"
    (is "?L \<longleftrightarrow> ?R")
  proof
    assume L: ?L
    have "\<not> (bs \<noteq> [] \<and> is_sep b \<and> is_sep (hd bs))"
      using L [rule_format, of 0] by (auto simp: hd_conv_nth)
    moreover have "\<not> (is_sep (bs ! j) \<and> is_sep (bs ! Suc j))" if "Suc j < length bs" for j
      using L [rule_format, of "Suc j"] that by simp
    ultimately show ?R by blast
  next
    assume R: ?R
    show ?L
    proof (intro allI impI)
      fix j assume "Suc j < length (b # bs)"
      then show "\<not> (is_sep ((b # bs) ! j) \<and> is_sep ((b # bs) ! Suc j))"
        using R by (cases j) (auto simp: hd_conv_nth)
    qed
  qed
  show ?case
  proof (cases "is_ascii_lowercase b \<or> is_ascii_digit b \<or> is_sep b")
    case True
    then show ?thesis unfolding split using 2 by auto
  qed simp
qed simp

lemma account_id_new_iff: "account_id_new raw = Inr i \<longleftrightarrow> i = raw \<and> well_formed_id raw"
proof -
  have "account_id_new raw = Inr i \<longleftrightarrow> i = raw \<and> validate raw = Inr ()"
    by (auto simp: account_id_new_def split: sum.splits)
  also have "validate raw = Inr () \<longleftrightarrow> well_formed_id raw"
    by (auto simp: validate_def well_formed_id_def MIN_LEN_def MAX_LEN_def validate_chars_ok_iff)
  finally show ?thesis .
qed

section \<open>Signing domains\<close>

record signing_domain =
  chain_id :: string
  genesis :: hash

definition frame :: "signing_domain \<Rightarrow> bytes \<Rightarrow> bytes \<Rightarrow> bytes" where
  "frame d tag body = tag @ [0] @ ascii (chain_id d) @ [0] @ genesis d @ body"

datatype tx_domain_mode =
    Legacy
  | Grace signing_domain
  | Bound signing_domain

definition verifies :: "tx_domain_mode \<Rightarrow> (signing_domain option \<Rightarrow> bool) \<Rightarrow> bool" where
  "verifies m verify = (case m of
      Legacy \<Rightarrow> verify None
    | Grace d \<Rightarrow> verify (Some d) \<or> verify None
    | Bound d \<Rightarrow> verify (Some d))"

definition bound_domain :: "tx_domain_mode \<Rightarrow> signing_domain option" where
  "bound_domain m = (case m of Legacy \<Rightarrow> None | Grace d \<Rightarrow> Some d | Bound d \<Rightarrow> Some d)"

lemma split_at_separator:
  fixes a b :: "'a list"
  assumes "a @ [z] @ xs = b @ [z] @ ys" "z \<notin> set a" "z \<notin> set b"
  shows "a = b \<and> xs = ys"
  using assms by (induction a arbitrary: b) (auto simp: Cons_eq_append_conv)

lemma frame_inj:
  assumes "frame d tag body = frame d' tag' body'"
    and "0 \<notin> set tag" "0 \<notin> set tag'"
    and "0 \<notin> set (ascii (chain_id d))" "0 \<notin> set (ascii (chain_id d'))"
    and "length (genesis d) = length (genesis d')"
  shows "d = d' \<and> tag = tag' \<and> body = body'"
proof -
  have 1: "tag = tag'"
    and rest: "ascii (chain_id d) @ [0] @ (genesis d @ body) = ascii (chain_id d') @ [0] @ (genesis d' @ body')"
    using split_at_separator [of tag 0 _ tag'] assms(1,2,3) by (simp_all add: frame_def)
  from split_at_separator [OF rest assms(4,5)] assms(6)
  have "chain_id d = chain_id d'" "genesis d = genesis d'" "body = body'" by auto
  with 1 show ?thesis by (simp add: signing_domain.equality)
qed

section \<open>Properties\<close>

text \<open>C26. \<open>AccountId::new\<close> accepts exactly the well-formed identifiers, and returns its argument: 2 to
  64 characters, lowercase letters, digits and separators only, no separator at either end
  and no two separators side by side.  Every other string is an error value.\<close>

theorem account_id_new_accepts:
  "(account_id_new raw = Inr i \<longleftrightarrow> i = raw \<and> well_formed_id raw)
   \<and> ((\<exists>e. account_id_new raw = Inl e) \<longleftrightarrow> \<not> well_formed_id raw)"
  using account_id_new_iff [of raw] by (cases "account_id_new raw") auto

text \<open>C27. Network-bound signing preimages are unambiguous: for tags and chain ids without a NUL byte
  and genesis hashes of one length, two preimages are equal only when network, tag and body
  are all equal, so a signature made for one network or one kind of message is not one for
  another.\<close>

theorem signing_frame_injective:
  assumes "0 \<notin> set tag" "0 \<notin> set tag'"
    and "0 \<notin> set (ascii (chain_id d))" "0 \<notin> set (ascii (chain_id d'))"
    and "length (genesis d) = length (genesis d')"
  shows "frame d tag body = frame d' tag' body' \<longleftrightarrow> d = d' \<and> tag = tag' \<and> body = body'"
  using frame_inj [OF _ assms] by auto

theorem signing_frame_injective_witness:
  "frame \<lparr>chain_id = ''sov-1'', genesis = replicate 32 1\<rparr> (ascii ''SOV-TX-v1'') [7]
     \<noteq> frame \<lparr>chain_id = ''sov-2'', genesis = replicate 32 1\<rparr> (ascii ''SOV-TX-v1'') [7]"
proof -
  have "\<not> (\<lparr>chain_id = ''sov-1'', genesis = replicate 32 1\<rparr>
      = \<lparr>chain_id = ''sov-2'', genesis = replicate 32 1\<rparr>)" by simp
  moreover have "0 \<notin> set (ascii ''SOV-TX-v1'')" "0 \<notin> set (ascii ''sov-1'')" "0 \<notin> set (ascii ''sov-2'')"
    by code_simp+
  ultimately show ?thesis
    using signing_frame_injective [of "ascii ''SOV-TX-v1''" "ascii ''SOV-TX-v1''"
        "\<lparr>chain_id = ''sov-1'', genesis = replicate 32 1\<rparr>" "\<lparr>chain_id = ''sov-2'', genesis = replicate 32 1\<rparr>"
        "[7]" "[7]"] by simp
qed

end
