(* ===== verification/Crypto.thy ===== *)
theory Crypto
  imports Primitives
begin

text \<open>
  The crate \<open>sov-crypto\<close>: versioned keys and signatures and their verification
  (\<open>keys.rs\<close>, \<open>signature.rs\<close>), and the binary Merkle tree with inclusion proofs that
  commits to a block's transactions and receipts (\<open>merkle.rs\<close>).

  The primitives that come from other packages (Blake3, strict Ed25519 verification,
  ML-DSA-65 verification, hexadecimal and Borsh encodings) are the fields of the
  record \<open>crypto\<close>, an argument of every definition that uses one of them.
\<close>

section \<open>Keys and signatures\<close>

datatype public_key =
    PkV1Ed25519 bytes
  | PkV2HybridMlDsa65 (pk_ed25519: bytes) (pk_ml_dsa: bytes)

datatype signature =
    SigV1Ed25519 bytes
  | SigV2HybridMlDsa65 (sig_ed25519: bytes) (sig_ml_dsa: bytes)

record crypto =
  blake3 :: "bytes \<Rightarrow> hash"
  ed25519_verify_strict :: "bytes \<Rightarrow> bytes \<Rightarrow> bytes \<Rightarrow> bool"
  ml_dsa_65_verify :: "bytes \<Rightarrow> bytes \<Rightarrow> bytes \<Rightarrow> bool"
  hex_encode :: "bytes \<Rightarrow> string"
  borsh_public_key :: "public_key \<Rightarrow> bytes"

definition pk_verify :: "'a crypto_scheme \<Rightarrow> public_key \<Rightarrow> bytes \<Rightarrow> signature \<Rightarrow> bool" where
  "pk_verify C pk message sig = (case (pk, sig) of
      (PkV1Ed25519 key, SigV1Ed25519 s) \<Rightarrow> ed25519_verify_strict C key message s
    | (PkV2HybridMlDsa65 ed ml, SigV2HybridMlDsa65 ed_sig ml_sig) \<Rightarrow>
        ed25519_verify_strict C ed message ed_sig \<and> ml_dsa_65_verify C ml message ml_sig
    | _ \<Rightarrow> False)"

definition implicit_account_id :: "'a crypto_scheme \<Rightarrow> public_key \<Rightarrow> account_id" where
  "implicit_account_id C pk = hex_encode C (blake3 C (borsh_public_key C pk))"

section \<open>Merkle roots and inclusion proofs\<close>

definition LEAF_PREFIX :: byte where "LEAF_PREFIX = 0"
definition NODE_PREFIX :: byte where "NODE_PREFIX = 1"

definition merkle_hash_leaf :: "'a crypto_scheme \<Rightarrow> hash \<Rightarrow> hash" where
  "merkle_hash_leaf C leaf = blake3 C (LEAF_PREFIX # leaf)"

definition merkle_hash_node :: "'a crypto_scheme \<Rightarrow> hash \<Rightarrow> hash \<Rightarrow> hash" where
  "merkle_hash_node C left right = blake3 C (NODE_PREFIX # left @ right)"

fun next_level :: "'a crypto_scheme \<Rightarrow> hash list \<Rightarrow> hash list" where
  "next_level C (left # right # rest) = merkle_hash_node C left right # next_level C rest"
| "next_level C [lone] = [lone]"
| "next_level C [] = []"

lemma length_next_level: "length (next_level C xs) = (length xs + 1) div 2"
  by (induction C xs rule: next_level.induct) auto

function merkle_fold :: "'a crypto_scheme \<Rightarrow> hash list \<Rightarrow> hash" where
  "merkle_fold C level = (if 1 < length level then merkle_fold C (next_level C level) else level ! 0)"
  by pat_completeness auto
termination
  by (relation "measure (\<lambda>(C, level). length level)") (auto simp: length_next_level)

definition merkle_root :: "'a crypto_scheme \<Rightarrow> hash list \<Rightarrow> hash" where
  "merkle_root C leaves =
     (if leaves = [] then blake3 C [LEAF_PREFIX]
      else merkle_fold C (map (merkle_hash_leaf C) leaves))"

record merkle_step =
  sibling :: hash
  sibling_is_left :: bool

function proof_steps :: "'a crypto_scheme \<Rightarrow> hash list \<Rightarrow> nat \<Rightarrow> merkle_step list" where
  "proof_steps C level idx =
     (if 1 < length level then
        (let is_left = (idx mod 2 = 1);
             sibling_idx = (if is_left then idx - 1 else idx + 1);
             rest = proof_steps C (next_level C level) (idx div 2)
         in if sibling_idx < length level
            then \<lparr>sibling = level ! sibling_idx, sibling_is_left = is_left\<rparr> # rest
            else rest)
      else [])"
  by pat_completeness auto
termination
  by (relation "measure (\<lambda>(C, level, idx). length level)") (auto simp: length_next_level)

definition merkle_proof :: "'a crypto_scheme \<Rightarrow> hash list \<Rightarrow> nat \<Rightarrow> merkle_step list option" where
  "merkle_proof C leaves index =
     (if length leaves \<le> index then None
      else Some (proof_steps C (map (merkle_hash_leaf C) leaves) index))"

definition fold_step :: "'a crypto_scheme \<Rightarrow> merkle_step \<Rightarrow> hash \<Rightarrow> hash" where
  "fold_step C step acc =
     (if sibling_is_left step then merkle_hash_node C (sibling step) acc
      else merkle_hash_node C acc (sibling step))"

definition verify_merkle_proof :: "'a crypto_scheme \<Rightarrow> hash \<Rightarrow> merkle_step list \<Rightarrow> hash \<Rightarrow> bool" where
  "verify_merkle_proof C leaf proof root = (fold (fold_step C) proof (merkle_hash_leaf C leaf) = root)"

declare merkle_fold.simps [simp del] proof_steps.simps [simp del]

lemma next_level_nth:
  "2 * j + 1 < length xs \<Longrightarrow> next_level C xs ! j = merkle_hash_node C (xs ! (2 * j)) (xs ! (2 * j + 1))"
proof (induction C xs arbitrary: j rule: next_level.induct)
  case (1 C left right rest)
  then show ?case by (cases j) auto
qed auto

lemma next_level_lone:
  "length xs = 2 * j + 1 \<Longrightarrow> next_level C xs ! j = xs ! (2 * j)"
proof (induction C xs arbitrary: j rule: next_level.induct)
  case (1 C left right rest)
  then show ?case by (cases j) auto
qed auto

text \<open>Folding the sibling path of position \<open>idx\<close> rebuilds the root of the level.\<close>

lemma proof_steps_fold:
  "idx < length level \<Longrightarrow> fold (fold_step C) (proof_steps C level idx) (level ! idx) = merkle_fold C level"
proof (induction C level idx rule: proof_steps.induct)
  case (1 C level idx)
  show ?case
  proof (cases "1 < length level")
    case True
    let ?up = "next_level C level"
    have up: "idx div 2 < length ?up" using 1(2) by (simp add: length_next_level)
    have IH: "fold (fold_step C) (proof_steps C ?up (idx div 2)) (?up ! (idx div 2)) = merkle_fold C ?up"
      using 1(1) [OF True refl refl up] .
    consider (right) "idx mod 2 = 1" | (left) "idx mod 2 = 0" "idx + 1 < length level"
      | (lone) "idx mod 2 = 0" "length level = idx + 1"
      using 1(2) by linarith
    then have "fold (fold_step C) (proof_steps C level idx) (level ! idx)
        = fold (fold_step C) (proof_steps C ?up (idx div 2)) (?up ! (idx div 2))"
    proof cases
      case right
      then have idx: "idx = 2 * (idx div 2) + 1" "2 * (idx div 2) = idx - 1" by presburger+
      then have "?up ! (idx div 2) = merkle_hash_node C (level ! (idx - 1)) (level ! idx)"
        using next_level_nth [of "idx div 2" level C] 1(2) by metis
      then show ?thesis
        using True 1(2) right less_imp_diff_less [OF 1(2), of 1]
        by (subst proof_steps.simps) (simp add: Let_def fold_step_def)
    next
      case left
      then have idx: "idx = 2 * (idx div 2)" by presburger
      then have "?up ! (idx div 2) = merkle_hash_node C (level ! idx) (level ! (idx + 1))"
        using next_level_nth [of "idx div 2" level C] left by simp
      then show ?thesis
        using True left by (subst proof_steps.simps) (simp add: Let_def fold_step_def)
    next
      case lone
      then have idx: "idx = 2 * (idx div 2)" by presburger
      then have "?up ! (idx div 2) = level ! idx"
        using next_level_lone [of level "idx div 2" C] lone by simp
      then show ?thesis
        using True lone by (subst proof_steps.simps) (simp add: Let_def)
    qed
    then show ?thesis using IH True by (simp add: merkle_fold.simps [of C level])
  next
    case False
    then have "idx = 0" using 1(2) by simp
    with False show ?thesis by (simp add: proof_steps.simps [of C level] merkle_fold.simps [of C level])
  qed
qed

text \<open>The path is logarithmic: a proof over \<open>n\<close> leaves has at most \<open>k\<close> steps when \<open>n \<le> 2 ^ k\<close>.\<close>

lemma proof_steps_length: "length level \<le> 2 ^ k \<Longrightarrow> length (proof_steps C level idx) \<le> k"
proof (induction k arbitrary: level idx)
  case 0
  then show ?case by (simp add: proof_steps.simps [of C level])
next
  case (Suc k)
  have "length (next_level C level) \<le> 2 ^ k" using Suc.prems by (simp add: length_next_level)
  from Suc.IH [OF this, of "idx div 2"] show ?case
    by (simp add: proof_steps.simps [of C level] Let_def)
qed

section \<open>Properties\<close>

text \<open>C25. Inclusion proofs of the block Merkle tree are complete and logarithmic: for every index
  within a list of leaves \<open>merkle_proof\<close> returns a proof, \<open>verify_merkle_proof\<close> accepts it for
  that leaf against \<open>merkle_root\<close>, and it has at most \<open>k\<close> steps when there are at most \<open>2 ^ k\<close>
  leaves; past the end no proof exists.\<close>

theorem merkle_proof_complete:
  "(if index < length leaves
    then \<exists>pf. merkle_proof C leaves index = Some pf
           \<and> verify_merkle_proof C (leaves ! index) pf (merkle_root C leaves)
           \<and> (length leaves > 2 ^ k \<or> length pf \<le> k)
    else merkle_proof C leaves index = None)"
proof (cases "index < length leaves")
  case True
  then have "leaves \<noteq> []" by auto
  with True show ?thesis
    using proof_steps_fold [of index "map (merkle_hash_leaf C) leaves" C]
      proof_steps_length [of "map (merkle_hash_leaf C) leaves" k C index]
    by (auto simp: merkle_proof_def verify_merkle_proof_def merkle_root_def not_le [symmetric])
qed (simp add: merkle_proof_def)

end
