(* ===== verification/Smt.thy ===== *)
theory Smt
  imports Crypto
begin

text \<open>
  The sparse Merkle tree of \<open>state/src/smt.rs\<close>, the authenticated map that commits to the
  world state.  The depth is an argument \<open>H\<close> of the definitions; the program's tree has
  \<open>TREE_HEIGHT = 256\<close> levels.  A \<open>HashMap\<close> is only read and written here, never iterated, so
  it is a partial function.

  The reference \<open>tree_hash\<close> hashes a complete binary tree of depth \<open>H\<close> over a leaf
  assignment.  The lemmas show that the content-addressed store is coherent with it: the
  incremental root is the hash of the complete tree over the values held now, whatever the
  order of the writes, and every proof that \<open>prove\<close> produces is accepted by \<open>verify\<close>.  Since
  the store looks nodes up by their hash, this holds as long as the pairs of children
  hashed by the run do not collide; that is the hypothesis \<open>no_collision\<close> on those finitely
  many pairs.
\<close>

unbundle bit_operations_syntax

section \<open>The tree\<close>

definition TREE_HEIGHT :: nat where "TREE_HEIGHT = 256"

abbreviation zero_hash :: hash where "zero_hash \<equiv> replicate 32 0"

definition smt_hash_leaf :: "'a crypto_scheme \<Rightarrow> bytes \<Rightarrow> hash" where
  "smt_hash_leaf C val = blake3 C (LEAF_PREFIX # val)"

definition smt_hash_node :: "'a crypto_scheme \<Rightarrow> hash \<Rightarrow> hash \<Rightarrow> hash" where
  "smt_hash_node C left right = blake3 C (NODE_PREFIX # left @ right)"

definition key_bit :: "hash \<Rightarrow> nat \<Rightarrow> bool" where
  "key_bit key i = (drop_bit (7 - i mod 8) (key ! (i div 8)) AND 1 = 1)"

primrec compute_defaults :: "'a crypto_scheme \<Rightarrow> nat \<Rightarrow> hash list" where
  "compute_defaults C 0 = [zero_hash]"
| "compute_defaults C (Suc h) =
     (let ds = compute_defaults C h; below = ds ! h in ds @ [smt_hash_node C below below])"

record smt_proof =
  leaf :: hash
  siblings :: "hash list"

record smt =
  smt_nodes :: "hash \<Rightarrow> (hash \<times> hash) option"
  smt_values :: "hash \<Rightarrow> bytes option"
  smt_defaults :: "hash list"
  smt_root :: hash

definition smt_new :: "'a crypto_scheme \<Rightarrow> nat \<Rightarrow> smt" where
  "smt_new C H = (let ds = compute_defaults C H in
     \<lparr>smt_nodes = Map.empty, smt_values = Map.empty, smt_defaults = ds, smt_root = ds ! H\<rparr>)"

definition smt_get :: "smt \<Rightarrow> hash \<Rightarrow> bytes option" where
  "smt_get t key = smt_values t key"

definition children :: "smt \<Rightarrow> hash \<Rightarrow> nat \<Rightarrow> hash \<times> hash" where
  "children t node level = (case smt_nodes t node of
      Some (l, r) \<Rightarrow> (l, r)
    | None \<Rightarrow> (smt_defaults t ! (level - 1), smt_defaults t ! (level - 1)))"

fun siblings_from :: "nat \<Rightarrow> smt \<Rightarrow> hash \<Rightarrow> nat \<Rightarrow> hash \<Rightarrow> hash list" where
  "siblings_from H t key 0 cur = []"
| "siblings_from H t key (Suc level) cur =
     (let (l, r) = children t cur (Suc level)
      in if key_bit key (H - Suc level) then l # siblings_from H t key level r
         else r # siblings_from H t key level l)"

definition siblings_for :: "nat \<Rightarrow> smt \<Rightarrow> hash \<Rightarrow> hash list" where
  "siblings_for H t key = siblings_from H t key H (smt_root t)"

definition path_pair :: "nat \<Rightarrow> hash \<Rightarrow> hash list \<Rightarrow> nat \<Rightarrow> hash \<Rightarrow> hash \<times> hash" where
  "path_pair H key sibs level node =
     (let sib = sibs ! (H - level)
      in if key_bit key (H - level) then (sib, node) else (node, sib))"

definition recompute_step ::
  "'a crypto_scheme \<Rightarrow> nat \<Rightarrow> hash \<Rightarrow> hash list \<Rightarrow> nat \<Rightarrow> hash \<times> smt \<Rightarrow> hash \<times> smt" where
  "recompute_step C H key sibs level nt =
     (let (node, t) = nt;
          (l, r) = path_pair H key sibs level node;
          parent = smt_hash_node C l r
      in (parent,
          if parent \<noteq> smt_defaults t ! level
          then t\<lparr>smt_nodes := (smt_nodes t)(parent \<mapsto> (l, r))\<rparr> else t))"

definition recompute :: "'a crypto_scheme \<Rightarrow> nat \<Rightarrow> hash \<Rightarrow> hash \<Rightarrow> hash list \<Rightarrow> smt \<Rightarrow> smt" where
  "recompute C H key lf sibs t =
     (let (node, t') = fold (recompute_step C H key sibs) [1..<Suc H] (lf, t)
      in t'\<lparr>smt_root := node\<rparr>)"

definition smt_insert :: "'a crypto_scheme \<Rightarrow> nat \<Rightarrow> hash \<Rightarrow> bytes \<Rightarrow> smt \<Rightarrow> smt" where
  "smt_insert C H key val t =
     (let sibs = siblings_for H t key;
          lf = smt_hash_leaf C val;
          t' = t\<lparr>smt_values := (smt_values t)(key \<mapsto> val)\<rparr>
      in recompute C H key lf sibs t')"

definition smt_remove :: "'a crypto_scheme \<Rightarrow> nat \<Rightarrow> hash \<Rightarrow> smt \<Rightarrow> bytes option \<times> smt" where
  "smt_remove C H key t = (case smt_values t key of
      None \<Rightarrow> (None, t)
    | Some old \<Rightarrow>
        (let t' = t\<lparr>smt_values := (smt_values t)(key := None)\<rparr>;
             sibs = siblings_for H t' key
         in (Some old, recompute C H key zero_hash sibs t')))"

definition smt_prove :: "'a crypto_scheme \<Rightarrow> nat \<Rightarrow> smt \<Rightarrow> hash \<Rightarrow> smt_proof" where
  "smt_prove C H t key = \<lparr>
     leaf = (case smt_values t key of Some v \<Rightarrow> smt_hash_leaf C v | None \<Rightarrow> zero_hash),
     siblings = siblings_for H t key\<rparr>"

definition smt_verify ::
  "'a crypto_scheme \<Rightarrow> nat \<Rightarrow> smt_proof \<Rightarrow> hash \<Rightarrow> hash \<Rightarrow> bytes option \<Rightarrow> bool" where
  "smt_verify C H pf rt key ov =
     (if length (siblings pf) \<noteq> H then False
      else
        (let expected_leaf = (case ov of Some v \<Rightarrow> smt_hash_leaf C v | None \<Rightarrow> zero_hash)
         in if leaf pf \<noteq> expected_leaf then False
            else fold (\<lambda>level node.
                   let (l, r) = path_pair H key (siblings pf) level node in smt_hash_node C l r)
                 [1..<Suc H] (leaf pf) = rt))"

text \<open>The values held after a write do not depend on the hashes.\<close>

lemma recompute_steps_values:
  "smt_values (snd (fold (recompute_step C H key sibs) levels nt)) = smt_values (snd nt)
   \<and> smt_defaults (snd (fold (recompute_step C H key sibs) levels nt)) = smt_defaults (snd nt)"
  by (induction levels arbitrary: nt)
     (auto simp: recompute_step_def Let_def split: prod.split)

lemma recompute_values [simp]: "smt_values (recompute C H key lf sibs t) = smt_values t"
  using recompute_steps_values [of C H key sibs "[1..<Suc H]" "(lf, t)"]
  by (simp add: recompute_def case_prod_beta del: upt_Suc)

lemma recompute_defaults [simp]: "smt_defaults (recompute C H key lf sibs t) = smt_defaults t"
  using recompute_steps_values [of C H key sibs "[1..<Suc H]" "(lf, t)"]
  by (simp add: recompute_def case_prod_beta del: upt_Suc)

lemma smt_insert_values [simp]: "smt_values (smt_insert C H key v t) = (smt_values t)(key \<mapsto> v)"
  by (simp add: smt_insert_def Let_def)

lemma smt_remove_values [simp]: "smt_values (snd (smt_remove C H key t)) = (smt_values t)(key := None)"
  by (auto simp: smt_remove_def Let_def fun_eq_iff split: option.split)

section \<open>The reference tree\<close>

fun tree_hash :: "'a crypto_scheme \<Rightarrow> nat \<Rightarrow> (bool list \<Rightarrow> hash) \<Rightarrow> hash" where
  "tree_hash C 0 f = f []"
| "tree_hash C (Suc L) f =
     smt_hash_node C (tree_hash C L (\<lambda>q. f (False # q))) (tree_hash C L (\<lambda>q. f (True # q)))"

definition key_bits :: "nat \<Rightarrow> hash \<Rightarrow> bool list" where
  "key_bits H key = map (key_bit key) [0..<H]"

abbreviation sub_hash :: "'a crypto_scheme \<Rightarrow> (bool list \<Rightarrow> hash) \<Rightarrow> nat \<Rightarrow> bool list \<Rightarrow> hash" where
  "sub_hash C f L p \<equiv> tree_hash C L (\<lambda>q. f (p @ q))"

definition default_at :: "'a crypto_scheme \<Rightarrow> nat \<Rightarrow> hash" where
  "default_at C L = tree_hash C L (\<lambda>q. zero_hash)"

lemma default_at_simps [simp]:
  "default_at C 0 = zero_hash"
  "default_at C (Suc L) = smt_hash_node C (default_at C L) (default_at C L)"
  by (simp_all add: default_at_def)

lemma length_compute_defaults [simp]: "length (compute_defaults C H) = Suc H"
  by (induction H) (simp_all add: Let_def)

lemma compute_defaults_nth: "L \<le> H \<Longrightarrow> compute_defaults C H ! L = default_at C L"
proof (induction H arbitrary: L)
  case (Suc H)
  then show ?case
    by (cases "L = Suc H") (simp_all add: Let_def nth_append)
qed simp

lemma tree_hash_cong: "(\<And>q. length q = L \<Longrightarrow> f q = g q) \<Longrightarrow> tree_hash C L f = tree_hash C L g"
proof (induction L arbitrary: f g)
  case (Suc L)
  have "tree_hash C L (\<lambda>q. f (b # q)) = tree_hash C L (\<lambda>q. g (b # q))" for b
    using Suc.prems by (intro Suc.IH) simp
  then show ?case by simp
qed simp

lemma sub_hash_Suc:
  "sub_hash C f (Suc L) p = smt_hash_node C (sub_hash C f L (p @ [False])) (sub_hash C f L (p @ [True]))"
  by simp

lemma sub_hash_update:
  "\<not> (\<exists>q. length q = L \<and> p @ q = b) \<Longrightarrow> sub_hash C (f(b := x)) L p = sub_hash C f L p"
  by (rule tree_hash_cong) auto

section \<open>Coherence of the node store\<close>

abbreviation node_of :: "'a crypto_scheme \<Rightarrow> hash \<times> hash \<Rightarrow> hash" where
  "node_of C \<equiv> \<lambda>(l, r). smt_hash_node C l r"

definition default_pairs :: "'a crypto_scheme \<Rightarrow> nat \<Rightarrow> (hash \<times> hash) set" where
  "default_pairs C H = (\<lambda>L. (default_at C L, default_at C L)) ` {..<H}"

definition store_ok :: "'a crypto_scheme \<Rightarrow> nat \<Rightarrow> (hash \<times> hash) set \<Rightarrow> smt \<Rightarrow> bool" where
  "store_ok C H P t \<longleftrightarrow> smt_defaults t = compute_defaults C H
     \<and> (\<forall>h pr. smt_nodes t h = Some pr \<longrightarrow> node_of C pr = h \<and> pr \<in> P)
     \<and> default_pairs C H \<subseteq> P \<and> inj_on (node_of C) P"

definition coherent :: "'a crypto_scheme \<Rightarrow> nat \<Rightarrow> (bool list \<Rightarrow> hash) \<Rightarrow> smt \<Rightarrow> bool" where
  "coherent C H f t \<longleftrightarrow> (\<forall>L p. L < H \<and> length p = H - Suc L \<longrightarrow>
     children t (sub_hash C f (Suc L) p) (Suc L)
       = (sub_hash C f L (p @ [False]), sub_hash C f L (p @ [True])))"

text \<open>A pair known to \<open>P\<close> is found under its hash as soon as that hash is stored or is the default.\<close>

lemma children_lookup:
  assumes ok: "store_ok C H P t" and L: "L < H" and mem: "pr \<in> P"
    and known: "smt_nodes t (node_of C pr) \<noteq> None \<or> node_of C pr = default_at C (Suc L)"
  shows "children t (node_of C pr) (Suc L) = pr"
proof (cases "smt_nodes t (node_of C pr)")
  case (Some pr')
  then have "node_of C pr' = node_of C pr" "pr' \<in> P" using ok unfolding store_ok_def by blast+
  with mem ok have "pr' = pr" unfolding store_ok_def by (blast dest: inj_onD)
  with Some show ?thesis by (cases pr) (simp add: children_def)
next
  case None
  let ?d = "(default_at C L, default_at C L)"
  have "?d \<in> P" using ok L by (auto simp: store_ok_def default_pairs_def)
  moreover have "node_of C ?d = node_of C pr" using known None by simp
  ultimately have "?d = pr" using ok mem unfolding store_ok_def by (blast dest: inj_onD)
  moreover have "smt_defaults t ! L = default_at C L"
    using ok L by (simp add: store_ok_def compute_defaults_nth)
  ultimately show ?thesis using None by (cases pr) (simp add: children_def)
qed

lemma coherent_pair_known:
  assumes ok: "store_ok C H P t" and co: "coherent C H f t" and L: "L < H" "length p = H - Suc L"
  shows "(sub_hash C f L (p @ [False]), sub_hash C f L (p @ [True])) \<in> P
     \<and> (smt_nodes t (sub_hash C f (Suc L) p) \<noteq> None \<or> sub_hash C f (Suc L) p = default_at C (Suc L))"
proof -
  let ?h = "sub_hash C f (Suc L) p" and ?pr = "(sub_hash C f L (p @ [False]), sub_hash C f L (p @ [True]))"
  have ch: "children t ?h (Suc L) = ?pr" using co L unfolding coherent_def by blast
  show ?thesis
  proof (cases "smt_nodes t ?h")
    case None
    then have "children t ?h (Suc L) = (smt_defaults t ! L, smt_defaults t ! L)"
      unfolding children_def by simp
    moreover have "smt_defaults t ! L = default_at C L"
      using ok L(1) by (simp add: store_ok_def compute_defaults_nth)
    ultimately have "?pr = (default_at C L, default_at C L)" using ch by (metis (no_types))
    moreover have "(default_at C L, default_at C L) \<in> P"
      using ok L(1) by (auto simp: store_ok_def default_pairs_def)
    ultimately show ?thesis by (metis default_at_simps(2) prod.inject sub_hash_Suc)
  next
    case (Some pr)
    with ch have "pr = ?pr" by (cases pr) (simp add: children_def)
    with Some ok show ?thesis unfolding store_ok_def by blast
  qed
qed

section \<open>The path of a key\<close>

definition path_node ::
  "'a crypto_scheme \<Rightarrow> nat \<Rightarrow> hash \<Rightarrow> hash list \<Rightarrow> hash \<Rightarrow> nat \<Rightarrow> hash" where
  "path_node C H key sibs lf L =
     fold (\<lambda>level node. node_of C (path_pair H key sibs level node)) [1..<Suc L] lf"

definition path_pairs ::
  "'a crypto_scheme \<Rightarrow> nat \<Rightarrow> hash \<Rightarrow> hash list \<Rightarrow> hash \<Rightarrow> (hash \<times> hash) list" where
  "path_pairs C H key sibs lf = map (\<lambda>L. path_pair H key sibs (Suc L) (path_node C H key sibs lf L)) [0..<H]"

lemma path_node_0 [simp]: "path_node C H key sibs lf 0 = lf"
  by (simp add: path_node_def)

lemma path_node_Suc:
  "path_node C H key sibs lf (Suc L)
     = node_of C (path_pair H key sibs (Suc L) (path_node C H key sibs lf L))"
  by (simp add: path_node_def)

text \<open>The state of the upward loop after \<open>L\<close> levels.\<close>

lemma recompute_prefix:
  assumes "store_ok C H P t" "L \<le> H" "set (path_pairs C H key sibs lf) \<subseteq> P"
  shows "\<exists>t'. fold (recompute_step C H key sibs) [1..<Suc L] (lf, t) = (path_node C H key sibs lf L, t')
      \<and> store_ok C H P t' \<and> smt_values t' = smt_values t
      \<and> (\<forall>h. smt_nodes t h \<noteq> None \<longrightarrow> smt_nodes t' h \<noteq> None)
      \<and> (\<forall>M < L. smt_nodes t' (path_node C H key sibs lf (Suc M)) \<noteq> None
                  \<or> path_node C H key sibs lf (Suc M) = default_at C (Suc M))"
  using assms(2)
proof (induction L)
  case 0
  then show ?case using assms(1) by simp
next
  case (Suc L)
  then obtain t' where t': "fold (recompute_step C H key sibs) [1..<Suc L] (lf, t) = (path_node C H key sibs lf L, t')"
    and ok: "store_ok C H P t'" and vals: "smt_values t' = smt_values t"
    and grows: "\<forall>h. smt_nodes t h \<noteq> None \<longrightarrow> smt_nodes t' h \<noteq> None"
    and below: "\<forall>M < L. smt_nodes t' (path_node C H key sibs lf (Suc M)) \<noteq> None
                  \<or> path_node C H key sibs lf (Suc M) = default_at C (Suc M)"
    by auto
  define pr where "pr = path_pair H key sibs (Suc L) (path_node C H key sibs lf L)"
  have node: "path_node C H key sibs lf (Suc L) = node_of C pr" by (simp add: path_node_Suc pr_def)
  have mem: "pr \<in> P" using assms(3) Suc.prems by (auto simp: path_pairs_def pr_def)
  have dflt: "smt_defaults t' ! Suc L = default_at C (Suc L)"
    using ok Suc.prems by (simp only: store_ok_def compute_defaults_nth)
  let ?t = "if node_of C pr \<noteq> default_at C (Suc L)
            then t'\<lparr>smt_nodes := (smt_nodes t')(node_of C pr \<mapsto> pr)\<rparr> else t'"
  have step: "fold (recompute_step C H key sibs) [1..<Suc (Suc L)] (lf, t) = (path_node C H key sibs lf (Suc L), ?t)"
    using t' dflt by (simp add: recompute_step_def Let_def node pr_def [symmetric] case_prod_beta)
  have "store_ok C H P ?t" using ok mem by (auto simp: store_ok_def)
  with step vals grows below node show ?case
    by (intro exI [of _ ?t]) (auto simp: less_Suc_eq)
qed

definition other_side :: "'a crypto_scheme \<Rightarrow> nat \<Rightarrow> (bool list \<Rightarrow> hash) \<Rightarrow> hash \<Rightarrow> nat \<Rightarrow> hash" where
  "other_side C H f key L =
     sub_hash C f L (take (H - Suc L) (key_bits H key) @ [\<not> key_bit key (H - Suc L)])"

lemma length_key_bits [simp]: "length (key_bits H key) = H"
  by (simp add: key_bits_def)

lemma take_key_bits:
  "L < H \<Longrightarrow> take (H - L) (key_bits H key) = take (H - Suc L) (key_bits H key) @ [key_bit key (H - Suc L)]"
proof -
  assume "L < H"
  then have "H - L = Suc (H - Suc L)" "H - Suc L < H" by simp_all
  then show ?thesis by (simp add: take_Suc_conv_app_nth key_bits_def)
qed

lemma siblings_from_coherent:
  assumes "coherent C H f t" "L \<le> H"
  shows "siblings_from H t key L (sub_hash C f L (take (H - L) (key_bits H key)))
    = map (other_side C H f key) (rev [0..<L])"
  using assms(2)
proof (induction L)
  case (Suc L)
  let ?p = "take (H - Suc L) (key_bits H key)"
  have ch: "children t (sub_hash C f (Suc L) ?p) (Suc L)
      = (sub_hash C f L (?p @ [False]), sub_hash C f L (?p @ [True]))"
    using assms(1) Suc.prems unfolding coherent_def by simp
  have nxt: "take (H - L) (key_bits H key) = ?p @ [key_bit key (H - Suc L)]"
    using Suc.prems by (intro take_key_bits) simp
  show ?case
    using Suc.IH Suc.prems ch nxt
    by (cases "key_bit key (H - Suc L)") (simp_all add: other_side_def del: tree_hash.simps)
qed simp

lemma siblings_for_coherent:
  assumes "coherent C H f t" "smt_root t = tree_hash C H f"
  shows "siblings_for H t key = map (other_side C H f key) (rev [0..<H])"
  using siblings_from_coherent [OF assms(1) order_refl, of key] assms(2)
  by (simp add: siblings_for_def)

lemma siblings_for_nth:
  assumes "coherent C H f t" "smt_root t = tree_hash C H f" "L < H"
  shows "siblings_for H t key ! (H - Suc L) = other_side C H f key L"
  using assms by (simp add: siblings_for_coherent rev_nth)

lemma other_side_update: "L < H \<Longrightarrow> other_side C H (f(key_bits H key := x)) key L = other_side C H f key L"
proof -
  assume L: "L < H"
  have "take (H - Suc L) (key_bits H key) @ [\<not> key_bit key (H - Suc L)] @ q \<noteq> key_bits H key" for q
  proof
    assume "take (H - Suc L) (key_bits H key) @ [\<not> key_bit key (H - Suc L)] @ q = key_bits H key"
    then have "(take (H - Suc L) (key_bits H key) @ [\<not> key_bit key (H - Suc L)] @ q) ! (H - Suc L)
        = key_bits H key ! (H - Suc L)" by simp
    then show False using L by (simp add: nth_append key_bits_def)
  qed
  then show ?thesis unfolding other_side_def by (intro sub_hash_update) auto
qed

lemma path_pair_children:
  assumes sibs: "sibs ! (H - Suc L) = other_side C H f key L" and L: "L < H"
    and node: "node = sub_hash C (f(key_bits H key := lf)) L (take (H - L) (key_bits H key))"
  shows "path_pair H key sibs (Suc L) node =
    (sub_hash C (f(key_bits H key := lf)) L (take (H - Suc L) (key_bits H key) @ [False]),
     sub_hash C (f(key_bits H key := lf)) L (take (H - Suc L) (key_bits H key) @ [True]))"
proof -
  let ?f = "f(key_bits H key := lf)"
  have o: "other_side C H f key L = other_side C H ?f key L" using other_side_update [OF L] by metis
  show ?thesis
    using sibs node o L
    by (cases "key_bit key (H - Suc L)")
       (simp_all only: path_pair_def Let_def take_key_bits other_side_def if_True if_False not_True_eq_False not_False_eq_True)
qed

lemma path_node_sub:
  assumes "coherent C H f t" "smt_root t = tree_hash C H f" "L \<le> H"
  shows "path_node C H key (siblings_for H t key) lf L
     = sub_hash C (f(key_bits H key := lf)) L (take (H - L) (key_bits H key))"
  using assms(3)
proof (induction L)
  case 0
  then show ?case by simp
next
  case (Suc L)
  then have "path_pair H key (siblings_for H t key) (Suc L) (path_node C H key (siblings_for H t key) lf L) =
    (sub_hash C (f(key_bits H key := lf)) L (take (H - Suc L) (key_bits H key) @ [False]),
     sub_hash C (f(key_bits H key := lf)) L (take (H - Suc L) (key_bits H key) @ [True]))"
    by (intro path_pair_children siblings_for_nth [OF assms(1,2)]) simp_all
  then show ?case unfolding path_node_Suc sub_hash_Suc by simp
qed

section \<open>Writes keep the tree coherent\<close>

definition smt_inv ::
  "'a crypto_scheme \<Rightarrow> nat \<Rightarrow> (hash \<times> hash) set \<Rightarrow> (bool list \<Rightarrow> hash) \<Rightarrow> smt \<Rightarrow> bool" where
  "smt_inv C H P f t \<longleftrightarrow> store_ok C H P t \<and> coherent C H f t \<and> smt_root t = tree_hash C H f"

lemma recompute_inv:
  assumes inv: "smt_inv C H P f t"
    and pairs: "set (path_pairs C H key (siblings_for H t key) lf) \<subseteq> P"
  shows "smt_inv C H P (f(key_bits H key := lf)) (recompute C H key lf (siblings_for H t key) t)"
proof -
  let ?b = "key_bits H key" and ?sibs = "siblings_for H t key" and ?f = "f(key_bits H key := lf)"
  have ok: "store_ok C H P t" and co: "coherent C H f t" and rt: "smt_root t = tree_hash C H f"
    using inv by (simp_all add: smt_inv_def)
  obtain t' where fold: "fold (recompute_step C H key ?sibs) [1..<Suc H] (lf, t) = (path_node C H key ?sibs lf H, t')"
    and ok': "store_ok C H P t'" and grows: "\<forall>h. smt_nodes t h \<noteq> None \<longrightarrow> smt_nodes t' h \<noteq> None"
    and known: "\<forall>M < H. smt_nodes t' (path_node C H key ?sibs lf (Suc M)) \<noteq> None
                  \<or> path_node C H key ?sibs lf (Suc M) = default_at C (Suc M)"
    using recompute_prefix [OF ok order_refl pairs] by blast
  let ?t = "t'\<lparr>smt_root := path_node C H key ?sibs lf H\<rparr>"
  have t: "recompute C H key lf ?sibs t = ?t" using fold by (simp add: recompute_def del: upt_Suc)
  have ok'': "store_ok C H P ?t" using ok' by (simp add: store_ok_def)
  have node: "path_node C H key ?sibs lf L = sub_hash C ?f L (take (H - L) ?b)" if "L \<le> H" for L
    using path_node_sub [OF co rt that] .
  have "coherent C H ?f ?t"
    unfolding coherent_def
  proof (intro allI impI, elim conjE)
    fix L and p :: "bool list" assume L: "L < H" "length p = H - Suc L"
    define pr where "pr = (sub_hash C ?f L (p @ [False]), sub_hash C ?f L (p @ [True]))"
    have hash: "sub_hash C ?f (Suc L) p = node_of C pr"
      by (simp only: pr_def sub_hash_Suc case_prod_conv)
    have "pr \<in> P \<and> (smt_nodes t' (node_of C pr) \<noteq> None \<or> node_of C pr = default_at C (Suc L))"
    proof (cases "p = take (H - Suc L) ?b")
      case True
      have pp: "path_pair H key ?sibs (Suc L) (path_node C H key ?sibs lf L) = pr"
        unfolding pr_def True using L(1)
        by (intro path_pair_children siblings_for_nth [OF co rt] node) simp_all
      then have "pr \<in> set (path_pairs C H key ?sibs lf)"
        using L(1) by (auto simp: path_pairs_def intro!: image_eqI [of _ _ L])
      moreover have "node_of C pr = path_node C H key ?sibs lf (Suc L)"
        by (simp only: path_node_Suc pp)
      ultimately show ?thesis using pairs known L(1) by (metis (no_types) subsetD)
    next
      case False
      have off: "(p @ [c]) @ q \<noteq> ?b" for c q
      proof
        assume "(p @ [c]) @ q = ?b"
        then have "take (H - Suc L) (p @ [c] @ q) = take (H - Suc L) ?b" by simp
        with L(2) False show False by simp
      qed
      have same: "sub_hash C ?f L (p @ [c]) = sub_hash C f L (p @ [c])" for c
        using off by (intro sub_hash_update) blast
      have old: "pr = (sub_hash C f L (p @ [False]), sub_hash C f L (p @ [True]))"
        by (simp only: pr_def same)
      have "sub_hash C f (Suc L) p = node_of C pr"
        by (simp only: old sub_hash_Suc case_prod_conv)
      then show ?thesis
        using coherent_pair_known [OF ok co L] grows unfolding old [symmetric] by (metis (no_types))
    qed
    then have "children ?t (node_of C pr) (Suc L) = pr"
      using children_lookup [OF ok'' L(1), of pr] by simp
    then show "children ?t (sub_hash C ?f (Suc L) p) (Suc L)
        = (sub_hash C ?f L (p @ [False]), sub_hash C ?f L (p @ [True]))"
      unfolding hash pr_def [symmetric] .
  qed
  moreover have "smt_root ?t = tree_hash C H ?f" using node [of H] by (simp del: fun_upd_apply)
  ultimately show ?thesis using ok'' by (simp add: t smt_inv_def)
qed

lemma children_values [simp]: "children (t\<lparr>smt_values := vs\<rparr>) = children t"
  by (simp add: fun_eq_iff children_def cong: option.case_cong)

lemma siblings_for_values [simp]: "siblings_for H (t\<lparr>smt_values := vs\<rparr>) key = siblings_for H t key"
proof -
  have "siblings_from H (t\<lparr>smt_values := vs\<rparr>) key L cur = siblings_from H t key L cur" for L cur
    by (induction L arbitrary: cur) (simp_all split: prod.split)
  then show ?thesis by (simp add: siblings_for_def)
qed

lemma smt_inv_values [simp]: "smt_inv C H P f (t\<lparr>smt_values := vs\<rparr>) = smt_inv C H P f t"
  by (simp add: smt_inv_def store_ok_def coherent_def del: tree_hash.simps)

section \<open>Runs of writes\<close>

datatype smt_op = Put hash bytes | Del hash

fun op_key :: "smt_op \<Rightarrow> hash" where
  "op_key (Put k v) = k"
| "op_key (Del k) = k"

fun apply_op :: "'a crypto_scheme \<Rightarrow> nat \<Rightarrow> smt_op \<Rightarrow> smt \<Rightarrow> smt" where
  "apply_op C H (Put k v) t = smt_insert C H k v t"
| "apply_op C H (Del k) t = snd (smt_remove C H k t)"

fun op_pairs :: "'a crypto_scheme \<Rightarrow> nat \<Rightarrow> smt_op \<Rightarrow> smt \<Rightarrow> (hash \<times> hash) list" where
  "op_pairs C H (Put k v) t = path_pairs C H k (siblings_for H t k) (smt_hash_leaf C v)"
| "op_pairs C H (Del k) t =
     (if smt_values t k = None then [] else path_pairs C H k (siblings_for H t k) zero_hash)"

fun run_pairs :: "'a crypto_scheme \<Rightarrow> nat \<Rightarrow> smt_op list \<Rightarrow> smt \<Rightarrow> (hash \<times> hash) list" where
  "run_pairs C H [] t = []"
| "run_pairs C H (u # us) t = op_pairs C H u t @ run_pairs C H us (apply_op C H u t)"

definition run :: "'a crypto_scheme \<Rightarrow> nat \<Rightarrow> smt_op list \<Rightarrow> smt" where
  "run C H us = fold (apply_op C H) us (smt_new C H)"

definition no_collision :: "'a crypto_scheme \<Rightarrow> nat \<Rightarrow> smt_op list \<Rightarrow> bool" where
  "no_collision C H us \<longleftrightarrow>
     inj_on (node_of C) (set (run_pairs C H us (smt_new C H)) \<union> default_pairs C H)"

definition leaf_of :: "'a crypto_scheme \<Rightarrow> bytes option \<Rightarrow> hash" where
  "leaf_of C ov = (case ov of Some v \<Rightarrow> smt_hash_leaf C v | None \<Rightarrow> zero_hash)"

text \<open>The leaves of the complete tree: the committed value of a key at its path, zero elsewhere.\<close>

definition leaf_assignment ::
  "'a crypto_scheme \<Rightarrow> nat \<Rightarrow> hash set \<Rightarrow> (hash \<Rightarrow> bytes option) \<Rightarrow> bool list \<Rightarrow> hash" where
  "leaf_assignment C H K vals p =
     (if p \<in> key_bits H ` K then leaf_of C (vals (inv_into K (key_bits H) p)) else zero_hash)"

lemma leaf_assignment_update:
  assumes "inj_on (key_bits H) K" "k \<in> K"
  shows "leaf_assignment C H K (vals(k := ov)) = (leaf_assignment C H K vals)(key_bits H k := leaf_of C ov)"
proof
  fix p
  show "leaf_assignment C H K (vals(k := ov)) p = ((leaf_assignment C H K vals)(key_bits H k := leaf_of C ov)) p"
  proof (cases "p \<in> key_bits H ` K")
    case True
    then obtain j where j: "j \<in> K" "p = key_bits H j" by auto
    then have "inv_into K (key_bits H) p = j" using assms(1) by simp
    moreover have "j = k \<longleftrightarrow> p = key_bits H k" using assms j by (auto dest: inj_onD)
    ultimately show ?thesis using True by (simp add: leaf_assignment_def)
  next
    case False
    with assms(2) show ?thesis by (auto simp: leaf_assignment_def)
  qed
qed

lemma leaf_assignment_same:
  "inj_on (key_bits H) K \<Longrightarrow> k \<in> K \<Longrightarrow> leaf_assignment C H K vals (key_bits H k) = leaf_of C (vals k)"
  by (simp add: leaf_assignment_def)

lemma apply_op_inv:
  assumes "smt_inv C H P (leaf_assignment C H K (smt_values t)) t"
    and "inj_on (key_bits H) K" "op_key u \<in> K" "set (op_pairs C H u t) \<subseteq> P"
  shows "smt_inv C H P (leaf_assignment C H K (smt_values (apply_op C H u t))) (apply_op C H u t)"
proof (cases u)
  case (Put k v)
  let ?t = "t\<lparr>smt_values := (smt_values t)(k \<mapsto> v)\<rparr>"
  have "smt_inv C H P ((leaf_assignment C H K (smt_values t))(key_bits H k := smt_hash_leaf C v))
      (recompute C H k (smt_hash_leaf C v) (siblings_for H ?t k) ?t)"
    using assms(1,4) Put by (intro recompute_inv) simp_all
  then show ?thesis
    using assms(2,3) Put by (simp add: smt_insert_def Let_def leaf_assignment_update leaf_of_def)
next
  case (Del k)
  show ?thesis
  proof (cases "smt_values t k")
    case None
    then show ?thesis using assms(1) Del by (simp add: smt_remove_def)
  next
    case (Some v)
    let ?t = "t\<lparr>smt_values := (smt_values t)(k := None)\<rparr>"
    have "smt_inv C H P ((leaf_assignment C H K (smt_values t))(key_bits H k := zero_hash))
        (recompute C H k zero_hash (siblings_for H ?t k) ?t)"
      using assms(1,4) Del Some by (intro recompute_inv) simp_all
    then show ?thesis
      using assms(2,3) Del Some by (simp add: smt_remove_def Let_def leaf_assignment_update leaf_of_def)
  qed
qed

lemma tree_hash_const: "tree_hash C L (\<lambda>q. zero_hash) = default_at C L"
  by (simp add: default_at_def)

lemma smt_new_inv:
  assumes "default_pairs C H \<subseteq> P" "inj_on (node_of C) P"
  shows "smt_inv C H P (leaf_assignment C H K Map.empty) (smt_new C H)"
proof -
  have leaf: "leaf_assignment C H K Map.empty = (\<lambda>q. zero_hash)"
    by (auto simp: leaf_assignment_def leaf_of_def)
  have "children (smt_new C H) (default_at C (Suc L)) (Suc L) = (default_at C L, default_at C L)" if "L < H" for L
    using that by (simp add: children_def smt_new_def Let_def compute_defaults_nth)
  then show ?thesis
    using assms unfolding leaf smt_inv_def store_ok_def coherent_def
    by (simp add: tree_hash_const smt_new_def Let_def compute_defaults_nth del: tree_hash.simps default_at_simps)
qed

lemma run_inv:
  assumes "no_collision C H us" "inj_on (key_bits H) K" "op_key ` set us \<subseteq> K"
  obtains P where "smt_inv C H P (leaf_assignment C H K (smt_values (run C H us))) (run C H us)"
proof -
  let ?P = "set (run_pairs C H us (smt_new C H)) \<union> default_pairs C H"
  have "smt_inv C H P (leaf_assignment C H K (smt_values (fold (apply_op C H) vs t))) (fold (apply_op C H) vs t)"
    if "smt_inv C H P (leaf_assignment C H K (smt_values t)) t"
      "set (run_pairs C H vs t) \<subseteq> P" "op_key ` set vs \<subseteq> K" for vs t P
    using that
  proof (induction vs arbitrary: t)
    case (Cons u vs)
    then show ?case using apply_op_inv [OF Cons.prems(1) assms(2), of u] by simp
  qed simp
  moreover have "smt_inv C H ?P (leaf_assignment C H K (smt_values (smt_new C H))) (smt_new C H)"
    using smt_new_inv [of C H ?P K] assms(1) by (simp add: no_collision_def smt_new_def Let_def)
  ultimately show ?thesis using assms(3) that [of ?P] by (simp add: run_def)
qed

lemma smt_prove_verifies:
  assumes inv: "smt_inv C H P (leaf_assignment C H K (smt_values t)) t"
    and K: "inj_on (key_bits H) K" "key \<in> K"
  shows "smt_verify C H (smt_prove C H t key) (smt_root t) key (smt_values t key)"
proof -
  let ?f = "leaf_assignment C H K (smt_values t)"
  have co: "coherent C H ?f t" and rt: "smt_root t = tree_hash C H ?f"
    using inv by (simp_all add: smt_inv_def)
  have "?f(key_bits H key := leaf_of C (smt_values t key)) = ?f"
    by (rule fun_upd_idem) (rule leaf_assignment_same [OF K])
  then have "path_node C H key (siblings_for H t key) (leaf_of C (smt_values t key)) H = smt_root t"
    using path_node_sub [OF co rt order_refl, of key "leaf_of C (smt_values t key)"] rt by simp
  moreover have "length (siblings_for H t key) = H" by (simp add: siblings_for_coherent [OF co rt])
  ultimately show ?thesis
    by (simp add: smt_verify_def smt_prove_def path_node_def leaf_of_def del: upt_Suc)
qed

text \<open>At the program's depth two different 32-byte keys have different paths.\<close>

lemma key_bit_eq: "key_bit key i = bit (key ! (i div 8)) (7 - i mod 8)"
  by (simp add: key_bit_def bit_iff_and_drop_bit_eq_1)

lemma key_bits_inj: "inj_on (key_bits TREE_HEIGHT) {k. length k = 32}"
proof (rule inj_onI)
  fix x y :: hash
  assume len: "x \<in> {k. length k = 32}" "y \<in> {k. length k = 32}"
    and eq: "key_bits TREE_HEIGHT x = key_bits TREE_HEIGHT y"
  have bits: "key_bit x i = key_bit y i" if "i < 256" for i
    using eq that by (simp add: key_bits_def TREE_HEIGHT_def)
  show "x = y"
  proof (rule nth_equalityI)
    show "length x = length y" using len by simp
    fix j assume "j < length x"
    then have j: "j < 32" using len by simp
    show "x ! j = y ! j"
    proof (rule bit_word_eqI)
      fix n assume "n < LENGTH(8)"
      then have n: "n < 8" by simp
      have "key_bit x (8 * j + (7 - n)) = key_bit y (8 * j + (7 - n))" using j n by (intro bits) simp
      moreover have "(8 * j + (7 - n)) div 8 = j" "7 - (8 * j + (7 - n)) mod 8 = n"
        using n div_mult_self4 [of 8 j "7 - n"] mod_mult_self4 [of 8 j "7 - n"]
        by (simp_all only: add.commute) simp_all
      ultimately show "bit (x ! j) n = bit (y ! j) n" by (simp only: key_bit_eq)
    qed
  qed
qed

section \<open>Properties\<close>

lemma path_node_binding:
  assumes inj: "inj_on (node_of C) (set (path_pairs C H key sibs lf) \<union> set (path_pairs C H key sibs' lf'))"
    and eq: "path_node C H key sibs lf H = path_node C H key sibs' lf' H"
  shows "lf = lf'"
proof -
  have "path_node C H key sibs lf (H - d) = path_node C H key sibs' lf' (H - d)" for d
  proof (induction d)
    case (Suc d)
    show ?case
    proof (cases "d < H")
      case True
      define L where "L = H - Suc d"
      have L: "H - d = Suc L" "H - Suc d = L" "L < H" using True by (simp_all add: L_def)
      let ?p = "path_pair H key sibs (Suc L) (path_node C H key sibs lf L)"
      let ?p' = "path_pair H key sibs' (Suc L) (path_node C H key sibs' lf' L)"
      have "node_of C ?p = node_of C ?p'" using Suc L by (simp add: path_node_Suc)
      moreover have "?p \<in> set (path_pairs C H key sibs lf)" "?p' \<in> set (path_pairs C H key sibs' lf')"
        using L(3) by (simp_all add: path_pairs_def)
      ultimately have "?p = ?p'" using inj by (meson UnI1 UnI2 inj_onD)
      then show ?thesis using L by (simp add: path_pair_def Let_def split: if_splits)
    qed (use Suc in simp)
  qed (simp add: eq)
  from this [of H] show ?thesis by simp
qed

text \<open>C14. The state root is a function of the contents: after any two sequences of insertions and
  removals that leave the same values, the incrementally maintained roots are equal, and equal
  to the hash of the complete tree over those values, provided the pairs of nodes hashed on the
  way do not collide and the keys used are told apart by their first \<open>H\<close> bits.\<close>

theorem smt_root_canonical:
  assumes "no_collision C H us" "no_collision C H us'"
    and "inj_on (key_bits H) K" "op_key ` set us \<subseteq> K" "op_key ` set us' \<subseteq> K"
    and "smt_values (run C H us) = smt_values (run C H us')"
  shows "smt_root (run C H us) = smt_root (run C H us')
    \<and> smt_root (run C H us) = tree_hash C H (leaf_assignment C H K (smt_values (run C H us)))"
proof -
  obtain P P' where "smt_inv C H P (leaf_assignment C H K (smt_values (run C H us))) (run C H us)"
    "smt_inv C H P' (leaf_assignment C H K (smt_values (run C H us'))) (run C H us')"
    using assms run_inv by metis
  then show ?thesis using assms(6) by (simp add: smt_inv_def)
qed

definition plain_crypto :: crypto where
  "plain_crypto = \<lparr>blake3 = (\<lambda>bs. bs), ed25519_verify_strict = \<lambda>_ _ _. True,
     ml_dsa_65_verify = \<lambda>_ _ _. True, hex_encode = \<lambda>_. [], borsh_public_key = \<lambda>_. []\<rparr>"

lemma smt_new_values [simp]: "smt_values (smt_new C H) = Map.empty"
  by (simp add: smt_new_def Let_def)

lemma plain_values:
  "smt_values (run plain_crypto 2 [Put [64] [3], Put [0] [1], Put [128] [9], Del [128], Put [64] [2]])
     = smt_values (run plain_crypto 2 [Put [0] [1], Put [64] [2]])"
  "smt_values (run plain_crypto 2 [Put [0] [1], Put [64] [2]]) [128] = None"
  by (auto simp: run_def fun_eq_iff)

lemma plain_runs:
  "no_collision plain_crypto 2 [Put [0] [1], Put [64] [2]]"
  "no_collision plain_crypto 2 [Put [64] [3], Put [0] [1], Put [128] [9], Del [128], Put [64] [2]]"
  "inj_on (key_bits 2) {[0], [64], [128]}"
  unfolding no_collision_def inj_on_def by code_simp+

theorem smt_root_canonical_witness:
  "smt_root (run plain_crypto 2 [Put [0] [1], Put [64] [2]])
     = smt_root (run plain_crypto 2 [Put [64] [3], Put [0] [1], Put [128] [9], Del [128], Put [64] [2]])"
  by (rule smt_root_canonical [OF plain_runs _ _ plain_values(1) [symmetric], THEN conjunct1]) simp_all

text \<open>C15. Every proof \<open>prove\<close> makes, of membership or of absence, is accepted by \<open>verify\<close> for the value
  the tree holds; and a root binds a key to one value: no two proofs that verify against the same
  root give a key two different values, unless two of the nodes or leaves they hash collide.\<close>

theorem smt_proofs_sound_complete:
  assumes "no_collision C H us" "inj_on (key_bits H) K" "op_key ` set us \<subseteq> K" "key \<in> K"
  shows "smt_verify C H (smt_prove C H (run C H us) key) (smt_root (run C H us)) key (smt_values (run C H us) key)
    \<and> (smt_verify C H pf rt key ov \<longrightarrow> smt_verify C H pf' rt key ov' \<longrightarrow>
       inj_on (node_of C) (set (path_pairs C H key (siblings pf) (leaf pf)) \<union> set (path_pairs C H key (siblings pf') (leaf pf'))) \<longrightarrow>
       inj_on (leaf_of C) {ov, ov'} \<longrightarrow> ov = ov')"
proof -
  obtain P where "smt_inv C H P (leaf_assignment C H K (smt_values (run C H us))) (run C H us)"
    using run_inv [OF assms(1-3)] .
  then have complete: "smt_verify C H (smt_prove C H (run C H us) key) (smt_root (run C H us)) key (smt_values (run C H us) key)"
    using smt_prove_verifies assms by blast
  have same: "leaf_of C ov = leaf_of C ov'"
    if "smt_verify C H pf rt key ov" "smt_verify C H pf' rt key ov'"
      "inj_on (node_of C) (set (path_pairs C H key (siblings pf) (leaf pf)) \<union> set (path_pairs C H key (siblings pf') (leaf pf')))"
    using that path_node_binding [OF that(3)]
    by (auto simp: smt_verify_def Let_def path_node_def leaf_of_def split: if_splits simp del: upt_Suc)
  have "ov = ov'"
    if "smt_verify C H pf rt key ov" "smt_verify C H pf' rt key ov'"
      "inj_on (node_of C) (set (path_pairs C H key (siblings pf) (leaf pf)) \<union> set (path_pairs C H key (siblings pf') (leaf pf')))"
      "inj_on (leaf_of C) {ov, ov'}"
    using inj_onD [OF that(4) same [OF that(1-3)]] by simp
  with complete show ?thesis by (intro conjI impI)
qed

theorem smt_proofs_sound_complete_witness:
  "smt_verify plain_crypto 2 (smt_prove plain_crypto 2 (run plain_crypto 2 [Put [0] [1], Put [64] [2]]) [128])
     (smt_root (run plain_crypto 2 [Put [0] [1], Put [64] [2]])) [128] None"
proof -
  have k: "op_key ` set [Put [0] [1], Put [64] [2]] \<subseteq> {[0], [64], [128]}" "[128] \<in> {[0], [64], [128]}"
    by simp_all
  show ?thesis
    using smt_proofs_sound_complete [OF plain_runs(1,3) k, THEN conjunct1] by (simp only: plain_values(2))
qed

end
