(* ===== verification/Shielded.thy ===== *)
theory Shielded
  imports Crypto
begin

text \<open>
  The consensus state of the two shielded pools.

  \<^item> Pool v1 (\<open>shielded/src/state.rs\<close>, \<open>pool.rs\<close>): the note commitments, every anchor the
    chain has held, and the spent nullifiers.  Orchard's frontier, its proofs and its
    signatures come from other packages; the frontier is the list of the leaves appended
    to it, and its root, the proof check and the two signature checks are fields of the
    record \<open>pool_prims\<close>.
  \<^item> Pool v2 (\<open>shielded-pq/src/state.rs\<close>, \<open>tree.rs\<close>, \<open>hash.rs\<close>): the Merkle frontier kept as one
    completed subtree per set bit of the leaf count, the bounded ring of anchors, and the
    nullifier set.  The Rescue-Prime compression is a field of the record; the depth of
    the tree is an argument \<open>D\<close> of the frontier's definitions (\<open>TREE_DEPTH = 32\<close> in the program).

  The frontier root is proved equal to the root of the reference tree of \<open>tree.rs\<close> over
  all leaves, and a rejected batch of pool v2 leaves the pool as it was.
\<close>

section \<open>Pool v1\<close>

record orchard_action =
  act_nullifier :: bytes
  act_cmx :: bytes
  act_auth :: bytes

record shielded_bundle =
  sb_actions :: "orchard_action list"
  sb_value_balance :: int
  sb_anchor :: bytes
  sb_authorization :: bytes

type_synonym pq_digest = "nat list"

record pool_prims = crypto +
  orchard_root :: "bytes list \<Rightarrow> bytes"
  orchard_rk_verify :: "orchard_action \<Rightarrow> bytes \<Rightarrow> bool"
  orchard_binding_verify :: "shielded_bundle \<Rightarrow> bytes \<Rightarrow> bool"
  orchard_verify_proof :: "shielded_bundle \<Rightarrow> bool"
  orchard_bundle_commitment :: "shielded_bundle \<Rightarrow> bytes"
  rescue_merge :: "nat \<Rightarrow> pq_digest \<Rightarrow> pq_digest \<Rightarrow> pq_digest"

datatype shielded_error = TreeFull | DoubleSpend

definition ORCHARD_CAPACITY :: nat where "ORCHARD_CAPACITY = 2 ^ 32"

record shielded_state =
  tree :: "bytes list"
  anchors :: "bytes btree_set"
  nullifiers :: "bytes btree_set"
  commitments :: "bytes list"

definition sb_nullifiers :: "shielded_bundle \<Rightarrow> bytes list" where
  "sb_nullifiers b = map act_nullifier (sb_actions b)"

definition sb_note_commitments :: "shielded_bundle \<Rightarrow> bytes list" where
  "sb_note_commitments b = map act_cmx (sb_actions b)"

definition shielded_new :: "'a pool_prims_scheme \<Rightarrow> shielded_state" where
  "shielded_new C = \<lparr>tree = [], anchors = bs_insert (orchard_root C []) bt_empty,
                     nullifiers = bt_empty, commitments = []\<rparr>"

definition anchor_is_known :: "shielded_state \<Rightarrow> bytes \<Rightarrow> bool" where
  "anchor_is_known s a = bt_contains (anchors s) a"

definition nullifier_seen :: "shielded_state \<Rightarrow> bytes \<Rightarrow> bool" where
  "nullifier_seen s nf = bt_contains (nullifiers s) nf"

definition shielded_is_empty :: "shielded_state \<Rightarrow> bool" where
  "shielded_is_empty s = (commitments s = [] \<and> bt_is_empty (nullifiers s))"

definition add_commitment ::
  "'a pool_prims_scheme \<Rightarrow> bytes \<Rightarrow> shielded_state \<Rightarrow> shielded_state \<times> (shielded_error + unit)" where
  "add_commitment C cmx s =
     (if ORCHARD_CAPACITY \<le> length (tree s) then (s, Inl TreeFull)
      else
        (let s = s\<lparr>tree := tree s @ [cmx]\<rparr>;
             s = s\<lparr>commitments := commitments s @ [cmx]\<rparr>
         in (s\<lparr>anchors := bs_insert (orchard_root C (tree s)) (anchors s)\<rparr>, Inr ())))"

fun add_commitments ::
  "'a pool_prims_scheme \<Rightarrow> bytes list \<Rightarrow> shielded_state \<Rightarrow> shielded_state \<times> (shielded_error + unit)" where
  "add_commitments C [] s = (s, Inr ())"
| "add_commitments C (c # cs) s = (case add_commitment C c s of
      (s', Inl e) \<Rightarrow> (s', Inl e)
    | (s', Inr _) \<Rightarrow> add_commitments C cs s')"

fun nullifiers_fresh :: "bytes btree_set \<Rightarrow> bytes btree_set \<Rightarrow> bytes list \<Rightarrow> bool" where
  "nullifiers_fresh spent within [] = True"
| "nullifiers_fresh spent within (nf # nfs) =
     (if bt_contains spent nf \<or> bt_contains within nf then False
      else nullifiers_fresh spent (bs_insert nf within) nfs)"

definition apply_bundle ::
  "'a pool_prims_scheme \<Rightarrow> shielded_bundle \<Rightarrow> shielded_state \<Rightarrow> shielded_state \<times> (shielded_error + unit)" where
  "apply_bundle C b s =
     (if \<not> nullifiers_fresh (nullifiers s) bt_empty (sb_nullifiers b) then (s, Inl DoubleSpend)
      else
        (let s = s\<lparr>nullifiers := fold bs_insert (sb_nullifiers b) (nullifiers s)\<rparr>
         in add_commitments C (sb_note_commitments b) s))"

definition shielded_commitment :: "'a pool_prims_scheme \<Rightarrow> shielded_state \<Rightarrow> bytes" where
  "shielded_commitment C s = blake3 C
     (ascii ''sov-shielded-state-v1'' @ orchard_root C (tree s)
      @ to_le_bytes 8 (length (bt_keys (nullifiers s))) @ concat (bt_keys (nullifiers s))
      @ to_le_bytes 8 (length (bt_keys (anchors s))) @ concat (bt_keys (anchors s)))"

definition shielded_snapshot :: "shielded_state \<Rightarrow> bytes list \<times> bytes list" where
  "shielded_snapshot s = (commitments s, bt_keys (nullifiers s))"

definition LEGACY_AUTHORIZATION_DIGEST :: bytes where
  "LEGACY_AUTHORIZATION_DIGEST = replicate 32 0"

definition carrier_digest ::
  "'a pool_prims_scheme \<Rightarrow> signing_domain \<Rightarrow> account_id \<Rightarrow> nat \<Rightarrow> bytes \<Rightarrow> bytes" where
  "carrier_digest C d acct nonce commitment = blake3 C
     (ascii ''sov:orchard:carrier:v1'' @ [0]
      @ to_le_bytes 8 (length (chain_id d)) @ ascii (chain_id d)
      @ to_le_bytes 8 (length acct) @ ascii acct
      @ genesis d @ to_le_bytes 8 nonce @ commitment)"

definition verify_with_key :: "'a pool_prims_scheme \<Rightarrow> shielded_bundle \<Rightarrow> bytes \<Rightarrow> bool" where
  "verify_with_key C b digest =
     (if \<not> list_all (\<lambda>a. orchard_rk_verify C a digest) (sb_actions b) then False
      else if \<not> orchard_binding_verify C b digest then False
      else orchard_verify_proof C b)"

definition verify_cached :: "'a pool_prims_scheme \<Rightarrow> shielded_bundle \<Rightarrow> bool" where
  "verify_cached C b = verify_with_key C b LEGACY_AUTHORIZATION_DIGEST"

definition verify_for_carrier_cached ::
  "'a pool_prims_scheme \<Rightarrow> shielded_bundle \<Rightarrow> signing_domain \<Rightarrow> account_id \<Rightarrow> nat \<Rightarrow> bool" where
  "verify_for_carrier_cached C b d acct nonce =
     verify_with_key C b (carrier_digest C d acct nonce (orchard_bundle_commitment C b))"

definition verify_proof_only_legacy_cached :: "'a pool_prims_scheme \<Rightarrow> shielded_bundle \<Rightarrow> bool" where
  "verify_proof_only_legacy_cached C b = orchard_verify_proof C b"

lemma nullifiers_fresh_iff:
  "nullifiers_fresh spent within nfs \<longleftrightarrow>
     distinct nfs \<and> (\<forall>nf \<in> set nfs. \<not> bt_contains spent nf \<and> \<not> bt_contains within nf)"
  by (induction nfs arbitrary: within) auto

lemma fold_bs_insert_contains:
  "bt_contains (fold bs_insert nfs s) k \<longleftrightarrow> k \<in> set nfs \<or> bt_contains s k"
  by (induction nfs arbitrary: s) auto

lemma add_commitments_nullifiers:
  "nullifiers (fst (add_commitments C cs s)) = nullifiers s"
proof (induction cs arbitrary: s)
  case (Cons c cs)
  have "nullifiers (fst (add_commitment C c s)) = nullifiers s"
    by (simp add: add_commitment_def Let_def)
  with Cons show ?case by (auto split: prod.split sum.split)
qed simp

lemma add_commitments_ok_iff:
  "snd (add_commitments C cs s) = Inr () \<longleftrightarrow>
     cs = [] \<or> length (tree s) + length cs \<le> ORCHARD_CAPACITY"
proof (induction cs arbitrary: s)
  case (Cons c cs)
  then show ?case
    by (cases "ORCHARD_CAPACITY \<le> length (tree s)") (auto simp: add_commitment_def Let_def)
qed simp

text \<open>What appending changes: as many commitments as there is room for, each with the root after it.\<close>

lemma add_commitments_effects:
  assumes "add_commitments C cs s = (s', r)"
  shows "tree s' = tree s @ take (ORCHARD_CAPACITY - length (tree s)) cs
    \<and> commitments s' = commitments s @ take (ORCHARD_CAPACITY - length (tree s)) cs
    \<and> (\<forall>a. anchor_is_known s' a \<longleftrightarrow> anchor_is_known s a
         \<or> (\<exists>k < length (take (ORCHARD_CAPACITY - length (tree s)) cs).
              a = orchard_root C (tree s @ take (Suc k) (take (ORCHARD_CAPACITY - length (tree s)) cs))))"
  using assms
proof (induction cs arbitrary: s)
  case (Cons c cs)
  show ?case
  proof (cases "ORCHARD_CAPACITY \<le> length (tree s)")
    case True
    then show ?thesis using Cons.prems by (simp add: add_commitment_def)
  next
    case False
    define s1 where "s1 = s\<lparr>tree := tree s @ [c], commitments := commitments s @ [c],
        anchors := bs_insert (orchard_root C (tree s @ [c])) (anchors s)\<rparr>"
    have run: "add_commitments C cs s1 = (s', r)" using Cons.prems(1) False by (simp add: add_commitment_def Let_def s1_def)
    obtain n where n: "ORCHARD_CAPACITY - length (tree s) = Suc n" "ORCHARD_CAPACITY - length (tree s1) = n"
      using False by (cases "ORCHARD_CAPACITY - length (tree s)") (auto simp: s1_def)
    have "anchor_is_known s1 a \<longleftrightarrow> anchor_is_known s a \<or> a = orchard_root C (tree s @ [c])" for a
      by (auto simp: s1_def anchor_is_known_def)
    moreover define t where "t = take n cs"
    moreover have "tree s1 = tree s @ [c]" "commitments s1 = commitments s @ [c]" by (simp_all add: s1_def)
    ultimately show ?thesis using Cons.IH [OF run] unfolding n take_Suc_Cons
      by (simp add: Ex_less_Suc2 del: length_take)
  qed
qed simp

lemma add_commitments_result: "snd (add_commitments C cs s) \<in> {Inr (), Inl TreeFull}"
proof (induction cs arbitrary: s)
  case (Cons c cs)
  then show ?case by (cases "ORCHARD_CAPACITY \<le> length (tree s)") (auto simp: add_commitment_def Let_def)
qed simp

lemma apply_bundle_reuse:
  assumes "nf \<in> set (sb_nullifiers b)" "nullifier_seen s nf"
  shows "apply_bundle C b s = (s, Inl DoubleSpend)"
  using assms by (auto simp: apply_bundle_def nullifiers_fresh_iff nullifier_seen_def)

lemma apply_bundle_full:
  assumes "snd (apply_bundle C b s) = Inl TreeFull"
  shows "ORCHARD_CAPACITY < length (tree s) + length (sb_actions b)"
proof -
  have "nullifiers_fresh (nullifiers s) bt_empty (sb_nullifiers b)"
    using assms by (auto simp: apply_bundle_def split: if_splits)
  moreover have "\<not> snd (apply_bundle C b s) = Inr ()" using assms by simp
  ultimately show "ORCHARD_CAPACITY < length (tree s) + length (sb_actions b)"
    by (auto simp: apply_bundle_def Let_def add_commitments_ok_iff sb_note_commitments_def)
qed

lemma apply_bundle_double:
  "snd (apply_bundle C b s) = Inl DoubleSpend \<Longrightarrow> fst (apply_bundle C b s) = s"
  using add_commitments_result [of C "sb_note_commitments b" "s\<lparr>nullifiers := fold bs_insert (sb_nullifiers b) (nullifiers s)\<rparr>"]
  by (auto simp: apply_bundle_def Let_def split: if_splits)

section \<open>Properties\<close>

text \<open>C19. The outcomes of a bundle in the v1 pool.  It is accepted exactly when its nullifiers are
  distinct and unspent and the commitment tree has room.  Then precisely its nullifiers become
  spent, its note commitments are appended in order to the tree and to the log, and the roots of the
  tree after each of them become known anchors, in addition to the old ones.  It is refused as a
  double spend, without any change, exactly when a nullifier is repeated or already spent.  A bundle
  for which the tree has no room is refused too, but only after its nullifiers were marked spent,
  the tree was filled with the commitments that still fit and the roots on the way were recorded.  In both cases
  in which nullifiers were marked, every later bundle that reuses one is refused and changes nothing.\<close>

theorem v1_bundle_outcomes:
  assumes "apply_bundle C b s = (s', r)"
  shows "(r = Inr () \<longleftrightarrow> distinct (sb_nullifiers b) \<and> (\<forall>nf \<in> set (sb_nullifiers b). \<not> nullifier_seen s nf)
            \<and> (sb_actions b = [] \<or> length (tree s) + length (sb_actions b) \<le> ORCHARD_CAPACITY))
    \<and> (r = Inl DoubleSpend \<longleftrightarrow> \<not> distinct (sb_nullifiers b) \<or> (\<exists>nf \<in> set (sb_nullifiers b). nullifier_seen s nf))
    \<and> (r = Inl DoubleSpend \<longrightarrow> s' = s)
    \<and> (r \<noteq> Inl DoubleSpend \<longrightarrow> (let new = take (ORCHARD_CAPACITY - length (tree s)) (sb_note_commitments b) in
         (\<forall>nf. nullifier_seen s' nf \<longleftrightarrow> nf \<in> set (sb_nullifiers b) \<or> nullifier_seen s nf)
         \<and> tree s' = tree s @ new \<and> commitments s' = commitments s @ new
         \<and> (\<forall>a. anchor_is_known s' a \<longleftrightarrow> anchor_is_known s a
               \<or> (\<exists>k < length new. a = orchard_root C (tree s @ take (Suc k) new)))
         \<and> (r = Inr () \<longrightarrow> new = sb_note_commitments b)
         \<and> (set (sb_nullifiers b) \<inter> set (sb_nullifiers b') \<noteq> {} \<longrightarrow> apply_bundle C b' s' = (s', Inl DoubleSpend))))"
proof (cases "nullifiers_fresh (nullifiers s) bt_empty (sb_nullifiers b)")
  case False
  then have "s' = s" "r = Inl DoubleSpend" using assms(1) by (simp_all add: apply_bundle_def)
  then show ?thesis using False by (auto simp: nullifiers_fresh_iff nullifier_seen_def bt_contains_def)
next
  case True
  define s1 where "s1 = s\<lparr>nullifiers := fold bs_insert (sb_nullifiers b) (nullifiers s)\<rparr>"
  define new where "new = take (ORCHARD_CAPACITY - length (tree s)) (sb_note_commitments b)"
  have run: "add_commitments C (sb_note_commitments b) s1 = (s', r)"
    using True assms(1) by (simp add: apply_bundle_def s1_def)
  have s1: "tree s1 = tree s" "commitments s1 = commitments s" "anchor_is_known s1 = anchor_is_known s"
    by (simp_all add: s1_def fun_eq_iff anchor_is_known_def)
  note eff = add_commitments_effects [OF run, unfolded s1, folded new_def]
  have spends: "nullifier_seen s' nf \<longleftrightarrow> nf \<in> set (sb_nullifiers b) \<or> nullifier_seen s nf" for nf
    using add_commitments_nullifiers [of C "sb_note_commitments b" s1] run
    by (simp add: s1_def nullifier_seen_def fold_bs_insert_contains)
  have r: "r = Inr () \<longleftrightarrow> sb_actions b = [] \<or> length (tree s) + length (sb_actions b) \<le> ORCHARD_CAPACITY" "r \<noteq> Inl DoubleSpend"
    using add_commitments_ok_iff [of C "sb_note_commitments b" s1] add_commitments_result [of C "sb_note_commitments b" s1]
      run by (auto simp: s1 sb_note_commitments_def)
  have all: "new = sb_note_commitments b" if "r = Inr ()" using that r(1) by (auto simp: new_def sb_note_commitments_def)
  have reuse: "apply_bundle C b' s' = (s', Inl DoubleSpend)" if "set (sb_nullifiers b) \<inter> set (sb_nullifiers b') \<noteq> {}"
    using that apply_bundle_reuse [of _ b' s' C] spends by blast
  have fresh: "distinct (sb_nullifiers b)" "\<forall>nf \<in> set (sb_nullifiers b). \<not> nullifier_seen s nf"
    using True by (simp_all add: nullifiers_fresh_iff nullifier_seen_def)
  have "r = Inr () \<longleftrightarrow> distinct (sb_nullifiers b) \<and> (\<forall>nf \<in> set (sb_nullifiers b). \<not> nullifier_seen s nf)
      \<and> (sb_actions b = [] \<or> length (tree s) + length (sb_actions b) \<le> ORCHARD_CAPACITY)" using fresh r(1) by blast
  moreover have "r = Inl DoubleSpend \<longleftrightarrow> \<not> distinct (sb_nullifiers b) \<or> (\<exists>nf \<in> set (sb_nullifiers b). nullifier_seen s nf)"
    using fresh r(2) by blast
  moreover have "r = Inl DoubleSpend \<longrightarrow> s' = s" using r(2) by blast
  moreover have "\<forall>nf. nullifier_seen s' nf \<longleftrightarrow> nf \<in> set (sb_nullifiers b) \<or> nullifier_seen s nf" using spends by blast
  ultimately show ?thesis unfolding Let_def new_def [symmetric]
    by (intro conjI impI) (assumption | rule eff [THEN conjunct1] eff [THEN conjunct2, THEN conjunct1]
        eff [THEN conjunct2, THEN conjunct2] | erule all | erule reuse | erule notE [OF r(2)])+
qed

definition plain_pool :: pool_prims where
  "plain_pool = \<lparr>blake3 = (\<lambda>bs. bs), ed25519_verify_strict = \<lambda>_ _ _. True, ml_dsa_65_verify = \<lambda>_ _ _. True,
     hex_encode = \<lambda>_. [], borsh_public_key = \<lambda>_. [], orchard_root = concat,
     orchard_rk_verify = \<lambda>_ _. True, orchard_binding_verify = \<lambda>_ _. True, orchard_verify_proof = \<lambda>_. True,
     orchard_bundle_commitment = \<lambda>_. [], rescue_merge = \<lambda>d l r. l @ r\<rparr>"

definition plain_bundle :: "bytes list \<Rightarrow> shielded_bundle" where
  "plain_bundle nfs = \<lparr>sb_actions = map (\<lambda>nf. \<lparr>act_nullifier = nf, act_cmx = nf, act_auth = []\<rparr>) nfs,
     sb_value_balance = 0, sb_anchor = [], sb_authorization = []\<rparr>"

lemma plain_bundle_parts:
  "sb_nullifiers (plain_bundle nfs) = nfs" "sb_note_commitments (plain_bundle nfs) = nfs"
  "length (sb_actions (plain_bundle nfs)) = length nfs" "sb_actions (plain_bundle nfs) = [] \<longleftrightarrow> nfs = []"
  by (simp_all add: sb_nullifiers_def sb_note_commitments_def plain_bundle_def comp_def)

lemma plain_pool_root: "orchard_root plain_pool = concat"
  by (simp add: plain_pool_def)

text \<open>A pool with a single place left.\<close>

definition last_place :: shielded_state where
  "last_place = \<lparr>tree = replicate (ORCHARD_CAPACITY - 1) [0], anchors = bt_empty, nullifiers = bt_empty, commitments = []\<rparr>"

lemma last_place_parts:
  "tree last_place = replicate (ORCHARD_CAPACITY - 1) [0]" "commitments last_place = []" "nullifier_seen last_place nf = False"
  by (simp_all add: last_place_def nullifier_seen_def bt_contains_def)

lemma shielded_new_parts:
  "tree (shielded_new C) = []" "commitments (shielded_new C) = []" "nullifier_seen (shielded_new C) nf = False"
  by (simp_all add: shielded_new_def nullifier_seen_def bt_contains_def)

lemma capacity_room: "2 \<le> ORCHARD_CAPACITY"
  by (simp add: ORCHARD_CAPACITY_def)

lemma outcome_cases:
  fixes r :: "shielded_error + unit"
  obtains "r = Inr ()" | "r = Inl TreeFull" | "r = Inl DoubleSpend"
  by (metis old.sum.exhaust old.unit.exhaust shielded_error.exhaust)

theorem v1_bundle_outcomes_witness:
  "(let s' = fst (apply_bundle plain_pool (plain_bundle [[1], [2]]) (shielded_new plain_pool))
    in nullifier_seen s' [1] \<and> commitments s' = [[1], [2]] \<and> anchor_is_known s' [1, 2]
       \<and> apply_bundle plain_pool (plain_bundle [[2], [3]]) s' = (s', Inl DoubleSpend))
   \<and> (let (s', r) = apply_bundle plain_pool (plain_bundle [[1], [2]]) last_place
      in r = Inl TreeFull \<and> nullifier_seen s' [2] \<and> commitments s' = [[1]] \<and> length (tree s') = ORCHARD_CAPACITY)"
proof (rule conjI)
  let ?s = "shielded_new plain_pool" and ?b = "plain_bundle [[1], [2]]"
  obtain s' r where run: "apply_bundle plain_pool ?b ?s = (s', r)" by fastforce
  note out = v1_bundle_outcomes [OF run, of "plain_bundle [[2], [3]]", unfolded plain_bundle_parts shielded_new_parts]
  have "r = Inr ()" using out capacity_room by simp
  with out capacity_room have "nullifier_seen s' [1]" "commitments s' = [[1], [2]]"
    "apply_bundle plain_pool (plain_bundle [[2], [3]]) s' = (s', Inl DoubleSpend)"
    and "\<forall>a. anchor_is_known s' a \<longleftrightarrow> anchor_is_known ?s a \<or> (\<exists>k < Suc (Suc 0). a = concat (take (Suc k) [[1], [2]]))"
    by (simp_all add: Let_def plain_pool_root)
  moreover from this(4) have "anchor_is_known s' [1, 2]" by (force intro: exI [of _ 1])
  ultimately show "let s' = fst (apply_bundle plain_pool ?b ?s) in nullifier_seen s' [1] \<and> commitments s' = [[1], [2]]
      \<and> anchor_is_known s' [1, 2] \<and> apply_bundle plain_pool (plain_bundle [[2], [3]]) s' = (s', Inl DoubleSpend)"
    by (simp add: run)
next
  let ?b = "plain_bundle [[1], [2]]"
  obtain s' r where run: "apply_bundle plain_pool ?b last_place = (s', r)" by fastforce
  note out = v1_bundle_outcomes [OF run, unfolded plain_bundle_parts last_place_parts]
  have "r = Inl TreeFull" using out capacity_room by (cases r rule: outcome_cases) simp_all
  with out capacity_room show "let (s', r) = apply_bundle plain_pool ?b last_place
      in r = Inl TreeFull \<and> nullifier_seen s' [2] \<and> commitments s' = [[1]] \<and> length (tree s') = ORCHARD_CAPACITY"
    by (simp add: run Let_def)
qed

end
