(* ===== verification/Pow.thy ===== *)
theory Pow
  imports Crypto
begin

text \<open>
  The crate \<open>sov-pow\<close>: 256-bit difficulty targets (\<open>target.rs\<close>) with the test a
  proof-of-work hash has to pass, the packed 32-bit form of a target carried by every
  block header, and the reference miner; the double hash of \<open>algorithm.rs\<close> and the
  choice of seal of \<open>seal.rs\<close>.  A \<open>Target\<close> is its big-endian 32-byte threshold; \<open>be_value\<close>
  reads it as a number.  Bit operations on \<open>u32\<close> are those of \<open>nat\<close>: every value here
  stays below \<open>2 ^ 32\<close>.
\<close>

unbundle bit_operations_syntax

section \<open>Big-endian numbers\<close>

definition be_value :: "bytes \<Rightarrow> nat" where
  "be_value bs = foldl (\<lambda>acc b. acc * 256 + unat b) 0 bs"

definition be_bytes :: "nat \<Rightarrow> nat \<Rightarrow> bytes" where
  "be_bytes n x = rev (to_le_bytes n x)"

lemma unat_byte_less: "unat (b :: byte) < 256"
proof -
  have "unat b < 2 ^ LENGTH(8)" by (rule unsigned_less)
  then show ?thesis by simp
qed

lemma be_value_foldl: "foldl (\<lambda>acc b. acc * 256 + unat b) a bs = a * 256 ^ length bs + be_value bs"
  for bs :: bytes
proof (induction bs arbitrary: a)
  case (Cons b bs)
  show ?case
    using Cons [of "a * 256 + unat b"] Cons [of "unat b"]
    by (simp add: be_value_def algebra_simps)
qed (simp add: be_value_def)

lemma be_value_Cons: "be_value (b # bs) = unat b * 256 ^ length bs + be_value bs"
  using be_value_foldl [of "unat b" bs] by (simp add: be_value_def)

lemma be_value_Nil [simp]: "be_value [] = 0"
  by (simp add: be_value_def)

lemma be_value_append: "be_value (xs @ ys) = be_value xs * 256 ^ length ys + be_value ys"
  by (induction xs) (simp_all add: be_value_Cons power_add algebra_simps)

lemma be_value_less: "be_value bs < 256 ^ length bs"
proof (induction bs)
  case (Cons b bs)
  have "unat b * 256 ^ length bs + be_value bs < (unat b + 1) * 256 ^ length bs"
    using Cons by simp
  also have "\<dots> \<le> 256 * 256 ^ length bs"
    using unat_byte_less [of b] by (intro mult_le_mono1) simp
  finally show ?case by (simp add: be_value_Cons)
qed simp

lemma be_value_le_iff: "length xs = length ys \<Longrightarrow> xs \<le> ys \<longleftrightarrow> be_value xs \<le> be_value ys"
proof (induction xs ys rule: list_induct2)
  case (Cons x xs y ys)
  have bnd: "be_value xs < 256 ^ length ys" "be_value ys < 256 ^ length ys"
    using be_value_less [of xs] be_value_less [of ys] Cons by simp_all
  have lt: "a * B + p < b * B + q" if "a < b" "p < B" for a b p q B :: nat
  proof -
    have "(a + 1) * B \<le> b * B" using that by (intro mult_le_mono1) simp
    with that show ?thesis by simp
  qed
  consider "x < y" | "x = y" | "y < x" by force
  then show ?case
  proof cases
    case 1
    then show ?thesis using lt [of "unat x" "unat y" "be_value xs" "256 ^ length ys" "be_value ys"] bnd Cons
      by (simp add: be_value_Cons word_less_nat_alt)
  next
    case 2
    then show ?thesis using Cons by (simp add: be_value_Cons)
  next
    case 3
    then have "x \<noteq> y" "\<not> x < y" by auto
    with 3 show ?thesis using lt [of "unat y" "unat x" "be_value ys" "256 ^ length ys" "be_value xs"] bnd Cons
      by (simp add: be_value_Cons word_less_nat_alt)
  qed
qed simp

lemma length_be_bytes [simp]: "length (be_bytes n x) = n"
  by (simp add: be_bytes_def)

lemma be_bytes_Suc: "be_bytes (Suc n) x = of_nat (x div 256 ^ n) # be_bytes n x"
  by (simp add: be_bytes_def to_le_bytes_def)

lemma be_value_be_bytes: "be_value (be_bytes n x) = x mod 256 ^ n"
proof (induction n)
  case 0
  then show ?case by (simp add: be_bytes_def to_le_bytes_def)
next
  case (Suc n)
  have "x mod 256 ^ Suc n = x mod 256 ^ n + 256 ^ n * (x div 256 ^ n mod 256)"
    using mod_mult2_eq [of x "256 ^ n" 256] by (simp add: mult.commute)
  then show ?case
    by (simp add: be_bytes_Suc be_value_Cons Suc unat_of_nat)
qed

section \<open>Targets\<close>

type_synonym target = hash

definition EASIEST :: target where "EASIEST = replicate 32 0xff"
definition HASH_ZERO :: hash where "HASH_ZERO = replicate 32 0"

definition from_leading_zero_bits :: "nat \<Rightarrow> target" where
  "from_leading_zero_bits bits =
     (if bits = 0 then EASIEST
      else if 256 \<le> bits then HASH_ZERO
      else
        (let full_zero_bytes = bits div 8;
             bytes = replicate full_zero_bytes 0 @ replicate (32 - full_zero_bytes) (0xff :: byte);
             remainder = bits mod 8
         in if remainder \<noteq> 0 then bytes[full_zero_bytes := drop_bit remainder 0xff] else bytes))"

definition is_met_by :: "target \<Rightarrow> hash \<Rightarrow> bool" where
  "is_met_by t h = (h \<le> t)"

fun first_nonzero :: "bytes \<Rightarrow> nat option" where
  "first_nonzero [] = None"
| "first_nonzero (b # bs) = (if b \<noteq> 0 then Some 0 else map_option Suc (first_nonzero bs))"

definition to_compact :: "target \<Rightarrow> nat" where
  "to_compact bs = (case first_nonzero bs of
      None \<Rightarrow> 0
    | Some first \<Rightarrow>
        (let sz = 32 - first;
             b = (\<lambda>k. if first + k < length bs then unat (bs ! (first + k)) else 0);
             mantissa = push_bit 16 (b 0) OR push_bit 8 (b 1) OR b 2
         in if mantissa AND 0x800000 \<noteq> 0
            then push_bit 24 (sz + 1) OR drop_bit 8 mantissa
            else push_bit 24 sz OR mantissa))"

fun place_bytes :: "nat \<Rightarrow> nat \<Rightarrow> bytes \<Rightarrow> bytes \<Rightarrow> bytes" where
  "place_bytes sz k [] out = out"
| "place_bytes sz k (byt # rest) out =
     place_bytes sz (Suc k) rest
       (case checked_sub (32 + k) sz of
          None \<Rightarrow> out
        | Some idx \<Rightarrow> if idx < 32 then out[idx := byt] else out)"

definition from_compact :: "nat \<Rightarrow> target option" where
  "from_compact bits =
     (let sz = drop_bit 24 bits;
          mantissa = bits AND 0x7fffff
      in if bits AND 0x800000 \<noteq> 0 then None
         else if mantissa = 0 then Some HASH_ZERO
         else if 34 < sz \<or> (0xff < mantissa \<and> 33 < sz) \<or> (0xffff < mantissa \<and> 32 < sz) then None
         else if sz \<le> 3 then
           (let val = drop_bit (8 * (3 - sz)) mantissa
            in Some (HASH_ZERO[29 := of_nat (drop_bit 16 val), 30 := of_nat (drop_bit 8 val),
                               31 := of_nat val]))
         else Some (place_bytes sz 0
                      [of_nat (drop_bit 16 mantissa), of_nat (drop_bit 8 mantissa), of_nat mantissa]
                      HASH_ZERO))"

definition pow_hash :: "'a crypto_scheme \<Rightarrow> bytes \<Rightarrow> nat \<Rightarrow> hash" where
  "pow_hash C preimage nonce = blake3 C (preimage @ to_le_bytes 8 nonce)"

definition pow_verify :: "'a crypto_scheme \<Rightarrow> bytes \<Rightarrow> nat \<Rightarrow> target \<Rightarrow> bool" where
  "pow_verify C preimage nonce t = is_met_by t (pow_hash C preimage nonce)"

fun mine_from :: "'a crypto_scheme \<Rightarrow> bytes \<Rightarrow> target \<Rightarrow> nat \<Rightarrow> nat \<Rightarrow> (nat \<times> hash) option" where
  "mine_from C preimage t nonce 0 = None"
| "mine_from C preimage t nonce (Suc togo) =
     (let h = pow_hash C preimage nonce
      in if is_met_by t h then Some (nonce, h) else mine_from C preimage t (Suc nonce) togo)"

definition mine :: "'a crypto_scheme \<Rightarrow> bytes \<Rightarrow> target \<Rightarrow> nat \<Rightarrow> (nat \<times> hash) option" where
  "mine C preimage t max_iterations = mine_from C preimage t 0 max_iterations"

datatype pow_algo = Sha256d | RandomX

definition sha256d :: "(bytes \<Rightarrow> bytes) \<Rightarrow> bytes \<Rightarrow> bytes" where
  "sha256d sha256 data = sha256 (sha256 data)"

lemma is_met_by_numeric:
  "length t = 32 \<Longrightarrow> length h = 32 \<Longrightarrow> is_met_by t h \<longleftrightarrow> be_value h \<le> be_value t"
  by (simp add: is_met_by_def be_value_le_iff)

lemma mine_from_Some:
  "mine_from C preimage t n togo = Some (nonce, h) \<Longrightarrow>
     n \<le> nonce \<and> nonce < n + togo \<and> h = pow_hash C preimage nonce
     \<and> pow_verify C preimage nonce t \<and> (\<forall>m. n \<le> m \<and> m < nonce \<longrightarrow> \<not> pow_verify C preimage m t)"
proof (induction togo arbitrary: n)
  case (Suc togo)
  show ?case
  proof (cases "is_met_by t (pow_hash C preimage n)")
    case True
    with Suc.prems show ?thesis by (auto simp: Let_def pow_verify_def)
  next
    case False
    have *: "Suc n \<le> nonce \<and> nonce < Suc n + togo \<and> h = pow_hash C preimage nonce
       \<and> pow_verify C preimage nonce t \<and> (\<forall>m. Suc n \<le> m \<and> m < nonce \<longrightarrow> \<not> pow_verify C preimage m t)"
      using Suc.IH [of "Suc n"] Suc.prems False by (simp add: Let_def)
    moreover have "\<not> pow_verify C preimage m t" if "n \<le> m" "m < nonce" for m
      using * that False by (cases "m = n") (auto simp: pow_verify_def)
    ultimately show ?thesis by auto
  qed
qed simp

lemma mine_from_None:
  "mine_from C preimage t n togo = None \<longleftrightarrow> (\<forall>m. n \<le> m \<and> m < n + togo \<longrightarrow> \<not> pow_verify C preimage m t)"
proof (induction togo arbitrary: n)
  case (Suc togo)
  have "(\<forall>m. n \<le> m \<and> m < n + Suc togo \<longrightarrow> \<not> pow_verify C preimage m t)
      \<longleftrightarrow> \<not> pow_verify C preimage n t \<and> (\<forall>m. Suc n \<le> m \<and> m < Suc n + togo \<longrightarrow> \<not> pow_verify C preimage m t)"
    (is "?A \<longleftrightarrow> ?B")
  proof
    assume ?B
    then have "\<not> pow_verify C preimage m t" if "n \<le> m" "m < n + Suc togo" for m
      using that by (cases "m = n") auto
    then show ?A by blast
  qed auto
  then show ?case using Suc by (auto simp: Let_def pow_verify_def)
qed auto

section \<open>Properties\<close>

text \<open>C23. Mining returns the first nonce, counted from 0, whose hash of the preimage is numerically at
  most the target, together with that hash; it returns nothing exactly when no nonce below the
  iteration bound qualifies.\<close>

theorem mine_finds_first:
  assumes "length (t :: target) = 32" "\<And>bs. length (blake3 C bs) = 32"
  shows "(case mine C preimage t max_iterations of
      Some (nonce, h) \<Rightarrow> nonce < max_iterations \<and> h = pow_hash C preimage nonce
        \<and> be_value h \<le> be_value t
        \<and> (\<forall>m < nonce. be_value t < be_value (pow_hash C preimage m))
    | None \<Rightarrow> (\<forall>m < max_iterations. be_value t < be_value (pow_hash C preimage m)))"
proof -
  have met: "pow_verify C preimage m t \<longleftrightarrow> be_value (pow_hash C preimage m) \<le> be_value t" for m
    using assms by (simp add: pow_verify_def is_met_by_numeric pow_hash_def)
  show ?thesis
  proof (cases "mine C preimage t max_iterations")
    case None
    then have "\<forall>m < max_iterations. \<not> pow_verify C preimage m t" by (simp add: mine_def mine_from_None)
    with None show ?thesis by (simp add: met not_le)
  next
    case (Some r)
    then show ?thesis
      by (cases r) (use mine_from_Some [of C preimage t 0 max_iterations] in \<open>auto simp: mine_def met not_le\<close>)
  qed
qed

theorem mine_finds_first_witness:
  "let C = \<lparr>blake3 = \<lambda>_. replicate 32 1, ed25519_verify_strict = \<lambda>_ _ _. True,
           ml_dsa_65_verify = \<lambda>_ _ _. True, hex_encode = \<lambda>_. [], borsh_public_key = \<lambda>_. []\<rparr>
   in mine C [5] (replicate 32 2) 3 = Some (0, replicate 32 1)
      \<and> be_value (pow_hash C [5] 0) \<le> be_value (replicate 32 2)"
proof -
  have "replicate 32 (1 :: byte) \<le> replicate 32 2" by code_simp
  then show ?thesis
  using mine_finds_first [of "replicate 32 2" "\<lparr>blake3 = \<lambda>_. replicate 32 1, ed25519_verify_strict = \<lambda>_ _ _. True,
           ml_dsa_65_verify = \<lambda>_ _ _. True, hex_encode = \<lambda>_. [], borsh_public_key = \<lambda>_. []\<rparr>" 3 "[5]"]
  by (simp add: Let_def mine_def pow_hash_def is_met_by_def numeral_3_eq_3)
qed

end
