(* ===== verification/ShieldedPq.thy ===== *)
theory ShieldedPq
  imports Shielded Pow
begin

text \<open>
  Pool v2, the post-quantum shielded pool: \<open>shielded-pq/src/hash.rs\<close> (digests), \<open>tree.rs\<close> (the
  reference commitment tree and its witnesses) and \<open>state.rs\<close> (the frontier, the anchor ring,
  the nullifier set).
\<close>

section \<open>Digests and the reference tree\<close>

definition FELT_MODULUS :: nat where "FELT_MODULUS = 2 ^ 64 - 2 ^ 32 + 1"
definition RESCUE_DOMAIN_MERKLE_NODE :: nat where "RESCUE_DOMAIN_MERKLE_NODE = 4"
definition TREE_DEPTH :: nat where "TREE_DEPTH = 32"
definition MAX_TREE_LEAVES :: nat where "MAX_TREE_LEAVES = 2 ^ TREE_DEPTH - 1"
definition MAX_V2_COMMITMENTS_PER_BLOCK :: nat where "MAX_V2_COMMITMENTS_PER_BLOCK = 160"
definition ANCHOR_HORIZON_BLOCKS :: nat where "ANCHOR_HORIZON_BLOCKS = 128"
definition ANCHOR_RING_LEN :: nat where
  "ANCHOR_RING_LEN = MAX_V2_COMMITMENTS_PER_BLOCK * ANCHOR_HORIZON_BLOCKS"
definition MAX_V2_NOTES :: nat where "MAX_V2_NOTES = MAX_TREE_LEAVES"

definition PQ_ZERO :: pq_digest where "PQ_ZERO = [0, 0, 0, 0]"

definition pq_to_bytes :: "pq_digest \<Rightarrow> bytes" where
  "pq_to_bytes d = concat (map (to_le_bytes 8) d)"

definition is_canonical :: "pq_digest \<Rightarrow> bool" where
  "is_canonical d = list_all (\<lambda>limb. limb < FELT_MODULUS) d"

abbreviation merge_node :: "'a pool_prims_scheme \<Rightarrow> pq_digest \<Rightarrow> pq_digest \<Rightarrow> pq_digest" where
  "merge_node C \<equiv> rescue_merge C RESCUE_DOMAIN_MERKLE_NODE"

primrec empty_levels :: "'a pool_prims_scheme \<Rightarrow> nat \<Rightarrow> pq_digest list" where
  "empty_levels C 0 = [PQ_ZERO]"
| "empty_levels C (Suc l) =
     (let es = empty_levels C l in es @ [merge_node C (es ! l) (es ! l)])"

fun subtree_hash :: "'a pool_prims_scheme \<Rightarrow> pq_digest list \<Rightarrow> pq_digest list \<Rightarrow> nat \<Rightarrow> nat \<Rightarrow> pq_digest" where
  "subtree_hash C es leaves 0 index =
     (if length leaves \<le> index then es ! 0 else leaves ! index)"
| "subtree_hash C es leaves (Suc level) index =
     (if length leaves \<le> index * 2 ^ Suc level then es ! Suc level
      else merge_node C (subtree_hash C es leaves level (index * 2))
                        (subtree_hash C es leaves level (index * 2 + 1)))"

definition tree_root :: "'a pool_prims_scheme \<Rightarrow> nat \<Rightarrow> pq_digest list \<Rightarrow> pq_digest" where
  "tree_root C D leaves = subtree_hash C (empty_levels C D) leaves D 0"

definition tree_append :: "pq_digest \<Rightarrow> pq_digest list \<Rightarrow> (pq_digest list \<times> nat) option" where
  "tree_append cm leaves =
     (if MAX_TREE_LEAVES \<le> length leaves then None
      else Some (leaves @ [cm], length (leaves @ [cm]) - 1))"

definition flip_low_bit :: "nat \<Rightarrow> nat" where
  "flip_low_bit i = (if even i then i + 1 else i - 1)"

fun witness_siblings :: "'a pool_prims_scheme \<Rightarrow> pq_digest list \<Rightarrow> pq_digest list \<Rightarrow> nat \<Rightarrow> nat \<Rightarrow> nat \<Rightarrow> pq_digest list" where
  "witness_siblings C es leaves level index 0 = []"
| "witness_siblings C es leaves level index (Suc togo) =
     subtree_hash C es leaves level (flip_low_bit index)
     # witness_siblings C es leaves (Suc level) (index div 2) togo"

definition tree_witness ::
  "'a pool_prims_scheme \<Rightarrow> nat \<Rightarrow> pq_digest list \<Rightarrow> nat \<Rightarrow> ((nat \<times> pq_digest list) \<times> pq_digest) option" where
  "tree_witness C D leaves position =
     (if length leaves \<le> position then None
      else Some ((position, witness_siblings C (empty_levels C D) leaves 0 position D), tree_root C D leaves))"

fun compute_root_from :: "'a pool_prims_scheme \<Rightarrow> nat \<Rightarrow> pq_digest list \<Rightarrow> pq_digest \<Rightarrow> pq_digest" where
  "compute_root_from C position [] acc = acc"
| "compute_root_from C position (sib # sibs) acc =
     compute_root_from C (position div 2) sibs
       (if position mod 2 = 0 then merge_node C acc sib else merge_node C sib acc)"

definition compute_root :: "'a pool_prims_scheme \<Rightarrow> nat \<times> pq_digest list \<Rightarrow> pq_digest \<Rightarrow> pq_digest" where
  "compute_root C path lf = compute_root_from C (fst path) (snd path) lf"

section \<open>The frontier\<close>

fun frontier_root_loop ::
  "'a pool_prims_scheme \<Rightarrow> pq_digest list \<Rightarrow> nat \<Rightarrow> nat \<Rightarrow> pq_digest list \<Rightarrow> pq_digest \<Rightarrow> pq_digest" where
  "frontier_root_loop C es sz level [] acc = acc"
| "frontier_root_loop C es sz level (ommer # rest) acc =
     frontier_root_loop C es sz (Suc level) rest
       (if sz div 2 ^ level mod 2 = 1 then merge_node C ommer acc else merge_node C acc (es ! level))"

definition frontier_root :: "'a pool_prims_scheme \<Rightarrow> pq_digest list \<Rightarrow> pq_digest list \<Rightarrow> nat \<Rightarrow> pq_digest" where
  "frontier_root C ommers es sz = frontier_root_loop C es sz 0 ommers (es ! 0)"

fun frontier_append :: "'a pool_prims_scheme \<Rightarrow> pq_digest list \<Rightarrow> nat \<Rightarrow> pq_digest \<Rightarrow> pq_digest list option" where
  "frontier_append C [] idx acc = None"
| "frontier_append C (slot # rest) idx acc =
     (if idx mod 2 = 0 then Some (acc # rest)
      else map_option ((#) slot) (frontier_append C rest (idx div 2) (merge_node C slot acc)))"

lemma length_empty_levels [simp]: "length (empty_levels C D) = Suc D"
  by (induction D) (simp_all add: Let_def)

lemma empty_levels_Suc:
  "l < D \<Longrightarrow> empty_levels C D ! Suc l = merge_node C (empty_levels C D ! l) (empty_levels C D ! l)"
proof (induction D)
  case (Suc D)
  then show ?case by (cases "l = D") (simp_all add: Let_def nth_append)
qed simp

lemma subtree_beyond: "length leaves \<le> i * 2 ^ l \<Longrightarrow> subtree_hash C E leaves l i = E ! l"
  by (cases l) simp_all

text \<open>A subtree is the merge of its halves, also where it is empty.\<close>

lemma subtree_split:
  assumes "l < D"
  shows "subtree_hash C (empty_levels C D) leaves (Suc l) i =
    merge_node C (subtree_hash C (empty_levels C D) leaves l (2 * i))
                 (subtree_hash C (empty_levels C D) leaves l (2 * i + 1))"
proof (cases "length leaves \<le> i * 2 ^ Suc l")
  case True
  then have "length leaves \<le> (2 * i) * 2 ^ l" "length leaves \<le> (2 * i + 1) * 2 ^ l" by simp_all
  then show ?thesis using True assms by (simp add: subtree_beyond empty_levels_Suc del: subtree_hash.simps)
next
  case False
  then show ?thesis by (simp add: mult.commute)
qed

lemma subtree_append:
  "(i + 1) * 2 ^ l \<le> length leaves \<Longrightarrow>
     subtree_hash C E (leaves @ [x]) l i = subtree_hash C E leaves l i"
proof (induction l arbitrary: i)
  case (Suc l)
  have "(2 * i + 1) * 2 ^ l \<le> length leaves" "(2 * i + 1 + 1) * 2 ^ l \<le> length leaves"
    using Suc.prems by simp_all
  then have "subtree_hash C E (leaves @ [x]) l (i * 2) = subtree_hash C E leaves l (i * 2)"
    "subtree_hash C E (leaves @ [x]) l (i * 2 + 1) = subtree_hash C E leaves l (i * 2 + 1)"
    using Suc.IH [of "i * 2"] Suc.IH [of "i * 2 + 1"] by (simp_all add: mult.commute)
  moreover have "i * 2 ^ Suc l < (i + 1) * 2 ^ Suc l" by simp
  then have "i * 2 ^ Suc l < length leaves" using Suc.prems by (rule less_le_trans)
  ultimately show ?case by simp
qed (simp add: nth_append)

lemma odd_halves: "m mod 2 = 1 \<Longrightarrow> 2 * (m div 2) = m - 1" "m mod 2 = 1 \<Longrightarrow> 2 * (m div 2) + 1 = m"
  for m :: nat
  by presburger+

lemma even_halves: "m mod 2 \<noteq> 1 \<Longrightarrow> 2 * (m div 2) = m" for m :: nat
  by presburger

lemma below_next_block: "n < (n div 2 ^ l + 1) * 2 ^ l" for n :: nat
  using dividend_less_div_times [of "2 ^ l" n] by (simp add: add.commute)

lemma block_before: "n div 2 ^ l mod 2 = 1 \<Longrightarrow> (n div 2 ^ l - 1 + 1) * 2 ^ l \<le> n" for n :: nat
proof -
  assume "n div 2 ^ l mod 2 = 1"
  then have "n div 2 ^ l - 1 + 1 = n div 2 ^ l" by (cases "n div 2 ^ l") simp_all
  then show ?thesis by simp
qed

definition frontier_ok :: "'a pool_prims_scheme \<Rightarrow> nat \<Rightarrow> pq_digest list \<Rightarrow> pq_digest list \<Rightarrow> bool" where
  "frontier_ok C D leaves ommers \<longleftrightarrow> length ommers = D
     \<and> (\<forall>l < D. length leaves div 2 ^ l mod 2 = 1 \<longrightarrow>
          ommers ! l = subtree_hash C (empty_levels C D) leaves l (length leaves div 2 ^ l - 1))"

lemma frontier_root_loop_correct:
  assumes "length ommers = D - level" "level \<le> D"
    and "\<And>l. level \<le> l \<Longrightarrow> l < D \<Longrightarrow> length leaves div 2 ^ l mod 2 = 1 \<Longrightarrow>
          ommers ! (l - level) = subtree_hash C (empty_levels C D) leaves l (length leaves div 2 ^ l - 1)"
  shows "frontier_root_loop C (empty_levels C D) (length leaves) level ommers
      (subtree_hash C (empty_levels C D) leaves level (length leaves div 2 ^ level))
    = subtree_hash C (empty_levels C D) leaves D (length leaves div 2 ^ D)"
  using assms
proof (induction ommers arbitrary: level)
  case Nil
  then show ?case by simp
next
  case (Cons ommer rest)
  let ?E = "empty_levels C D" and ?i = "length leaves div 2 ^ level"
  have lt: "level < D" using Cons.prems(1,2) by simp
  have up: "length leaves div 2 ^ Suc level = ?i div 2" by (simp only: power_Suc2 div_mult2_eq)
  have acc: "(if ?i mod 2 = 1 then merge_node C ommer (subtree_hash C ?E leaves level ?i)
        else merge_node C (subtree_hash C ?E leaves level ?i) (?E ! level))
      = subtree_hash C ?E leaves (Suc level) (?i div 2)"
  proof (cases "?i mod 2 = 1")
    case True
    then have "2 * (?i div 2) = ?i - 1" "2 * (?i div 2) + 1 = ?i" by (simp_all add: odd_halves)
    moreover have "ommer = subtree_hash C ?E leaves level (?i - 1)"
      using Cons.prems(3) [of level] lt True by simp
    ultimately show ?thesis using True subtree_split [OF lt, of C leaves "?i div 2"] by simp
  next
    case False
    then have eq: "2 * (?i div 2) = ?i" by (simp add: even_halves)
    have "length leaves < (?i + 1) * 2 ^ level" by (rule below_next_block)
    then have "subtree_hash C ?E leaves level (?i + 1) = ?E ! level"
      by (intro subtree_beyond) simp
    then show ?thesis using False eq subtree_split [OF lt, of C leaves "?i div 2"] by simp
  qed
  have "frontier_root_loop C ?E (length leaves) (Suc level) rest
      (subtree_hash C ?E leaves (Suc level) (length leaves div 2 ^ Suc level))
    = subtree_hash C ?E leaves D (length leaves div 2 ^ D)"
  proof (rule Cons.IH)
    show "length rest = D - Suc level" using Cons.prems(1) by simp
    show "Suc level \<le> D" using lt by simp
    show "rest ! (l - Suc level) = subtree_hash C ?E leaves l (length leaves div 2 ^ l - 1)"
      if "Suc level \<le> l" "l < D" "length leaves div 2 ^ l mod 2 = 1" for l
    proof -
      have "l - level = Suc (l - Suc level)" using that by simp
      then show ?thesis using Cons.prems(3) [of l] that by simp
    qed
  qed
  then show ?case by (simp only: frontier_root_loop.simps acc up)
qed

lemma frontier_root_correct:
  assumes "frontier_ok C D leaves ommers" "length leaves < 2 ^ D"
  shows "frontier_root C ommers (empty_levels C D) (length leaves) = tree_root C D leaves"
proof -
  have "subtree_hash C (empty_levels C D) leaves 0 (length leaves) = empty_levels C D ! 0"
    by (rule subtree_beyond) simp
  then show ?thesis
    using frontier_root_loop_correct [of ommers D 0 leaves C] assms
    by (simp add: frontier_root_def tree_root_def frontier_ok_def)
qed

text \<open>
  The carry of an append: below \<open>level\<close> every bit of the old size is one, and \<open>acc\<close> is the
  completed subtree those leaves form with the new one.
\<close>

lemma frontier_append_correct:
  assumes "length ommers = D - level" "level \<le> D"
    and n: "length leaves + 1 = (i + 1) * 2 ^ level"
    and fits: "length leaves + 1 < 2 ^ D"
    and old: "\<And>l. level \<le> l \<Longrightarrow> l < D \<Longrightarrow> length leaves div 2 ^ l mod 2 = 1 \<Longrightarrow>
          ommers ! (l - level) = subtree_hash C (empty_levels C D) leaves l (length leaves div 2 ^ l - 1)"
  shows "\<exists>ommers'. frontier_append C ommers i (subtree_hash C (empty_levels C D) (leaves @ [x]) level i) = Some ommers'
      \<and> length ommers' = D - level
      \<and> (\<forall>l. level \<le> l \<and> l < D \<and> (length leaves + 1) div 2 ^ l mod 2 = 1 \<longrightarrow>
            ommers' ! (l - level)
              = subtree_hash C (empty_levels C D) (leaves @ [x]) l ((length leaves + 1) div 2 ^ l - 1))"
  using assms
proof (induction ommers arbitrary: level i)
  case Nil
  then have "(i + 1) * 2 ^ D < 2 ^ D" by simp
  then show ?case by simp
next
  case (Cons slot rest)
  let ?E = "empty_levels C D" and ?n = "length leaves"
  let ?T = "subtree_hash C ?E leaves" and ?T' = "subtree_hash C ?E (leaves @ [x])"
  have lt: "level < D" using Cons.prems(1) by simp
  have i: "?n div 2 ^ level = i" "(?n + 1) div 2 ^ level = i + 1"
  proof -
    show "(?n + 1) div 2 ^ level = i + 1" unfolding Cons.prems(3) by simp
    have "i * 2 ^ level + 2 ^ level = ?n + 1" using Cons.prems(3) by simp
    moreover have "(0::nat) < 2 ^ level" by simp
    ultimately have "i * 2 ^ level \<le> ?n" "?n < i * 2 ^ level + 2 ^ level" by linarith+
    then show "?n div 2 ^ level = i" by (intro div_nat_eqI) (simp_all add: mult.commute)
  qed
  show ?case
  proof (cases "even i")
    case True
    have "(slot # rest)[0 := ?T' level i] ! (l - level) = ?T' l ((?n + 1) div 2 ^ l - 1)"
      if l: "level \<le> l" "l < D" "(?n + 1) div 2 ^ l mod 2 = 1" for l
    proof (cases "l = level")
      case True
      then show ?thesis using i by simp
    next
      case False
      then obtain k where k: "l = level + Suc k" using l(1) by (metis add_Suc_right less_iff_Suc_add le_neq_implies_less)
      have "(?n + 1) div 2 ^ l = (i + 1) div 2 div 2 ^ k" "?n div 2 ^ l = i div 2 div 2 ^ k"
        unfolding k power_add power_Suc div_mult2_eq i by simp_all
      moreover have "(i + 1) div 2 = i div 2" using True by simp
      ultimately have same: "(?n + 1) div 2 ^ l = ?n div 2 ^ l" by simp
      have "(?n div 2 ^ l - 1 + 1) * 2 ^ l \<le> ?n" using l(3) same by (intro block_before) simp
      then have "?T' l (?n div 2 ^ l - 1) = ?T l (?n div 2 ^ l - 1)" by (rule subtree_append)
      moreover have "(slot # rest) ! (l - level) = ?T l (?n div 2 ^ l - 1)"
        using Cons.prems(5) [of l] l same by simp
      moreover have "0 < l - level" using k by simp
      ultimately show ?thesis using same by simp
    qed
    then show ?thesis using True Cons.prems(1) by (intro exI [of _ "?T' level i # rest"]) simp
  next
    case False
    then obtain j where j: "i = 2 * j + 1" by (auto elim: oddE)
    have "slot = ?T level (i - 1)" using Cons.prems(5) [of level] lt i j by simp
    also have "\<dots> = ?T' level (i - 1)"
    proof (rule subtree_append [symmetric])
      show "(i - 1 + 1) * 2 ^ level \<le> length leaves"
        using block_before [of "length leaves" level] i(1) j by simp
    qed
    finally have merged: "merge_node C slot (?T' level i) = ?T' (Suc level) j"
      using subtree_split [OF lt, of C "leaves @ [x]" j] j by simp
    have "\<exists>ommers'. frontier_append C rest j (?T' (Suc level) j) = Some ommers' \<and> length ommers' = D - Suc level
      \<and> (\<forall>l. Suc level \<le> l \<and> l < D \<and> (?n + 1) div 2 ^ l mod 2 = 1 \<longrightarrow>
            ommers' ! (l - Suc level) = ?T' l ((?n + 1) div 2 ^ l - 1))"
    proof (rule Cons.IH)
      show "length rest = D - Suc level" "Suc level \<le> D" "?n + 1 < 2 ^ D" using Cons.prems lt by simp_all
      show "?n + 1 = (j + 1) * 2 ^ Suc level" using Cons.prems(3) j by simp
      show "rest ! (l - Suc level) = ?T l (?n div 2 ^ l - 1)"
        if "Suc level \<le> l" "l < D" "?n div 2 ^ l mod 2 = 1" for l
      proof -
        have "l - level = Suc (l - Suc level)" using that by simp
        then show ?thesis using Cons.prems(5) [of l] that by simp
      qed
    qed
    then obtain ommers' where o: "frontier_append C rest j (?T' (Suc level) j) = Some ommers'"
      "length ommers' = D - Suc level"
      "\<And>l. Suc level \<le> l \<Longrightarrow> l < D \<Longrightarrow> (?n + 1) div 2 ^ l mod 2 = 1 \<Longrightarrow>
            ommers' ! (l - Suc level) = ?T' l ((?n + 1) div 2 ^ l - 1)" by blast
    have "(slot # ommers') ! (l - level) = ?T' l ((?n + 1) div 2 ^ l - 1)"
      if "level \<le> l" "l < D" "(?n + 1) div 2 ^ l mod 2 = 1" for l
    proof (cases "l = level")
      case True
      then have False using that(3) i j by simp
      then show ?thesis ..
    next
      case False
      then have "l - level = Suc (l - Suc level)" "Suc level \<le> l" using that by simp_all
      then show ?thesis using o(3) [of l] that by simp
    qed
    moreover have "frontier_append C (slot # rest) i (?T' level i) = Some (slot # ommers')"
      using o(1) merged j by simp
    ultimately show ?thesis using o(2) lt by (intro exI [of _ "slot # ommers'"]) simp
  qed
qed

lemma frontier_ok_append:
  assumes "frontier_ok C D leaves ommers" "length leaves + 1 < 2 ^ D"
  shows "\<exists>ommers'. frontier_append C ommers (length leaves) x = Some ommers'
     \<and> frontier_ok C D (leaves @ [x]) ommers'"
  using frontier_append_correct [of ommers D 0 leaves "length leaves" C x] assms
  by (auto simp: frontier_ok_def)

section \<open>Membership witnesses\<close>

lemma witness_climbs:
  assumes "level + togo \<le> D"
  shows "compute_root_from C idx (witness_siblings C (empty_levels C D) leaves level idx togo)
      (subtree_hash C (empty_levels C D) leaves level idx)
    = subtree_hash C (empty_levels C D) leaves (level + togo) (idx div 2 ^ togo)"
  using assms
proof (induction togo arbitrary: level idx)
  case (Suc togo)
  let ?T = "subtree_hash C (empty_levels C D) leaves"
  have lt: "level < D" using Suc.prems by simp
  have "(if idx mod 2 = 0 then merge_node C (?T level idx) (?T level (flip_low_bit idx))
         else merge_node C (?T level (flip_low_bit idx)) (?T level idx)) = ?T (Suc level) (idx div 2)"
  proof (cases "even idx")
    case True
    then obtain k where "idx = 2 * k" by (rule evenE)
    then show ?thesis using subtree_split [OF lt, of C leaves k]
      by (simp add: flip_low_bit_def del: subtree_hash.simps)
  next
    case False
    then obtain k where "idx = 2 * k + 1" by (rule oddE)
    then show ?thesis using subtree_split [OF lt, of C leaves k]
      by (simp add: flip_low_bit_def del: subtree_hash.simps)
  qed
  then show ?case
    using Suc.IH [of "Suc level" "idx div 2"] Suc.prems
    by (simp add: div_mult2_eq del: subtree_hash.simps)
qed simp

lemma tree_witness_verifies:
  assumes "tree_witness C D leaves position = Some (path, anchor)" "length leaves \<le> 2 ^ D"
  shows "compute_root C path (leaves ! position) = anchor \<and> anchor = tree_root C D leaves"
proof -
  have pos: "position < length leaves"
    and path: "path = (position, witness_siblings C (empty_levels C D) leaves 0 position D)"
    and anchor: "anchor = tree_root C D leaves"
    using assms(1) by (auto simp: tree_witness_def split: if_splits)
  have "position div 2 ^ D = 0" using pos assms(2) by simp
  then show ?thesis
    using witness_climbs [of 0 D D C position leaves] pos
    by (simp add: compute_root_def path anchor tree_root_def)
qed

section \<open>The pool's state\<close>

datatype v2_state_error = V2TreeFull | V2DoubleSpend | V2ZeroDigest | V2Decode string | V2Panicked

record shielded_v2_state =
  ommers :: "pq_digest list"
  v2_size :: nat
  anchor_ring :: "bytes list"
  v2_nullifiers :: "bytes btree_set"
  v2_commitments :: "bytes list"

definition v2_new :: "'a pool_prims_scheme \<Rightarrow> shielded_v2_state" where
  "v2_new C = \<lparr>ommers = replicate TREE_DEPTH PQ_ZERO, v2_size = 0,
     anchor_ring = [pq_to_bytes (empty_levels C TREE_DEPTH ! TREE_DEPTH)],
     v2_nullifiers = bt_empty, v2_commitments = []\<rparr>"

definition v2_root :: "'a pool_prims_scheme \<Rightarrow> shielded_v2_state \<Rightarrow> pq_digest" where
  "v2_root C s = frontier_root C (ommers s) (empty_levels C TREE_DEPTH) (v2_size s)"

definition v2_anchor_is_known :: "shielded_v2_state \<Rightarrow> pq_digest \<Rightarrow> bool" where
  "v2_anchor_is_known s a = list_ex (\<lambda>x. x = pq_to_bytes a) (anchor_ring s)"

definition v2_nullifier_seen :: "shielded_v2_state \<Rightarrow> pq_digest \<Rightarrow> bool" where
  "v2_nullifier_seen s nf = bt_contains (v2_nullifiers s) (pq_to_bytes nf)"

definition v2_is_empty :: "shielded_v2_state \<Rightarrow> bool" where
  "v2_is_empty s = (v2_commitments s = [] \<and> bt_is_empty (v2_nullifiers s))"

definition trim_ring :: "bytes list \<Rightarrow> bytes list" where
  "trim_ring ring = drop (length ring - ANCHOR_RING_LEN) ring"

definition append_commitment ::
  "'a pool_prims_scheme \<Rightarrow> pq_digest \<Rightarrow> shielded_v2_state \<Rightarrow> v2_state_error + shielded_v2_state" where
  "append_commitment C cm s =
     (if MAX_V2_NOTES \<le> v2_size s then Inl V2TreeFull
      else (case frontier_append C (ommers s) (v2_size s) cm of
              None \<Rightarrow> Inl V2TreeFull
            | Some om \<Rightarrow>
                (let s = s\<lparr>ommers := om, v2_size := v2_size s + 1,
                           v2_commitments := v2_commitments s @ [pq_to_bytes cm]\<rparr>
                 in Inr (s\<lparr>anchor_ring := trim_ring (anchor_ring s @ [pq_to_bytes (v2_root C s)])\<rparr>))))"

fun append_all ::
  "'a pool_prims_scheme \<Rightarrow> pq_digest list \<Rightarrow> shielded_v2_state \<Rightarrow> v2_state_error + shielded_v2_state" where
  "append_all C [] s = Inr s"
| "append_all C (cm # cms) s = (case append_commitment C cm s of
      Inl e \<Rightarrow> Inl e
    | Inr s' \<Rightarrow> append_all C cms s')"

fun check_nullifiers ::
  "bytes btree_set \<Rightarrow> bytes btree_set \<Rightarrow> pq_digest list \<Rightarrow> v2_state_error option" where
  "check_nullifiers spent batch [] = None"
| "check_nullifiers spent batch (nf # nfs) =
     (if nf = PQ_ZERO then Some V2ZeroDigest
      else if \<not> is_canonical nf then Some (V2Decode ''nullifier'')
      else if bt_contains spent (pq_to_bytes nf) \<or> bt_contains batch (pq_to_bytes nf) then Some V2DoubleSpend
      else check_nullifiers spent (bs_insert (pq_to_bytes nf) batch) nfs)"

definition v2_apply ::
  "'a pool_prims_scheme \<Rightarrow> pq_digest list \<Rightarrow> pq_digest list \<Rightarrow> shielded_v2_state \<Rightarrow> v2_state_error + shielded_v2_state" where
  "v2_apply C nfs cms s =
     (case checked_add 64 (v2_size s) (length cms) of
        None \<Rightarrow> Inl V2TreeFull
      | Some new_size \<Rightarrow>
          if MAX_V2_NOTES < new_size then Inl V2TreeFull
          else if PQ_ZERO \<in> set cms then Inl V2ZeroDigest
          else if \<not> list_all is_canonical cms then Inl (V2Decode ''commitment'')
          else (case check_nullifiers (v2_nullifiers s) bt_empty nfs of
                  Some e \<Rightarrow> Inl e
                | None \<Rightarrow>
                    (let s = s\<lparr>v2_nullifiers := fold (\<lambda>nf. bs_insert (pq_to_bytes nf)) nfs (v2_nullifiers s)\<rparr>
                     in case append_all C cms s of
                          Inl e \<Rightarrow> Inl V2Panicked
                        | Inr s' \<Rightarrow> Inr s')))"

definition v2_commitment :: "'a pool_prims_scheme \<Rightarrow> shielded_v2_state \<Rightarrow> bytes" where
  "v2_commitment C s = blake3 C
     (ascii ''sov-shielded-v2-state-v1'' @ to_le_bytes 8 (v2_size s) @ pq_to_bytes (v2_root C s)
      @ to_le_bytes 8 (length (anchor_ring s)) @ concat (anchor_ring s)
      @ to_le_bytes 8 (length (bt_keys (v2_nullifiers s))) @ concat (bt_keys (v2_nullifiers s)))"

definition v2_snapshot :: "shielded_v2_state \<Rightarrow> bytes list \<times> bytes list" where
  "v2_snapshot s = (v2_commitments s, bt_keys (v2_nullifiers s))"

text \<open>
  A pool whose frontier summarises \<open>leaves\<close>: the reachable states, by \<open>v2_new_inv\<close> and
  \<open>v2_apply_inv\<close>.
\<close>

definition v2_inv :: "'a pool_prims_scheme \<Rightarrow> pq_digest list \<Rightarrow> shielded_v2_state \<Rightarrow> bool" where
  "v2_inv C leaves s \<longleftrightarrow> v2_size s = length leaves \<and> length leaves \<le> MAX_V2_NOTES
     \<and> frontier_ok C TREE_DEPTH leaves (ommers s) \<and> v2_commitments s = map pq_to_bytes leaves
     \<and> anchor_ring s \<noteq> [] \<and> length (anchor_ring s) \<le> ANCHOR_RING_LEN
     \<and> last (anchor_ring s) = pq_to_bytes (tree_root C TREE_DEPTH leaves)"

lemma v2_capacity: "n \<le> MAX_V2_NOTES \<Longrightarrow> n < 2 ^ TREE_DEPTH"
  by (simp add: MAX_V2_NOTES_def MAX_TREE_LEAVES_def TREE_DEPTH_def)

lemma v2_root_is_tree_root: "v2_inv C leaves s \<Longrightarrow> v2_root C s = tree_root C TREE_DEPTH leaves"
  by (simp add: v2_inv_def v2_root_def frontier_root_correct v2_capacity)

lemma v2_new_inv: "v2_inv C [] (v2_new C)"
  by (simp add: v2_inv_def v2_new_def frontier_ok_def tree_root_def subtree_beyond
      MAX_V2_NOTES_def MAX_TREE_LEAVES_def ANCHOR_RING_LEN_def MAX_V2_COMMITMENTS_PER_BLOCK_def
      ANCHOR_HORIZON_BLOCKS_def TREE_DEPTH_def)

lemma append_commitment_inv:
  assumes inv: "v2_inv C leaves s" and room: "length leaves < MAX_V2_NOTES"
  shows "\<exists>s'. append_commitment C cm s = Inr s' \<and> v2_inv C (leaves @ [cm]) s'
     \<and> v2_nullifiers s' = v2_nullifiers s"
proof -
  have fits: "length leaves + 1 < 2 ^ TREE_DEPTH" using room by (intro v2_capacity) simp
  obtain om where om: "frontier_append C (ommers s) (length leaves) cm = Some om"
    "frontier_ok C TREE_DEPTH (leaves @ [cm]) om"
    using frontier_ok_append [OF _ fits, of C "ommers s" cm] inv by (auto simp: v2_inv_def)
  let ?s = "s\<lparr>ommers := om, v2_size := v2_size s + 1, v2_commitments := v2_commitments s @ [pq_to_bytes cm]\<rparr>"
  have root: "v2_root C ?s = tree_root C TREE_DEPTH (leaves @ [cm])"
    using frontier_root_correct [OF om(2)] fits inv by (simp add: v2_root_def v2_inv_def)
  let ?s' = "?s\<lparr>anchor_ring := trim_ring (anchor_ring ?s @ [pq_to_bytes (v2_root C ?s)])\<rparr>"
  have "append_commitment C cm s = Inr ?s'"
    using inv room om(1) by (simp add: append_commitment_def v2_inv_def Let_def)
  moreover have "v2_inv C (leaves @ [cm]) ?s'"
    using inv room om(2) root
    by (simp add: v2_inv_def trim_ring_def ANCHOR_RING_LEN_def MAX_V2_COMMITMENTS_PER_BLOCK_def
        ANCHOR_HORIZON_BLOCKS_def)
  ultimately show ?thesis by (intro exI [of _ ?s']) simp
qed

lemma append_all_inv:
  assumes "v2_inv C leaves s" "length leaves + length cms \<le> MAX_V2_NOTES"
  shows "\<exists>s'. append_all C cms s = Inr s' \<and> v2_inv C (leaves @ cms) s' \<and> v2_nullifiers s' = v2_nullifiers s"
  using assms
proof (induction cms arbitrary: leaves s)
  case (Cons cm cms)
  obtain s1 where s1: "append_commitment C cm s = Inr s1" "v2_inv C (leaves @ [cm]) s1"
    "v2_nullifiers s1 = v2_nullifiers s"
    using append_commitment_inv [OF Cons.prems(1), of cm] Cons.prems(2) by auto
  then show ?case using Cons.IH [OF s1(2)] Cons.prems(2) by auto
qed simp

lemma v2_inv_nullifiers [simp]: "v2_inv C leaves (s\<lparr>v2_nullifiers := ns\<rparr>) = v2_inv C leaves s"
  by (simp add: v2_inv_def)

lemma check_nullifiers_None:
  "check_nullifiers spent batch nfs = None \<longleftrightarrow>
     distinct (map pq_to_bytes nfs) \<and> (\<forall>nf \<in> set nfs. nf \<noteq> PQ_ZERO \<and> is_canonical nf
       \<and> \<not> bt_contains spent (pq_to_bytes nf) \<and> \<not> bt_contains batch (pq_to_bytes nf))"
  by (induction nfs arbitrary: batch) (auto simp: image_iff)

lemma fold_spend: "bt_contains (fold (\<lambda>nf. bs_insert (pq_to_bytes nf)) nfs m) k
    \<longleftrightarrow> k \<in> pq_to_bytes ` set nfs \<or> bt_contains m k"
  by (induction nfs arbitrary: m) auto

lemma v2_apply_inv:
  assumes inv: "v2_inv C leaves s" and ok: "v2_apply C nfs cms s = Inr s'"
  shows "v2_inv C (leaves @ cms) s'"
    and "v2_nullifier_seen s' nf \<longleftrightarrow> pq_to_bytes nf \<in> pq_to_bytes ` set nfs \<or> v2_nullifier_seen s nf"
    and "distinct (map pq_to_bytes nfs)" and "nf \<in> set nfs \<Longrightarrow> \<not> v2_nullifier_seen s nf"
proof -
  let ?s = "s\<lparr>v2_nullifiers := fold (\<lambda>nf. bs_insert (pq_to_bytes nf)) nfs (v2_nullifiers s)\<rparr>"
  have fit: "length leaves + length cms \<le> MAX_V2_NOTES"
    and chk: "check_nullifiers (v2_nullifiers s) bt_empty nfs = None"
    and app: "append_all C cms ?s = Inr s'"
    using ok inv by (auto simp: v2_apply_def v2_inv_def Let_def split: option.splits if_splits sum.splits)
  have "v2_inv C leaves ?s" using inv by simp
  from append_all_inv [OF this fit] app
  have "v2_inv C (leaves @ cms) s' \<and> v2_nullifiers s' = v2_nullifiers ?s" by auto
  then show "v2_inv C (leaves @ cms) s'"
    "v2_nullifier_seen s' nf \<longleftrightarrow> pq_to_bytes nf \<in> pq_to_bytes ` set nfs \<or> v2_nullifier_seen s nf"
    by (simp_all add: v2_nullifier_seen_def fold_spend)
  show "distinct (map pq_to_bytes nfs)" "nf \<in> set nfs \<Longrightarrow> \<not> v2_nullifier_seen s nf"
    using chk by (auto simp: check_nullifiers_None v2_nullifier_seen_def)
qed

lemma v2_apply_no_panic:
  assumes "v2_inv C leaves s"
  shows "v2_apply C nfs cms s \<noteq> Inl V2Panicked"
proof
  assume bad: "v2_apply C nfs cms s = Inl V2Panicked"
  have "check_nullifiers sp b ns \<noteq> Some V2Panicked" for sp b ns
    by (induction sp b ns rule: check_nullifiers.induct) auto
  then have "length leaves + length cms \<le> MAX_V2_NOTES
     \<and> (\<exists>e. append_all C cms (s\<lparr>v2_nullifiers := fold (\<lambda>nf. bs_insert (pq_to_bytes nf)) nfs (v2_nullifiers s)\<rparr>) = Inl e)"
    using bad assms by (auto simp: v2_apply_def v2_inv_def Let_def split: option.splits if_splits sum.splits)
  moreover have "v2_inv C leaves (s\<lparr>v2_nullifiers := fold (\<lambda>nf. bs_insert (pq_to_bytes nf)) nfs (v2_nullifiers s)\<rparr>)"
    using assms by simp
  ultimately show False using append_all_inv by fastforce
qed

section \<open>Properties\<close>

text \<open>A history of the pool: each pair of nullifiers and commitments is offered in turn, and one that is
  refused leaves the state as it is.  The second component collects the accepted commitments.\<close>

fun v2_run ::
  "'a pool_prims_scheme \<Rightarrow> (pq_digest list \<times> pq_digest list) list \<Rightarrow> shielded_v2_state \<times> pq_digest list
     \<Rightarrow> shielded_v2_state \<times> pq_digest list" where
  "v2_run C [] (s, leaves) = (s, leaves)"
| "v2_run C ((nfs, cms) # xs) (s, leaves) = (case v2_apply C nfs cms s of
      Inl _ \<Rightarrow> v2_run C xs (s, leaves)
    | Inr s' \<Rightarrow> v2_run C xs (s', leaves @ cms))"

lemma v2_run_inv: "v2_inv C leaves s \<Longrightarrow> v2_run C xs (s, leaves) = (s', leaves') \<Longrightarrow> v2_inv C leaves' s'"
proof (induction C xs "(s, leaves)" arbitrary: s leaves rule: v2_run.induct)
  case (2 C nfs cms xs s leaves)
  then show ?case using v2_apply_inv(1) [OF "2.prems"(1), of nfs cms] by (auto split: sum.splits)
qed simp

lemma v2_run_spent:
  "v2_run C xs (s, leaves) = (s', leaves') \<Longrightarrow> v2_inv C leaves s \<Longrightarrow> v2_nullifier_seen s nf \<Longrightarrow> v2_nullifier_seen s' nf"
proof (induction C xs "(s, leaves)" arbitrary: s leaves rule: v2_run.induct)
  case (2 C nfs cms xs s leaves)
  show ?case
  proof (cases "v2_apply C nfs cms s")
    case (Inl e)
    then show ?thesis using 2 by simp
  next
    case (Inr t)
    then show ?thesis
      using "2.hyps"(2) [OF Inr] "2.prems" v2_apply_inv(1) [OF "2.prems"(2) Inr] v2_apply_inv(2) [OF "2.prems"(2) Inr, of nf]
      by simp
  qed
qed simp

lemma v2_apply_accepts:
  assumes inv: "v2_inv C leaves s" and fit: "length leaves + length cms \<le> MAX_V2_NOTES"
    and cms: "PQ_ZERO \<notin> set cms" "list_all is_canonical cms"
    and nfs: "distinct (map pq_to_bytes nfs)"
      "\<forall>nf \<in> set nfs. nf \<noteq> PQ_ZERO \<and> is_canonical nf \<and> \<not> v2_nullifier_seen s nf"
  shows "\<exists>s'. v2_apply C nfs cms s = Inr s'"
proof -
  let ?s = "s\<lparr>v2_nullifiers := fold (\<lambda>nf. bs_insert (pq_to_bytes nf)) nfs (v2_nullifiers s)\<rparr>"
  obtain s' where "append_all C cms ?s = Inr s'" using append_all_inv [of C leaves ?s cms] inv fit by auto
  moreover have "length leaves + length cms < 2 ^ 64"
    using fit by (simp add: MAX_V2_NOTES_def MAX_TREE_LEAVES_def TREE_DEPTH_def)
  moreover have "check_nullifiers (v2_nullifiers s) bt_empty nfs = None"
    using nfs by (simp add: check_nullifiers_None v2_nullifier_seen_def bt_contains_def)
  ultimately show ?thesis
    using inv fit cms by (simp add: v2_apply_def v2_inv_def checked_add_def Let_def)
qed

text \<open>C16. After any history from the empty pool, the root computed from the frontier of ommers is the root of
  the complete tree over every commitment accepted so far, in order; the root is the newest entry
  of the anchor ring, which never outgrows its capacity; and no call panics on a missing ommer.\<close>

theorem v2_frontier_refines_tree:
  assumes "v2_run C xs (v2_new C, []) = (s, leaves)"
  shows "v2_root C s = tree_root C TREE_DEPTH leaves
    \<and> v2_commitments s = map pq_to_bytes leaves \<and> v2_size s = length leaves
    \<and> v2_anchor_is_known s (v2_root C s) \<and> length (anchor_ring s) \<le> ANCHOR_RING_LEN
    \<and> v2_apply C nfs cms s \<noteq> Inl V2Panicked"
proof -
  have inv: "v2_inv C leaves s" using v2_run_inv [OF v2_new_inv assms] .
  then have "pq_to_bytes (v2_root C s) \<in> set (anchor_ring s)"
    using v2_root_is_tree_root [OF inv] last_in_set [of "anchor_ring s"] by (simp add: v2_inv_def)
  then show ?thesis
    using inv v2_root_is_tree_root [OF inv] v2_apply_no_panic [OF inv]
    by (auto simp: v2_inv_def v2_anchor_is_known_def list_ex_iff)
qed

definition sample_pool :: pool_prims where
  "sample_pool = plain_pool\<lparr>rescue_merge := \<lambda>d l r. [d, hd l, hd r, 1]\<rparr>"

theorem v2_frontier_refines_tree_witness:
  "let r = v2_run sample_pool [([[1, 0, 0, 0]], [[5, 0, 0, 0], [6, 0, 0, 0]]), ([[1, 0, 0, 0]], [])] (v2_new sample_pool, [])
   in v2_root sample_pool (fst r) = tree_root sample_pool TREE_DEPTH (snd r)
      \<and> v2_apply sample_pool [[2, 0, 0, 0]] [[7, 0, 0, 0]] (fst r) \<noteq> Inl V2Panicked"
  unfolding Let_def using v2_frontier_refines_tree [OF prod.collapse [symmetric]] by blast

text \<open>C17. A v2 nullifier is spent at most once in the history of the pool: once an accepted batch has
  spent it, every later batch that contains it is refused, however many batches lie between.\<close>

theorem v2_no_double_spend:
  assumes "v2_run C xs (v2_new C, []) = (s, leaves)"
    and "v2_apply C nfs cms s = Inr s1" and "nf \<in> set nfs"
    and "v2_run C ys (s1, leaves @ cms) = (s2, leaves2)" and "nf \<in> set nfs'"
  shows "\<exists>e. v2_apply C nfs' cms' s2 = Inl e"
proof -
  have inv: "v2_inv C leaves s" using v2_run_inv [OF v2_new_inv assms(1)] .
  have inv1: "v2_inv C (leaves @ cms) s1" using v2_apply_inv(1) [OF inv assms(2)] .
  have "v2_nullifier_seen s1 nf" using v2_apply_inv(2) [OF inv assms(2), of nf] assms(3) by simp
  then have "v2_nullifier_seen s2 nf" using v2_run_spent [OF assms(4) inv1] by simp
  then have "v2_apply C nfs' cms' s2 \<noteq> Inr s3" for s3
    using v2_apply_inv(4) [OF v2_run_inv [OF inv1 assms(4)], of nfs' cms' s3 nf] assms(5) by blast
  then show ?thesis by (cases "v2_apply C nfs' cms' s2") auto
qed

theorem v2_no_double_spend_witness:
  "\<exists>s1. v2_apply sample_pool [[1, 0, 0, 0]] [[5, 0, 0, 0]] (v2_new sample_pool) = Inr s1
     \<and> (\<exists>e. v2_apply sample_pool [[2, 0, 0, 0], [1, 0, 0, 0]] [[6, 0, 0, 0]] s1 = Inl e)"
proof -
  obtain s1 where s1: "v2_apply sample_pool [[1, 0, 0, 0]] [[5, 0, 0, 0]] (v2_new sample_pool) = Inr s1"
    using v2_apply_accepts [OF v2_new_inv, of "[[5, 0, 0, 0]]" "[[1, 0, 0, 0]]" sample_pool]
    by (auto simp: MAX_V2_NOTES_def MAX_TREE_LEAVES_def TREE_DEPTH_def PQ_ZERO_def is_canonical_def FELT_MODULUS_def
        v2_nullifier_seen_def v2_new_def bt_contains_def)
  then have "\<exists>e. v2_apply sample_pool [[2, 0, 0, 0], [1, 0, 0, 0]] [[6, 0, 0, 0]] s1 = Inl e"
    using v2_no_double_spend [of sample_pool "[]" "v2_new sample_pool" "[]" "[[1, 0, 0, 0]]" "[[5, 0, 0, 0]]" s1
        "[1, 0, 0, 0]" "[]" s1 "[[5, 0, 0, 0]]" "[[2, 0, 0, 0], [1, 0, 0, 0]]"] by simp
  with s1 show ?thesis by blast
qed

text \<open>C18. A membership witness produced for a note of the v2 tree climbs to the tree's root, and to no other
  root: the authentication path of every position present verifies against the current anchor.\<close>

theorem v2_witness_verifies:
  assumes "position < length leaves" "length leaves \<le> MAX_TREE_LEAVES"
  shows "\<exists>path. tree_witness C TREE_DEPTH leaves position = Some (path, tree_root C TREE_DEPTH leaves)
     \<and> compute_root C path (leaves ! position) = tree_root C TREE_DEPTH leaves \<and> length (snd path) = TREE_DEPTH"
proof -
  have cap: "length leaves \<le> 2 ^ TREE_DEPTH"
    using assms(2) by (simp add: MAX_TREE_LEAVES_def TREE_DEPTH_def)
  obtain path where path: "tree_witness C TREE_DEPTH leaves position = Some (path, tree_root C TREE_DEPTH leaves)"
    using assms(1) by (simp add: tree_witness_def)
  moreover have "length (witness_siblings C es leaves l idx togo) = togo" for es l idx togo
    by (induction togo arbitrary: l idx) simp_all
  ultimately show ?thesis
    using tree_witness_verifies [OF path cap] assms(1) by (auto simp: tree_witness_def)
qed

theorem v2_witness_verifies_witness:
  "\<exists>path. compute_root sample_pool path [6, 0, 0, 0]
     = tree_root sample_pool TREE_DEPTH [[5, 0, 0, 0], [6, 0, 0, 0]]"
  using v2_witness_verifies [of 1 "[[5, 0, 0, 0], [6, 0, 0, 0]]" sample_pool]
  by (auto simp: MAX_TREE_LEAVES_def TREE_DEPTH_def)

end
