(* ===== verification/Compliance.thy ===== *)
theory Compliance
  imports Crypto
begin

text \<open>
  The crate \<open>sov-compliance\<close>: the transfer controls and the spend-velocity limit an issuer
  can attach to an asset (\<open>controls.rs\<close>), and the off-chain M-of-N authorization policy
  (\<open>multisig.rs\<close>).
\<close>

section \<open>Transfer controls\<close>

datatype transfer_control =
    Unrestricted
  | AllowList "account_id btree_set"
  | DenyList "account_id btree_set"

record spend_limit =
  max_per_window :: balance
  window_blocks :: nat

record spend_window =
  window_start :: nat
  spent :: balance

record compliance_policy =
  frozen :: bool
  transfer_control :: transfer_control
  spend_limit :: "spend_limit option"

datatype compliance_error =
    Frozen
  | CounterpartyBlocked string
  | SpendLimitExceeded (sle_limit: nat) (sle_window_spent: nat) (sle_attempted: nat)
  | ComplianceOverflow

definition spend_window_default :: spend_window where
  "spend_window_default = \<lparr>window_start = 0, spent = 0\<rparr>"

definition unrestricted_policy :: compliance_policy where
  "unrestricted_policy = \<lparr>frozen = False, transfer_control = Unrestricted, spend_limit = None\<rparr>"

definition permits :: "transfer_control \<Rightarrow> account_id \<Rightarrow> bool" where
  "permits c to = (case c of
      Unrestricted \<Rightarrow> True
    | AllowList s \<Rightarrow> bt_contains s to
    | DenyList s \<Rightarrow> \<not> bt_contains s to)"

definition roll_window :: "spend_limit \<Rightarrow> nat \<Rightarrow> spend_window \<Rightarrow> spend_window" where
  "roll_window limit height w =
     (if window_blocks limit \<le> saturating_sub height (window_start w)
      then \<lparr>window_start = height, spent = 0\<rparr> else w)"

definition check_transfer ::
  "compliance_policy \<Rightarrow> account_id \<Rightarrow> balance \<Rightarrow> nat \<Rightarrow> spend_window \<Rightarrow> compliance_error + spend_window" where
  "check_transfer p to amount height w =
     (if frozen p then Inl Frozen
      else if \<not> permits (transfer_control p) to then Inl (CounterpartyBlocked to)
      else (case spend_limit p of
              None \<Rightarrow> Inr w
            | Some limit \<Rightarrow>
                (let base = roll_window limit height w
                 in case bal_add (spent base) amount of
                      None \<Rightarrow> Inl ComplianceOverflow
                    | Some new_spent \<Rightarrow>
                        if max_per_window limit < new_spent
                        then Inl (SpendLimitExceeded (max_per_window limit) (spent base) amount)
                        else Inr \<lparr>window_start = window_start base, spent = new_spent\<rparr>)))"

text \<open>A sequence of outgoing transfers \<open>(recipient, amount, height)\<close>, each approved in turn.\<close>

fun spend_run :: "compliance_policy \<Rightarrow> spend_window \<Rightarrow> (account_id \<times> balance \<times> nat) list \<Rightarrow> spend_window option" where
  "spend_run p w [] = Some w"
| "spend_run p w ((to, amount, height) # xs) = (case check_transfer p to amount height w of
      Inl _ \<Rightarrow> None
    | Inr w' \<Rightarrow> spend_run p w' xs)"

abbreviation run_amount :: "(account_id \<times> balance \<times> nat) list \<Rightarrow> nat" where
  "run_amount xs \<equiv> sum_list (map (\<lambda>(to, amount, height). amount) xs)"

lemma check_transfer_ok_iff:
  "check_transfer p to amount height w = Inr w' \<longleftrightarrow>
     \<not> frozen p \<and> permits (transfer_control p) to
     \<and> (case spend_limit p of
          None \<Rightarrow> w' = w
        | Some limit \<Rightarrow> w' = (roll_window limit height w)\<lparr>spent := spent (roll_window limit height w) + amount\<rparr>
            \<and> spent (roll_window limit height w) + amount < 2 ^ 128
            \<and> spent (roll_window limit height w) + amount \<le> max_per_window limit)"
  by (auto simp: check_transfer_def Let_def split: option.splits if_splits)

text \<open>While no rollover happens the recorded total grows with the run and stays within the cap.\<close>

lemma spend_run_same_window:
  assumes "spend_limit p = Some limit" "spend_run p w xs = Some w'"
    and "\<And>to a h. (to, a, h) \<in> set xs \<Longrightarrow> h < window_start w + window_blocks limit"
    and "spent w \<le> max_per_window limit" "0 < window_blocks limit"
  shows "spent w + run_amount xs \<le> max_per_window limit"
  using assms
proof (induction xs arbitrary: w)
  case (Cons x xs)
  obtain to a h where x: "x = (to, a, h)" by (cases x) auto
  have "h < window_start w + window_blocks limit" using Cons.prems(3) x by auto
  then have roll: "roll_window limit h w = w"
    using Cons.prems(5) by (auto simp: roll_window_def saturating_sub_def)
  obtain w1 where w1: "check_transfer p to a h w = Inr w1" "spend_run p w1 xs = Some w'"
    using Cons.prems(2) x by (auto split: sum.splits)
  then have w1_eq: "window_start w1 = window_start w" "spent w1 = spent w + a" "spent w1 \<le> max_per_window limit"
    using Cons.prems(1) by (auto simp: check_transfer_ok_iff roll)
  have "spent w1 + run_amount xs \<le> max_per_window limit"
    by (rule Cons.IH [OF Cons.prems(1) w1(2) _ w1_eq(3) Cons.prems(5)]) (use Cons.prems(3) x w1_eq in auto)
  then show ?case using x w1_eq by simp
qed simp

lemma spend_run_two_windows:
  assumes "spend_limit p = Some limit" "spend_run p w xs = Some w'"
    and "\<And>to a h. (to, a, h) \<in> set xs \<Longrightarrow> lo \<le> h \<and> h < lo + window_blocks limit"
    and "spent w \<le> max_per_window limit"
  shows "spent w + run_amount xs \<le> 2 * max_per_window limit"
  using assms
proof (induction xs arbitrary: w)
  case (Cons x xs)
  obtain to a h where x: "x = (to, a, h)" by (cases x) auto
  obtain w1 where w1: "check_transfer p to a h w = Inr w1" "spend_run p w1 xs = Some w'"
    using Cons.prems(2) x by (auto split: sum.splits)
  have bnd: "spent w1 \<le> max_per_window limit" and w1_eq: "w1 = (roll_window limit h w)\<lparr>spent := spent (roll_window limit h w) + a\<rparr>"
    using w1(1) Cons.prems(1) by (auto simp: check_transfer_ok_iff)
  show ?case
  proof (cases "window_blocks limit \<le> saturating_sub h (window_start w)")
    case True
    then have "window_start w1 = h" "spent w1 = a" using w1_eq by (simp_all add: roll_window_def)
    moreover have "\<And>to' a' h'. (to', a', h') \<in> set xs \<Longrightarrow> h' < h + window_blocks limit"
      using Cons.prems(3) x by (metis add_le_mono1 insertCI less_le_trans list.set(2))
    moreover have "0 < window_blocks limit" using Cons.prems(3) [of to a h] x by simp
    ultimately have "a + run_amount xs \<le> max_per_window limit"
      using spend_run_same_window [OF Cons.prems(1) w1(2)] bnd by auto
    then show ?thesis using Cons.prems(4) x by simp
  next
    case False
    then have "spent w1 = spent w + a" using w1_eq by (simp add: roll_window_def)
    moreover have "spent w1 + run_amount xs \<le> 2 * max_per_window limit"
      by (rule Cons.IH [OF Cons.prems(1) w1(2) _ bnd]) (use Cons.prems(3) x in auto)
    ultimately show ?thesis using x by simp
  qed
qed simp

lemma spend_run_any_window:
  assumes "spend_limit p = Some limit" "spend_run p w xs = Some w'"
    and "\<And>to a h. (to, a, h) \<in> set xs \<Longrightarrow> lo \<le> h \<and> h < lo + window_blocks limit"
  shows "run_amount xs \<le> 2 * max_per_window limit"
proof (cases xs)
  case (Cons x ys)
  obtain to a h where x: "x = (to, a, h)" by (cases x) auto
  obtain w1 where w1: "check_transfer p to a h w = Inr w1" "spend_run p w1 ys = Some w'"
    using assms(2) Cons x by (auto split: sum.splits)
  then have a: "spent w1 \<le> max_per_window limit" "a \<le> spent w1" using assms(1) by (auto simp: check_transfer_ok_iff)
  have "spent w1 + run_amount ys \<le> 2 * max_per_window limit"
    by (rule spend_run_two_windows [OF assms(1) w1(2) _ a(1), of lo]) (use assms(3) Cons in auto)
  then show ?thesis using a(2) Cons x by simp
qed simp

lemma two_windows_attained:
  assumes "spend_limit p = Some limit" "max_per_window limit < 2 ^ 128" "\<not> frozen p" "permits (transfer_control p) to"
    and "2 \<le> window_blocks limit"
  shows "spend_run p \<lparr>window_start = start, spent = 0\<rparr>
      [(to, max_per_window limit, start + window_blocks limit - 1), (to, max_per_window limit, start + window_blocks limit)]
    = Some \<lparr>window_start = start + window_blocks limit, spent = max_per_window limit\<rparr>"
proof -
  obtain n where n: "window_blocks limit = Suc (Suc n)" using assms(5) by (metis Suc_le_D numeral_2_eq_2 Suc_le_mono)
  have "check_transfer p to (max_per_window limit) (start + window_blocks limit - 1) \<lparr>window_start = start, spent = 0\<rparr>
      = Inr \<lparr>window_start = start, spent = max_per_window limit\<rparr>"
    unfolding check_transfer_ok_iff using assms by (simp add: roll_window_def saturating_sub_def n)
  moreover have "check_transfer p to (max_per_window limit) (start + window_blocks limit)
      \<lparr>window_start = start, spent = max_per_window limit\<rparr>
      = Inr \<lparr>window_start = start + window_blocks limit, spent = max_per_window limit\<rparr>"
    unfolding check_transfer_ok_iff using assms by (simp add: roll_window_def saturating_sub_def n)
  ultimately show ?thesis by simp
qed

section \<open>Off-chain M-of-N policies\<close>

record multisig_policy =
  mp_signers :: "public_key list"
  mp_threshold :: nat

record proposal =
  prop_account :: account_id
  prop_nonce :: nat
  prop_payload :: bytes
  prop_expiry_height :: nat

record policy_approval =
  pa_signer :: public_key
  pa_signature :: signature

datatype multisig_error =
    EmptySigners
  | ZeroThreshold
  | ThresholdExceedsSigners nat nat
  | DuplicateSigner

definition multisig_policy_new :: "public_key list \<Rightarrow> nat \<Rightarrow> multisig_error + multisig_policy" where
  "multisig_policy_new signers threshold =
     (if signers = [] then Inl EmptySigners
      else if threshold = 0 then Inl ZeroThreshold
      else if length signers < threshold then Inl (ThresholdExceedsSigners threshold (length signers))
      else if \<not> distinct signers then Inl DuplicateSigner
      else Inr \<lparr>mp_signers = signers, mp_threshold = threshold\<rparr>)"

definition is_signer :: "multisig_policy \<Rightarrow> public_key \<Rightarrow> bool" where
  "is_signer p k = (k \<in> set (mp_signers p))"

text \<open>Borsh writes a string or a byte vector as its length in four bytes, little-endian, and its bytes.\<close>

definition borsh_vec :: "bytes \<Rightarrow> bytes" where
  "borsh_vec bs = to_le_bytes 4 (length bs) @ bs"

definition proposal_hash :: "'a crypto_scheme \<Rightarrow> proposal \<Rightarrow> hash" where
  "proposal_hash C p = blake3 C (borsh_vec (ascii (prop_account p)) @ to_le_bytes 8 (prop_nonce p)
     @ borsh_vec (prop_payload p) @ to_le_bytes 8 (prop_expiry_height p))"

definition approval_signing_bytes :: "'a crypto_scheme \<Rightarrow> hash \<Rightarrow> public_key \<Rightarrow> bytes" where
  "approval_signing_bytes C h signer = borsh_vec (ascii ''sov.multisig.v1'') @ h @ borsh_public_key C signer"

definition approval_verify :: "'a crypto_scheme \<Rightarrow> policy_approval \<Rightarrow> proposal \<Rightarrow> bool" where
  "approval_verify C a p =
     pk_verify C (pa_signer a) (approval_signing_bytes C (proposal_hash C p) (pa_signer a)) (pa_signature a)"

definition verified_signers ::
  "'a crypto_scheme \<Rightarrow> multisig_policy \<Rightarrow> proposal \<Rightarrow> policy_approval list \<Rightarrow> public_key set" where
  "verified_signers C pol p approvals =
     set (map pa_signer (filter (\<lambda>a. is_signer pol (pa_signer a) \<and> approval_verify C a p) approvals))"

definition approval_count :: "'a crypto_scheme \<Rightarrow> multisig_policy \<Rightarrow> proposal \<Rightarrow> policy_approval list \<Rightarrow> nat" where
  "approval_count C pol p approvals = card (verified_signers C pol p approvals) mod 2 ^ 32"

definition is_authorized ::
  "'a crypto_scheme \<Rightarrow> multisig_policy \<Rightarrow> proposal \<Rightarrow> policy_approval list \<Rightarrow> nat \<Rightarrow> bool" where
  "is_authorized C pol p approvals current_height =
     (current_height \<le> prop_expiry_height p \<and> mp_threshold pol \<le> approval_count C pol p approvals)"

section \<open>Properties\<close>

text \<open>C28. The velocity limit of a token policy.  Within any span of \<open>window_blocks\<close> consecutive blocks, the
  transfers a policy approves for a holder sum to at most twice \<open>max_per_window\<close>, whatever the
  window record was at the start; together with what a record within the limit had already counted
  they still do.  The factor two is attained by every policy with a window of at least two blocks
  that is not frozen and permits a recipient: from an empty record the full limit is approved in
  the last block of the window and once more in the next block, because the window starts anew at
  the first transfer after it has run out.\<close>

theorem velocity_limit_bound:
  assumes "spend_limit p = Some limit" "max_per_window limit < 2 ^ 128"
  shows "(\<forall>w xs w' lo. spend_run p w xs = Some w'
        \<and> (\<forall>(to, a, h) \<in> set xs. lo \<le> h \<and> h < lo + window_blocks limit)
      \<longrightarrow> run_amount xs \<le> 2 * max_per_window limit
        \<and> (spent w \<le> max_per_window limit \<longrightarrow> spent w + run_amount xs \<le> 2 * max_per_window limit))
    \<and> (\<not> frozen p \<and> permits (transfer_control p) to \<and> 2 \<le> window_blocks limit \<longrightarrow>
        (let h = start + window_blocks limit; xs = [(to, max_per_window limit, h - 1), (to, max_per_window limit, h)]
         in spend_run p \<lparr>window_start = start, spent = 0\<rparr> xs \<noteq> None \<and> run_amount xs = 2 * max_per_window limit
            \<and> (\<forall>(to, a, i) \<in> set xs. h - 1 \<le> i \<and> i < h - 1 + window_blocks limit)))"
proof (intro conjI allI impI)
  fix w xs w' lo
  assume run: "spend_run p w xs = Some w' \<and> (\<forall>(to, a, h) \<in> set xs. lo \<le> h \<and> h < lo + window_blocks limit)"
  then have span: "\<And>to a h. (to, a, h) \<in> set xs \<Longrightarrow> lo \<le> h \<and> h < lo + window_blocks limit" by blast
  show "run_amount xs \<le> 2 * max_per_window limit"
    using spend_run_any_window [OF assms(1) conjunct1 [OF run] span] .
  assume "spent w \<le> max_per_window limit"
  from spend_run_two_windows [OF assms(1) conjunct1 [OF run] span this]
  show "spent w + run_amount xs \<le> 2 * max_per_window limit" .
next
  assume "\<not> frozen p \<and> permits (transfer_control p) to \<and> 2 \<le> window_blocks limit"
  then show "let h = start + window_blocks limit; xs = [(to, max_per_window limit, h - 1), (to, max_per_window limit, h)]
      in spend_run p \<lparr>window_start = start, spent = 0\<rparr> xs \<noteq> None \<and> run_amount xs = 2 * max_per_window limit
        \<and> (\<forall>(to, a, i) \<in> set xs. h - 1 \<le> i \<and> i < h - 1 + window_blocks limit)"
    using two_windows_attained [OF assms, of to start] by (auto simp add: Let_def simp del: spend_run.simps)
qed

definition hundred_per_ten :: compliance_policy where
  "hundred_per_ten = \<lparr>frozen = False, transfer_control = Unrestricted,
     spend_limit = Some \<lparr>max_per_window = 100, window_blocks = 10\<rparr>\<rparr>"

theorem velocity_limit_bound_witness:
  "spend_run hundred_per_ten \<lparr>window_start = 1, spent = 0\<rparr> [(''bob'', 100, 10), (''bob'', 100, 11)] \<noteq> None
   \<and> spend_run hundred_per_ten \<lparr>window_start = 1, spent = 700\<rparr> [(''bob'', 60, 12), (''eve'', 40, 19)] \<noteq> None
   \<and> run_amount [(''bob'', 60, 12), (''eve'', 40, 19)] \<le> 2 * 100"
proof -
  note v = velocity_limit_bound [of hundred_per_ten "\<lparr>max_per_window = 100, window_blocks = 10\<rparr>" "''bob''" 1]
  have run: "spend_run hundred_per_ten \<lparr>window_start = 1, spent = 700\<rparr> [(''bob'', 60, 12), (''eve'', 40, 19)]
      = Some \<lparr>window_start = 12, spent = 100\<rparr>"
    by (simp add: hundred_per_ten_def check_transfer_def permits_def roll_window_def saturating_sub_def checked_add_def)
  have "run_amount [(''bob'', 60, 12), (''eve'', 40, 19)] \<le> 2 * max_per_window \<lparr>max_per_window = 100, window_blocks = 10\<rparr>"
    by (rule v [THEN conjunct1, rule_format, OF _ _ conjI [OF run], of 12, THEN conjunct1]) (auto simp: hundred_per_ten_def)
  moreover have "spend_run hundred_per_ten \<lparr>window_start = 1, spent = 0\<rparr> [(''bob'', 100, 10), (''bob'', 100, 11)] \<noteq> None"
    using v by (simp add: hundred_per_ten_def permits_def Let_def del: spend_run.simps)
  ultimately show ?thesis using run by simp
qed

end
