(* ===== verification/Ledger.thy ===== *)
theory Ledger
  imports Smt ShieldedPq Compliance
begin

text \<open>
  The world state of \<open>state/src/ledger.rs\<close> (with \<open>account.rs\<close> and \<open>vault.rs\<close>): the stores, the
  counters of value held outside the accounts, the commitment that authenticates them, and
  the journal from which a block is undone.

  Every write follows the same steps as the code: it records the previous value in the
  journal when one is being kept, changes the store, and writes or removes the committed
  leaf.  \<open>commit\<close> is \<open>commitment.insert\<close> for \<open>Some\<close> and \<open>commitment.remove\<close> for \<open>None\<close>; \<open>bt_put\<close> is
  the same choice on a store.  Borsh encodings are fields of the record \<open>codec\<close>.
\<close>

section \<open>Accounts, vaults and the other records\<close>

record account =
  nonce :: nat
  balance :: balance
  locked :: balance
  unlock_height :: nat
  acct_key :: "public_key option"
  code :: "bytes option"

definition account_default :: account where
  "account_default = \<lparr>nonce = 0, balance = 0, locked = 0, unlock_height = 0, acct_key = None, code = None\<rparr>"

definition with_balance :: "balance \<Rightarrow> account" where
  "with_balance b = account_default\<lparr>balance := b\<rparr>"

definition account_total :: "account \<Rightarrow> balance option" where
  "account_total a = bal_add (balance a) (locked a)"

definition can_claim_vesting :: "account \<Rightarrow> nat \<Rightarrow> bool" where
  "can_claim_vesting a height = (locked a \<noteq> 0 \<and> unlock_height a \<le> height)"

definition is_controlled_by :: "account \<Rightarrow> public_key \<Rightarrow> bool" where
  "is_controlled_by a k = (acct_key a = Some k)"

definition account_is_empty :: "account \<Rightarrow> bool" where
  "account_is_empty a = (a = account_default)"

record vault =
  collateral :: balance
  debt :: balance

definition vault_default :: vault where "vault_default = \<lparr>collateral = 0, debt = 0\<rparr>"

definition vault_is_empty :: "vault \<Rightarrow> bool" where
  "vault_is_empty v = (collateral v = 0 \<and> debt v = 0)"

definition SCALE :: nat where "SCALE = 100000000"
definition SEED_XUS_USD_PRICE :: nat where "SEED_XUS_USD_PRICE = 100000000"
definition MIN_COLLATERAL_RATIO_PCT :: nat where "MIN_COLLATERAL_RATIO_PCT = 150"
definition ORACLE_ACCOUNT :: account_id where
  "ORACLE_ACCOUNT = ''96abb93854040db54394648061dcb1766d6f306de962a19ad3e7bdb5e19caa7f''"
definition XUSD_ISSUER :: account_id where "XUSD_ISSUER = ''xusd.reserve.sov''"
definition XUSD_SYMBOL :: string where "XUSD_SYMBOL = ''xUSD''"

definition collateral_usd :: "balance \<Rightarrow> nat \<Rightarrow> nat option" where
  "collateral_usd c price = map_option (\<lambda>v. v div SCALE) (checked_mul 128 c price)"

definition max_debt :: "balance \<Rightarrow> nat \<Rightarrow> nat option" where
  "max_debt c price = (case collateral_usd c price of
      None \<Rightarrow> None
    | Some usd \<Rightarrow> map_option (\<lambda>v. v div MIN_COLLATERAL_RATIO_PCT) (checked_mul 128 usd 100))"

definition is_healthy :: "balance \<Rightarrow> balance \<Rightarrow> nat \<Rightarrow> bool" where
  "is_healthy c d price = (case max_debt c price of Some m \<Rightarrow> d \<le> m | None \<Rightarrow> False)"

definition collateral_ratio_pct :: "balance \<Rightarrow> balance \<Rightarrow> nat \<Rightarrow> nat option" where
  "collateral_ratio_pct c d price =
     (if d = 0 then None
      else (case collateral_usd c price of
              None \<Rightarrow> None
            | Some usd \<Rightarrow> map_option (\<lambda>v. v div d) (checked_mul 128 usd 100)))"

record token_info =
  tok_issuer :: account_id
  tok_symbol :: string
  tok_issued :: balance
  tok_burned :: balance

definition token_supply :: "token_info \<Rightarrow> balance option" where
  "token_supply t = bal_sub (tok_issued t) (tok_burned t)"

record multisig =
  ms_signers :: "public_key list"
  ms_threshold :: nat

record multisig_proposal =
  mprop_account :: account_id
  mprop_action :: bytes
  approvers :: "nat list"

record nft_class =
  cls_issuer :: account_id
  cls_symbol :: string
  minted :: nat

record nft_token =
  nft_tok_owner :: account_id
  metadata :: bytes
  minted_height :: nat

record name_record =
  name_owner :: account_id
  registered_height :: nat

record htlc =
  locker :: account_id
  htlc_recipient :: account_id
  htlc_amount :: balance
  hashlock :: hash
  timeout_height :: nat

datatype undo_op =
    UAccount account_id "account option"
  | UContract account_id bytes "bytes option"
  | UToken hash "token_info option"
  | UTokenBalance hash account_id "balance option"
  | UTokenPolicy hash "compliance_policy option"
  | UTokenWindow hash account_id "spend_window option"
  | UHtlc hash "htlc option"
  | UNftClass hash "nft_class option"
  | UNft hash bytes "nft_token option"
  | UMultisig account_id "multisig option"
  | UProposal hash "multisig_proposal option"
  | UIntent hash
  | UShielded shielded_state
  | UMinedEmitted balance
  | UShieldedValue balance
  | UHtlcLocked balance
  | UDeshieldWindow nat balance
  | UShieldedV2 shielded_v2_state
  | UShieldedV2Value balance
  | UDeshieldV2Window nat balance
  | UVault account_id "vault option"
  | UVaultCollateral balance
  | UOraclePrice "nat option"

record ledger =
  undo :: "undo_op list option"
  accounts :: "(account_id, account) btree_map"
  contract_storage :: "(account_id \<times> bytes, bytes) btree_map"
  mined_emitted :: balance
  shielded_value :: balance
  shielded :: shielded_state
  shielded_v2_value :: balance
  shielded_v2 :: shielded_v2_state
  deshield_v2_window :: "nat \<times> balance"
  htlcs :: "(hash, htlc) btree_map"
  htlc_locked :: balance
  tokens :: "(hash, token_info) btree_map"
  token_balances :: "(hash \<times> account_id, balance) btree_map"
  token_policies :: "(hash, compliance_policy) btree_map"
  token_windows :: "(hash \<times> account_id, spend_window) btree_map"
  consumed_intents :: "hash btree_set"
  deshield_window :: "nat \<times> balance"
  nft_classes :: "(hash, nft_class) btree_map"
  nfts :: "(hash \<times> bytes, nft_token) btree_map"
  multisigs :: "(account_id, multisig) btree_map"
  proposals :: "(hash, multisig_proposal) btree_map"
  vaults :: "(account_id, vault) btree_map"
  vault_collateral :: balance
  oracle_price_set :: "nat option"
  commitment :: smt

record codec = pool_prims +
  borsh_balance :: "balance \<Rightarrow> bytes"
  borsh_account :: "account \<Rightarrow> bytes"
  borsh_token_info :: "token_info \<Rightarrow> bytes"
  borsh_policy :: "compliance_policy \<Rightarrow> bytes"
  borsh_spend_window :: "spend_window \<Rightarrow> bytes"
  borsh_window_pair :: "nat \<times> balance \<Rightarrow> bytes"
  borsh_htlcs :: "(hash \<times> htlc) list \<Rightarrow> bytes"
  borsh_nft_classes :: "(hash \<times> nft_class) list \<Rightarrow> bytes"
  borsh_nfts :: "((hash \<times> bytes) \<times> nft_token) list \<Rightarrow> bytes"
  borsh_multisigs :: "(account_id \<times> multisig) list \<Rightarrow> bytes"
  borsh_proposals :: "(hash \<times> multisig_proposal) list \<Rightarrow> bytes"
  borsh_vaults :: "(account_id \<times> vault) list \<Rightarrow> bytes"
  borsh_u128 :: "nat \<Rightarrow> bytes"

definition ledger_new :: "'a codec_scheme \<Rightarrow> ledger" where
  "ledger_new C = \<lparr>undo = None, accounts = bt_empty, contract_storage = bt_empty, mined_emitted = 0,
     shielded_value = 0, shielded = shielded_new C, shielded_v2_value = 0, shielded_v2 = v2_new C,
     deshield_v2_window = (0, 0), htlcs = bt_empty, htlc_locked = 0, tokens = bt_empty,
     token_balances = bt_empty, token_policies = bt_empty, token_windows = bt_empty,
     consumed_intents = bt_empty, deshield_window = (0, 0), nft_classes = bt_empty, nfts = bt_empty,
     multisigs = bt_empty, proposals = bt_empty, vaults = bt_empty, vault_collateral = 0,
     oracle_price_set = None, commitment = smt_new C TREE_HEIGHT\<rparr>"

section \<open>Identifiers and committed slots\<close>

definition token_asset_id :: "'a crypto_scheme \<Rightarrow> account_id \<Rightarrow> string \<Rightarrow> hash" where
  "token_asset_id C issuer symbol = blake3 C (ascii ''sov:asset:v1'' @ ascii issuer @ [0] @ ascii symbol)"

definition nft_class_id :: "'a crypto_scheme \<Rightarrow> account_id \<Rightarrow> string \<Rightarrow> hash" where
  "nft_class_id C issuer symbol = blake3 C (ascii ''sov:nft:v1'' @ ascii issuer @ [0] @ ascii symbol)"

definition sns_class :: "'a crypto_scheme \<Rightarrow> hash" where
  "sns_class C = blake3 C (ascii ''sov:sns:v1'')"

definition xusd_asset_id :: "'a crypto_scheme \<Rightarrow> hash" where
  "xusd_asset_id C = token_asset_id C XUSD_ISSUER XUSD_SYMBOL"

definition slot :: "'a crypto_scheme \<Rightarrow> account_id \<Rightarrow> hash" where
  "slot C i = blake3 C (ascii i)"

definition contract_slot :: "'a crypto_scheme \<Rightarrow> account_id \<Rightarrow> bytes \<Rightarrow> hash" where
  "contract_slot C i k = blake3 C (ascii i @ [1] @ k)"

definition reserved_slot :: "'a crypto_scheme \<Rightarrow> string \<Rightarrow> hash" where
  "reserved_slot C name = blake3 C (2 # ascii name)"

definition token_slot :: "'a crypto_scheme \<Rightarrow> hash \<Rightarrow> hash" where
  "token_slot C asset = blake3 C (3 # asset)"

definition token_balance_slot :: "'a crypto_scheme \<Rightarrow> hash \<Rightarrow> account_id \<Rightarrow> hash" where
  "token_balance_slot C asset holder = blake3 C (4 # asset @ ascii holder)"

definition token_policy_slot :: "'a crypto_scheme \<Rightarrow> hash \<Rightarrow> hash" where
  "token_policy_slot C asset = blake3 C (5 # asset)"

definition token_window_slot :: "'a crypto_scheme \<Rightarrow> hash \<Rightarrow> account_id \<Rightarrow> hash" where
  "token_window_slot C asset holder = blake3 C (6 # asset @ ascii holder)"

definition intent_slot :: "'a crypto_scheme \<Rightarrow> hash \<Rightarrow> hash" where
  "intent_slot C intent_id = blake3 C (7 # intent_id)"

section \<open>The commitment and the journal\<close>

definition commit :: "'a codec_scheme \<Rightarrow> hash \<Rightarrow> bytes option \<Rightarrow> ledger \<Rightarrow> ledger" where
  "commit C sl ov l = l\<lparr>commitment := (case ov of
      Some v \<Rightarrow> smt_insert C TREE_HEIGHT sl v (commitment l)
    | None \<Rightarrow> snd (smt_remove C TREE_HEIGHT sl (commitment l)))\<rparr>"

definition commit_counter :: "'a codec_scheme \<Rightarrow> string \<Rightarrow> balance \<Rightarrow> ledger \<Rightarrow> ledger" where
  "commit_counter C name v l =
     commit C (reserved_slot C name) (if v = 0 then None else Some (borsh_balance C v)) l"

definition recommit_shielded :: "'a codec_scheme \<Rightarrow> ledger \<Rightarrow> ledger" where
  "recommit_shielded C l = commit C (reserved_slot C ''sov:shielded'')
     (if shielded_is_empty (shielded l) then None else Some (shielded_commitment C (shielded l))) l"

definition recommit_shielded_v2 :: "'a codec_scheme \<Rightarrow> ledger \<Rightarrow> ledger" where
  "recommit_shielded_v2 C l = commit C (reserved_slot C ''sov:shielded_v2'')
     (if v2_is_empty (shielded_v2 l) then None else Some (v2_commitment C (shielded_v2 l))) l"

definition recommit_htlcs :: "'a codec_scheme \<Rightarrow> ledger \<Rightarrow> ledger" where
  "recommit_htlcs C l = commit C (reserved_slot C ''sov:htlcs'')
     (if bt_is_empty (htlcs l) then None else Some (blake3 C (borsh_htlcs C (bt_entries (htlcs l))))) l"

definition recommit_nft_classes :: "'a codec_scheme \<Rightarrow> ledger \<Rightarrow> ledger" where
  "recommit_nft_classes C l = commit C (reserved_slot C ''sov:nft_classes'')
     (if bt_is_empty (nft_classes l) then None
      else Some (blake3 C (borsh_nft_classes C (bt_entries (nft_classes l))))) l"

definition recommit_nfts :: "'a codec_scheme \<Rightarrow> ledger \<Rightarrow> ledger" where
  "recommit_nfts C l = commit C (reserved_slot C ''sov:nfts'')
     (if bt_is_empty (nfts l) then None else Some (blake3 C (borsh_nfts C (bt_entries (nfts l))))) l"

definition recommit_multisig :: "'a codec_scheme \<Rightarrow> ledger \<Rightarrow> ledger" where
  "recommit_multisig C l = commit C (reserved_slot C ''sov:multisig'')
     (if bt_is_empty (multisigs l) then None
      else Some (blake3 C (borsh_multisigs C (bt_entries (multisigs l))))) l"

definition recommit_proposals :: "'a codec_scheme \<Rightarrow> ledger \<Rightarrow> ledger" where
  "recommit_proposals C l = commit C (reserved_slot C ''sov:multisig_proposals'')
     (if bt_is_empty (proposals l) then None
      else Some (blake3 C (borsh_proposals C (bt_entries (proposals l))))) l"

definition recommit_vaults :: "'a codec_scheme \<Rightarrow> ledger \<Rightarrow> ledger" where
  "recommit_vaults C l = commit C (reserved_slot C ''sov:vaults'')
     (if bt_is_empty (vaults l) then None else Some (blake3 C (borsh_vaults C (bt_entries (vaults l))))) l"

definition recommit_oracle :: "'a codec_scheme \<Rightarrow> ledger \<Rightarrow> ledger" where
  "recommit_oracle C l = commit C (reserved_slot C ''sov:xus_oracle_price'')
     (map_option (borsh_u128 C) (oracle_price_set l)) l"

definition recommit_window :: "'a codec_scheme \<Rightarrow> string \<Rightarrow> nat \<times> balance \<Rightarrow> ledger \<Rightarrow> ledger" where
  "recommit_window C name w l = commit C (reserved_slot C name)
     (if fst w = 0 \<and> snd w = 0 then None else Some (borsh_window_pair C w)) l"

definition record_op :: "undo_op \<Rightarrow> ledger \<Rightarrow> ledger" where
  "record_op op l = l\<lparr>undo := map_option (\<lambda>j. j @ [op]) (undo l)\<rparr>"

definition begin_undo :: "ledger \<Rightarrow> ledger" where
  "begin_undo l = l\<lparr>undo := Some []\<rparr>"

definition take_undo :: "ledger \<Rightarrow> undo_op list \<times> ledger" where
  "take_undo l = ((case undo l of None \<Rightarrow> [] | Some j \<Rightarrow> j), l\<lparr>undo := None\<rparr>)"

lemmas commit_defs = commit_def commit_counter_def recommit_shielded_def recommit_shielded_v2_def
  recommit_htlcs_def recommit_nft_classes_def recommit_nfts_def recommit_multisig_def
  recommit_proposals_def recommit_vaults_def recommit_oracle_def recommit_window_def record_op_def

section \<open>Reads\<close>

definition account_of :: "ledger \<Rightarrow> account_id \<Rightarrow> account" where
  "account_of l i = (case bt_get (accounts l) i of Some a \<Rightarrow> a | None \<Rightarrow> account_default)"

definition account_exists :: "ledger \<Rightarrow> account_id \<Rightarrow> bool" where
  "account_exists l i = bt_contains (accounts l) i"

definition contract_value :: "ledger \<Rightarrow> account_id \<Rightarrow> bytes \<Rightarrow> bytes option" where
  "contract_value l c k = bt_get (contract_storage l) (c, k)"

definition contract_entries :: "ledger \<Rightarrow> account_id \<Rightarrow> (bytes \<times> bytes) list" where
  "contract_entries l c =
     map (\<lambda>((_, k), v). (k, v))
       (takeWhile (\<lambda>((c', _), _). c' = c)
         (dropWhile (\<lambda>(k, _). k < (c, [])) (bt_entries (contract_storage l))))"

definition state_root :: "ledger \<Rightarrow> hash" where
  "state_root l = smt_root (commitment l)"

fun sum_totals :: "balance \<Rightarrow> account list \<Rightarrow> balance option" where
  "sum_totals s [] = Some s"
| "sum_totals s (a # as) = (case account_total a of
      None \<Rightarrow> None
    | Some t \<Rightarrow> (case bal_add s t of None \<Rightarrow> None | Some s' \<Rightarrow> sum_totals s' as))"

definition total_supply :: "ledger \<Rightarrow> balance option" where
  "total_supply l =
     (case sum_totals 0 (bt_values (accounts l)) of
        None \<Rightarrow> None
      | Some s \<Rightarrow> (case bal_add s (shielded_value l) of
          None \<Rightarrow> None
        | Some s \<Rightarrow> (case bal_add s (shielded_v2_value l) of
            None \<Rightarrow> None
          | Some s \<Rightarrow> (case bal_add s (htlc_locked l) of
              None \<Rightarrow> None
            | Some s \<Rightarrow> bal_add s (vault_collateral l)))))"

definition vault_of :: "ledger \<Rightarrow> account_id \<Rightarrow> vault" where
  "vault_of l owner = (case bt_get (vaults l) owner of Some v \<Rightarrow> v | None \<Rightarrow> vault_default)"

definition oracle_price :: "ledger \<Rightarrow> nat" where
  "oracle_price l = (case oracle_price_set l of Some p \<Rightarrow> p | None \<Rightarrow> SEED_XUS_USD_PRICE)"

definition name_record_of :: "'a crypto_scheme \<Rightarrow> ledger \<Rightarrow> string \<Rightarrow> name_record option" where
  "name_record_of C l name =
     map_option (\<lambda>t. \<lparr>name_owner = nft_tok_owner t, registered_height = minted_height t\<rparr>)
       (bt_get (nfts l) (sns_class C, ascii name))"

definition bytes_to_string :: "bytes \<Rightarrow> string" where
  "bytes_to_string bs = map (\<lambda>b. char_of (unat b)) bs"

definition resolve_name :: "'a crypto_scheme \<Rightarrow> ledger \<Rightarrow> string \<Rightarrow> account_id option" where
  "resolve_name C l name = (case bt_get (nfts l) (sns_class C, ascii name) of
      None \<Rightarrow> None
    | Some t \<Rightarrow>
        if metadata t = [] then Some (nft_tok_owner t)
        else (case account_id_new (bytes_to_string (metadata t)) of
                Inr target \<Rightarrow> Some target
              | Inl _ \<Rightarrow> Some (nft_tok_owner t)))"

definition name_taken :: "'a crypto_scheme \<Rightarrow> ledger \<Rightarrow> string \<Rightarrow> bool" where
  "name_taken C l name = bt_contains (nfts l) (sns_class C, ascii name)"

definition token_balance :: "ledger \<Rightarrow> hash \<Rightarrow> account_id \<Rightarrow> balance" where
  "token_balance l asset holder =
     (case bt_get (token_balances l) (asset, holder) of Some b \<Rightarrow> b | None \<Rightarrow> 0)"

definition token_window :: "ledger \<Rightarrow> hash \<Rightarrow> account_id \<Rightarrow> spend_window" where
  "token_window l asset holder =
     (case bt_get (token_windows l) (asset, holder) of Some w \<Rightarrow> w | None \<Rightarrow> spend_window_default)"

definition intent_consumed :: "ledger \<Rightarrow> hash \<Rightarrow> bool" where
  "intent_consumed l i = bt_contains (consumed_intents l) i"

definition nft_owner :: "ledger \<Rightarrow> hash \<Rightarrow> bytes \<Rightarrow> account_id option" where
  "nft_owner l collection token_id = map_option nft_tok_owner (bt_get (nfts l) (collection, token_id))"

definition proposals_for :: "ledger \<Rightarrow> account_id \<Rightarrow> (hash \<times> multisig_proposal) list" where
  "proposals_for l acct = filter (\<lambda>(_, p). mprop_account p = acct) (bt_entries (proposals l))"

section \<open>Writes\<close>

definition set_account :: "'a codec_scheme \<Rightarrow> account_id \<Rightarrow> account \<Rightarrow> ledger \<Rightarrow> ledger" where
  "set_account C i a l =
     (let l = record_op (UAccount i (bt_get (accounts l) i)) l;
          stored = (if account_is_empty a then None else Some a)
      in commit C (slot C i) (map_option (borsh_account C) stored)
           (l\<lparr>accounts := bt_put i stored (accounts l)\<rparr>))"

definition set_contract_value :: "'a codec_scheme \<Rightarrow> account_id \<Rightarrow> bytes \<Rightarrow> bytes \<Rightarrow> ledger \<Rightarrow> ledger" where
  "set_contract_value C c k v l =
     (let l = record_op (UContract c k (contract_value l c k)) l;
          stored = (if v = [] then None else Some v)
      in commit C (contract_slot C c k) stored
           (l\<lparr>contract_storage := bt_put (c, k) stored (contract_storage l)\<rparr>))"

definition apply_shielded_bundle ::
  "'a codec_scheme \<Rightarrow> shielded_bundle \<Rightarrow> ledger \<Rightarrow> ledger \<times> (shielded_error + unit)" where
  "apply_shielded_bundle C b l =
     (let prev = shielded l
      in case apply_bundle C b (shielded l) of
           (s, Inl e) \<Rightarrow> (l\<lparr>shielded := s\<rparr>, Inl e)
         | (s, Inr _) \<Rightarrow> (recommit_shielded C (record_op (UShielded prev) (l\<lparr>shielded := s\<rparr>)), Inr ()))"

definition put_shielded_value :: "'a codec_scheme \<Rightarrow> balance \<Rightarrow> ledger \<Rightarrow> ledger" where
  "put_shielded_value C v l = commit_counter C ''sov:shielded_value'' v
     ((record_op (UShieldedValue (shielded_value l)) l)\<lparr>shielded_value := v\<rparr>)"

definition add_shielded_value :: "'a codec_scheme \<Rightarrow> balance \<Rightarrow> ledger \<Rightarrow> ledger option" where
  "add_shielded_value C amount l = (case bal_add (shielded_value l) amount of
      None \<Rightarrow> None
    | Some v \<Rightarrow> Some (put_shielded_value C v l))"

definition sub_shielded_value :: "'a codec_scheme \<Rightarrow> balance \<Rightarrow> ledger \<Rightarrow> ledger option" where
  "sub_shielded_value C amount l = (case bal_sub (shielded_value l) amount of
      None \<Rightarrow> None
    | Some v \<Rightarrow> Some (put_shielded_value C v l))"

definition apply_shielded_v2 ::
  "'a codec_scheme \<Rightarrow> pq_digest list \<Rightarrow> pq_digest list \<Rightarrow> ledger \<Rightarrow> v2_state_error + ledger" where
  "apply_shielded_v2 C nfs cms l =
     (case v2_apply C nfs cms (shielded_v2 l) of
        Inl e \<Rightarrow> Inl e
      | Inr s \<Rightarrow> Inr (recommit_shielded_v2 C (record_op (UShieldedV2 (shielded_v2 l)) (l\<lparr>shielded_v2 := s\<rparr>))))"

definition put_shielded_v2_value :: "'a codec_scheme \<Rightarrow> balance \<Rightarrow> ledger \<Rightarrow> ledger" where
  "put_shielded_v2_value C v l = commit_counter C ''sov:shielded_v2_value'' v
     ((record_op (UShieldedV2Value (shielded_v2_value l)) l)\<lparr>shielded_v2_value := v\<rparr>)"

definition add_shielded_v2_value :: "'a codec_scheme \<Rightarrow> balance \<Rightarrow> ledger \<Rightarrow> ledger option" where
  "add_shielded_v2_value C amount l = (case bal_add (shielded_v2_value l) amount of
      None \<Rightarrow> None
    | Some v \<Rightarrow> Some (put_shielded_v2_value C v l))"

definition sub_shielded_v2_value :: "'a codec_scheme \<Rightarrow> balance \<Rightarrow> ledger \<Rightarrow> ledger option" where
  "sub_shielded_v2_value C amount l = (case bal_sub (shielded_v2_value l) amount of
      None \<Rightarrow> None
    | Some v \<Rightarrow> Some (put_shielded_v2_value C v l))"

definition set_deshield_v2_window :: "'a codec_scheme \<Rightarrow> nat \<Rightarrow> balance \<Rightarrow> ledger \<Rightarrow> ledger" where
  "set_deshield_v2_window C start sp l =
     (let l = record_op (UDeshieldV2Window (fst (deshield_v2_window l)) (snd (deshield_v2_window l))) l
      in recommit_window C ''sov:deshield_v2_window'' (start, sp) (l\<lparr>deshield_v2_window := (start, sp)\<rparr>))"

definition set_deshield_window :: "'a codec_scheme \<Rightarrow> nat \<Rightarrow> balance \<Rightarrow> ledger \<Rightarrow> ledger" where
  "set_deshield_window C start sp l =
     (let l = record_op (UDeshieldWindow (fst (deshield_window l)) (snd (deshield_window l))) l
      in recommit_window C ''sov:deshield_window'' (start, sp) (l\<lparr>deshield_window := (start, sp)\<rparr>))"

definition lock_htlc :: "'a codec_scheme \<Rightarrow> hash \<Rightarrow> htlc \<Rightarrow> ledger \<Rightarrow> ledger option" where
  "lock_htlc C i h l =
     (if bt_contains (htlcs l) i then None
      else (case bal_add (htlc_locked l) (htlc_amount h) of
              None \<Rightarrow> None
            | Some next_locked \<Rightarrow>
                (let l = record_op (UHtlcLocked (htlc_locked l)) l;
                     l = record_op (UHtlc i None) l;
                     l = commit_counter C ''sov:htlc_locked'' next_locked (l\<lparr>htlc_locked := next_locked\<rparr>)
                 in Some (recommit_htlcs C (l\<lparr>htlcs := bt_insert i h (htlcs l)\<rparr>)))))"

definition settle_htlc :: "'a codec_scheme \<Rightarrow> hash \<Rightarrow> ledger \<Rightarrow> (htlc \<times> ledger) option" where
  "settle_htlc C i l = (case bt_get (htlcs l) i of
      None \<Rightarrow> None
    | Some h \<Rightarrow>
        (let l = l\<lparr>htlcs := bt_remove i (htlcs l)\<rparr>;
             l = record_op (UHtlcLocked (htlc_locked l)) l;
             l = record_op (UHtlc i (Some h)) l;
             next_locked = (case bal_sub (htlc_locked l) (htlc_amount h) of Some v \<Rightarrow> v | None \<Rightarrow> 0);
             l = commit_counter C ''sov:htlc_locked'' next_locked (l\<lparr>htlc_locked := next_locked\<rparr>)
         in Some (h, recommit_htlcs C l)))"

definition set_oracle_price :: "'a codec_scheme \<Rightarrow> nat \<Rightarrow> ledger \<Rightarrow> ledger" where
  "set_oracle_price C price l =
     recommit_oracle C ((record_op (UOraclePrice (oracle_price_set l)) l)\<lparr>oracle_price_set := Some price\<rparr>)"

text \<open>\<open>None\<close> is the panic of the \<open>expect\<close> on the collateral counter.\<close>

definition set_vault :: "'a codec_scheme \<Rightarrow> account_id \<Rightarrow> vault \<Rightarrow> ledger \<Rightarrow> ledger option" where
  "set_vault C owner v l =
     (let prev = bt_get (vaults l) owner;
          prev_collateral = (case prev of Some p \<Rightarrow> collateral p | None \<Rightarrow> 0)
      in case Option.bind (bal_sub (vault_collateral l) prev_collateral) (\<lambda>t. bal_add t (collateral v)) of
           None \<Rightarrow> None
         | Some next_total \<Rightarrow>
             (let l = record_op (UVaultCollateral (vault_collateral l)) l;
                  l = record_op (UVault owner prev) l;
                  l = commit_counter C ''sov:vault_collateral'' next_total (l\<lparr>vault_collateral := next_total\<rparr>);
                  l = l\<lparr>vaults := bt_put owner (if vault_is_empty v then None else Some v) (vaults l)\<rparr>
              in Some (recommit_vaults C l)))"

definition set_multisig :: "'a codec_scheme \<Rightarrow> account_id \<Rightarrow> multisig \<Rightarrow> ledger \<Rightarrow> ledger" where
  "set_multisig C i m l =
     (let l = record_op (UMultisig i (bt_get (multisigs l) i)) l
      in recommit_multisig C (l\<lparr>multisigs := bt_insert i m (multisigs l)\<rparr>))"

definition set_proposal :: "'a codec_scheme \<Rightarrow> hash \<Rightarrow> multisig_proposal \<Rightarrow> ledger \<Rightarrow> ledger" where
  "set_proposal C i p l =
     (let l = record_op (UProposal i (bt_get (proposals l) i)) l
      in recommit_proposals C (l\<lparr>proposals := bt_insert i p (proposals l)\<rparr>))"

definition remove_proposal :: "'a codec_scheme \<Rightarrow> hash \<Rightarrow> ledger \<Rightarrow> ledger" where
  "remove_proposal C i l =
     (let l = record_op (UProposal i (bt_get (proposals l) i)) l
      in recommit_proposals C (l\<lparr>proposals := bt_remove i (proposals l)\<rparr>))"

definition drop_proposal :: "hash \<Rightarrow> ledger \<Rightarrow> ledger" where
  "drop_proposal i l =
     (let l = record_op (UProposal i (bt_get (proposals l) i)) l
      in l\<lparr>proposals := bt_remove i (proposals l)\<rparr>)"

definition remove_proposals_for :: "'a codec_scheme \<Rightarrow> account_id \<Rightarrow> ledger \<Rightarrow> nat \<times> ledger" where
  "remove_proposals_for C acct l =
     (let ids = map fst (proposals_for l acct)
      in if ids = [] then (0, l)
         else (length ids, recommit_proposals C (fold drop_proposal ids l)))"

definition set_nft_class :: "'a codec_scheme \<Rightarrow> hash \<Rightarrow> nft_class \<Rightarrow> ledger \<Rightarrow> ledger" where
  "set_nft_class C i c l =
     (let l = record_op (UNftClass i (bt_get (nft_classes l) i)) l
      in recommit_nft_classes C (l\<lparr>nft_classes := bt_insert i c (nft_classes l)\<rparr>))"

definition put_nft :: "'a codec_scheme \<Rightarrow> hash \<Rightarrow> bytes \<Rightarrow> nft_token \<Rightarrow> ledger \<Rightarrow> ledger" where
  "put_nft C collection token_id t l =
     (let l = record_op (UNft collection token_id (bt_get (nfts l) (collection, token_id))) l
      in recommit_nfts C (l\<lparr>nfts := bt_insert (collection, token_id) t (nfts l)\<rparr>))"

definition mint_nft ::
  "'a codec_scheme \<Rightarrow> hash \<Rightarrow> bytes \<Rightarrow> account_id \<Rightarrow> bytes \<Rightarrow> nat \<Rightarrow> ledger \<Rightarrow> ledger option" where
  "mint_nft C collection token_id owner meta height l =
     (if bt_contains (nfts l) (collection, token_id) then None
      else Some (put_nft C collection token_id
                   \<lparr>nft_tok_owner = owner, metadata = meta, minted_height = height\<rparr> l))"

definition transfer_nft :: "'a codec_scheme \<Rightarrow> hash \<Rightarrow> bytes \<Rightarrow> account_id \<Rightarrow> ledger \<Rightarrow> ledger option" where
  "transfer_nft C collection token_id new_owner l = (case bt_get (nfts l) (collection, token_id) of
      None \<Rightarrow> None
    | Some t \<Rightarrow> Some (put_nft C collection token_id (t\<lparr>nft_tok_owner := new_owner\<rparr>) l))"

definition set_nft_meta :: "'a codec_scheme \<Rightarrow> hash \<Rightarrow> bytes \<Rightarrow> bytes \<Rightarrow> ledger \<Rightarrow> ledger option" where
  "set_nft_meta C collection token_id meta l = (case bt_get (nfts l) (collection, token_id) of
      None \<Rightarrow> None
    | Some t \<Rightarrow> Some (put_nft C collection token_id (t\<lparr>metadata := meta\<rparr>) l))"

definition register_name :: "'a codec_scheme \<Rightarrow> string \<Rightarrow> account_id \<Rightarrow> nat \<Rightarrow> ledger \<Rightarrow> ledger option" where
  "register_name C name owner height l = mint_nft C (sns_class C) (ascii name) owner [] height l"

definition transfer_name :: "'a codec_scheme \<Rightarrow> string \<Rightarrow> account_id \<Rightarrow> ledger \<Rightarrow> ledger option" where
  "transfer_name C name new_owner l = transfer_nft C (sns_class C) (ascii name) new_owner l"

definition set_token :: "'a codec_scheme \<Rightarrow> hash \<Rightarrow> token_info \<Rightarrow> ledger \<Rightarrow> ledger" where
  "set_token C asset info l =
     (let l = record_op (UToken asset (bt_get (tokens l) asset)) l
      in commit C (token_slot C asset) (Some (borsh_token_info C info))
           (l\<lparr>tokens := bt_insert asset info (tokens l)\<rparr>))"

definition set_token_balance :: "'a codec_scheme \<Rightarrow> hash \<Rightarrow> account_id \<Rightarrow> balance \<Rightarrow> ledger \<Rightarrow> ledger" where
  "set_token_balance C asset holder b l =
     (let l = record_op (UTokenBalance asset holder (bt_get (token_balances l) (asset, holder))) l;
          stored = (if b = 0 then None else Some b)
      in commit C (token_balance_slot C asset holder) (map_option (borsh_balance C) stored)
           (l\<lparr>token_balances := bt_put (asset, holder) stored (token_balances l)\<rparr>))"

definition clear_window :: "'a codec_scheme \<Rightarrow> hash \<times> account_id \<Rightarrow> ledger \<Rightarrow> ledger" where
  "clear_window C k l = commit C (token_window_slot C (fst k) (snd k)) None
     (l\<lparr>token_windows := bt_remove k (token_windows l)\<rparr>)"

definition set_token_policy :: "'a codec_scheme \<Rightarrow> hash \<Rightarrow> compliance_policy \<Rightarrow> ledger \<Rightarrow> ledger" where
  "set_token_policy C asset p l =
     (let cleared = filter (\<lambda>((a, _), _). a = asset) (bt_entries (token_windows l));
          l = record_op (UTokenPolicy asset (bt_get (token_policies l) asset)) l;
          l = fold (\<lambda>((a, holder), w). record_op (UTokenWindow a holder (Some w))) cleared l;
          l = commit C (token_policy_slot C asset) (Some (borsh_policy C p))
                (l\<lparr>token_policies := bt_insert asset p (token_policies l)\<rparr>)
      in fold (clear_window C) (map fst cleared) l)"

definition set_token_window ::
  "'a codec_scheme \<Rightarrow> hash \<Rightarrow> account_id \<Rightarrow> spend_window \<Rightarrow> ledger \<Rightarrow> ledger" where
  "set_token_window C asset holder w l =
     (let l = record_op (UTokenWindow asset holder (bt_get (token_windows l) (asset, holder))) l;
          stored = (if w = spend_window_default then None else Some w)
      in commit C (token_window_slot C asset holder) (map_option (borsh_spend_window C) stored)
           (l\<lparr>token_windows := bt_put (asset, holder) stored (token_windows l)\<rparr>))"

definition consume_intent :: "'a codec_scheme \<Rightarrow> hash \<Rightarrow> ledger \<Rightarrow> ledger" where
  "consume_intent C i l =
     (let l = (if intent_consumed l i then l else record_op (UIntent i) l)
      in commit C (intent_slot C i) (Some [1]) (l\<lparr>consumed_intents := bs_insert i (consumed_intents l)\<rparr>))"

definition add_mined_emitted :: "'a codec_scheme \<Rightarrow> balance \<Rightarrow> ledger \<Rightarrow> ledger option" where
  "add_mined_emitted C amount l = (case bal_add (mined_emitted l) amount of
      None \<Rightarrow> None
    | Some v \<Rightarrow> Some (commit_counter C ''sov:mined_emitted'' v
                        ((record_op (UMinedEmitted (mined_emitted l)) l)\<lparr>mined_emitted := v\<rparr>)))"

lemmas write_defs = set_account_def set_contract_value_def put_shielded_value_def
  put_shielded_v2_value_def set_deshield_v2_window_def set_deshield_window_def
  set_oracle_price_def set_multisig_def set_proposal_def remove_proposal_def drop_proposal_def
  set_nft_class_def put_nft_def set_token_def set_token_balance_def set_token_window_def
  clear_window_def consume_intent_def

section \<open>Undoing\<close>

fun undo_one :: "'a codec_scheme \<Rightarrow> undo_op \<Rightarrow> ledger \<Rightarrow> ledger" where
  "undo_one C (UAccount i prev) l =
     (let stored = (case prev of Some a \<Rightarrow> if account_is_empty a then None else Some a | None \<Rightarrow> None)
      in commit C (slot C i) (map_option (borsh_account C) stored)
           (l\<lparr>accounts := bt_put i stored (accounts l)\<rparr>))"
| "undo_one C (UContract c k prev) l =
     (let stored = (case prev of Some v \<Rightarrow> if v = [] then None else Some v | None \<Rightarrow> None)
      in commit C (contract_slot C c k) stored
           (l\<lparr>contract_storage := bt_put (c, k) stored (contract_storage l)\<rparr>))"
| "undo_one C (UToken asset prev) l =
     commit C (token_slot C asset) (map_option (borsh_token_info C) prev)
       (l\<lparr>tokens := bt_put asset prev (tokens l)\<rparr>)"
| "undo_one C (UTokenBalance asset holder prev) l =
     (let stored = (case prev of Some b \<Rightarrow> if b = 0 then None else Some b | None \<Rightarrow> None)
      in commit C (token_balance_slot C asset holder) (map_option (borsh_balance C) stored)
           (l\<lparr>token_balances := bt_put (asset, holder) stored (token_balances l)\<rparr>))"
| "undo_one C (UTokenPolicy asset prev) l =
     commit C (token_policy_slot C asset) (map_option (borsh_policy C) prev)
       (l\<lparr>token_policies := bt_put asset prev (token_policies l)\<rparr>)"
| "undo_one C (UTokenWindow asset holder prev) l =
     (let stored = (case prev of Some w \<Rightarrow> if w = spend_window_default then None else Some w | None \<Rightarrow> None)
      in commit C (token_window_slot C asset holder) (map_option (borsh_spend_window C) stored)
           (l\<lparr>token_windows := bt_put (asset, holder) stored (token_windows l)\<rparr>))"
| "undo_one C (UHtlc i prev) l = recommit_htlcs C (l\<lparr>htlcs := bt_put i prev (htlcs l)\<rparr>)"
| "undo_one C (UNftClass i prev) l =
     recommit_nft_classes C (l\<lparr>nft_classes := bt_put i prev (nft_classes l)\<rparr>)"
| "undo_one C (UNft collection token_id prev) l =
     recommit_nfts C (l\<lparr>nfts := bt_put (collection, token_id) prev (nfts l)\<rparr>)"
| "undo_one C (UMultisig i prev) l = recommit_multisig C (l\<lparr>multisigs := bt_put i prev (multisigs l)\<rparr>)"
| "undo_one C (UProposal i prev) l = recommit_proposals C (l\<lparr>proposals := bt_put i prev (proposals l)\<rparr>)"
| "undo_one C (UIntent i) l =
     commit C (intent_slot C i) None (l\<lparr>consumed_intents := bt_remove i (consumed_intents l)\<rparr>)"
| "undo_one C (UShielded prev) l = recommit_shielded C (l\<lparr>shielded := prev\<rparr>)"
| "undo_one C (UMinedEmitted prev) l = commit_counter C ''sov:mined_emitted'' prev (l\<lparr>mined_emitted := prev\<rparr>)"
| "undo_one C (UShieldedValue prev) l =
     commit_counter C ''sov:shielded_value'' prev (l\<lparr>shielded_value := prev\<rparr>)"
| "undo_one C (UHtlcLocked prev) l = commit_counter C ''sov:htlc_locked'' prev (l\<lparr>htlc_locked := prev\<rparr>)"
| "undo_one C (UVault owner prev) l = recommit_vaults C (l\<lparr>vaults := bt_put owner prev (vaults l)\<rparr>)"
| "undo_one C (UVaultCollateral prev) l =
     commit_counter C ''sov:vault_collateral'' prev (l\<lparr>vault_collateral := prev\<rparr>)"
| "undo_one C (UOraclePrice prev) l = recommit_oracle C (l\<lparr>oracle_price_set := prev\<rparr>)"
| "undo_one C (UDeshieldWindow start sp) l =
     recommit_window C ''sov:deshield_window'' (start, sp) (l\<lparr>deshield_window := (start, sp)\<rparr>)"
| "undo_one C (UShieldedV2 prev) l = recommit_shielded_v2 C (l\<lparr>shielded_v2 := prev\<rparr>)"
| "undo_one C (UShieldedV2Value prev) l =
     commit_counter C ''sov:shielded_v2_value'' prev (l\<lparr>shielded_v2_value := prev\<rparr>)"
| "undo_one C (UDeshieldV2Window start sp) l =
     recommit_window C ''sov:deshield_v2_window'' (start, sp) (l\<lparr>deshield_v2_window := (start, sp)\<rparr>)"

definition apply_undo :: "'a codec_scheme \<Rightarrow> undo_op list \<Rightarrow> ledger \<Rightarrow> ledger" where
  "apply_undo C log l = (fold (undo_one C) (rev log) (l\<lparr>undo := None\<rparr>))\<lparr>undo := undo l\<rparr>"

end
