(* ===== verification/Types.thy ===== *)
theory Types
  imports Ledger
begin

text \<open>
  The crates \<open>sov-types\<close> and \<open>sov-intents\<close>: actions, transactions and their signatures
  (\<open>transaction.rs\<close>), receipts and their consensus encoding (\<open>receipt.rs\<close>), and signed swap
  intents with the reference settlement routine (\<open>intents/src/lib.rs\<close>).

  Borsh encodes a structure by concatenating its fields; the encodings of intents,
  transactions and receipts are written out.  The encoding of an \<open>Action\<close> and its decoder are
  fields of the record \<open>tx_codec\<close>, like SHA-256.
\<close>

section \<open>Intents\<close>

datatype asset = Sov | Token hash

record intent =
  int_owner :: account_id
  int_public_key :: public_key
  int_nonce :: nat
  give_asset :: asset
  give_amount :: nat
  want_asset :: asset
  min_receive :: nat
  int_expiry_height :: nat

record signed_intent =
  si_intent :: intent
  si_signature :: signature

record settlement =
  st_intent :: signed_intent
  solver :: account_id
  deliver_amount :: nat

fun borsh_asset :: "asset \<Rightarrow> bytes" where
  "borsh_asset Sov = [0]"
| "borsh_asset (Token h) = 1 # h"

definition intent_signing_bytes :: "'a crypto_scheme \<Rightarrow> intent \<Rightarrow> bytes" where
  "intent_signing_bytes C i =
     borsh_vec (ascii (int_owner i)) @ borsh_public_key C (int_public_key i) @ to_le_bytes 8 (int_nonce i)
     @ borsh_asset (give_asset i) @ to_le_bytes 16 (give_amount i)
     @ borsh_asset (want_asset i) @ to_le_bytes 16 (min_receive i) @ to_le_bytes 8 (int_expiry_height i)"

definition intent_signing_bytes_in :: "'a crypto_scheme \<Rightarrow> intent \<Rightarrow> signing_domain option \<Rightarrow> bytes" where
  "intent_signing_bytes_in C i d = (case d of
      None \<Rightarrow> intent_signing_bytes C i
    | Some d \<Rightarrow> frame d (ascii ''sov:intent:v1'') (intent_signing_bytes C i))"

definition intent_id :: "'a crypto_scheme \<Rightarrow> intent \<Rightarrow> hash" where
  "intent_id C i = blake3 C (intent_signing_bytes C i)"

definition intent_verify_in :: "'a crypto_scheme \<Rightarrow> signed_intent \<Rightarrow> signing_domain option \<Rightarrow> bool" where
  "intent_verify_in C s d =
     pk_verify C (int_public_key (si_intent s)) (intent_signing_bytes_in C (si_intent s) d) (si_signature s)"

definition intent_verify_mode :: "'a crypto_scheme \<Rightarrow> signed_intent \<Rightarrow> tx_domain_mode \<Rightarrow> bool" where
  "intent_verify_mode C s m = verifies m (intent_verify_in C s)"

section \<open>Actions and transactions\<close>

record multisig_approval =
  ap_signer :: nat
  ap_signature :: signature

datatype action =
    Transfer account_id balance
  | ClaimVesting
  | Deploy bytes
  | Call account_id nat bytes
  | Shielded bytes
  | HtlcLock account_id balance hash nat
  | HtlcClaim hash bytes
  | HtlcRefund hash
  | TokenIssue string balance account_id
  | TokenTransfer hash account_id balance
  | TokenBurn hash balance
  | TokenSetPolicy hash compliance_policy
  | IntentSettle settlement
  | IntentCancel intent
  | RotateKey public_key signature
  | RegisterName string
  | TransferName string account_id
  | NftMint string bytes account_id bytes
  | NftTransfer hash bytes account_id
  | NftSetMeta hash bytes bytes
  | SetMultisig "public_key list" nat
  | MultisigExec action "multisig_approval list"
  | ProposeMultisig account_id action
  | ApproveMultisig account_id hash
  | CancelMultisig account_id hash
  | VaultDeposit balance
  | VaultMint balance
  | VaultBurn balance
  | VaultWithdraw balance
  | OracleUpdate nat
  | Tipped balance action
  | ShieldedV2 bytes
  | Timestamped nat action

definition TX_TIMESTAMP_FUTURE_TOLERANCE_MS :: nat where "TX_TIMESTAMP_FUTURE_TOLERANCE_MS = 2 * 60 * 1000"
definition TX_TIMESTAMP_MAX_AGE_MS :: nat where "TX_TIMESTAMP_MAX_AGE_MS = 30 * 60 * 1000"

record tx_codec = codec +
  sha256 :: "bytes \<Rightarrow> hash"
  borsh_action :: "action \<Rightarrow> bytes"
  decode_action :: "bytes \<Rightarrow> action option"

definition multisig_signing_bytes :: "'a tx_codec_scheme \<Rightarrow> account_id \<Rightarrow> nat \<Rightarrow> action \<Rightarrow> bytes" where
  "multisig_signing_bytes C acct n a =
     ascii ''sov:multisig:v1'' @ [0] @ ascii acct @ [0] @ to_le_bytes 8 n @ borsh_action C a"

definition rotation_signing_bytes :: "'a crypto_scheme \<Rightarrow> account_id \<Rightarrow> nat \<Rightarrow> public_key \<Rightarrow> bytes" where
  "rotation_signing_bytes C signer n new_key =
     ascii ''sov:rotate:v1'' @ [0] @ ascii signer @ [0] @ to_le_bytes 8 n @ borsh_public_key C new_key"

record transaction =
  tx_signer :: account_id
  tx_public_key :: public_key
  tx_nonce :: nat
  tx_action :: action

record signed_transaction =
  stx_transaction :: transaction
  stx_signature :: signature

definition tx_signing_bytes :: "'a tx_codec_scheme \<Rightarrow> transaction \<Rightarrow> bytes" where
  "tx_signing_bytes C tx = borsh_vec (ascii (tx_signer tx)) @ borsh_public_key C (tx_public_key tx)
     @ to_le_bytes 8 (tx_nonce tx) @ borsh_action C (tx_action tx)"

definition tx_signing_bytes_in :: "'a tx_codec_scheme \<Rightarrow> transaction \<Rightarrow> signing_domain option \<Rightarrow> bytes" where
  "tx_signing_bytes_in C tx d = (case d of
      None \<Rightarrow> tx_signing_bytes C tx
    | Some d \<Rightarrow> frame d (ascii ''sov:tx:v1'') (tx_signing_bytes C tx))"

definition tx_id :: "'a tx_codec_scheme \<Rightarrow> transaction \<Rightarrow> hash" where
  "tx_id C tx = blake3 C (tx_signing_bytes C tx)"

abbreviation stx_id :: "'a tx_codec_scheme \<Rightarrow> signed_transaction \<Rightarrow> hash" where
  "stx_id C stx \<equiv> tx_id C (stx_transaction stx)"

definition verify_signature_in :: "'a tx_codec_scheme \<Rightarrow> signed_transaction \<Rightarrow> signing_domain option \<Rightarrow> bool" where
  "verify_signature_in C stx d =
     pk_verify C (tx_public_key (stx_transaction stx)) (tx_signing_bytes_in C (stx_transaction stx) d)
       (stx_signature stx)"

definition verify_signature_mode :: "'a tx_codec_scheme \<Rightarrow> signed_transaction \<Rightarrow> tx_domain_mode \<Rightarrow> bool" where
  "verify_signature_mode C stx m = verifies m (verify_signature_in C stx)"

section \<open>Receipts\<close>

datatype exec_status = Success | Failed string

record event =
  topic :: bytes
  event_data :: bytes

record receipt =
  rc_tx_id :: hash
  rc_status :: exec_status
  rc_gas_used :: nat
  rc_return_data :: bytes
  rc_events :: "event list"
  rc_timing :: "nat option"

fun borsh_status :: "exec_status \<Rightarrow> bytes" where
  "borsh_status Success = [0]"
| "borsh_status (Failed reason) = 1 # borsh_vec (ascii reason)"

definition borsh_event :: "event \<Rightarrow> bytes" where
  "borsh_event e = borsh_vec (topic e) @ borsh_vec (event_data e)"

definition consensus_bytes :: "receipt \<Rightarrow> bytes" where
  "consensus_bytes r = rc_tx_id r @ borsh_status (rc_status r) @ to_le_bytes 8 (rc_gas_used r)
     @ borsh_vec (rc_return_data r) @ to_le_bytes 4 (length (rc_events r)) @ concat (map borsh_event (rc_events r))
     @ (case rc_timing r of None \<Rightarrow> [] | Some created_at_ms \<Rightarrow> 1 # to_le_bytes 8 created_at_ms)"

definition receipt_hash :: "'a crypto_scheme \<Rightarrow> receipt \<Rightarrow> hash" where
  "receipt_hash C r = blake3 C (consensus_bytes r)"

definition receipts_root :: "'a crypto_scheme \<Rightarrow> receipt list \<Rightarrow> hash" where
  "receipts_root C rs = merkle_root C (map (receipt_hash C) rs)"

record receipt_proof_rec =
  rp_index :: nat
  rp_siblings :: "merkle_step list"

definition receipt_proof :: "'a crypto_scheme \<Rightarrow> receipt list \<Rightarrow> nat \<Rightarrow> receipt_proof_rec option" where
  "receipt_proof C rs index =
     map_option (\<lambda>sibs. \<lparr>rp_index = index mod 2 ^ 32, rp_siblings = sibs\<rparr>)
       (merkle_proof C (map (receipt_hash C) rs) index)"

definition verify_receipt_proof :: "'a crypto_scheme \<Rightarrow> receipt \<Rightarrow> receipt_proof_rec \<Rightarrow> hash \<Rightarrow> bool" where
  "verify_receipt_proof C r pf root = verify_merkle_proof C (receipt_hash C r) (rp_siblings pf) root"

end
