(* ===== verification/Gas.thy ===== *)
theory Gas
  imports Types
begin

text \<open>
  Gas metering, \<open>runtime/src/gas.rs\<close>.  Gas is a 64-bit count; the sums below are over lengths of
  data that fits a block, so the machine's additions do not wrap (\<open>gas_for_bound\<close>).
\<close>

definition INTRINSIC_GAS :: nat where "INTRINSIC_GAS = 21000"
definition BOOKKEEPING_GAS :: nat where "BOOKKEEPING_GAS = 30000"
definition DEPLOY_GAS_PER_BYTE :: nat where "DEPLOY_GAS_PER_BYTE = 200"
definition CALLDATA_GAS_PER_BYTE :: nat where "CALLDATA_GAS_PER_BYTE = 16"
definition SHIELDED_VERIFY_GAS :: nat where "SHIELDED_VERIFY_GAS = 500000"
definition SHIELDED_V2_VERIFY_GAS :: nat where "SHIELDED_V2_VERIFY_GAS = 500000"
definition INTENT_VERIFY_GAS :: nat where "INTENT_VERIFY_GAS = 30000"
definition ML_DSA_VERIFY_GAS :: nat where "ML_DSA_VERIFY_GAS = 60000"
definition POLICY_GAS_PER_ENTRY :: nat where "POLICY_GAS_PER_ENTRY = 2000"
definition ML_DSA_65_PK_LEN :: nat where "ML_DSA_65_PK_LEN = 1952"
definition ML_DSA_65_SIG_LEN :: nat where "ML_DSA_65_SIG_LEN = 3309"

definition policy_entries :: "compliance_policy \<Rightarrow> nat" where
  "policy_entries p = (case transfer_control p of
      Unrestricted \<Rightarrow> 0
    | AllowList s \<Rightarrow> length (bt_keys s)
    | DenyList s \<Rightarrow> length (bt_keys s))"

fun is_multisig_exec :: "action \<Rightarrow> bool" where
  "is_multisig_exec (MultisigExec _ _) = True"
| "is_multisig_exec _ = False"

fun is_tipped :: "action \<Rightarrow> bool" where
  "is_tipped (Tipped _ _) = True"
| "is_tipped _ = False"

fun is_timestamped :: "action \<Rightarrow> bool" where
  "is_timestamped (Timestamped _ _) = True"
| "is_timestamped _ = False"

fun gas_for :: "action \<Rightarrow> nat" where
  "gas_for (Transfer _ _) = INTRINSIC_GAS"
| "gas_for ClaimVesting = INTRINSIC_GAS"
| "gas_for (Deploy wasm) = INTRINSIC_GAS + length wasm * DEPLOY_GAS_PER_BYTE"
| "gas_for (Call _ _ calldata) = INTRINSIC_GAS + length calldata * CALLDATA_GAS_PER_BYTE"
| "gas_for (Shielded _) = INTRINSIC_GAS + SHIELDED_VERIFY_GAS"
| "gas_for (HtlcLock _ _ _ _) = INTRINSIC_GAS + BOOKKEEPING_GAS"
| "gas_for (HtlcClaim _ _) = INTRINSIC_GAS + BOOKKEEPING_GAS"
| "gas_for (HtlcRefund _) = INTRINSIC_GAS + BOOKKEEPING_GAS"
| "gas_for (TokenIssue _ _ _) = INTRINSIC_GAS + BOOKKEEPING_GAS"
| "gas_for (TokenTransfer _ _ _) = INTRINSIC_GAS + BOOKKEEPING_GAS"
| "gas_for (TokenBurn _ _) = INTRINSIC_GAS + BOOKKEEPING_GAS"
| "gas_for (TokenSetPolicy _ policy) =
     INTRINSIC_GAS + BOOKKEEPING_GAS + policy_entries policy * POLICY_GAS_PER_ENTRY"
| "gas_for (IntentSettle _) = INTRINSIC_GAS + BOOKKEEPING_GAS + INTENT_VERIFY_GAS"
| "gas_for (IntentCancel _) = INTRINSIC_GAS + BOOKKEEPING_GAS"
| "gas_for (RotateKey _ _) = INTRINSIC_GAS + BOOKKEEPING_GAS + INTENT_VERIFY_GAS"
| "gas_for (RegisterName _) = INTRINSIC_GAS + BOOKKEEPING_GAS"
| "gas_for (TransferName _ _) = INTRINSIC_GAS + BOOKKEEPING_GAS"
| "gas_for (NftMint _ token_id _ meta) =
     INTRINSIC_GAS + BOOKKEEPING_GAS + (length token_id + length meta) * CALLDATA_GAS_PER_BYTE"
| "gas_for (NftTransfer _ _ _) = INTRINSIC_GAS + BOOKKEEPING_GAS"
| "gas_for (NftSetMeta _ _ meta) = INTRINSIC_GAS + BOOKKEEPING_GAS + length meta * CALLDATA_GAS_PER_BYTE"
| "gas_for (SetMultisig signers _) =
     INTRINSIC_GAS + BOOKKEEPING_GAS + length signers * POLICY_GAS_PER_ENTRY"
| "gas_for (MultisigExec a approvals) =
     INTRINSIC_GAS + length approvals * INTENT_VERIFY_GAS
     + (if is_multisig_exec a then INTRINSIC_GAS else gas_for a)"
| "gas_for (ProposeMultisig _ _) = INTRINSIC_GAS + BOOKKEEPING_GAS"
| "gas_for (ApproveMultisig _ _) = INTRINSIC_GAS + BOOKKEEPING_GAS"
| "gas_for (CancelMultisig _ _) = INTRINSIC_GAS + BOOKKEEPING_GAS"
| "gas_for (VaultDeposit _) = INTRINSIC_GAS + BOOKKEEPING_GAS"
| "gas_for (VaultMint _) = INTRINSIC_GAS + BOOKKEEPING_GAS"
| "gas_for (VaultBurn _) = INTRINSIC_GAS + BOOKKEEPING_GAS"
| "gas_for (VaultWithdraw _) = INTRINSIC_GAS + BOOKKEEPING_GAS"
| "gas_for (OracleUpdate _) = INTRINSIC_GAS + BOOKKEEPING_GAS"
| "gas_for (Tipped _ inner) =
     saturating_add 64 (if is_tipped inner then INTRINSIC_GAS else gas_for inner) BOOKKEEPING_GAS"
| "gas_for (ShieldedV2 bundle) =
     saturating_add 64 (saturating_add 64 INTRINSIC_GAS SHIELDED_V2_VERIFY_GAS)
       (saturating_mul 64 (length bundle) CALLDATA_GAS_PER_BYTE)"
| "gas_for (Timestamped _ inner) =
     saturating_add 64 (if is_timestamped inner then INTRINSIC_GAS else gas_for inner) BOOKKEEPING_GAS"

definition hybrid_envelope_gas :: nat where
  "hybrid_envelope_gas = (ML_DSA_65_PK_LEN + ML_DSA_65_SIG_LEN) * CALLDATA_GAS_PER_BYTE + ML_DSA_VERIFY_GAS"

definition envelope_gas :: "public_key \<Rightarrow> nat" where
  "envelope_gas key = (case key of PkV1Ed25519 _ \<Rightarrow> 0 | PkV2HybridMlDsa65 _ _ \<Rightarrow> hybrid_envelope_gas)"

lemmas gas_consts = INTRINSIC_GAS_def BOOKKEEPING_GAS_def DEPLOY_GAS_PER_BYTE_def CALLDATA_GAS_PER_BYTE_def
  SHIELDED_VERIFY_GAS_def SHIELDED_V2_VERIFY_GAS_def INTENT_VERIFY_GAS_def ML_DSA_VERIFY_GAS_def
  POLICY_GAS_PER_ENTRY_def ML_DSA_65_PK_LEN_def ML_DSA_65_SIG_LEN_def

text \<open>The amount of data an action carries, and how deep its carriers nest.\<close>

fun payload :: "action \<Rightarrow> nat" where
  "payload (Deploy wasm) = length wasm"
| "payload (Call _ _ calldata) = length calldata"
| "payload (TokenSetPolicy _ p) = policy_entries p"
| "payload (NftMint _ token_id _ meta) = length token_id + length meta"
| "payload (NftSetMeta _ _ meta) = length meta"
| "payload (SetMultisig signers _) = length signers"
| "payload (MultisigExec a approvals) = length approvals + payload a"
| "payload (Tipped _ inner) = payload inner"
| "payload (Timestamped _ inner) = payload inner"
| "payload (ShieldedV2 bundle) = length bundle"
| "payload _ = 0"

fun depth :: "action \<Rightarrow> nat" where
  "depth (MultisigExec a _) = Suc (depth a)"
| "depth (ProposeMultisig _ a) = Suc (depth a)"
| "depth (Tipped _ inner) = Suc (depth inner)"
| "depth (Timestamped _ inner) = Suc (depth inner)"
| "depth _ = 0"

lemma gas_for_bound: "gas_for a \<le> 600000 + 51000 * depth a + 30000 * payload a"
  by (induction a rule: gas_for.induct) (auto simp: gas_consts saturating_add_def saturating_mul_def)

lemma gas_for_pos: "INTRINSIC_GAS \<le> gas_for a"
  by (induction a rule: gas_for.induct) (auto simp: gas_consts saturating_add_def saturating_mul_def)

end
