(* ===== verification/Mining.thy ===== *)
theory Mining
  imports Pow
begin

text \<open>
  The crate \<open>sov-mining\<close>: scalar difficulty, its targets and its adjustment rules
  (\<open>difficulty.rs\<close>), accumulated chain work (\<open>work.rs\<close>), and the emission schedule of a
  chain (\<open>lib.rs\<close>).  \<open>U256\<close> arithmetic panics on overflow, so the linearly weighted
  moving average returns \<open>None\<close> where one of its products would leave 256 bits.
\<close>

section \<open>Difficulty\<close>

definition U256_MAX :: nat where "U256_MAX = 2 ^ 256 - 1"
definition U128_MAX :: nat where "U128_MAX = 2 ^ 128 - 1"
definition EDA_STALL_FACTOR :: nat where "EDA_STALL_FACTOR = 6"
definition EDA_MAX_HALVINGS :: nat where "EDA_MAX_HALVINGS = 8"
definition MAX_STEP :: nat where "MAX_STEP = 2"

definition to_target :: "nat \<Rightarrow> target" where
  "to_target D = be_bytes 32 (U256_MAX div max D 1)"

definition from_target :: "target \<Rightarrow> nat" where
  "from_target t =
     (let v = be_value t
      in if v = 0 then U128_MAX else min (U256_MAX div v) U128_MAX)"

definition clamp :: "nat \<Rightarrow> nat \<Rightarrow> nat \<Rightarrow> nat option" where
  "clamp x lo hi = (if lo \<le> hi then Some (if x < lo then lo else if hi < x then hi else x) else None)"

definition retarget :: "nat \<Rightarrow> nat \<Rightarrow> nat \<Rightarrow> nat option" where
  "retarget D actual_interval_ms target_interval_ms =
     (let actual = max actual_interval_ms 1;
          tgt = max target_interval_ms 1;
          scaled = saturating_mul 128 D tgt div actual;
          lo = max (D div 4) 1;
          hi = saturating_mul 128 D 4
      in map_option (\<lambda>x. max x 1) (clamp scaled lo hi))"

definition solve_time :: "nat \<Rightarrow> nat \<Rightarrow> nat" where
  "solve_time t st = min (max st 1) (6 * t)"

fun lwma_sums :: "nat \<Rightarrow> nat \<Rightarrow> (nat \<times> nat) list \<Rightarrow> nat \<Rightarrow> nat \<Rightarrow> (nat \<times> nat) option" where
  "lwma_sums t idx [] sum_d weighted = Some (sum_d, weighted)"
| "lwma_sums t idx ((d, st) # rest) sum_d weighted =
     (case checked_add 256 sum_d d of
        None \<Rightarrow> None
      | Some sum_d' \<Rightarrow>
          (case checked_mul 256 (idx + 1) (solve_time t st) of
             None \<Rightarrow> None
           | Some w \<Rightarrow>
               (case checked_add 256 weighted w of
                  None \<Rightarrow> None
                | Some weighted' \<Rightarrow> lwma_sums t (idx + 1) rest sum_d' weighted')))"

definition lwma :: "nat list \<Rightarrow> nat list \<Rightarrow> nat \<Rightarrow> nat option" where
  "lwma diffs solvetimes_ms target_ms =
     (let n = length diffs
      in if n = 0 \<or> length solvetimes_ms \<noteq> n then Some 1
         else
           (let t = max target_ms 1
            in case lwma_sums t 0 (zip diffs solvetimes_ms) 0 0 of
                 None \<Rightarrow> None
               | Some (sum_d, weighted0) \<Rightarrow>
                   (let weighted = (if weighted0 = 0 then 1 else weighted0)
                    in case checked_mul 256 sum_d t of
                         None \<Rightarrow> None
                       | Some st \<Rightarrow>
                           (case checked_mul 256 st (n + 1) of
                              None \<Rightarrow> None
                            | Some num \<Rightarrow>
                                (case checked_mul 256 2 weighted of
                                   None \<Rightarrow> None
                                 | Some den \<Rightarrow>
                                     (let nxt = max (min (num div den) U128_MAX) 1;
                                          parent = max (diffs ! (n - 1)) 1;
                                          lo = max (parent div MAX_STEP) 1;
                                          hi = saturating_mul 128 parent MAX_STEP
                                      in clamp nxt lo hi))))))"

definition eda_halvings :: "nat \<Rightarrow> nat \<Rightarrow> nat" where
  "eda_halvings elapsed_ms target_ms =
     (let unit = saturating_mul 64 EDA_STALL_FACTOR (max target_ms 1)
      in min (elapsed_ms div unit) EDA_MAX_HALVINGS)"

definition eda :: "nat \<Rightarrow> nat \<Rightarrow> nat \<Rightarrow> nat" where
  "eda D elapsed_ms target_ms = max (drop_bit (eda_halvings elapsed_ms target_ms) D) 1"

section \<open>Chain work\<close>

definition of_target :: "target \<Rightarrow> nat" where
  "of_target target =
     (let t = be_value target
      in if t = U256_MAX then 1 else (U256_MAX - t) div (t + 1) + 1)"

definition work_saturating_add :: "nat \<Rightarrow> nat \<Rightarrow> nat" where
  "work_saturating_add a b = saturating_add 256 a b"

section \<open>The emission schedule\<close>

record pq_schedule =
  rotation_only_height :: nat
  sunset_height :: nat
  threshold_grains :: nat

record mining_policy =
  pow_algo :: pow_algo
  sha256d_target :: target
  base_reward :: balance
  halving_interval_blocks :: nat
  mining_budget_grains :: nat
  target_block_ms :: nat
  gas_price :: balance
  max_code_bytes :: nat
  deshield_window_blocks :: nat
  deshield_limit_grains :: nat

definition reward_at :: "mining_policy \<Rightarrow> nat \<Rightarrow> balance \<Rightarrow> balance" where
  "reward_at p height mined_supply =
     (if height = 0 then 0
      else if mining_budget_grains p \<le> mined_supply then 0
      else
        (let halvings = (height - 1) div max (halving_interval_blocks p) 1;
             scheduled = (if 127 \<le> halvings then 0 else drop_bit halvings (base_reward p));
             remaining = mining_budget_grains p - mined_supply
         in min scheduled remaining))"

definition mainnet_like :: mining_policy where
  "mainnet_like = \<lparr>
     pow_algo = RandomX,
     sha256d_target = from_leading_zero_bits 20,
     base_reward = 1250000000,
     halving_interval_blocks = 840000,
     mining_budget_grains = MAX_SUPPLY_GRAINS,
     target_block_ms = 150000,
     gas_price = 10,
     max_code_bytes = 256 * 1024,
     deshield_window_blocks = 576,
     deshield_limit_grains = 21000 * GRAINS_PER_SOV\<rparr>"

definition test_policy :: mining_policy where
  "test_policy = \<lparr>
     pow_algo = Sha256d,
     sha256d_target = from_leading_zero_bits 8,
     base_reward = 0,
     halving_interval_blocks = 210000,
     mining_budget_grains = 1000000 * GRAINS_PER_SOV,
     target_block_ms = 1000,
     gas_price = 0,
     max_code_bytes = 256 * 1024,
     deshield_window_blocks = 0,
     deshield_limit_grains = 0\<rparr>"

text \<open>The subsidy before the budget clamp, and the issuance after the first \<open>n\<close> blocks.\<close>

definition subsidy :: "mining_policy \<Rightarrow> nat \<Rightarrow> nat" where
  "subsidy p height =
     (let halvings = (height - 1) div max (halving_interval_blocks p) 1
      in if height = 0 \<or> 127 \<le> halvings then 0 else drop_bit halvings (base_reward p))"

fun issued :: "mining_policy \<Rightarrow> nat \<Rightarrow> nat" where
  "issued p 0 = 0"
| "issued p (Suc n) = issued p n + reward_at p (Suc n) (issued p n)"

lemma reward_at_le_remaining: "mined \<le> mining_budget_grains p \<Longrightarrow>
    mined + reward_at p h mined \<le> mining_budget_grains p"
  by (auto simp: reward_at_def Let_def min_def)

lemma reward_at_le_subsidy: "reward_at p h mined \<le> subsidy p h"
  by (simp add: reward_at_def subsidy_def Let_def)

lemma reward_at_exhausted: "mining_budget_grains p \<le> mined \<Longrightarrow> reward_at p h mined = 0"
  by (simp add: reward_at_def)

lemma issued_le_budget: "issued p n \<le> mining_budget_grains p"
  by (induction n) (auto intro: reward_at_le_remaining)

lemma reward_at_unclamped:
  "mined + subsidy p h \<le> mining_budget_grains p \<Longrightarrow> reward_at p h mined = subsidy p h"
  by (auto simp: reward_at_def subsidy_def Let_def min_def split: if_splits)

lemma issued_mono: "m \<le> n \<Longrightarrow> issued p m \<le> issued p n"
  by (rule lift_Suc_mono_le [of "issued p"]) simp_all

lemma issued_unclamped:
  "(\<Sum>h<n. subsidy p (Suc h)) \<le> mining_budget_grains p \<Longrightarrow> issued p n = (\<Sum>h<n. subsidy p (Suc h))"
  by (induction n) (simp_all add: reward_at_unclamped)

lemma sum_epochs: "(\<Sum>h<k * m. f (h div m)) = m * (\<Sum>j<k. f j)" for f :: "nat \<Rightarrow> nat"
proof (induction k)
  case (Suc k)
  have "(\<Sum>h<Suc k * m. f (h div m)) = (\<Sum>h<k * m. f (h div m)) + (\<Sum>h = k * m..<k * m + m. f (h div m))"
    by (simp add: sum.atLeastLessThan_concat lessThan_atLeast0 add.commute)
  also have "(\<Sum>h = k * m..<k * m + m. f (h div m)) = (\<Sum>h = k * m..<k * m + m. f k)"
  proof (intro sum.cong refl)
    fix h assume "h \<in> {k * m..<k * m + m}"
    then have "h div m = k" by (intro div_nat_eqI) (auto simp: algebra_simps)
    then show "f (h div m) = f k" by simp
  qed
  finally show ?case using Suc by (simp add: algebra_simps)
qed simp

definition epoch_subsidy :: "mining_policy \<Rightarrow> nat \<Rightarrow> nat" where
  "epoch_subsidy p k = (if 127 \<le> k then 0 else drop_bit k (base_reward p))"

lemma subsidy_Suc: "subsidy p (Suc h) = epoch_subsidy p (h div max (halving_interval_blocks p) 1)"
  by (simp add: subsidy_def epoch_subsidy_def Let_def)

lemma sum_subsidy_epochs:
  "(\<Sum>h<k * max (halving_interval_blocks p) 1. subsidy p (Suc h))
     = max (halving_interval_blocks p) 1 * (\<Sum>j<k. epoch_subsidy p j)"
  by (simp only: subsidy_Suc sum_epochs)

text \<open>On mainnet the schedule is exhausted in the 31st epoch, 9,240,000 grains short of the cap.\<close>

lemma mainnet_epochs: "(\<Sum>j<31. epoch_subsidy mainnet_like j) = 2499999989"
  by (simp add: epoch_subsidy_def mainnet_like_def lessThan_nat_numeral drop_bit_eq_div)

lemma mainnet_epoch_zero: "31 \<le> k \<Longrightarrow> epoch_subsidy mainnet_like k = 0"
proof -
  assume "31 \<le> k"
  then have "(2::nat) ^ 31 \<le> 2 ^ k" by (intro power_increasing) simp_all
  then have "(1250000000::nat) < 2 ^ k" by simp
  then show ?thesis by (simp add: epoch_subsidy_def mainnet_like_def drop_bit_eq_div)
qed

section \<open>Difficulty, targets and work\<close>

lemma to_target_value: "be_value (to_target D) = U256_MAX div max D 1"
proof -
  have "U256_MAX div max D 1 \<le> U256_MAX" by (rule div_le_dividend)
  also have "\<dots> < 256 ^ 32" by (simp add: U256_MAX_def)
  finally show ?thesis by (simp add: to_target_def be_value_be_bytes)
qed

lemma quotient_involutive:
  assumes "0 < D" "D * D \<le> (M::nat)"
  shows "M div (M div D) = D"
proof -
  have "D \<le> M div D" using assms by (simp add: less_eq_div_iff_mult_less_eq)
  moreover have "M mod D < D" using assms by simp
  ultimately have r: "M mod D < M div D" by simp
  have split: "D * (M div D) + M mod D = M" by simp
  show ?thesis
  proof (rule div_nat_eqI)
    show "M div D * D \<le> M" by simp
    have "M < D * (M div D) + M div D" using split r by linarith
    then show "M < M div D * Suc D" by (simp add: mult.commute)
  qed
qed

lemma u128_square: "D \<le> U128_MAX \<Longrightarrow> D * D \<le> U256_MAX"
proof -
  assume "D \<le> U128_MAX"
  then have "D * D \<le> U128_MAX * U128_MAX" by (intro mult_le_mono)
  also have "\<dots> \<le> U256_MAX" by (simp add: U128_MAX_def U256_MAX_def)
  finally show ?thesis .
qed

lemma of_target_eq: "length t = 32 \<Longrightarrow> of_target t = 2 ^ 256 div (be_value t + 1)"
proof -
  assume "length t = 32"
  then have "be_value t \<le> U256_MAX" using be_value_less [of t] by (simp add: U256_MAX_def)
  then have "2 ^ 256 = (U256_MAX - be_value t) + (be_value t + 1)" by (simp add: U256_MAX_def)
  then have "2 ^ 256 div (be_value t + 1) = (U256_MAX - be_value t) div (be_value t + 1) + 1"
    by (metis div_add_self2 add_is_0 one_neq_zero)
  then show ?thesis by (simp add: of_target_def Let_def U256_MAX_def)
qed

lemma work_of_difficulty:
  assumes "1 \<le> D" "D \<le> U128_MAX"
  shows "D - 1 \<le> of_target (to_target D)" "of_target (to_target D) \<le> D"
proof -
  let ?q = "U256_MAX div D"
  have w: "of_target (to_target D) = (U256_MAX + 1) div (?q + 1)"
    using assms(1) of_target_eq [of "to_target D"]
    by (simp add: to_target_value max_def) (simp add: to_target_def U256_MAX_def)
  have split: "U256_MAX = D * ?q + U256_MAX mod D" by simp
  have rem: "U256_MAX mod D < D" using assms(1) by simp
  have q: "D \<le> ?q"
    using u128_square [OF assms(2)] assms(1) by (simp add: less_eq_div_iff_mult_less_eq)
  have "(D - 1) * (?q + 1) \<le> U256_MAX + 1"
  proof -
    have "(D - 1) * (?q + 1) \<le> D * ?q" using q assms(1) by (cases D) simp_all
    then show ?thesis using split by linarith
  qed
  then show "D - 1 \<le> of_target (to_target D)"
    unfolding w by (simp add: less_eq_div_iff_mult_less_eq)
  have "U256_MAX + 1 < (D + 1) * (?q + 1)"
  proof -
    have "(D + 1) * (?q + 1) = D * ?q + D + ?q + 1" by (simp add: algebra_simps)
    then show ?thesis using split rem q assms(1) by linarith
  qed
  then show "of_target (to_target D) \<le> D"
    unfolding w by (metis Suc_eq_plus1 less_Suc_eq_le less_mult_imp_div_less)
qed

lemma clamp_between: "clamp x lo hi = Some y \<Longrightarrow> lo \<le> y \<and> y \<le> hi"
  by (auto simp: clamp_def split: if_splits)

lemma lwma_sums_total:
  assumes "sd + sum_list (map fst xs) < 2 ^ 256"
    and "idx + length xs \<le> 2 ^ 32" "t < 2 ^ 64"
    and "w + length xs * 2 ^ 100 < 2 ^ 200"
  shows "\<exists>w'. lwma_sums t idx xs sd w = Some (sd + sum_list (map fst xs), w') \<and> w' < 2 ^ 200"
  using assms
proof (induction t idx xs sd w rule: lwma_sums.induct)
  case (2 t idx d st rest sd w)
  have "(idx + 1) * solve_time t st \<le> 2 ^ 32 * (6 * 2 ^ 64)"
    using 2(3,4) by (intro mult_le_mono) (auto simp: solve_time_def min_def)
  then have prod: "(idx + 1) * solve_time t st \<le> 2 ^ 100" by simp
  have room: "w + (idx + 1) * solve_time t st + length rest * 2 ^ 100 < 2 ^ 200"
    using prod 2(5) by simp
  have "\<exists>w'. lwma_sums t (idx + 1) rest (sd + d) (w + (idx + 1) * solve_time t st)
      = Some (sd + d + sum_list (map fst rest), w') \<and> w' < 2 ^ 200"
  proof (rule 2(1))
    show "checked_add 256 sd d = Some (sd + d)" using 2(2) by simp
    show "checked_mul 256 (idx + 1) (solve_time t st) = Some ((idx + 1) * solve_time t st)"
      using prod by simp
    show "checked_add 256 w ((idx + 1) * solve_time t st) = Some (w + (idx + 1) * solve_time t st)"
      using room by simp
  qed (use 2 room in auto)
  moreover have "lwma_sums t idx ((d, st) # rest) sd w
      = lwma_sums t (idx + 1) rest (sd + d) (w + (idx + 1) * solve_time t st)"
    using 2(2) prod room by (simp add: checked_add_def checked_mul_def)
  ultimately show ?case by (simp add: add.assoc)
qed simp

lemma sum_list_bound: "(\<And>x. x \<in> set xs \<Longrightarrow> x < B) \<Longrightarrow> sum_list xs \<le> length xs * B" for B :: nat
  by (induction xs) (auto simp: add_mono less_imp_le)

lemma lwma_clamped:
  assumes "diffs \<noteq> []" "length solvetimes = length diffs"
    and "lwma_sums (max t 1) 0 (zip diffs solvetimes) 0 0 = Some (sd, w)"
    and "checked_mul 256 sd (max t 1) = Some st"
    and "checked_mul 256 st (length diffs + 1) = Some num"
    and "checked_mul 256 2 (if w = 0 then 1 else w) = Some den"
  shows "lwma diffs solvetimes t =
    clamp (max (min (num div den) U128_MAX) 1) (max (max (last diffs) 1 div MAX_STEP) 1)
      (saturating_mul 128 (max (last diffs) 1) MAX_STEP)"
  using assms by (simp del: checked_mul_Some add: lwma_def Let_def last_conv_nth)

lemma lwma_step:
  assumes "diffs \<noteq> []" "length solvetimes = length diffs" "length diffs < 2 ^ 32"
    and "\<And>d. d \<in> set diffs \<Longrightarrow> d < 2 ^ 128" "t < 2 ^ 64"
  shows "\<exists>D. lwma diffs solvetimes t = Some D
      \<and> max (max (last diffs) 1 div 2) 1 \<le> D \<and> D \<le> 2 * max (last diffs) 1 \<and> D < 2 ^ 128"
proof -
  let ?n = "length diffs" and ?t = "max t 1" and ?xs = "zip diffs solvetimes"
  let ?parent = "max (last diffs) 1"
  have fst_xs: "map fst ?xs = diffs" using assms(2) by simp
  have sum: "sum_list diffs \<le> ?n * 2 ^ 128" by (rule sum_list_bound) (rule assms(4))
  also have "\<dots> < 2 ^ 32 * 2 ^ 128" using assms(3) by (intro mult_strict_right_mono) simp_all
  finally have sum160: "sum_list diffs < 2 ^ 160" by simp
  have len: "?n * 2 ^ 100 < 2 ^ 32 * 2 ^ 100" using assms(3) by (intro mult_strict_right_mono) simp_all
  obtain w where w: "lwma_sums ?t 0 ?xs 0 0 = Some (sum_list diffs, w)" "w < 2 ^ 200"
    using lwma_sums_total [of 0 ?xs 0 ?t 0] sum160 len assms(2,3,5) by (auto simp: fst_xs)
  have "sum_list diffs * ?t < 2 ^ 160 * 2 ^ 64"
    using sum160 assms(5) by (intro mult_strict_mono) auto
  then have m1: "sum_list diffs * ?t < 2 ^ 224" by simp
  then have "sum_list diffs * ?t * (?n + 1) < 2 ^ 224 * 2 ^ 32"
    using assms(3) by (intro mult_less_le_imp_less) auto
  then have m2: "sum_list diffs * ?t * (?n + 1) < 2 ^ 256" by simp
  have m3: "2 * (if w = 0 then 1 else w) < 2 ^ 256" using w(2) by simp
  have c1: "checked_mul 256 (sum_list diffs) ?t = Some (sum_list diffs * ?t)"
    unfolding checked_mul_Some using m1 by simp
  have c2: "checked_mul 256 (sum_list diffs * ?t) (?n + 1) = Some (sum_list diffs * ?t * (?n + 1))"
    unfolding checked_mul_Some using m2 by blast
  have c3: "checked_mul 256 2 (if w = 0 then 1 else w) = Some (2 * (if w = 0 then 1 else w))"
    unfolding checked_mul_Some using m3 by blast
  have "last diffs < 2 ^ 128" using assms(1,4) by simp
  then have parent: "?parent \<le> 2 ^ 128 - 1" by simp
  have "max (?parent div 2) 1 \<le> ?parent" by (rule max.boundedI) simp_all
  with parent have lo_hi: "max (?parent div 2) 1 \<le> min (?parent * 2) (2 ^ 128 - 1)"
    by (intro min.boundedI) linarith+
  obtain nxt where eq: "lwma diffs solvetimes t
      = clamp nxt (max (?parent div 2) 1) (min (?parent * 2) (2 ^ 128 - 1))"
    using lwma_clamped [OF assms(1,2) w(1) c1 c2 c3] unfolding saturating_mul_def MAX_STEP_def by blast
  then obtain D where D: "lwma diffs solvetimes t = Some D"
    using lo_hi by (simp add: clamp_def)
  have bnds: "max (?parent div 2) 1 \<le> D \<and> D \<le> min (?parent * 2) (2 ^ 128 - 1)"
    using D unfolding eq by (rule clamp_between)
  then have "D \<le> 2 ^ 128 - 1" by simp
  then have "D < 2 ^ 128" by simp
  with D bnds show ?thesis by (simp add: mult.commute)
qed

lemma eda_bounds: "eda D e t \<le> max D 1" "D div 256 \<le> eda D e t" "1 \<le> eda D e t"
proof -
  let ?h = "eda_halvings e t"
  have "?h \<le> 8" by (simp add: eda_halvings_def EDA_MAX_HALVINGS_def Let_def)
  then have "(2::nat) ^ ?h \<le> 2 ^ 8" by (intro power_increasing) simp_all
  then have "D div 256 \<le> D div 2 ^ ?h" by (intro div_le_mono2) simp_all
  then show "D div 256 \<le> eda D e t" by (simp add: eda_def drop_bit_eq_div)
  have "D div 2 ^ ?h \<le> D" by (rule div_le_dividend)
  then show "eda D e t \<le> max D 1" unfolding eda_def drop_bit_eq_div by linarith
qed (simp add: eda_def)

section \<open>Properties\<close>

lemma mainnet_sum: "(\<Sum>h<31 * 840000. subsidy mainnet_like (Suc h)) = 2099999990760000"
  using sum_subsidy_epochs [where p = mainnet_like and k = 31] mainnet_epochs
  by (simp add: mainnet_like_def)

lemma mainnet_subsidy_ends: "31 * 840000 \<le> h \<Longrightarrow> subsidy mainnet_like (Suc h) = 0"
proof -
  assume "31 * 840000 \<le> h"
  then have "31 \<le> h div 840000" by linarith
  then show ?thesis using mainnet_epoch_zero by (simp add: subsidy_Suc) (simp add: mainnet_like_def)
qed

lemma mainnet_sum_beyond: "(\<Sum>h<26040000 + n. subsidy mainnet_like (Suc h)) = 2099999990760000"
proof (induction n)
  case 0
  show ?case using mainnet_sum by simp
next
  case (Suc n)
  then show ?case using mainnet_subsidy_ends [of "26040000 + n"] by (simp only: add_Suc_right sum.lessThan_Suc)
qed

text \<open>C13. Emission never exceeds the budget of a policy, whatever its schedule.  On the mainnet
  schedule the total issued is below the cap of 21 million at every height: it is exactly
  2,099,999,990,760,000 grains from block 26,040,000 on, and no more before.\<close>

theorem emission_capped:
  "issued p n \<le> mining_budget_grains p
   \<and> issued mainnet_like n \<le> 2099999990760000
   \<and> issued mainnet_like (26040000 + n) = 2099999990760000
   \<and> within_cap (issued mainnet_like n)"
proof -
  have total: "issued mainnet_like (26040000 + m) = 2099999990760000" for m
    using issued_unclamped [of mainnet_like "26040000 + m"] mainnet_sum_beyond [of m]
    by (simp add: mainnet_like_def MAX_SUPPLY_GRAINS_value)
  have le: "issued mainnet_like n \<le> 2099999990760000"
    using issued_mono [of n "26040000 + n" mainnet_like] total [of n] by simp
  then have "within_cap (issued mainnet_like n)"
    by (simp add: within_cap_def MAX_SUPPLY_GRAINS_value)
  with le total issued_le_budget show ?thesis by blast
qed

text \<open>C20. A difficulty from 1 to the largest 128-bit value survives the trip through its 256-bit
  target, and the work credited to a block at that target is the difficulty or one less.\<close>

theorem difficulty_target_roundtrip:
  assumes "1 \<le> D" "D \<le> U128_MAX"
  shows "from_target (to_target D) = D
    \<and> D - 1 \<le> of_target (to_target D) \<and> of_target (to_target D) \<le> D"
proof -
  have q: "U256_MAX div (U256_MAX div D) = D"
    using quotient_involutive u128_square assms by simp
  have "U256_MAX div D \<noteq> 0" using q assms(1) by (metis div_by_0 not_one_le_zero)
  then show ?thesis
    using q assms work_of_difficulty [OF assms] by (simp add: from_target_def to_target_value Let_def)
qed

theorem difficulty_target_roundtrip_witness:
  "from_target (to_target 1000) = 1000 \<and> of_target (to_target 1000) \<le> 1000"
  using difficulty_target_roundtrip [of 1000] by (simp add: U128_MAX_def)

text \<open>C21. The linearly weighted moving average never overflows its 256-bit arithmetic on a window of
  fewer than \<open>2 ^ 32\<close> blocks of 128-bit difficulties, and the next difficulty is at least half
  and at most twice the difficulty of the parent, is never 0, and fits in 128 bits.\<close>

theorem lwma_total_and_bounded:
  assumes "diffs \<noteq> []" "length solvetimes = length diffs" "length diffs < 2 ^ 32"
    and "\<And>d. d \<in> set diffs \<Longrightarrow> d < 2 ^ 128" "t < 2 ^ 64"
  shows "\<exists>D. lwma diffs solvetimes t = Some D
      \<and> max (max (last diffs) 1 div 2) 1 \<le> D \<and> D \<le> 2 * max (last diffs) 1 \<and> D < 2 ^ 128"
  using lwma_step [OF assms] .

theorem lwma_total_and_bounded_witness:
  "\<exists>D. lwma [100, 100] [150000, 1] 150000 = Some D \<and> 50 \<le> D \<and> D \<le> 200"
  using lwma_total_and_bounded [of "[100, 100]" "[150000, 1]" 150000] by auto

text \<open>C22. The emergency adjustment only lowers a difficulty, by a factor of at most 256 and never to 0;
  it leaves the difficulty alone until six target intervals have passed without a block, and
  a longer stall never gives a higher difficulty.\<close>

theorem eda_bounded:
  "eda D elapsed t \<le> max D 1 \<and> D div 256 \<le> eda D elapsed t \<and> 1 \<le> eda D elapsed t
   \<and> (elapsed < min (6 * max t 1) (2 ^ 64 - 1) \<longrightarrow> eda D elapsed t = max D 1)
   \<and> (elapsed \<le> elapsed' \<longrightarrow> eda D elapsed' t \<le> eda D elapsed t)"
proof -
  have quiet: "eda_halvings elapsed t = 0" if "elapsed < min (6 * max t 1) (2 ^ 64 - 1)"
    using that by (simp add: eda_halvings_def Let_def EDA_STALL_FACTOR_def saturating_mul_def)
  have mono: "eda_halvings elapsed t \<le> eda_halvings elapsed' t" if "elapsed \<le> elapsed'"
    unfolding eda_halvings_def Let_def by (intro min.mono div_le_mono that order.refl)
  have "eda D elapsed' t \<le> eda D elapsed t" if "elapsed \<le> elapsed'"
    unfolding eda_def drop_bit_eq_div
    by (intro max.mono div_le_mono2 power_increasing mono that order.refl) simp_all
  then show ?thesis
    using eda_bounds [of D elapsed t] quiet by (simp add: eda_def)
qed

theorem eda_bounded_witness:
  "eda 1000 0 150000 = 1000 \<and> eda 1000 2000000 150000 \<le> eda 1000 1000000 150000"
  using eda_bounded [of 1000 0 150000 0] eda_bounded [of 1000 1000000 150000 2000000] by simp

end
