(* ===== verification/CarrierV2.thy ===== *)
theory CarrierV2
  imports Types Mining
begin

text \<open>
  Consensus verification of a pool-v2 bundle for the transaction that carries it:
  \<open>runtime/src/shielded_v2.rs\<close>, with the structural rules of \<open>shielded-pq/src/bundle.rs\<close> and the
  carrier-bound authorization message of \<open>shielded-pq/src/carrier.rs\<close>.

  The wire decoder, the STARK verifiers, ML-DSA-65 and the key-derivation mode of Blake3 are
  fields of the record \<open>v2_prims\<close>; so is the build feature \<open>zk-suite2\<close>.
\<close>

section \<open>Bundles\<close>

definition NUM_SLOTS :: nat where "NUM_SLOTS = 4"
definition MAX_NOTE_VALUE :: nat where "MAX_NOTE_VALUE = 2 ^ 61 - 1"
definition PROOF_VERSION_V2 :: byte where "PROOF_VERSION_V2 = 2"
definition AUTH_PK_LEN :: nat where "AUTH_PK_LEN = 1952"

record bundle_public_inputs =
  pi_anchors :: "pq_digest list"
  pi_nullifiers :: "pq_digest list"
  input_dummy :: "bool list"
  output_commitments :: "pq_digest list"
  output_dummy :: "bool list"
  transparent_in :: nat
  transparent_out :: nat
  fee_grains :: nat

record note_ciphertext =
  kem_ct :: bytes
  detection_tag :: bytes
  aead_ct :: bytes

record spend_bundle =
  public_inputs :: bundle_public_inputs
  proof_bytes :: bytes
  output_ciphertexts :: "note_ciphertext option list"
  auth_pk :: bytes
  auth_sig :: bytes

datatype bundle_error = PublicValue | DummySlot nat | RealSlot nat | DuplicateNullifier

datatype wire_error = WireUnknownProofVersion nat | WireOther string

record suite2_context =
  s2_chain_id :: bytes
  s2_genesis :: hash
  s2_signer :: bytes
  s2_nonce :: nat
  s2_auth_pk :: bytes

record v2_prims = tx_codec +
  zk_suite2 :: bool
  blake3_derive_key :: "string \<Rightarrow> bytes \<Rightarrow> hash"
  verify_auth :: "bytes \<Rightarrow> hash \<Rightarrow> bytes \<Rightarrow> bool"
  decode_bundle :: "nat \<Rightarrow> bytes \<Rightarrow> wire_error + spend_bundle"
  verify_spend :: "bytes \<Rightarrow> bundle_public_inputs \<Rightarrow> string option"
  verify_spend_suite2 :: "bytes \<Rightarrow> bundle_public_inputs \<Rightarrow> suite2_context \<Rightarrow> string option"

fun first_some :: "('a \<Rightarrow> 'b option) \<Rightarrow> 'a list \<Rightarrow> 'b option" where
  "first_some f [] = None"
| "first_some f (x # xs) = (case f x of Some y \<Rightarrow> Some y | None \<Rightarrow> first_some f xs)"

lemma first_some_None: "first_some f xs = None \<longleftrightarrow> (\<forall>x \<in> set xs. f x = None)"
  by (induction xs) (auto split: option.splits)

definition input_slot_error :: "bundle_public_inputs \<Rightarrow> nat \<Rightarrow> bundle_error option" where
  "input_slot_error pi i =
     (if input_dummy pi ! i then
        (if pi_anchors pi ! i \<noteq> PQ_ZERO \<or> pi_nullifiers pi ! i \<noteq> PQ_ZERO then Some (DummySlot i) else None)
      else if pi_nullifiers pi ! i = PQ_ZERO then Some (RealSlot i) else None)"

definition output_slot_error :: "bundle_public_inputs \<Rightarrow> note_ciphertext option list \<Rightarrow> nat \<Rightarrow> bundle_error option" where
  "output_slot_error pi cts j =
     (if output_dummy pi ! j then
        (if output_commitments pi ! j \<noteq> PQ_ZERO \<or> cts ! j \<noteq> None then Some (DummySlot j) else None)
      else if output_commitments pi ! j = PQ_ZERO \<or> cts ! j = None then Some (RealSlot j) else None)"

definition real_inputs :: "bundle_public_inputs \<Rightarrow> nat list" where
  "real_inputs pi = filter (\<lambda>i. \<not> input_dummy pi ! i) [0..<NUM_SLOTS]"

definition real_outputs :: "bundle_public_inputs \<Rightarrow> nat list" where
  "real_outputs pi = filter (\<lambda>j. \<not> output_dummy pi ! j) [0..<NUM_SLOTS]"

definition adjacent_equal :: "'a list \<Rightarrow> bool" where
  "adjacent_equal xs = list_ex (\<lambda>(a, b). a = b) (zip xs (tl xs))"

definition check_structure :: "spend_bundle \<Rightarrow> bundle_error option" where
  "check_structure b =
     (let pi = public_inputs b
      in if MAX_NOTE_VALUE < transparent_in pi \<or> MAX_NOTE_VALUE < transparent_out pi \<or> MAX_NOTE_VALUE < fee_grains pi
         then Some PublicValue
         else (case first_some (input_slot_error pi) [0..<NUM_SLOTS] of
             Some e \<Rightarrow> Some e
           | None \<Rightarrow> (case first_some (output_slot_error pi (output_ciphertexts b)) [0..<NUM_SLOTS] of
               Some e \<Rightarrow> Some e
             | None \<Rightarrow>
                 (let nfs = map (\<lambda>i. pi_nullifiers pi ! i) (real_inputs pi)
                  in if adjacent_equal (sort nfs) then Some DuplicateNullifier else None))))"

section \<open>Carrier authorization\<close>

record carrier_context =
  cc_chain_id :: bytes
  cc_genesis :: hash
  cc_signer :: bytes
  cc_nonce :: nat

definition flag_byte :: "bool \<Rightarrow> bytes" where
  "flag_byte b = [if b then 1 else 0]"

definition ciphertext_bytes :: "note_ciphertext option \<Rightarrow> bytes" where
  "ciphertext_bytes ct = (case ct of
      None \<Rightarrow> [0]
    | Some ct \<Rightarrow> [1] @ kem_ct ct @ detection_tag ct @ to_le_bytes 8 (length (aead_ct ct)) @ aead_ct ct)"

definition bundle_digest :: "'a v2_prims_scheme \<Rightarrow> spend_bundle \<Rightarrow> hash" where
  "bundle_digest C b = (let pi = public_inputs b in
     blake3_derive_key C ''sov-shielded-pq:bundle:v2''
       (concat (map (\<lambda>i. pq_to_bytes (pi_anchors pi ! i) @ pq_to_bytes (pi_nullifiers pi ! i)
                         @ flag_byte (input_dummy pi ! i)) [0..<NUM_SLOTS])
        @ concat (map (\<lambda>j. pq_to_bytes (output_commitments pi ! j) @ flag_byte (output_dummy pi ! j)
                         @ ciphertext_bytes (output_ciphertexts b ! j)) [0..<NUM_SLOTS])
        @ to_le_bytes 8 (transparent_in pi) @ to_le_bytes 8 (transparent_out pi) @ to_le_bytes 8 (fee_grains pi)
        @ to_le_bytes 8 AUTH_PK_LEN @ auth_pk b))"

definition carrier_preimage :: "hash \<Rightarrow> carrier_context \<Rightarrow> bytes" where
  "carrier_preimage digest ctx =
     [2] @ to_le_bytes 8 (length (cc_chain_id ctx)) @ cc_chain_id ctx @ cc_genesis ctx
     @ to_le_bytes 8 (length (cc_signer ctx)) @ cc_signer ctx @ to_le_bytes 8 (cc_nonce ctx) @ digest"

definition carrier_sighash :: "'a v2_prims_scheme \<Rightarrow> hash \<Rightarrow> carrier_context \<Rightarrow> hash" where
  "carrier_sighash C digest ctx =
     blake3_derive_key C ''sov-shielded-pq:carrier-binding:v2'' (carrier_preimage digest ctx)"

definition authorization_message :: "'a v2_prims_scheme \<Rightarrow> spend_bundle \<Rightarrow> carrier_context \<Rightarrow> hash" where
  "authorization_message C b ctx = carrier_sighash C (bundle_digest C b) ctx"

definition verify_carrier_auth :: "'a v2_prims_scheme \<Rightarrow> spend_bundle \<Rightarrow> carrier_context \<Rightarrow> bool" where
  "verify_carrier_auth C b ctx = verify_auth C (auth_pk b) (authorization_message C b ctx) (auth_sig b)"

section \<open>Verification against the ledger\<close>

datatype shielded_v2_error =
    UnknownProofVersion nat
  | MalformedBundle string
  | MalformedStructure bundle_error
  | MalformedState v2_state_error
  | NoEffect
  | FeeLegNotZero nat
  | CarrierAuth
  | InvalidProof string
  | UnknownAnchor nat
  | NullifierAlreadySpent nat
  | V2TreeIsFull
  | InsufficientBalance nat
  | Turnstile nat nat
  | ValueOverflow
  | DrainLimit

record v2_effects =
  eff_nullifiers :: "pq_digest list"
  eff_commitments :: "pq_digest list"
  shield_in :: balance
  deshield_out :: balance
  window_update :: "(nat \<times> balance) option"

text \<open>The tumbling drain limiter both pools use: the window to persist, or \<open>None\<close> when the limit is hit.\<close>

definition drain_window :: "mining_policy \<Rightarrow> nat \<Rightarrow> nat \<times> balance \<Rightarrow> balance \<Rightarrow> (nat \<times> balance) option" where
  "drain_window mining height win amount =
     (let (start, sp) = win;
          (base_start, base_spent) =
            (if deshield_window_blocks mining \<le> saturating_sub height start then (height, 0) else (start, sp))
      in case bal_add base_spent amount of
           Some new_spent \<Rightarrow>
             if new_spent \<le> deshield_limit_grains mining then Some (base_start, new_spent) else None
         | None \<Rightarrow> None)"

definition spend_proof_error ::
  "'a v2_prims_scheme \<Rightarrow> bool \<Rightarrow> spend_bundle \<Rightarrow> carrier_context \<Rightarrow> shielded_v2_error option" where
  "spend_proof_error C suite2 b ctx =
     (if suite2 then
        (if zk_suite2 C then
           map_option InvalidProof (verify_spend_suite2 C (proof_bytes b) (public_inputs b)
             \<lparr>s2_chain_id = cc_chain_id ctx, s2_genesis = cc_genesis ctx, s2_signer = cc_signer ctx,
              s2_nonce = cc_nonce ctx, s2_auth_pk = auth_pk b\<rparr>)
         else Some (UnknownProofVersion 2))
      else map_option InvalidProof (verify_spend C (proof_bytes b) (public_inputs b)))"

definition first_byte :: "bytes \<Rightarrow> nat" where
  "first_byte bs = (case bs of [] \<Rightarrow> 0 | b # _ \<Rightarrow> unat b)"

definition is_suite2 :: "bytes \<Rightarrow> bool" where
  "is_suite2 bs = (case bs of [] \<Rightarrow> False | b # _ \<Rightarrow> b = PROOF_VERSION_V2)"

text \<open>Steps 5 to 9, against the pool and the counters of the ledger.\<close>

definition check_effects ::
  "ledger \<Rightarrow> mining_policy \<Rightarrow> nat \<Rightarrow> balance \<Rightarrow> bundle_public_inputs \<Rightarrow> shielded_v2_error + v2_effects" where
  "check_effects l mining height signer_balance pi =
     (let pool = shielded_v2 l;
          nfs = map (\<lambda>i. pi_nullifiers pi ! i) (real_inputs pi);
          cms = map (\<lambda>j. output_commitments pi ! j) (real_outputs pi);
          si = transparent_in pi;
          out = transparent_out pi
      in case first_some (\<lambda>i. if v2_anchor_is_known pool (pi_anchors pi ! i) then None
                              else Some (UnknownAnchor i)) (real_inputs pi) of
           Some e \<Rightarrow> Inl e
         | None \<Rightarrow>
             (case first_some (\<lambda>i. if v2_nullifier_seen pool (pi_nullifiers pi ! i)
                                   then Some (NullifierAlreadySpent i) else None) (real_inputs pi) of
                Some e \<Rightarrow> Inl e
              | None \<Rightarrow>
                  if (case checked_add 64 (v2_size pool) (length cms) of
                        Some n \<Rightarrow> MAX_V2_NOTES < n | None \<Rightarrow> True) then Inl V2TreeIsFull
                  else if bal_sub signer_balance si = None then Inl (InsufficientBalance si)
                  else (case bal_add (shielded_v2_value l) si of
                      None \<Rightarrow> Inl ValueOverflow
                    | Some after_shield \<Rightarrow>
                        if bal_sub after_shield out = None then Inl (Turnstile out after_shield)
                        else if out \<noteq> 0 \<and> deshield_window_blocks mining \<noteq> 0 then
                          (case drain_window mining height (deshield_v2_window l) out of
                             None \<Rightarrow> Inl DrainLimit
                           | Some w \<Rightarrow> Inr \<lparr>eff_nullifiers = nfs, eff_commitments = cms, shield_in = si,
                                            deshield_out = out, window_update = Some w\<rparr>)
                        else Inr \<lparr>eff_nullifiers = nfs, eff_commitments = cms, shield_in = si,
                                  deshield_out = out, window_update = None\<rparr>)))"

definition verify_bundle_for_carrier_with_suite2 ::
  "'a v2_prims_scheme \<Rightarrow> bytes \<Rightarrow> ledger \<Rightarrow> mining_policy \<Rightarrow> nat \<Rightarrow> signing_domain \<Rightarrow> account_id \<Rightarrow> nat
     \<Rightarrow> balance \<Rightarrow> bool \<Rightarrow> shielded_v2_error + v2_effects" where
  "verify_bundle_for_carrier_with_suite2 C bundle_bytes l mining height domain signer n signer_balance suite2_active =
     (let suite2 = is_suite2 bundle_bytes
      in if suite2_active \<and> \<not> suite2 then Inl (UnknownProofVersion (first_byte bundle_bytes))
         else if suite2 \<and> \<not> (suite2_active \<and> zk_suite2 C) then Inl (UnknownProofVersion 2)
         else (case decode_bundle C (if suite2 then 2 else 1) bundle_bytes of
             Inl (WireUnknownProofVersion v) \<Rightarrow> Inl (UnknownProofVersion v)
           | Inl (WireOther m) \<Rightarrow> Inl (MalformedBundle m)
           | Inr b \<Rightarrow>
               (let pi = public_inputs b;
                    ctx = \<lparr>cc_chain_id = ascii (chain_id domain), cc_genesis = genesis domain,
                           cc_signer = ascii signer, cc_nonce = n\<rparr>
                in case check_structure b of
                     Some e \<Rightarrow> Inl (MalformedStructure e)
                   | None \<Rightarrow>
                       if fee_grains pi \<noteq> 0 then Inl (FeeLegNotZero (fee_grains pi))
                       else if real_inputs pi = [] \<and> real_outputs pi = [] then Inl NoEffect
                       else if \<not> verify_carrier_auth C b ctx then Inl CarrierAuth
                       else (case spend_proof_error C suite2 b ctx of
                           Some e \<Rightarrow> Inl e
                         | None \<Rightarrow> check_effects l mining height signer_balance pi))))"

definition verify_bundle_for_carrier ::
  "'a v2_prims_scheme \<Rightarrow> bytes \<Rightarrow> ledger \<Rightarrow> mining_policy \<Rightarrow> nat \<Rightarrow> signing_domain \<Rightarrow> account_id \<Rightarrow> nat
     \<Rightarrow> balance \<Rightarrow> shielded_v2_error + v2_effects" where
  "verify_bundle_for_carrier C bundle_bytes l mining height domain signer n signer_balance =
     verify_bundle_for_carrier_with_suite2 C bundle_bytes l mining height domain signer n signer_balance False"

end
