(* ===== verification/Execution.thy ===== *)
theory Execution
  imports Gas CarrierV2
begin

text \<open>
  The state transition function, \<open>runtime/src/execution.rs\<close>: admission of a transaction, one
  definition per arm of the dispatch on its action, the settlement of fees, and the execution of
  a block's coinbase and transactions.

  An arm works on the record \<open>exec\<close>: the ledger, the signer's account, which is a copy that is
  written back after the dispatch, and the outputs that go into the receipt.  It returns the
  record together with its outcome.  The record is returned on the error path too, since the
  code mutates the ledger in place.  \<open>Inl (Reject e)\<close> is \<open>Err(e)\<close>, \<open>Inl Panic\<close> a panic, and
  \<open>Inr\<close> carries the status of the receipt.

  The contract virtual machine and the decoder of v1 bundles are fields of the record \<open>exec_env\<close>.
\<close>

section \<open>Context and results\<close>

record exec_context =
  vm_block_height :: nat
  vm_caller :: string
  vm_contract :: string
  vm_calldata :: bytes
  vm_token_balances :: "(hash, nat) btree_map"

record token_transfer_cmd =
  cmd_asset :: hash
  cmd_to :: string
  cmd_amount :: nat

record vm_outcome =
  vm_status :: int
  vm_gas_used :: nat
  vm_return_data :: bytes
  vm_events :: "event list"
  vm_token_transfers :: "token_transfer_cmd list"

datatype vm_error =
    VmCompile string
  | VmInstantiate string
  | VmMissingEntry string
  | VmOutOfGas
  | VmTrap string

type_synonym contract_storage_map = "(bytes, bytes) btree_map"

record exec_env = v2_prims +
  decode_shielded :: "bytes \<Rightarrow> shielded_bundle option"
  vm_execute :: "bytes \<Rightarrow> string \<Rightarrow> nat \<Rightarrow> exec_context \<Rightarrow> contract_storage_map
     \<Rightarrow> vm_error + (vm_outcome \<times> contract_storage_map)"

record block_context =
  bc_height :: nat
  bc_prev_hash :: hash
  bc_block_time_ms :: nat
  bc_mining :: mining_policy
  bc_gas_price :: balance
  bc_miner :: account_id
  bc_pq :: "pq_schedule option"
  bc_tx_domain :: tx_domain_mode
  fee_auction_active :: bool
  shielded_v2_active :: bool
  shielded_v2_suite2_active :: bool
  tx_timestamp_active :: bool
  bc_chain_domain :: signing_domain

datatype execution_error =
    InvalidSignature
  | Unauthorized account_id
  | BadNonce nat nat
  | Overflow
  | CannotAffordFee account_id
  | DataTooLarge nat nat
  | PqRotationRequired account_id
  | PqSunset account_id
  | PqShieldedV1DepositsClosed
  | PqShieldedV1Sunset
  | FeatureInactive string
  | NestedTip
  | TipInnerNotAllowed
  | MisplacedTimestamp
  | TimestampInnerNotAllowed
  | TxTimestampInFuture nat nat nat
  | TxTimestampExpired nat nat nat
  | PqShieldedV2Unreviewed
  | ShieldedV2Error shielded_v2_error

datatype failure = Reject execution_error | Panic

record exec =
  xl :: ledger
  xs :: account
  xfee :: balance
  xgas :: nat
  xret :: bytes
  xev :: "event list"

type_synonym arm_result = "exec \<times> (failure + exec_status)"

definition succeed :: "exec \<Rightarrow> arm_result" where
  "succeed x = (x, Inr Success)"

definition fail_with :: "string \<Rightarrow> exec \<Rightarrow> arm_result" where
  "fail_with reason x = (x, Inr (Failed reason))"

definition reject_with :: "execution_error \<Rightarrow> exec \<Rightarrow> arm_result" where
  "reject_with e x = (x, Inl (Reject e))"

definition panic :: "exec \<Rightarrow> arm_result" where
  "panic x = (x, Inl Panic)"

lemmas outcome_defs = succeed_def fail_with_def reject_with_def panic_def

text \<open>Sequencing of fallible computations without state, and a guard.\<close>

definition and_then :: "'e + 'a \<Rightarrow> ('a \<Rightarrow> 'e + 'b) \<Rightarrow> 'e + 'b" where
  "and_then m f = (case m of Inl e \<Rightarrow> Inl e | Inr a \<Rightarrow> f a)"

definition ensure :: "bool \<Rightarrow> 'e \<Rightarrow> 'e + unit" where
  "ensure b e = (if b then Inr () else Inl e)"

definition ok_or :: "'e \<Rightarrow> 'a option \<Rightarrow> 'e + 'a" where
  "ok_or e m = (case m of Some a \<Rightarrow> Inr a | None \<Rightarrow> Inl e)"

lemma and_then_Inr [simp]: "and_then m f = Inr b \<longleftrightarrow> (\<exists>a. m = Inr a \<and> f a = Inr b)"
  by (cases m) (simp_all add: and_then_def)

lemma and_then_Inl [simp]: "and_then m f = Inl e \<longleftrightarrow> m = Inl e \<or> (\<exists>a. m = Inr a \<and> f a = Inl e)"
  by (cases m) (simp_all add: and_then_def)

lemma ensure_Inr [simp]: "ensure b e = Inr u \<longleftrightarrow> b"
  by (simp add: ensure_def)

lemma ensure_Inl [simp]: "ensure b e = Inl e' \<longleftrightarrow> \<not> b \<and> e' = e"
  by (auto simp: ensure_def)

lemma ok_or_Inr [simp]: "ok_or e m = Inr a \<longleftrightarrow> m = Some a"
  by (cases m) (auto simp: ok_or_def)

lemma ok_or_Inl [simp]: "ok_or e m = Inl e' \<longleftrightarrow> m = None \<and> e' = e"
  by (cases m) (auto simp: ok_or_def)

text \<open>Decimal notation, for the reasons that quote a number.\<close>

function show_nat :: "nat \<Rightarrow> string" where
  "show_nat n = (if n < 10 then [char_of (48 + n)] else show_nat (n div 10) @ [char_of (48 + n mod 10)])"
  by pat_completeness auto
termination
  by (relation "measure id") auto

declare show_nat.simps [simp del]

section \<open>Gates on the action tree\<close>

fun dormant_feature :: "block_context \<Rightarrow> action \<Rightarrow> string option" where
  "dormant_feature ctx (Tipped _ _) = (if fee_auction_active ctx then None else Some ''fee-auction'')"
| "dormant_feature ctx (ShieldedV2 _) = (if shielded_v2_active ctx then None else Some ''shielded-v2'')"
| "dormant_feature ctx (Timestamped _ _) = (if tx_timestamp_active ctx then None else Some ''tx-timestamp'')"
| "dormant_feature ctx _ = None"

text \<open>The child of a carrier; the loops of the code walk along it.\<close>

fun carried :: "action \<Rightarrow> action option" where
  "carried (MultisigExec a _) = Some a"
| "carried (ProposeMultisig _ a) = Some a"
| "carried (Tipped _ inner) = Some inner"
| "carried (Timestamped _ inner) = Some inner"
| "carried _ = None"

lemma carried_size [termination_simp]: "carried a = Some b \<Longrightarrow> size b < size a"
  by (cases a) auto

function find_inactive_feature :: "block_context \<Rightarrow> action \<Rightarrow> string option" where
  "find_inactive_feature ctx node = (case dormant_feature ctx node of
      Some feature \<Rightarrow> Some feature
    | None \<Rightarrow> (case carried node of Some child \<Rightarrow> find_inactive_feature ctx child | None \<Rightarrow> None))"
  by pat_completeness auto
termination
  by (relation "measure (\<lambda>(ctx, node). size node)") (auto simp: carried_size)

declare find_inactive_feature.simps [simp del]

fun nested_timestamp_from :: "action \<Rightarrow> bool" where
  "nested_timestamp_from (Timestamped _ _) = True"
| "nested_timestamp_from (MultisigExec a _) = nested_timestamp_from a"
| "nested_timestamp_from (ProposeMultisig _ a) = nested_timestamp_from a"
| "nested_timestamp_from (Tipped _ inner) = nested_timestamp_from inner"
| "nested_timestamp_from _ = False"

definition has_nested_timestamp :: "action \<Rightarrow> bool" where
  "has_nested_timestamp a = (case carried a of Some child \<Rightarrow> nested_timestamp_from child | None \<Rightarrow> False)"

definition pq_requires_hybrid_authority :: "block_context \<Rightarrow> account \<Rightarrow> bool" where
  "pq_requires_hybrid_authority ctx a = (case bc_pq ctx of
      None \<Rightarrow> False
    | Some pq \<Rightarrow> sunset_height pq \<le> bc_height ctx
        \<or> (rotation_only_height pq \<le> bc_height ctx
           \<and> (case account_total a of Some t \<Rightarrow> threshold_grains pq \<le> t | None \<Rightarrow> True)))"

definition is_hybrid_key :: "public_key \<Rightarrow> bool" where
  "is_hybrid_key k = (case k of PkV2HybridMlDsa65 _ _ \<Rightarrow> True | PkV1Ed25519 _ \<Rightarrow> False)"

fun sets_hybrid_multisig :: "action \<Rightarrow> bool" where
  "sets_hybrid_multisig (SetMultisig signers _) = (signers \<noteq> [] \<and> list_all is_hybrid_key signers)"
| "sets_hybrid_multisig _ = False"

definition is_pq_multisig_migration :: "block_context \<Rightarrow> action \<Rightarrow> bool" where
  "is_pq_multisig_migration ctx a =
     ((case bc_pq ctx of Some pq \<Rightarrow> bc_height ctx < sunset_height pq | None \<Rightarrow> False) \<and> sets_hybrid_multisig a)"

text \<open>The value balance of an encoded v1 bundle sits in bytes 1 to 8, as a signed 64-bit number.\<close>

definition encoded_deposit :: "bytes \<Rightarrow> bool" where
  "encoded_deposit bundle = (9 \<le> length bundle \<and> bit (bundle ! 8) 7)"

function shielded_retirement_from :: "'a exec_env_scheme \<Rightarrow> block_context \<Rightarrow> pq_schedule \<Rightarrow> action \<Rightarrow> execution_error + unit" where
  "shielded_retirement_from C ctx pq node = (case node of
      ShieldedV2 bundle \<Rightarrow>
        ensure (zk_suite2 C \<and> shielded_v2_suite2_active ctx \<and> is_suite2 bundle) PqShieldedV2Unreviewed
    | Shielded bundle \<Rightarrow>
        if sunset_height pq \<le> bc_height ctx then Inl PqShieldedV1Sunset
        else if encoded_deposit bundle then Inl PqShieldedV1DepositsClosed
        else Inr ()
    | _ \<Rightarrow> (case carried node of Some child \<Rightarrow> shielded_retirement_from C ctx pq child | None \<Rightarrow> Inr ()))"
  by pat_completeness auto
termination
  by (relation "measure (\<lambda>(C, ctx, pq, node). size node)") (auto simp: carried_size)

declare shielded_retirement_from.simps [simp del]

definition check_shielded_retirement :: "'a exec_env_scheme \<Rightarrow> block_context \<Rightarrow> action \<Rightarrow> execution_error + unit" where
  "check_shielded_retirement C ctx a = (case bc_pq ctx of
      None \<Rightarrow> Inr ()
    | Some pq \<Rightarrow>
        if bc_height ctx < rotation_only_height pq \<and> bc_height ctx < sunset_height pq then Inr ()
        else shielded_retirement_from C ctx pq a)"

definition pq_rotation_open :: "block_context \<Rightarrow> bool" where
  "pq_rotation_open ctx = (case bc_pq ctx of Some pq \<Rightarrow> rotation_only_height pq \<le> bc_height ctx | None \<Rightarrow> False)"

definition verify_shielded_v1_for_context ::
  "'a exec_env_scheme \<Rightarrow> block_context \<Rightarrow> shielded_bundle \<Rightarrow> account_id \<Rightarrow> nat \<Rightarrow> bool" where
  "verify_shielded_v1_for_context C ctx b acct n =
     (if pq_rotation_open ctx then verify_for_carrier_cached C b (bc_chain_domain ctx) acct n
      else verify_proof_only_legacy_cached C b)"

end
