(* ===== verification/Arms.thy ===== *)
theory Arms
  imports Execution
begin

text \<open>
  The arms of the dispatch in \<open>apply_transaction\<close> (\<open>runtime/src/execution.rs\<close>), one definition
  per action, and the routines they share: transfers, recipient resolution, the compliance
  gate, the settlement of intents and of a contract's queued transfers, and multisig proposals.
\<close>

section \<open>Shared routines\<close>

definition resolve_recipient :: "'a crypto_scheme \<Rightarrow> ledger \<Rightarrow> account_id \<Rightarrow> account_id" where
  "resolve_recipient C l to =
     (if \<not> is_implicit to then (case resolve_name C l to of Some target \<Rightarrow> target | None \<Rightarrow> to) else to)"

definition credit :: "'a codec_scheme \<Rightarrow> ledger \<Rightarrow> account_id \<Rightarrow> balance \<Rightarrow> execution_error + ledger" where
  "credit C l i amount =
     (if amount = 0 then Inr l
      else (let a = account_of l i
            in case bal_add (balance a) amount of
                 None \<Rightarrow> Inl Overflow
               | Some b \<Rightarrow> Inr (set_account C i (a\<lparr>balance := b\<rparr>) l)))"

definition distribute_fee :: "'a codec_scheme \<Rightarrow> block_context \<Rightarrow> ledger \<Rightarrow> balance \<Rightarrow> execution_error + ledger" where
  "distribute_fee C ctx l fee = credit C l (bc_miner ctx) fee"

definition do_transfer ::
  "'a codec_scheme \<Rightarrow> ledger \<Rightarrow> account_id \<Rightarrow> account \<Rightarrow> account_id \<Rightarrow> balance
     \<Rightarrow> execution_error + (exec_status \<times> account \<times> ledger)" where
  "do_transfer C l from_id from_acct to0 amount =
     (let to = resolve_recipient C l to0
      in case bal_sub (balance from_acct) amount of
           None \<Rightarrow> Inr (Failed ''insufficient balance'', from_acct, l)
         | Some remaining \<Rightarrow>
             if to = from_id then Inr (Success, from_acct, l)
             else (let recipient = account_of l to
                   in case bal_add (balance recipient) amount of
                        None \<Rightarrow> Inl Overflow
                      | Some credited \<Rightarrow>
                          Inr (Success, from_acct\<lparr>balance := remaining\<rparr>,
                               set_account C to (recipient\<lparr>balance := credited\<rparr>) l)))"

definition display_compliance_error :: "compliance_error \<Rightarrow> string" where
  "display_compliance_error e = (case e of
      Frozen \<Rightarrow> ''account is frozen: outgoing transfers are blocked''
    | CounterpartyBlocked to \<Rightarrow>
        ''counterparty '' @ to @ '' is not permitted by the account's transfer control''
    | SpendLimitExceeded limit window_spent attempted \<Rightarrow>
        ''spend limit exceeded: limit '' @ show_nat limit @ '', already spent '' @ show_nat window_spent
        @ '', attempted '' @ show_nat attempted @ '' (grains) this window''
    | ComplianceOverflow \<Rightarrow> ''spend accounting overflow'')"

definition blocked_reason :: "account_id \<Rightarrow> string" where
  "blocked_reason i = ''compliance: account '' @ i @ '' is blocked for this asset''"

definition check_token_outgoing ::
  "ledger \<Rightarrow> hash \<Rightarrow> account_id \<Rightarrow> account_id \<Rightarrow> balance \<Rightarrow> nat \<Rightarrow> string + spend_window option" where
  "check_token_outgoing l asset from_id counterparty amount h = (case bt_get (token_policies l) asset of
      None \<Rightarrow> Inr None
    | Some policy \<Rightarrow>
        if \<not> permits (transfer_control policy) from_id then Inl (blocked_reason from_id)
        else (case check_transfer policy counterparty amount h (token_window l asset from_id) of
            Inl e \<Rightarrow> Inl (''compliance: '' @ display_compliance_error e)
          | Inr w \<Rightarrow> Inr (Some w)))"

definition put_window :: "'a codec_scheme \<Rightarrow> hash \<Rightarrow> account_id \<Rightarrow> spend_window option \<Rightarrow> ledger \<Rightarrow> ledger" where
  "put_window C asset holder w l = (case w of None \<Rightarrow> l | Some w \<Rightarrow> set_token_window C asset holder w l)"

definition is_ascii_alphanumeric :: "char \<Rightarrow> bool" where
  "is_ascii_alphanumeric c =
     (is_ascii_digit c \<or> is_ascii_lowercase c \<or> (CHR ''A'' \<le> c \<and> c \<le> CHR ''Z''))"

definition is_ascii_graphic :: "char \<Rightarrow> bool" where
  "is_ascii_graphic c = (CHR ''!'' \<le> c \<and> c \<le> CHR ''~'')"

definition valid_token_symbol :: "string \<Rightarrow> bool" where
  "valid_token_symbol s = (1 \<le> length s \<and> length s \<le> 16 \<and> list_all is_ascii_alphanumeric s)"

definition MAX_POLICY_ENTRIES :: nat where "MAX_POLICY_ENTRIES = 1024"
definition NAME_REGISTRATION_FEE_GRAINS :: nat where "NAME_REGISTRATION_FEE_GRAINS = 100000000"
definition MAX_MULTISIG_SIGNERS :: nat where "MAX_MULTISIG_SIGNERS = 32"
definition MAX_ORACLE_MOVE :: nat where "MAX_ORACLE_MOVE = 10"

section \<open>Value and contracts\<close>

definition exec_transfer :: "'a exec_env_scheme \<Rightarrow> transaction \<Rightarrow> account_id \<Rightarrow> balance \<Rightarrow> exec \<Rightarrow> arm_result" where
  "exec_transfer C tx to amount x = (case do_transfer C (xl x) (tx_signer tx) (xs x) to amount of
      Inl e \<Rightarrow> reject_with e x
    | Inr (status, acct, l) \<Rightarrow> (x\<lparr>xl := l, xs := acct\<rparr>, Inr status))"

definition exec_claim_vesting :: "block_context \<Rightarrow> exec \<Rightarrow> arm_result" where
  "exec_claim_vesting ctx x =
     (if \<not> can_claim_vesting (xs x) (bc_height ctx) then fail_with ''no vested funds to claim yet'' x
      else (case bal_add (balance (xs x)) (locked (xs x)) of
          None \<Rightarrow> reject_with Overflow x
        | Some b \<Rightarrow> succeed (x\<lparr>xs := (xs x)\<lparr>balance := b, locked := 0, unlock_height := 0\<rparr>\<rparr>)))"

definition exec_deploy :: "bytes \<Rightarrow> exec \<Rightarrow> arm_result" where
  "exec_deploy wasm x =
     (if wasm = [] then fail_with ''empty contract code'' x
      else succeed (x\<lparr>xs := (xs x)\<lparr>code := Some wasm\<rparr>\<rparr>))"

text \<open>The batch of a contract's queued transfers: a scratch view of balances and windows.\<close>

record batch =
  scratch :: "(hash \<times> account_id, nat) btree_map"
  batch_windows :: "(hash, spend_window) btree_map"

definition scratch_balance :: "ledger \<Rightarrow> batch \<Rightarrow> hash \<Rightarrow> account_id \<Rightarrow> nat" where
  "scratch_balance l b asset who = (case bt_get (scratch b) (asset, who) of
      Some v \<Rightarrow> v | None \<Rightarrow> token_balance l asset who)"

definition batch_gate ::
  "ledger \<Rightarrow> account_id \<Rightarrow> nat \<Rightarrow> hash \<Rightarrow> account_id \<Rightarrow> nat \<Rightarrow> batch \<Rightarrow> string + batch" where
  "batch_gate l contract h asset to amount b = (case bt_get (token_policies l) asset of
      None \<Rightarrow> Inr b
    | Some policy \<Rightarrow>
        if \<not> permits (transfer_control policy) contract then Inl (blocked_reason contract)
        else (let window = (case bt_get (batch_windows b) asset of
                              Some w \<Rightarrow> w | None \<Rightarrow> token_window l asset contract)
              in case check_transfer policy to amount h window of
                   Inl e \<Rightarrow> Inl (''compliance: '' @ display_compliance_error e)
                 | Inr w \<Rightarrow> Inr (b\<lparr>batch_windows := bt_insert asset w (batch_windows b)\<rparr>)))"

definition batch_step ::
  "ledger \<Rightarrow> account_id \<Rightarrow> nat \<Rightarrow> token_transfer_cmd \<Rightarrow> batch \<Rightarrow> string + batch" where
  "batch_step l contract h cmd b =
     (let asset = cmd_asset cmd; amount = cmd_amount cmd
      in if bt_get (tokens l) asset = None then Inl ''contract token transfer names no such asset''
         else (case account_id_new (cmd_to cmd) of
             Inl _ \<Rightarrow> Inl ''contract token transfer names an invalid account''
           | Inr to \<Rightarrow> (case batch_gate l contract h asset to amount b of
               Inl e \<Rightarrow> Inl e
             | Inr b \<Rightarrow> (case checked_sub (scratch_balance l b asset contract) amount of
                 None \<Rightarrow> Inl ''contract token balance insufficient''
               | Some remaining \<Rightarrow>
                   (let b = b\<lparr>scratch := bt_insert (asset, contract) remaining (scratch b)\<rparr>
                    in case checked_add 128 (scratch_balance l b asset to) amount of
                         None \<Rightarrow> Inl ''token balance overflow''
                       | Some credited \<Rightarrow>
                           Inr (b\<lparr>scratch := bt_insert (asset, to) credited (scratch b)\<rparr>))))))"

fun batch_run ::
  "ledger \<Rightarrow> account_id \<Rightarrow> nat \<Rightarrow> token_transfer_cmd list \<Rightarrow> batch \<Rightarrow> string + batch" where
  "batch_run l contract h [] b = Inr b"
| "batch_run l contract h (cmd # cmds) b = (case batch_step l contract h cmd b of
      Inl e \<Rightarrow> Inl e
    | Inr b' \<Rightarrow> batch_run l contract h cmds b')"

definition settle_contract_token_transfers ::
  "'a codec_scheme \<Rightarrow> ledger \<Rightarrow> account_id \<Rightarrow> token_transfer_cmd list \<Rightarrow> nat \<Rightarrow> string + ledger" where
  "settle_contract_token_transfers C l contract cmds h =
     (if cmds = [] then Inr l
      else (case batch_run l contract h cmds \<lparr>scratch = bt_empty, batch_windows = bt_empty\<rparr> of
          Inl e \<Rightarrow> Inl e
        | Inr b \<Rightarrow>
            (let l = fold (\<lambda>((asset, who), v). set_token_balance C asset who v) (bt_entries (scratch b)) l
             in Inr (fold (\<lambda>(asset, w). set_token_window C asset contract w) (bt_entries (batch_windows b)) l))))"

definition display_vm_error :: "vm_error \<Rightarrow> string" where
  "display_vm_error e = (case e of
      VmCompile m \<Rightarrow> ''contract failed to compile: '' @ m
    | VmInstantiate m \<Rightarrow> ''contract failed to instantiate: '' @ m
    | VmMissingEntry m \<Rightarrow> ''entry point '' @ [CHR 0x27] @ m @ [CHR 0x27] @ '' not found or has the wrong signature''
    | VmOutOfGas \<Rightarrow> ''contract ran out of gas''
    | VmTrap m \<Rightarrow> ''contract trapped: '' @ m)"

definition holder_balances :: "ledger \<Rightarrow> account_id \<Rightarrow> (hash, nat) btree_map" where
  "holder_balances l contract =
     fold (\<lambda>((asset, holder), b) m. if holder = contract then bt_insert asset b m else m)
       (bt_entries (token_balances l)) bt_empty"

definition exec_call ::
  "'a exec_env_scheme \<Rightarrow> block_context \<Rightarrow> transaction \<Rightarrow> account_id \<Rightarrow> nat \<Rightarrow> bytes \<Rightarrow> exec \<Rightarrow> arm_result" where
  "exec_call C ctx tx contract gas_limit calldata x = (case code (account_of (xl x) contract) of
      None \<Rightarrow> fail_with ''target account is not a contract'' x
    | Some wasm \<Rightarrow>
        (let store = fold (\<lambda>(k, v). bt_insert k v) (contract_entries (xl x) contract) bt_empty;
             vm_ctx = \<lparr>vm_block_height = bc_height ctx, vm_caller = tx_signer tx, vm_contract = contract,
                       vm_calldata = calldata, vm_token_balances = holder_balances (xl x) contract\<rparr>
         in case vm_execute C wasm ''call'' gas_limit vm_ctx store of
              Inl VmOutOfGas \<Rightarrow> fail_with ''contract ran out of gas'' x
            | Inl e \<Rightarrow> fail_with (''contract trap: '' @ display_vm_error e) x
            | Inr (outcome, store') \<Rightarrow>
                (case checked_mul 128 (vm_gas_used outcome) (bc_gas_price ctx) of
                   None \<Rightarrow> reject_with Overflow x
                 | Some vm_fee \<Rightarrow> (case bal_sub (balance (xs x)) vm_fee of
                     None \<Rightarrow> fail_with ''cannot afford gas fee'' x
                   | Some remaining \<Rightarrow>
                       (let x = x\<lparr>xs := (xs x)\<lparr>balance := remaining\<rparr>\<rparr>
                        in case bal_add (xfee x) vm_fee of
                             None \<Rightarrow> reject_with Overflow x
                           | Some fee \<Rightarrow>
                               (let x = x\<lparr>xfee := fee, xgas := saturating_add 64 (xgas x) (vm_gas_used outcome)\<rparr>
                                in case settle_contract_token_transfers C (xl x) contract
                                          (vm_token_transfers outcome) (bc_height ctx) of
                                     Inl reason \<Rightarrow> fail_with reason x
                                   | Inr l \<Rightarrow>
                                       succeed (x\<lparr>xl := fold (\<lambda>(k, v). set_contract_value C contract k v) (bt_entries store') l,
                                                  xret := vm_return_data outcome,
                                                  xev := vm_events outcome\<rparr>)))))))"

section \<open>The first shielded pool and hash time locks\<close>

definition move_shielded ::
  "'a exec_env_scheme \<Rightarrow> int \<Rightarrow> balance \<Rightarrow> (nat \<times> balance) option \<Rightarrow> exec \<Rightarrow> arm_result" where
  "move_shielded C vb mag wupd x =
     (if vb < 0 then
        (case bal_sub (balance (xs x)) mag of
           None \<Rightarrow> reject_with Overflow x
         | Some b \<Rightarrow>
             (let x = x\<lparr>xs := (xs x)\<lparr>balance := b\<rparr>\<rparr>
              in case add_shielded_value C mag (xl x) of
                   None \<Rightarrow> reject_with Overflow x
                 | Some l \<Rightarrow> succeed (x\<lparr>xl := l\<rparr>)))
      else if 0 < vb then
        (case sub_shielded_value C mag (xl x) of
           None \<Rightarrow> reject_with Overflow x
         | Some l \<Rightarrow>
             (let x = x\<lparr>xl := l\<rparr>
              in case bal_add (balance (xs x)) mag of
                   None \<Rightarrow> reject_with Overflow x
                 | Some b \<Rightarrow>
                     succeed (x\<lparr>xs := (xs x)\<lparr>balance := b\<rparr>,
                                xl := (case wupd of None \<Rightarrow> xl x
                                       | Some (start, sp) \<Rightarrow> set_deshield_window C start sp (xl x))\<rparr>)))
      else succeed x)"

definition exec_shielded ::
  "'a exec_env_scheme \<Rightarrow> block_context \<Rightarrow> transaction \<Rightarrow> bytes \<Rightarrow> exec \<Rightarrow> arm_result" where
  "exec_shielded C ctx tx bundle x = (case decode_shielded C bundle of
      None \<Rightarrow> fail_with ''malformed shielded bundle'' x
    | Some sb \<Rightarrow>
        if \<not> verify_shielded_v1_for_context C ctx sb (tx_signer tx) (tx_nonce tx) then
          fail_with (if pq_rotation_open ctx then ''invalid shielded authorization or proof''
                     else ''invalid shielded proof'') x
        else if \<not> anchor_is_known (shielded (xl x)) (sb_anchor sb) then
          fail_with ''unknown shielded anchor'' x
        else
          (let vb = sb_value_balance sb;
               mag = nat \<bar>vb\<bar>;
               affordable = (if vb < 0 then bal_sub (balance (xs x)) mag \<noteq> None
                             else if 0 < vb then bal_sub (shielded_value (xl x)) mag \<noteq> None
                             else True);
               limited = 0 < vb \<and> deshield_window_blocks (bc_mining ctx) \<noteq> 0;
               wupd = (if limited then drain_window (bc_mining ctx) (bc_height ctx) (deshield_window (xl x)) mag
                       else None);
               over_limit = (limited \<and> wupd = None)
           in if over_limit then fail_with ''de-shield rate limit exceeded for this window'' x
              else if \<not> affordable then fail_with ''insufficient balance for shielded value'' x
              else (case apply_shielded_bundle C sb (xl x) of
                  (l, Inl _) \<Rightarrow> fail_with ''shielded double-spend'' (x\<lparr>xl := l\<rparr>)
                | (l, Inr _) \<Rightarrow> move_shielded C vb mag wupd (x\<lparr>xl := l\<rparr>))))"

definition exec_htlc_lock ::
  "'a exec_env_scheme \<Rightarrow> signed_transaction \<Rightarrow> account_id \<Rightarrow> balance \<Rightarrow> hash \<Rightarrow> nat \<Rightarrow> exec \<Rightarrow> arm_result" where
  "exec_htlc_lock C stx to amount lockhash timeout x = (case bal_sub (balance (xs x)) amount of
      None \<Rightarrow> fail_with ''insufficient balance'' x
    | Some remaining \<Rightarrow>
        (let h = \<lparr>locker = tx_signer (stx_transaction stx), htlc_recipient = to, htlc_amount = amount,
                  hashlock = lockhash, timeout_height = timeout\<rparr>
         in case lock_htlc C (stx_id C stx) h (xl x) of
              None \<Rightarrow> fail_with ''duplicate HTLC or escrow overflow'' x
            | Some l \<Rightarrow> succeed (x\<lparr>xl := l, xs := (xs x)\<lparr>balance := remaining\<rparr>\<rparr>)))"

text \<open>The common tail of a claim and a refund: settle the escrow, then credit the signer.\<close>

definition release_htlc :: "'a exec_env_scheme \<Rightarrow> hash \<Rightarrow> htlc \<Rightarrow> exec \<Rightarrow> arm_result" where
  "release_htlc C i h x =
     (let x = x\<lparr>xl := (case settle_htlc C i (xl x) of Some (_, l) \<Rightarrow> l | None \<Rightarrow> xl x)\<rparr>
      in case bal_add (balance (xs x)) (htlc_amount h) of
           None \<Rightarrow> reject_with Overflow x
         | Some b \<Rightarrow> succeed (x\<lparr>xs := (xs x)\<lparr>balance := b\<rparr>\<rparr>))"

definition exec_htlc_claim ::
  "'a exec_env_scheme \<Rightarrow> block_context \<Rightarrow> transaction \<Rightarrow> hash \<Rightarrow> bytes \<Rightarrow> exec \<Rightarrow> arm_result" where
  "exec_htlc_claim C ctx tx i preimage x = (case bt_get (htlcs (xl x)) i of
      None \<Rightarrow> fail_with ''no such HTLC'' x
    | Some h \<Rightarrow>
        if tx_signer tx \<noteq> htlc_recipient h then fail_with ''only the recipient may claim'' x
        else if timeout_height h \<le> bc_height ctx then fail_with ''HTLC has timed out'' x
        else if sha256 C preimage \<noteq> hashlock h then fail_with ''preimage does not match hashlock'' x
        else release_htlc C i h x)"

definition exec_htlc_refund ::
  "'a exec_env_scheme \<Rightarrow> block_context \<Rightarrow> transaction \<Rightarrow> hash \<Rightarrow> exec \<Rightarrow> arm_result" where
  "exec_htlc_refund C ctx tx i x = (case bt_get (htlcs (xl x)) i of
      None \<Rightarrow> fail_with ''no such HTLC'' x
    | Some h \<Rightarrow>
        if tx_signer tx \<noteq> locker h then fail_with ''only the locker may refund'' x
        else if bc_height ctx < timeout_height h then fail_with ''HTLC has not timed out yet'' x
        else release_htlc C i h x)"

section \<open>Tokens\<close>

definition mint_block :: "ledger \<Rightarrow> hash \<Rightarrow> account_id \<Rightarrow> string option" where
  "mint_block l asset to = (case bt_get (token_policies l) asset of
      None \<Rightarrow> None
    | Some policy \<Rightarrow>
        if frozen policy then Some ''compliance: asset is paused''
        else if \<not> permits (transfer_control policy) to then Some (blocked_reason to)
        else None)"

definition exec_token_issue ::
  "'a exec_env_scheme \<Rightarrow> transaction \<Rightarrow> string \<Rightarrow> balance \<Rightarrow> account_id \<Rightarrow> exec \<Rightarrow> arm_result" where
  "exec_token_issue C tx symb amount to x =
     (if \<not> valid_token_symbol symb then fail_with ''invalid token symbol (1-16 ASCII alphanumeric bytes)'' x
      else if amount = 0 then fail_with ''cannot issue zero'' x
      else if token_asset_id C (tx_signer tx) symb = xusd_asset_id C then
        fail_with ''xUSD is a reserved protocol asset'' x
      else
        (let asset = token_asset_id C (tx_signer tx) symb;
             info = (case bt_get (tokens (xl x)) asset of Some i \<Rightarrow> i
                     | None \<Rightarrow> \<lparr>tok_issuer = tx_signer tx, tok_symbol = symb, tok_issued = 0, tok_burned = 0\<rparr>)
         in if tok_issuer info \<noteq> tx_signer tx then fail_with ''asset is bound to a different issuer'' x
            else (case mint_block (xl x) asset to of
                Some reason \<Rightarrow> fail_with reason x
              | None \<Rightarrow>
                  (case (bal_add (tok_issued info) amount, bal_add (token_balance (xl x) asset to) amount) of
                     (Some iss, Some credited) \<Rightarrow>
                       succeed (x\<lparr>xl := set_token_balance C asset to credited
                                         (set_token C asset (info\<lparr>tok_issued := iss\<rparr>) (xl x))\<rparr>)
                   | _ \<Rightarrow> fail_with ''token supply overflow'' x))))"

definition exec_token_transfer ::
  "'a exec_env_scheme \<Rightarrow> block_context \<Rightarrow> transaction \<Rightarrow> hash \<Rightarrow> account_id \<Rightarrow> balance \<Rightarrow> exec \<Rightarrow> arm_result" where
  "exec_token_transfer C ctx tx asset to0 amount x =
     (let to = resolve_recipient C (xl x) to0; from_id = tx_signer tx
      in if bt_get (tokens (xl x)) asset = None then fail_with ''no such asset'' x
         else (case check_token_outgoing (xl x) asset from_id to amount (bc_height ctx) of
             Inl reason \<Rightarrow> fail_with reason x
           | Inr w \<Rightarrow> (case bal_sub (token_balance (xl x) asset from_id) amount of
               None \<Rightarrow> fail_with ''insufficient token balance'' x
             | Some remaining \<Rightarrow>
                 if to = from_id then succeed x
                 else (case bal_add (token_balance (xl x) asset to) amount of
                     None \<Rightarrow> fail_with ''token balance overflow'' x
                   | Some credited \<Rightarrow>
                       succeed (x\<lparr>xl := put_window C asset from_id w
                                         (set_token_balance C asset to credited
                                           (set_token_balance C asset from_id remaining (xl x)))\<rparr>)))))"

definition exec_token_burn ::
  "'a exec_env_scheme \<Rightarrow> block_context \<Rightarrow> transaction \<Rightarrow> hash \<Rightarrow> balance \<Rightarrow> exec \<Rightarrow> arm_result" where
  "exec_token_burn C ctx tx asset amount x =
     (let who = tx_signer tx
      in case bt_get (tokens (xl x)) asset of
           None \<Rightarrow> fail_with ''no such asset'' x
         | Some info \<Rightarrow> (case check_token_outgoing (xl x) asset who who amount (bc_height ctx) of
             Inl reason \<Rightarrow> fail_with reason x
           | Inr w \<Rightarrow> (case bal_sub (token_balance (xl x) asset who) amount of
               None \<Rightarrow> fail_with ''insufficient token balance'' x
             | Some remaining \<Rightarrow> (case bal_add (tok_burned info) amount of
                 None \<Rightarrow> fail_with ''token burn overflow'' x
               | Some b \<Rightarrow>
                   succeed (x\<lparr>xl := put_window C asset who w
                                     (set_token_balance C asset who remaining
                                       (set_token C asset (info\<lparr>tok_burned := b\<rparr>) (xl x)))\<rparr>)))))"

definition exec_token_set_policy ::
  "'a exec_env_scheme \<Rightarrow> transaction \<Rightarrow> hash \<Rightarrow> compliance_policy \<Rightarrow> exec \<Rightarrow> arm_result" where
  "exec_token_set_policy C tx asset policy x = (case bt_get (tokens (xl x)) asset of
      None \<Rightarrow> fail_with ''no such asset'' x
    | Some info \<Rightarrow>
        if tok_issuer info \<noteq> tx_signer tx then
          fail_with ''only the asset's issuer may set its compliance policy'' x
        else if MAX_POLICY_ENTRIES < policy_entries policy then
          fail_with (''compliance policy exceeds '' @ show_nat MAX_POLICY_ENTRIES @ '' list entries'') x
        else succeed (x\<lparr>xl := set_token_policy C asset policy (xl x)\<rparr>))"

section \<open>Intents and keys\<close>

datatype settle_leg = Native | TokenLeg hash

definition settle_leg_of :: "ledger \<Rightarrow> asset \<Rightarrow> string + settle_leg" where
  "settle_leg_of l a = (case a of
      Sov \<Rightarrow> Inr Native
    | Token i \<Rightarrow> if bt_get (tokens l) i = None then Inl ''intent names a nonexistent asset''
               else Inr (TokenLeg i))"

definition leg_window ::
  "ledger \<Rightarrow> settle_leg \<Rightarrow> account_id \<Rightarrow> account_id \<Rightarrow> balance \<Rightarrow> nat \<Rightarrow> string + spend_window option" where
  "leg_window l leg from_id to amount h = (case leg of
      Native \<Rightarrow> Inr None
    | TokenLeg asset \<Rightarrow> check_token_outgoing l asset from_id to amount h)"

text \<open>The cell a leg debits or credits: the account's native balance, or its balance of the asset.\<close>

definition leg_balance :: "ledger \<Rightarrow> settle_leg \<Rightarrow> account_id \<Rightarrow> balance \<Rightarrow> balance" where
  "leg_balance l leg who native = (case leg of Native \<Rightarrow> native | TokenLeg asset \<Rightarrow> token_balance l asset who)"

definition put_leg_token :: "'a codec_scheme \<Rightarrow> settle_leg \<Rightarrow> account_id \<Rightarrow> balance \<Rightarrow> ledger \<Rightarrow> ledger" where
  "put_leg_token C leg who b l = (case leg of Native \<Rightarrow> l | TokenLeg asset \<Rightarrow> set_token_balance C asset who b l)"

definition put_leg_window :: "'a codec_scheme \<Rightarrow> settle_leg \<Rightarrow> account_id \<Rightarrow> spend_window option \<Rightarrow> ledger \<Rightarrow> ledger" where
  "put_leg_window C leg who w l = (case leg of Native \<Rightarrow> l | TokenLeg asset \<Rightarrow> put_window C asset who w l)"

text \<open>\<open>Inl e\<close> is the outer error of \<open>settle_intent_legs\<close>, \<open>Inr reason\<close> its inner one.\<close>

type_synonym settle_stop = "execution_error + string"

definition or_fail :: "string + 'a \<Rightarrow> settle_stop + 'a" where
  "or_fail m = (case m of Inl reason \<Rightarrow> Inl (Inr reason) | Inr a \<Rightarrow> Inr a)"

definition credit_stop :: "settle_leg \<Rightarrow> settle_stop" where
  "credit_stop leg = (case leg of Native \<Rightarrow> Inl Overflow | TokenLeg _ \<Rightarrow> Inr ''token balance overflow'')"

record leg_plan =
  owner_debited :: balance
  owner_credited :: balance
  solver_debited :: balance
  solver_credited :: balance
  owner_window :: "spend_window option"
  solver_window :: "spend_window option"

definition plan_legs ::
  "ledger \<Rightarrow> settle_leg \<Rightarrow> settle_leg \<Rightarrow> account_id \<Rightarrow> balance \<Rightarrow> account_id \<Rightarrow> balance
     \<Rightarrow> balance \<Rightarrow> balance \<Rightarrow> nat \<Rightarrow> settle_stop + leg_plan" where
  "plan_legs l give_leg want_leg own own_native sol sol_native give deliver h =
     and_then (or_fail (leg_window l give_leg own sol give h)) (\<lambda>ow.
     and_then (or_fail (leg_window l want_leg sol own deliver h)) (\<lambda>sw.
     and_then (ok_or (Inr ''owner cannot cover the given amount'')
                 (bal_sub (leg_balance l give_leg own own_native) give)) (\<lambda>od.
     and_then (ok_or (Inr ''solver cannot cover the delivered amount'')
                 (bal_sub (leg_balance l want_leg sol sol_native) deliver)) (\<lambda>sd.
     and_then (ok_or (credit_stop give_leg) (bal_add (leg_balance l give_leg sol sol_native) give)) (\<lambda>sc.
     and_then (ok_or (credit_stop want_leg) (bal_add (leg_balance l want_leg own own_native) deliver)) (\<lambda>oc.
       Inr \<lparr>owner_debited = od, owner_credited = oc, solver_debited = sd, solver_credited = sc,
            owner_window = ow, solver_window = sw\<rparr>))))))"

definition settle_intent_legs ::
  "'a codec_scheme \<Rightarrow> ledger \<Rightarrow> account \<Rightarrow> account_id \<Rightarrow> settlement \<Rightarrow> nat \<Rightarrow> settle_stop + (account \<times> ledger)" where
  "settle_intent_legs C l acct sol s h =
     (let i = si_intent (st_intent s); own = int_owner i; own_acct = account_of l own
      in and_then (or_fail (settle_leg_of l (give_asset i))) (\<lambda>give_leg.
         and_then (or_fail (settle_leg_of l (want_asset i))) (\<lambda>want_leg.
         and_then (plan_legs l give_leg want_leg own (balance own_acct) sol (balance acct)
                     (give_amount i) (deliver_amount s) h) (\<lambda>p.
           let own_acct = (if give_leg = Native then own_acct\<lparr>balance := owner_debited p\<rparr> else own_acct);
               own_acct = (if want_leg = Native then own_acct\<lparr>balance := owner_credited p\<rparr> else own_acct);
               acct = (if want_leg = Native then acct\<lparr>balance := solver_debited p\<rparr> else acct);
               acct = (if give_leg = Native then acct\<lparr>balance := solver_credited p\<rparr> else acct);
               l = set_account C own own_acct l;
               l = put_leg_token C give_leg own (owner_debited p) l;
               l = put_leg_token C give_leg sol (solver_credited p) l;
               l = put_leg_token C want_leg sol (solver_debited p) l;
               l = put_leg_token C want_leg own (owner_credited p) l;
               l = put_leg_window C give_leg own (owner_window p) l;
               l = put_leg_window C want_leg sol (solver_window p) l
           in Inr (acct, l)))))"

definition exec_intent_settle ::
  "'a exec_env_scheme \<Rightarrow> block_context \<Rightarrow> transaction \<Rightarrow> settlement \<Rightarrow> exec \<Rightarrow> arm_result" where
  "exec_intent_settle C ctx tx s x =
     (let i = si_intent (st_intent s); own = int_owner i; l = xl x
      in if solver s \<noteq> tx_signer tx then fail_with ''only the settlement's named solver may submit it'' x
         else if own = tx_signer tx then fail_with ''an owner cannot fill their own intent'' x
         else if bt_get (multisigs l) own \<noteq> None then
           fail_with ''intent owner is a multisig account; single-key intent settlement is not authorized'' x
         else if acct_key (account_of l own) \<noteq> Some (int_public_key i) then
           fail_with ''intent key is not the owner account's registered key'' x
         else if \<not> is_hybrid_key (int_public_key i) \<and> pq_requires_hybrid_authority ctx (account_of l own) then
           fail_with ''post-quantum policy: intent owner's legacy key cannot authorize settlement'' x
         else if \<not> intent_verify_mode C (st_intent s) (bc_tx_domain ctx) then fail_with ''invalid intent signature'' x
         else if int_expiry_height i < bc_height ctx then fail_with ''intent has expired'' x
         else if intent_consumed l (intent_id C i) then fail_with ''intent already settled or cancelled'' x
         else if give_asset i = want_asset i then
           fail_with ''degenerate swap: give and want assets are identical'' x
         else if deliver_amount s < min_receive i then fail_with ''delivery is below the intent's minimum'' x
         else (case settle_intent_legs C l (xs x) (tx_signer tx) s (bc_height ctx) of
             Inl (Inl e) \<Rightarrow> reject_with e x
           | Inl (Inr reason) \<Rightarrow> fail_with reason x
           | Inr (acct, l) \<Rightarrow> succeed (x\<lparr>xs := acct, xl := consume_intent C (intent_id C i) l\<rparr>)))"

definition exec_intent_cancel :: "'a exec_env_scheme \<Rightarrow> transaction \<Rightarrow> intent \<Rightarrow> exec \<Rightarrow> arm_result" where
  "exec_intent_cancel C tx i x =
     (if int_owner i \<noteq> tx_signer tx then fail_with ''only the intent's owner may cancel it'' x
      else if intent_consumed (xl x) (intent_id C i) then fail_with ''intent already settled or cancelled'' x
      else succeed (x\<lparr>xl := consume_intent C (intent_id C i) (xl x)\<rparr>))"

definition exec_rotate_key ::
  "'a exec_env_scheme \<Rightarrow> transaction \<Rightarrow> bool \<Rightarrow> public_key \<Rightarrow> signature \<Rightarrow> exec \<Rightarrow> arm_result" where
  "exec_rotate_key C tx requires_hybrid new_key proof_sig x =
     (let msg = rotation_signing_bytes C (tx_signer tx) (tx_nonce tx) new_key
      in if requires_hybrid \<and> \<not> is_hybrid_key new_key then
           fail_with ''post-quantum policy: rotation must install a hybrid key'' x
         else if \<not> pk_verify C new_key msg proof_sig then
           fail_with ''rotation proof does not verify under the new key'' x
         else succeed (x\<lparr>xs := (xs x)\<lparr>acct_key := Some new_key\<rparr>\<rparr>))"

section \<open>Names and unique items\<close>

definition exec_register_name ::
  "'a exec_env_scheme \<Rightarrow> block_context \<Rightarrow> transaction \<Rightarrow> string \<Rightarrow> exec \<Rightarrow> arm_result" where
  "exec_register_name C ctx tx name x = (case account_id_new name of
      Inl _ \<Rightarrow> fail_with ''invalid name'' x
    | Inr i \<Rightarrow>
        if \<not> is_registrable_name i then fail_with ''name must be a *.sov id, not a 64-hex implicit id'' x
        else if name_taken C (xl x) name then fail_with ''name already registered'' x
        else if account_exists (xl x) i then fail_with ''name shadows an existing account'' x
        else (case bal_sub (balance (xs x)) NAME_REGISTRATION_FEE_GRAINS of
            None \<Rightarrow> fail_with ''cannot afford the name registration fee'' x
          | Some remaining \<Rightarrow>
              (let x = x\<lparr>xs := (xs x)\<lparr>balance := remaining\<rparr>\<rparr>
               in case bal_add (xfee x) NAME_REGISTRATION_FEE_GRAINS of
                    None \<Rightarrow> reject_with Overflow x
                  | Some fee \<Rightarrow>
                      succeed (x\<lparr>xfee := fee,
                                 xl := (case register_name C name (tx_signer tx) (bc_height ctx) (xl x) of
                                          Some l \<Rightarrow> l | None \<Rightarrow> xl x)\<rparr>))))"

definition exec_transfer_name ::
  "'a exec_env_scheme \<Rightarrow> transaction \<Rightarrow> string \<Rightarrow> account_id \<Rightarrow> exec \<Rightarrow> arm_result" where
  "exec_transfer_name C tx name to x = (case name_record_of C (xl x) name of
      None \<Rightarrow> fail_with ''no such registered name'' x
    | Some r \<Rightarrow>
        if name_owner r \<noteq> tx_signer tx then fail_with ''only the name's owner may transfer it'' x
        else succeed (x\<lparr>xl := (case transfer_name C name to (xl x) of Some l \<Rightarrow> l | None \<Rightarrow> xl x)\<rparr>))"

definition exec_nft_mint ::
  "'a exec_env_scheme \<Rightarrow> block_context \<Rightarrow> transaction \<Rightarrow> string \<Rightarrow> bytes \<Rightarrow> account_id \<Rightarrow> bytes \<Rightarrow> exec \<Rightarrow> arm_result" where
  "exec_nft_mint C ctx tx symb token_id to meta x =
     (if \<not> (1 \<le> length symb \<and> length symb \<le> 32 \<and> list_all is_ascii_graphic symb) then
        fail_with (''nft collection symbol must be 1'' @ map char_of [0xE2, 0x80, 0x93 :: nat]
                   @ ''32 printable ASCII bytes'') x
      else
        (let class_id = nft_class_id C (tx_signer tx) symb;
             existing = bt_get (nft_classes (xl x)) class_id
         in if (case existing of Some c \<Rightarrow> cls_issuer c \<noteq> tx_signer tx | None \<Rightarrow> False) then
              fail_with ''only the collection's issuer may mint into it'' x
            else (case mint_nft C class_id token_id to meta (bc_height ctx) (xl x) of
                None \<Rightarrow> fail_with ''nft item already exists'' x
              | Some l \<Rightarrow>
                  (let c = (case existing of Some c \<Rightarrow> c
                            | None \<Rightarrow> \<lparr>cls_issuer = tx_signer tx, cls_symbol = symb, minted = 0\<rparr>)
                   in succeed (x\<lparr>xl := set_nft_class C class_id
                                         (c\<lparr>minted := saturating_add 64 (minted c) 1\<rparr>) l\<rparr>)))))"

definition exec_nft_transfer ::
  "'a exec_env_scheme \<Rightarrow> transaction \<Rightarrow> hash \<Rightarrow> bytes \<Rightarrow> account_id \<Rightarrow> exec \<Rightarrow> arm_result" where
  "exec_nft_transfer C tx collection token_id to x = (case nft_owner (xl x) collection token_id of
      None \<Rightarrow> fail_with ''no such nft'' x
    | Some own \<Rightarrow>
        if own \<noteq> tx_signer tx then fail_with ''only the nft's owner may transfer it'' x
        else succeed (x\<lparr>xl := (case transfer_nft C collection token_id to (xl x) of
                                 Some l \<Rightarrow> l | None \<Rightarrow> xl x)\<rparr>))"

definition exec_nft_set_meta ::
  "'a exec_env_scheme \<Rightarrow> transaction \<Rightarrow> hash \<Rightarrow> bytes \<Rightarrow> bytes \<Rightarrow> exec \<Rightarrow> arm_result" where
  "exec_nft_set_meta C tx collection token_id meta x = (case nft_owner (xl x) collection token_id of
      None \<Rightarrow> fail_with ''no such nft'' x
    | Some own \<Rightarrow>
        if own \<noteq> tx_signer tx then fail_with ''only the nft's owner may set its metadata'' x
        else succeed (x\<lparr>xl := (case set_nft_meta C collection token_id meta (xl x) of
                                 Some l \<Rightarrow> l | None \<Rightarrow> xl x)\<rparr>))"

section \<open>Multisig\<close>

definition exec_set_multisig ::
  "'a exec_env_scheme \<Rightarrow> transaction \<Rightarrow> bool \<Rightarrow> public_key list \<Rightarrow> nat \<Rightarrow> exec \<Rightarrow> arm_result" where
  "exec_set_multisig C tx requires_hybrid signers threshold x =
     (let n = length signers
      in if n = 0 \<or> MAX_MULTISIG_SIGNERS < n then
           fail_with (''multisig: signer count '' @ show_nat n @ '' out of range 1..='' @ show_nat MAX_MULTISIG_SIGNERS) x
         else if \<not> distinct signers then fail_with ''multisig: signer keys must be distinct'' x
         else if threshold = 0 \<or> n < threshold then
           fail_with (''multisig: threshold '' @ show_nat threshold @ '' out of range 1..='' @ show_nat n) x
         else if requires_hybrid \<and> \<not> list_all is_hybrid_key signers then
           fail_with ''post-quantum policy: multisig must install only hybrid keys'' x
         else succeed (x\<lparr>xl := snd (remove_proposals_for C (tx_signer tx)
                (set_multisig C (tx_signer tx) \<lparr>ms_signers = signers, ms_threshold = threshold\<rparr> (xl x)))\<rparr>))"

definition is_proposable :: "action \<Rightarrow> bool" where
  "is_proposable a = (case a of Transfer _ _ \<Rightarrow> True | _ \<Rightarrow> False)"

definition proposal_id :: "'a crypto_scheme \<Rightarrow> account_id \<Rightarrow> bytes \<Rightarrow> nat \<Rightarrow> bytes \<Rightarrow> hash" where
  "proposal_id C acct proposer_key proposer_nonce action_bytes =
     blake3 C (ascii ''sov:msprop:v1'' @ [0] @ ascii acct @ [0] @ proposer_key
               @ to_le_bytes 8 proposer_nonce @ action_bytes)"

definition execute_proposal_action ::
  "'a codec_scheme \<Rightarrow> ledger \<Rightarrow> account_id \<Rightarrow> action \<Rightarrow> execution_error + (exec_status \<times> ledger)" where
  "execute_proposal_action C l acct a = (case a of
      Transfer to amount \<Rightarrow>
        (case do_transfer C l acct (account_of l acct) to amount of
           Inl e \<Rightarrow> Inl e
         | Inr (status, vault_acct, l) \<Rightarrow> Inr (status, set_account C acct vault_acct l))
    | _ \<Rightarrow> Inr (Failed ''multisig: proposal carries an unsupported action'', l))"

fun position_of :: "'k \<Rightarrow> 'k list \<Rightarrow> nat option" where
  "position_of k [] = None"
| "position_of k (y # ys) = (if y = k then Some 0 else map_option Suc (position_of k ys))"

definition legacy_member :: "block_context \<Rightarrow> ledger \<Rightarrow> account_id \<Rightarrow> public_key \<Rightarrow> bool" where
  "legacy_member ctx l acct k = (\<not> is_hybrid_key k \<and> pq_requires_hybrid_authority ctx (account_of l acct))"

definition legacy_member_reason :: string where
  "legacy_member_reason = ''post-quantum policy: legacy member cannot authorize this vault''"

definition as_u16 :: "nat \<Rightarrow> nat" where
  "as_u16 n = n mod 2 ^ 16"

definition exec_propose_multisig ::
  "'a exec_env_scheme \<Rightarrow> block_context \<Rightarrow> transaction \<Rightarrow> account_id \<Rightarrow> action \<Rightarrow> exec \<Rightarrow> arm_result" where
  "exec_propose_multisig C ctx tx acct inner x = (case bt_get (multisigs (xl x)) acct of
      None \<Rightarrow> fail_with ''multisig: account has no multisig policy'' x
    | Some policy \<Rightarrow> (case position_of (tx_public_key tx) (ms_signers policy) of
        None \<Rightarrow> fail_with ''multisig: signer is not a policy member'' x
      | Some idx \<Rightarrow>
          if \<not> is_proposable inner then fail_with ''multisig: only a Transfer can be proposed'' x
          else if legacy_member ctx (xl x) acct (tx_public_key tx) then fail_with legacy_member_reason x
          else
            (let action_bytes = borsh_action C inner;
                 i = proposal_id C acct (borsh_public_key C (tx_public_key tx)) (tx_nonce tx) action_bytes;
                 p = \<lparr>mprop_account = acct, mprop_action = action_bytes, approvers = [as_u16 idx]\<rparr>
             in if ms_threshold policy \<le> as_u16 (length (approvers p)) then
                  (case execute_proposal_action C (xl x) acct inner of
                     Inl e \<Rightarrow> reject_with e x
                   | Inr (status, l) \<Rightarrow> (x\<lparr>xl := l\<rparr>, Inr status))
                else succeed (x\<lparr>xl := set_proposal C i p (xl x)\<rparr>))))"

text \<open>The approvals of a proposal after the approver at \<open>idx\<close> has been counted.\<close>

definition approve_with :: "block_context \<Rightarrow> ledger \<Rightarrow> account_id \<Rightarrow> multisig \<Rightarrow> nat \<Rightarrow> multisig_proposal \<Rightarrow> multisig_proposal" where
  "approve_with ctx l acct policy idx p =
     (let kept = (if pq_requires_hybrid_authority ctx (account_of l acct)
                  then filter (\<lambda>i. i < length (ms_signers policy) \<and> is_hybrid_key (ms_signers policy ! i)) (approvers p)
                  else approvers p)
      in p\<lparr>approvers := (if as_u16 idx \<in> set kept then kept else kept @ [as_u16 idx])\<rparr>)"

definition exec_approve_multisig ::
  "'a exec_env_scheme \<Rightarrow> block_context \<Rightarrow> transaction \<Rightarrow> account_id \<Rightarrow> hash \<Rightarrow> exec \<Rightarrow> arm_result" where
  "exec_approve_multisig C ctx tx acct pid x = (case bt_get (multisigs (xl x)) acct of
      None \<Rightarrow> fail_with ''multisig: account has no multisig policy'' x
    | Some policy \<Rightarrow> (case (position_of (tx_public_key tx) (ms_signers policy), bt_get (proposals (xl x)) pid) of
        (None, _) \<Rightarrow> fail_with ''multisig: signer is not a policy member'' x
      | (_, None) \<Rightarrow> fail_with ''multisig: no such pending proposal'' x
      | (Some idx, Some p) \<Rightarrow>
          if mprop_account p \<noteq> acct then fail_with ''multisig: proposal does not belong to this account'' x
          else if legacy_member ctx (xl x) acct (tx_public_key tx) then fail_with legacy_member_reason x
          else
            (let p = approve_with ctx (xl x) acct policy idx p
             in if ms_threshold policy \<le> as_u16 (length (approvers p)) then
                  (case decode_action C (mprop_action p) of
                     None \<Rightarrow> fail_with ''multisig: corrupt stored proposal'' x
                   | Some inner \<Rightarrow>
                       (case execute_proposal_action C (xl x) acct inner of
                          Inl e \<Rightarrow> reject_with e x
                        | Inr (status, l) \<Rightarrow> (x\<lparr>xl := remove_proposal C pid l\<rparr>, Inr status)))
                else succeed (x\<lparr>xl := set_proposal C pid p (xl x)\<rparr>))))"

definition exec_cancel_multisig ::
  "'a exec_env_scheme \<Rightarrow> block_context \<Rightarrow> transaction \<Rightarrow> account_id \<Rightarrow> hash \<Rightarrow> exec \<Rightarrow> arm_result" where
  "exec_cancel_multisig C ctx tx acct pid x =
     (let is_member = (case bt_get (multisigs (xl x)) acct of
                         Some policy \<Rightarrow> tx_public_key tx \<in> set (ms_signers policy) | None \<Rightarrow> False);
          belongs = (case bt_get (proposals (xl x)) pid of Some p \<Rightarrow> mprop_account p = acct | None \<Rightarrow> False)
      in if \<not> is_member then fail_with ''multisig: signer is not a policy member'' x
         else if legacy_member ctx (xl x) acct (tx_public_key tx) then fail_with legacy_member_reason x
         else if \<not> belongs then fail_with ''multisig: no such pending proposal'' x
         else succeed (x\<lparr>xl := remove_proposal C pid (xl x)\<rparr>))"

section \<open>Vaults and the price feed\<close>

text \<open>Writing the signer's vault; the collateral counter of \<open>set_vault\<close> may panic.\<close>

definition store_vault :: "'a exec_env_scheme \<Rightarrow> transaction \<Rightarrow> vault \<Rightarrow> exec \<Rightarrow> arm_result" where
  "store_vault C tx v x = (case set_vault C (tx_signer tx) v (xl x) of
      None \<Rightarrow> panic x
    | Some l \<Rightarrow> succeed (x\<lparr>xl := l\<rparr>))"

definition exec_vault_deposit :: "'a exec_env_scheme \<Rightarrow> transaction \<Rightarrow> balance \<Rightarrow> exec \<Rightarrow> arm_result" where
  "exec_vault_deposit C tx amount x =
     (if amount = 0 then fail_with ''cannot deposit zero'' x
      else (case bal_sub (balance (xs x)) amount of
          None \<Rightarrow> fail_with ''insufficient balance'' x
        | Some remaining \<Rightarrow>
            (let v = vault_of (xl x) (tx_signer tx)
             in case bal_add (collateral v) amount of
                  None \<Rightarrow> fail_with ''vault collateral overflow'' x
                | Some c \<Rightarrow> store_vault C tx (v\<lparr>collateral := c\<rparr>) (x\<lparr>xs := (xs x)\<lparr>balance := remaining\<rparr>\<rparr>))))"

definition exec_vault_withdraw :: "'a exec_env_scheme \<Rightarrow> transaction \<Rightarrow> balance \<Rightarrow> exec \<Rightarrow> arm_result" where
  "exec_vault_withdraw C tx amount x =
     (if amount = 0 then fail_with ''cannot withdraw zero'' x
      else (let v = vault_of (xl x) (tx_signer tx)
            in case bal_sub (collateral v) amount of
                 None \<Rightarrow> fail_with ''vault holds less collateral than requested'' x
               | Some c \<Rightarrow>
                   if \<not> is_healthy c (debt v) (oracle_price (xl x)) then
                     fail_with ''withdrawal would under-collateralize the vault'' x
                   else (case bal_add (balance (xs x)) amount of
                       None \<Rightarrow> fail_with ''balance overflow'' x
                     | Some b \<Rightarrow> store_vault C tx (v\<lparr>collateral := c\<rparr>) (x\<lparr>xs := (xs x)\<lparr>balance := b\<rparr>\<rparr>))))"

definition exec_vault_mint :: "'a exec_env_scheme \<Rightarrow> transaction \<Rightarrow> balance \<Rightarrow> exec \<Rightarrow> arm_result" where
  "exec_vault_mint C tx amount x =
     (if amount = 0 then fail_with ''cannot mint zero'' x
      else (let v = vault_of (xl x) (tx_signer tx); price = oracle_price (xl x)
            in case bal_add (debt v) amount of
                 None \<Rightarrow> fail_with ''vault debt overflow'' x
               | Some new_debt \<Rightarrow>
                   if \<not> is_healthy (collateral v) new_debt price then
                     fail_with ''insufficient collateral: mint would breach the 150% ratio'' x
                   else
                     (let asset = xusd_asset_id C;
                          info = (case bt_get (tokens (xl x)) asset of Some i \<Rightarrow> i
                                  | None \<Rightarrow> \<lparr>tok_issuer = XUSD_ISSUER, tok_symbol = XUSD_SYMBOL,
                                             tok_issued = 0, tok_burned = 0\<rparr>)
                      in case (bal_add (tok_issued info) amount,
                               bal_add (token_balance (xl x) asset (tx_signer tx)) amount) of
                           (Some iss, Some credited) \<Rightarrow>
                             store_vault C tx (v\<lparr>debt := new_debt\<rparr>)
                               (x\<lparr>xl := set_token_balance C asset (tx_signer tx) credited
                                         (set_token C asset (info\<lparr>tok_issued := iss\<rparr>) (xl x))\<rparr>)
                         | _ \<Rightarrow> fail_with ''xUSD supply overflow'' x)))"

definition exec_vault_burn :: "'a exec_env_scheme \<Rightarrow> transaction \<Rightarrow> balance \<Rightarrow> exec \<Rightarrow> arm_result" where
  "exec_vault_burn C tx amount x =
     (if amount = 0 then fail_with ''cannot burn zero'' x
      else (let asset = xusd_asset_id C; v = vault_of (xl x) (tx_signer tx)
            in case (bal_sub (token_balance (xl x) asset (tx_signer tx)) amount, bal_sub (debt v) amount) of
                 (None, _) \<Rightarrow> fail_with ''insufficient xUSD balance to burn'' x
               | (_, None) \<Rightarrow> fail_with (''repaying more than the vault's debt'') x
               | (Some remaining, Some new_debt) \<Rightarrow> (case bt_get (tokens (xl x)) asset of
                   None \<Rightarrow> fail_with ''no xUSD outstanding'' x
                 | Some info \<Rightarrow> (case bal_add (tok_burned info) amount of
                     None \<Rightarrow> fail_with ''xUSD burn overflow'' x
                   | Some b \<Rightarrow>
                       store_vault C tx (v\<lparr>debt := new_debt\<rparr>)
                         (x\<lparr>xl := set_token_balance C asset (tx_signer tx) remaining
                                   (set_token C asset (info\<lparr>tok_burned := b\<rparr>) (xl x))\<rparr>)))))"

definition exec_oracle_update :: "'a exec_env_scheme \<Rightarrow> transaction \<Rightarrow> nat \<Rightarrow> exec \<Rightarrow> arm_result" where
  "exec_oracle_update C tx price x =
     (if tx_signer tx \<noteq> ORACLE_ACCOUNT then fail_with ''oracle: only the authorized price feed may publish'' x
      else if price = 0 then fail_with ''oracle: price must be positive'' x
      else
        (let current = oracle_price (xl x);
             too_high = saturating_mul 128 current MAX_ORACLE_MOVE < price;
             too_low = price < current div MAX_ORACLE_MOVE
         in if 0 < current \<and> (too_high \<or> too_low) then
              fail_with ''oracle: update exceeds the max per-update move (10x)'' x
            else succeed (x\<lparr>xl := set_oracle_price C price (xl x)\<rparr>)))"

end
