(* ===== verification/Runtime.thy ===== *)
theory Runtime
  imports Arms
begin

text \<open>
  \<open>apply_transaction\<close>, \<open>apply_coinbase\<close> and \<open>apply_transactions\<close> of
  \<open>runtime/src/execution.rs\<close>: the admission of a transaction, split along the phases of the
  code, the dispatch to the arms of theory \<open>Arms\<close>, and the settlement of fees.

  Everything before the dispatch works on the signer's copy of the account only, so admission
  is a function into an error or the record \<open>admitted\<close>.
\<close>

section \<open>Admission\<close>

definition authorize ::
  "'a crypto_scheme \<Rightarrow> ledger \<Rightarrow> transaction \<Rightarrow> account \<Rightarrow> execution_error + account" where
  "authorize C l tx acct = (case bt_get (multisigs l) (tx_signer tx) of
      Some policy \<Rightarrow>
        if tx_public_key tx \<in> set (ms_signers policy) \<and> is_multisig_exec (tx_action tx) then Inr acct
        else Inl (Unauthorized (tx_signer tx))
    | None \<Rightarrow> (case acct_key acct of
        Some k \<Rightarrow> if k = tx_public_key tx then Inr acct else Inl (Unauthorized (tx_signer tx))
      | None \<Rightarrow>
          if is_implicit (tx_signer tx) then
            (if implicit_account_id C (tx_public_key tx) \<noteq> tx_signer tx then Inl (Unauthorized (tx_signer tx))
             else Inr (acct\<lparr>acct_key := Some (tx_public_key tx)\<rparr>))
          else if \<not> (case tx_action tx of RotateKey _ _ \<Rightarrow> True | _ \<Rightarrow> False) then
            Inl (Unauthorized (tx_signer tx))
          else Inr (acct\<lparr>acct_key := Some (tx_public_key tx)\<rparr>)))"

definition rotating_to_hybrid :: "block_context \<Rightarrow> action \<Rightarrow> bool" where
  "rotating_to_hybrid ctx a = (case a of
      RotateKey new_key _ \<Rightarrow> is_hybrid_key new_key
    | MultisigExec inner _ \<Rightarrow> is_pq_multisig_migration ctx inner
    | _ \<Rightarrow> False)"

definition pq_gate :: "block_context \<Rightarrow> transaction \<Rightarrow> account \<Rightarrow> execution_error + unit" where
  "pq_gate ctx tx acct = (case bc_pq ctx of
      None \<Rightarrow> Inr ()
    | Some pq \<Rightarrow>
        (let legacy = \<not> is_hybrid_key (tx_public_key tx)
         in if legacy \<and> sunset_height pq \<le> bc_height ctx then Inl (PqSunset (tx_signer tx))
            else if legacy \<and> pq_requires_hybrid_authority ctx acct \<and> \<not> rotating_to_hybrid ctx (tx_action tx)
            then Inl (PqRotationRequired (tx_signer tx))
            else Inr ()))"

definition wraps_authority :: "action \<Rightarrow> bool" where
  "wraps_authority a = (case a of MultisigExec _ _ \<Rightarrow> True | RotateKey _ _ \<Rightarrow> True | _ \<Rightarrow> False)"

definition unwrap_timestamp :: "block_context \<Rightarrow> action \<Rightarrow> execution_error + (action \<times> nat option)" where
  "unwrap_timestamp ctx a =
     (if has_nested_timestamp a then Inl MisplacedTimestamp
      else (case a of
          Timestamped created inner \<Rightarrow>
            if wraps_authority inner then Inl TimestampInnerNotAllowed
            else if saturating_add 64 (bc_block_time_ms ctx) TX_TIMESTAMP_FUTURE_TOLERANCE_MS < created then
              Inl (TxTimestampInFuture created (bc_block_time_ms ctx) TX_TIMESTAMP_FUTURE_TOLERANCE_MS)
            else if created < saturating_sub (bc_block_time_ms ctx) TX_TIMESTAMP_MAX_AGE_MS then
              Inl (TxTimestampExpired created (bc_block_time_ms ctx) TX_TIMESTAMP_MAX_AGE_MS)
            else Inr (inner, if tx_timestamp_active ctx then Some created else None)
        | _ \<Rightarrow> Inr (a, None)))"

definition data_len :: "action \<Rightarrow> nat option" where
  "data_len a = (case a of Deploy wasm \<Rightarrow> Some (length wasm) | Call _ _ calldata \<Rightarrow> Some (length calldata) | _ \<Rightarrow> None)"

definition check_data_cap :: "block_context \<Rightarrow> action \<Rightarrow> execution_error + unit" where
  "check_data_cap ctx a = (case data_len a of
      None \<Rightarrow> Inr ()
    | Some got \<Rightarrow>
        (let limit = max_code_bytes (bc_mining ctx)
         in ensure (\<not> (limit \<noteq> 0 \<and> limit < got)) (DataTooLarge limit got)))"

definition tx_gas :: "transaction \<Rightarrow> nat" where
  "tx_gas tx = gas_for (tx_action tx) + envelope_gas (tx_public_key tx)"

definition intrinsic_fee :: "block_context \<Rightarrow> transaction \<Rightarrow> execution_error + balance" where
  "intrinsic_fee ctx tx =
     (if bc_gas_price ctx \<noteq> 0 then ok_or Overflow (checked_mul 128 (tx_gas tx) (bc_gas_price ctx))
      else Inr 0)"

definition verify_direct_suite2_withdrawal_for_fee ::
  "'a exec_env_scheme \<Rightarrow> action \<Rightarrow> ledger \<Rightarrow> block_context \<Rightarrow> account_id \<Rightarrow> nat \<Rightarrow> balance
     \<Rightarrow> execution_error + v2_effects option" where
  "verify_direct_suite2_withdrawal_for_fee C a l ctx signer n signer_balance =
     (if \<not> (zk_suite2 C \<and> shielded_v2_active ctx \<and> shielded_v2_suite2_active ctx) then Inr None
      else (case a of
          ShieldedV2 bundle \<Rightarrow>
            if \<not> is_suite2 bundle then Inr None
            else (case verify_bundle_for_carrier_with_suite2 C bundle l (bc_mining ctx) (bc_height ctx)
                         (bc_chain_domain ctx) signer n signer_balance True of
                Inl e \<Rightarrow> Inl (ShieldedV2Error e)
              | Inr eff \<Rightarrow> if shield_in eff \<noteq> 0 \<or> deshield_out eff = 0 then Inr None else Inr (Some eff))
        | _ \<Rightarrow> Inr None))"

definition fund_fee ::
  "'a exec_env_scheme \<Rightarrow> block_context \<Rightarrow> ledger \<Rightarrow> transaction \<Rightarrow> account \<Rightarrow> balance
     \<Rightarrow> execution_error + v2_effects option" where
  "fund_fee C ctx l tx acct fee =
     (if fee \<noteq> 0 \<and> bal_sub (balance acct) fee = None then
        and_then (verify_direct_suite2_withdrawal_for_fee C (tx_action tx) l ctx (tx_signer tx)
                    (tx_nonce tx) (balance acct)) (\<lambda>eff.
        and_then (case eff of
                    Some e \<Rightarrow> ok_or Overflow (bal_add (balance acct) (deshield_out e))
                  | None \<Rightarrow> Inr (balance acct)) (\<lambda>available.
        and_then (ensure (bal_sub available fee \<noteq> None) (CannotAffordFee (tx_signer tx))) (\<lambda>_. Inr eff)))
      else Inr None)"

definition reserve_fee :: "account \<Rightarrow> balance \<Rightarrow> bool \<Rightarrow> execution_error + account" where
  "reserve_fee acct fee deferred =
     (if fee \<noteq> 0 \<and> \<not> deferred
      then and_then (ok_or Overflow (bal_sub (balance acct) fee)) (\<lambda>b. Inr (acct\<lparr>balance := b\<rparr>))
      else Inr acct)"

definition approved_signers ::
  "'a exec_env_scheme \<Rightarrow> block_context \<Rightarrow> multisig \<Rightarrow> bool \<Rightarrow> bytes \<Rightarrow> action \<Rightarrow> multisig_approval list \<Rightarrow> nat list" where
  "approved_signers C ctx policy requires_hybrid msg inner approvals =
     remdups (map ap_signer (filter (\<lambda>ap.
       ap_signer ap < length (ms_signers policy)
       \<and> (let pk = ms_signers policy ! ap_signer ap
          in (\<not> requires_hybrid \<or> is_hybrid_key pk \<or> is_pq_multisig_migration ctx inner)
             \<and> pk_verify C pk msg (ap_signature ap))) approvals))"

definition multisig_exec_error ::
  "'a exec_env_scheme \<Rightarrow> block_context \<Rightarrow> ledger \<Rightarrow> transaction \<Rightarrow> bool \<Rightarrow> action \<Rightarrow> multisig_approval list
     \<Rightarrow> string option" where
  "multisig_exec_error C ctx l tx requires_hybrid inner approvals =
     (if wraps_authority inner then Some ''multisig: inner action may not be MultisigExec or RotateKey''
      else (case bt_get (multisigs l) (tx_signer tx) of
          None \<Rightarrow> Some ''multisig: account has no multisig policy''
        | Some policy \<Rightarrow>
            (let msg = multisig_signing_bytes C (tx_signer tx) (tx_nonce tx) inner;
                 n = length (approved_signers C ctx policy requires_hybrid msg inner approvals)
             in if as_u16 n < ms_threshold policy
                then Some (''multisig: '' @ show_nat n @ '' valid approval(s), need '' @ show_nat (ms_threshold policy))
                else None)))"

text \<open>The result is the signer after the tip, the tip, the action to run and the error of a multisig carrier.\<close>

definition resolve_action ::
  "'a exec_env_scheme \<Rightarrow> block_context \<Rightarrow> ledger \<Rightarrow> transaction \<Rightarrow> bool \<Rightarrow> action \<Rightarrow> account
     \<Rightarrow> execution_error + (account \<times> balance \<times> action \<times> string option)" where
  "resolve_action C ctx l tx requires_hybrid a acct = (case a of
      Tipped tip inner \<Rightarrow>
        if \<not> fee_auction_active ctx then Inr (acct, 0, a, None)
        else and_then (ensure (\<not> is_tipped inner) NestedTip) (\<lambda>_.
             and_then (ensure (\<not> wraps_authority inner) TipInnerNotAllowed) (\<lambda>_.
             if tip \<noteq> 0 then
               and_then (ok_or (CannotAffordFee (tx_signer tx)) (bal_sub (balance acct) tip)) (\<lambda>b.
                 Inr (acct\<lparr>balance := b\<rparr>, tip, inner, None))
             else Inr (acct, 0, inner, None)))
    | MultisigExec inner approvals \<Rightarrow>
        Inr (acct, 0, inner, multisig_exec_error C ctx l tx requires_hybrid inner approvals)
    | _ \<Rightarrow> Inr (acct, 0, a, None))"

record admitted =
  ad_signer :: account
  ad_fee :: balance
  ad_tip :: balance
  ad_gas :: nat
  ad_timing :: "nat option"
  ad_action :: action
  ad_ms_error :: "string option"
  ad_hybrid :: bool
  ad_effects :: "v2_effects option"

definition admit ::
  "'a exec_env_scheme \<Rightarrow> block_context \<Rightarrow> ledger \<Rightarrow> signed_transaction \<Rightarrow> execution_error + admitted" where
  "admit C ctx l stx =
     (let tx = stx_transaction stx
      in and_then (ensure (verify_signature_mode C stx (bc_tx_domain ctx)) InvalidSignature) (\<lambda>_.
         and_then (authorize C l tx (account_of l (tx_signer tx))) (\<lambda>acct.
         and_then (ensure (tx_nonce tx = nonce acct) (BadNonce (nonce acct) (tx_nonce tx))) (\<lambda>_.
         and_then (pq_gate ctx tx acct) (\<lambda>_.
         and_then (check_shielded_retirement C ctx (tx_action tx)) (\<lambda>_.
         and_then (case find_inactive_feature ctx (tx_action tx) of
                     Some feature \<Rightarrow> Inl (FeatureInactive feature) | None \<Rightarrow> Inr ()) (\<lambda>_.
         and_then (unwrap_timestamp ctx (tx_action tx)) (\<lambda>(inner, timing).
         and_then (check_data_cap ctx inner) (\<lambda>_.
         and_then (intrinsic_fee ctx tx) (\<lambda>fee.
         and_then (fund_fee C ctx l tx acct fee) (\<lambda>eff.
         and_then (ok_or Overflow (checked_add 64 (nonce acct) 1)) (\<lambda>n.
         and_then (reserve_fee (acct\<lparr>nonce := n\<rparr>) fee (eff \<noteq> None)) (\<lambda>reserved.
         and_then (resolve_action C ctx l tx (pq_requires_hybrid_authority ctx acct) inner reserved)
           (\<lambda>(payer, tip, a, ms).
             Inr \<lparr>ad_signer = payer, ad_fee = fee, ad_tip = tip, ad_gas = tx_gas tx, ad_timing = timing,
                  ad_action = a, ad_ms_error = ms, ad_hybrid = pq_requires_hybrid_authority ctx acct,
                  ad_effects = eff\<rparr>))))))))))))))"

section \<open>The second shielded pool\<close>

definition apply_shield_in :: "'a exec_env_scheme \<Rightarrow> balance \<Rightarrow> exec \<Rightarrow> exec \<times> (failure + unit)" where
  "apply_shield_in C amount x =
     (if amount = 0 then (x, Inr ())
      else (case bal_sub (balance (xs x)) amount of
          None \<Rightarrow> (x, Inl (Reject Overflow))
        | Some b \<Rightarrow>
            (let x = x\<lparr>xs := (xs x)\<lparr>balance := b\<rparr>\<rparr>
             in case add_shielded_v2_value C amount (xl x) of
                  None \<Rightarrow> (x, Inl (Reject Overflow))
                | Some l \<Rightarrow> (x\<lparr>xl := l\<rparr>, Inr ()))))"

definition apply_deshield_out ::
  "'a exec_env_scheme \<Rightarrow> balance \<Rightarrow> balance \<Rightarrow> (nat \<times> balance) option \<Rightarrow> exec \<Rightarrow> arm_result" where
  "apply_deshield_out C amount deferred_fee wupd x =
     (if amount = 0 then succeed x
      else (case sub_shielded_v2_value C amount (xl x) of
          None \<Rightarrow> reject_with Overflow x
        | Some l \<Rightarrow>
            (let x = x\<lparr>xl := l\<rparr>
             in case bal_add (balance (xs x)) amount of
                  None \<Rightarrow> reject_with Overflow x
                | Some b \<Rightarrow>
                    (let x = x\<lparr>xs := (xs x)\<lparr>balance := b\<rparr>\<rparr>
                     in case bal_sub b deferred_fee of
                          None \<Rightarrow> reject_with Overflow x
                        | Some b' \<Rightarrow>
                            succeed (x\<lparr>xs := (xs x)\<lparr>balance := b'\<rparr>,
                                       xl := (case wupd of None \<Rightarrow> xl x
                                              | Some (start, sp) \<Rightarrow> set_deshield_v2_window C start sp (xl x))\<rparr>)))))"

definition apply_v2_effects :: "'a exec_env_scheme \<Rightarrow> v2_effects \<Rightarrow> balance \<Rightarrow> exec \<Rightarrow> arm_result" where
  "apply_v2_effects C eff deferred_fee x =
     (case apply_shielded_v2 C (eff_nullifiers eff) (eff_commitments eff) (xl x) of
        Inl V2Panicked \<Rightarrow> panic x
      | Inl e \<Rightarrow> reject_with (ShieldedV2Error (MalformedState e)) x
      | Inr l \<Rightarrow> (case apply_shield_in C (shield_in eff) (x\<lparr>xl := l\<rparr>) of
          (x, Inl e) \<Rightarrow> (x, Inl e)
        | (x, Inr _) \<Rightarrow> apply_deshield_out C (deshield_out eff) deferred_fee (window_update eff) x))"

text \<open>The intrinsic fee is deferred exactly when admission verified a withdrawal that pays it.\<close>

definition exec_shielded_v2 ::
  "'a exec_env_scheme \<Rightarrow> block_context \<Rightarrow> transaction \<Rightarrow> v2_effects option \<Rightarrow> balance \<Rightarrow> bytes \<Rightarrow> exec \<Rightarrow> arm_result" where
  "exec_shielded_v2 C ctx tx verified fee bundle x =
     (if \<not> shielded_v2_active ctx then reject_with (FeatureInactive ''shielded-v2'') x
      else (case verified of
          Some eff \<Rightarrow> apply_v2_effects C eff fee x
        | None \<Rightarrow> (case verify_bundle_for_carrier_with_suite2 C bundle (xl x) (bc_mining ctx) (bc_height ctx)
                          (bc_chain_domain ctx) (tx_signer tx) (tx_nonce tx) (balance (xs x))
                          (shielded_v2_suite2_active ctx) of
            Inl e \<Rightarrow> reject_with (ShieldedV2Error e) x
          | Inr eff \<Rightarrow> apply_v2_effects C eff 0 x)))"

section \<open>Dispatch\<close>

fun dispatch ::
  "'a exec_env_scheme \<Rightarrow> block_context \<Rightarrow> signed_transaction \<Rightarrow> admitted \<Rightarrow> action \<Rightarrow> exec \<Rightarrow> arm_result" where
  "dispatch C ctx stx ad (Tipped _ _) x =
     reject_with (if fee_auction_active ctx then TipInnerNotAllowed else FeatureInactive ''fee-auction'') x"
| "dispatch C ctx stx ad (Timestamped _ _) x =
     reject_with (if tx_timestamp_active ctx then MisplacedTimestamp else FeatureInactive ''tx-timestamp'') x"
| "dispatch C ctx stx ad (ShieldedV2 bundle) x =
     exec_shielded_v2 C ctx (stx_transaction stx) (ad_effects ad) (ad_fee ad) bundle x"
| "dispatch C ctx stx ad (Transfer to amount) x = exec_transfer C (stx_transaction stx) to amount x"
| "dispatch C ctx stx ad ClaimVesting x = exec_claim_vesting ctx x"
| "dispatch C ctx stx ad (Deploy wasm) x = exec_deploy wasm x"
| "dispatch C ctx stx ad (Call contract gas_limit calldata) x =
     exec_call C ctx (stx_transaction stx) contract gas_limit calldata x"
| "dispatch C ctx stx ad (Shielded bundle) x = exec_shielded C ctx (stx_transaction stx) bundle x"
| "dispatch C ctx stx ad (HtlcLock to amount lockhash timeout) x = exec_htlc_lock C stx to amount lockhash timeout x"
| "dispatch C ctx stx ad (HtlcClaim i preimage) x = exec_htlc_claim C ctx (stx_transaction stx) i preimage x"
| "dispatch C ctx stx ad (HtlcRefund i) x = exec_htlc_refund C ctx (stx_transaction stx) i x"
| "dispatch C ctx stx ad (TokenIssue symb amount to) x = exec_token_issue C (stx_transaction stx) symb amount to x"
| "dispatch C ctx stx ad (TokenTransfer asset to amount) x =
     exec_token_transfer C ctx (stx_transaction stx) asset to amount x"
| "dispatch C ctx stx ad (TokenBurn asset amount) x = exec_token_burn C ctx (stx_transaction stx) asset amount x"
| "dispatch C ctx stx ad (TokenSetPolicy asset policy) x =
     exec_token_set_policy C (stx_transaction stx) asset policy x"
| "dispatch C ctx stx ad (IntentSettle s) x = exec_intent_settle C ctx (stx_transaction stx) s x"
| "dispatch C ctx stx ad (IntentCancel i) x = exec_intent_cancel C (stx_transaction stx) i x"
| "dispatch C ctx stx ad (RotateKey new_key proof_sig) x =
     exec_rotate_key C (stx_transaction stx) (ad_hybrid ad) new_key proof_sig x"
| "dispatch C ctx stx ad (RegisterName name) x = exec_register_name C ctx (stx_transaction stx) name x"
| "dispatch C ctx stx ad (TransferName name to) x = exec_transfer_name C (stx_transaction stx) name to x"
| "dispatch C ctx stx ad (NftMint symb token_id to meta) x =
     exec_nft_mint C ctx (stx_transaction stx) symb token_id to meta x"
| "dispatch C ctx stx ad (NftTransfer collection token_id to) x =
     exec_nft_transfer C (stx_transaction stx) collection token_id to x"
| "dispatch C ctx stx ad (NftSetMeta collection token_id meta) x =
     exec_nft_set_meta C (stx_transaction stx) collection token_id meta x"
| "dispatch C ctx stx ad (SetMultisig signers threshold) x =
     exec_set_multisig C (stx_transaction stx) (ad_hybrid ad) signers threshold x"
| "dispatch C ctx stx ad (MultisigExec _ _) x = fail_with ''multisig: nested MultisigExec is not allowed'' x"
| "dispatch C ctx stx ad (ProposeMultisig acct inner) x =
     exec_propose_multisig C ctx (stx_transaction stx) acct inner x"
| "dispatch C ctx stx ad (ApproveMultisig acct pid) x = exec_approve_multisig C ctx (stx_transaction stx) acct pid x"
| "dispatch C ctx stx ad (CancelMultisig acct pid) x = exec_cancel_multisig C ctx (stx_transaction stx) acct pid x"
| "dispatch C ctx stx ad (VaultDeposit amount) x = exec_vault_deposit C (stx_transaction stx) amount x"
| "dispatch C ctx stx ad (VaultWithdraw amount) x = exec_vault_withdraw C (stx_transaction stx) amount x"
| "dispatch C ctx stx ad (VaultMint amount) x = exec_vault_mint C (stx_transaction stx) amount x"
| "dispatch C ctx stx ad (VaultBurn amount) x = exec_vault_burn C (stx_transaction stx) amount x"
| "dispatch C ctx stx ad (OracleUpdate price) x = exec_oracle_update C (stx_transaction stx) price x"

definition run_action ::
  "'a exec_env_scheme \<Rightarrow> block_context \<Rightarrow> signed_transaction \<Rightarrow> admitted \<Rightarrow> exec \<Rightarrow> arm_result" where
  "run_action C ctx stx ad x = (case ad_ms_error ad of
      Some reason \<Rightarrow> fail_with reason x
    | None \<Rightarrow> dispatch C ctx stx ad (ad_action ad) x)"

section \<open>Transactions and blocks\<close>

definition start_exec :: "ledger \<Rightarrow> admitted \<Rightarrow> exec" where
  "start_exec l ad = \<lparr>xl = l, xs = ad_signer ad, xfee = ad_fee ad, xgas = ad_gas ad, xret = [], xev = []\<rparr>"

definition make_receipt :: "'a tx_codec_scheme \<Rightarrow> signed_transaction \<Rightarrow> admitted \<Rightarrow> exec \<Rightarrow> exec_status \<Rightarrow> receipt" where
  "make_receipt C stx ad x status =
     \<lparr>rc_tx_id = stx_id C stx, rc_status = status, rc_gas_used = xgas x, rc_return_data = xret x,
      rc_events = xev x, rc_timing = ad_timing ad\<rparr>"

definition finish ::
  "'a exec_env_scheme \<Rightarrow> block_context \<Rightarrow> signed_transaction \<Rightarrow> admitted \<Rightarrow> exec \<Rightarrow> exec_status
     \<Rightarrow> ledger \<times> (failure + receipt)" where
  "finish C ctx stx ad x status =
     (let l = set_account C (tx_signer (stx_transaction stx)) (xs x) (xl x)
      in case distribute_fee C ctx l (xfee x) of
           Inl e \<Rightarrow> (l, Inl (Reject e))
         | Inr l \<Rightarrow> (case credit C l (bc_miner ctx) (ad_tip ad) of
             Inl e \<Rightarrow> (l, Inl (Reject e))
           | Inr l \<Rightarrow> (l, Inr (make_receipt C stx ad x status))))"

definition apply_transaction ::
  "'a exec_env_scheme \<Rightarrow> block_context \<Rightarrow> signed_transaction \<Rightarrow> ledger \<Rightarrow> ledger \<times> (failure + receipt)" where
  "apply_transaction C ctx stx l = (case admit C ctx l stx of
      Inl e \<Rightarrow> (l, Inl (Reject e))
    | Inr ad \<Rightarrow> (case run_action C ctx stx ad (start_exec l ad) of
        (x, Inl f) \<Rightarrow> (xl x, Inl f)
      | (x, Inr status) \<Rightarrow> finish C ctx stx ad x status))"

datatype block_execution_error =
    InvalidTransaction nat execution_error
  | CoinbaseError execution_error

datatype block_failure = BlockReject block_execution_error | BlockPanic

definition block_failure_of :: "nat \<Rightarrow> failure \<Rightarrow> block_failure" where
  "block_failure_of i f = (case f of Reject e \<Rightarrow> BlockReject (InvalidTransaction i e) | Panic \<Rightarrow> BlockPanic)"

definition apply_coinbase ::
  "'a exec_env_scheme \<Rightarrow> block_context \<Rightarrow> ledger \<Rightarrow> ledger \<times> (block_execution_error + balance)" where
  "apply_coinbase C ctx l =
     (let reward = reward_at (bc_mining ctx) (bc_height ctx) (mined_emitted l)
      in if reward = 0 then (l, Inr 0)
         else (case credit C l (bc_miner ctx) reward of
             Inl e \<Rightarrow> (l, Inl (CoinbaseError e))
           | Inr l \<Rightarrow> (case add_mined_emitted C reward l of
               None \<Rightarrow> (l, Inl (CoinbaseError Overflow))
             | Some l \<Rightarrow> (l, Inr reward))))"

fun apply_transactions_from ::
  "'a exec_env_scheme \<Rightarrow> block_context \<Rightarrow> nat \<Rightarrow> signed_transaction list \<Rightarrow> ledger
     \<Rightarrow> ledger \<times> (block_failure + receipt list)" where
  "apply_transactions_from C ctx i [] l = (l, Inr [])"
| "apply_transactions_from C ctx i (stx # stxs) l = (case apply_transaction C ctx stx l of
      (l, Inl f) \<Rightarrow> (l, Inl (block_failure_of i f))
    | (l, Inr r) \<Rightarrow> (case apply_transactions_from C ctx (Suc i) stxs l of
        (l, Inl f) \<Rightarrow> (l, Inl f)
      | (l, Inr rs) \<Rightarrow> (l, Inr (r # rs))))"

definition apply_transactions ::
  "'a exec_env_scheme \<Rightarrow> block_context \<Rightarrow> signed_transaction list \<Rightarrow> ledger
     \<Rightarrow> ledger \<times> (block_failure + receipt list)" where
  "apply_transactions C ctx stxs l = apply_transactions_from C ctx 0 stxs l"

section \<open>Actions without a carrier\<close>

definition bare :: "action \<Rightarrow> bool" where
  "bare a = (case a of Timestamped _ _ \<Rightarrow> False | Tipped _ _ \<Rightarrow> False | MultisigExec _ _ \<Rightarrow> False
     | ShieldedV2 _ \<Rightarrow> False | _ \<Rightarrow> True)"

lemma bare_unwrap: "bare a \<Longrightarrow> unwrap_timestamp ctx a = Inr (b, t) \<Longrightarrow> b = a"
  by (cases a) (auto simp: bare_def unwrap_timestamp_def split: if_splits)

lemma bare_resolve:
  "bare a \<Longrightarrow> resolve_action C ctx l tx hy a acct = Inr (acct', tip, b, ms) \<Longrightarrow> b = a \<and> ms = None \<and> tip = 0"
  by (cases a) (auto simp: bare_def resolve_action_def)

lemma bare_quiet_gates:
  assumes "bare a" "carried a = None"
  shows "unwrap_timestamp ctx a = Inr (a, None)" "resolve_action C ctx l tx hy a acct = Inr (acct, 0, a, None)"
    "find_inactive_feature ctx a = None"
  using assms
  by (cases a; simp add: bare_def unwrap_timestamp_def has_nested_timestamp_def resolve_action_def
        find_inactive_feature.simps)+

end
