(* ===== verification/Block.thy ===== *)
theory Block
  imports Runtime
begin

text \<open>
  Blocks and their weight, \<open>types/src/block.rs\<close> and \<open>types/src/weight.rs\<close>, and the choice of the
  proof-of-work seal (\<open>pow/src/seal.rs\<close>).  A header is encoded field by field as Borsh derives it;
  the encoding of a signed transaction and the RandomX hash are fields of the record \<open>chain_env\<close>.
\<close>

section \<open>Headers and blocks\<close>

record block_header =
  hd_height :: nat
  prev_hash :: hash
  tx_root :: hash
  hd_receipts_root :: hash
  hd_state_root :: hash
  timestamp_ms :: nat
  proposer :: account_id
  version_bits :: "32 word"
  bits :: nat
  hd_nonce :: nat

record block =
  header :: block_header
  transactions :: "signed_transaction list"

record chain_env = exec_env +
  borsh_stx :: "signed_transaction \<Rightarrow> bytes"
  randomx_hash :: "bytes \<Rightarrow> bytes \<Rightarrow> bytes"

definition pow_preimage :: "block_header \<Rightarrow> bytes" where
  "pow_preimage h = to_le_bytes 8 (hd_height h) @ prev_hash h @ tx_root h @ hd_receipts_root h @ hd_state_root h
     @ to_le_bytes 8 (timestamp_ms h) @ borsh_vec (ascii (proposer h)) @ to_le_bytes 4 (unat (version_bits h))
     @ to_le_bytes 4 (bits h) @ to_le_bytes 8 (hd_nonce h)"

definition header_hash :: "'a crypto_scheme \<Rightarrow> block_header \<Rightarrow> hash" where
  "header_hash C h = blake3 C (pow_preimage h)"

definition header_pow_hash :: "'a tx_codec_scheme \<Rightarrow> block_header \<Rightarrow> hash" where
  "header_pow_hash C h = sha256d (sha256 C) (pow_preimage h)"

definition compute_tx_root :: "'a tx_codec_scheme \<Rightarrow> signed_transaction list \<Rightarrow> hash" where
  "compute_tx_root C txs = merkle_root C (map (stx_id C) txs)"

definition assemble ::
  "'a tx_codec_scheme \<Rightarrow> nat \<Rightarrow> hash \<Rightarrow> hash \<Rightarrow> hash \<Rightarrow> nat \<Rightarrow> account_id \<Rightarrow> signed_transaction list \<Rightarrow> block" where
  "assemble C height prev sroot rroot time_ms miner txs =
     \<lparr>header = \<lparr>hd_height = height, prev_hash = prev, tx_root = compute_tx_root C txs, hd_receipts_root = rroot,
                hd_state_root = sroot, timestamp_ms = time_ms, proposer = miner, version_bits = 0, bits = 0,
                hd_nonce = 0\<rparr>,
      transactions = txs\<rparr>"

definition block_hash :: "'a crypto_scheme \<Rightarrow> block \<Rightarrow> hash" where
  "block_hash C b = header_hash C (header b)"

definition borsh_block :: "'a chain_env_scheme \<Rightarrow> block \<Rightarrow> bytes" where
  "borsh_block C b = pow_preimage (header b) @ to_le_bytes 4 (length (transactions b))
     @ concat (map (borsh_stx C) (transactions b))"

definition serialized_size :: "'a chain_env_scheme \<Rightarrow> block \<Rightarrow> nat" where
  "serialized_size C b = length (borsh_block C b)"

definition stx_serialized_size :: "'a chain_env_scheme \<Rightarrow> signed_transaction \<Rightarrow> nat" where
  "stx_serialized_size C stx = length (borsh_stx C stx)"

definition is_genesis :: "block \<Rightarrow> bool" where
  "is_genesis b \<longleftrightarrow> hd_height (header b) = 0"

definition tx_root_matches :: "'a tx_codec_scheme \<Rightarrow> block \<Rightarrow> bool" where
  "tx_root_matches C b \<longleftrightarrow> tx_root (header b) = compute_tx_root C (transactions b)"

definition all_signatures_valid_in :: "'a tx_codec_scheme \<Rightarrow> block \<Rightarrow> signing_domain option \<Rightarrow> bool" where
  "all_signatures_valid_in C b d = list_all (\<lambda>s. verify_signature_in C s d) (transactions b)"

definition all_signatures_valid :: "'a tx_codec_scheme \<Rightarrow> block \<Rightarrow> bool" where
  "all_signatures_valid C b = all_signatures_valid_in C b None"

definition all_signatures_valid_mode :: "'a tx_codec_scheme \<Rightarrow> block \<Rightarrow> tx_domain_mode \<Rightarrow> bool" where
  "all_signatures_valid_mode C b m = list_all (\<lambda>s. verify_signature_mode C s m) (transactions b)"

definition pow_seal :: "'a chain_env_scheme \<Rightarrow> pow_algo \<Rightarrow> bytes \<Rightarrow> bytes \<Rightarrow> bytes" where
  "pow_seal C algo key input = (case algo of
      Sha256d \<Rightarrow> sha256d (sha256 C) input
    | RandomX \<Rightarrow> randomx_hash C key input)"

section \<open>Weight\<close>

definition WEIGHT_UNITS_PER_VERIFY_MS :: nat where "WEIGHT_UNITS_PER_VERIFY_MS = 512"
definition SHIELDED_V2_VERIFY_WEIGHT :: nat where "SHIELDED_V2_VERIFY_WEIGHT = 16 * WEIGHT_UNITS_PER_VERIFY_MS"
definition MAX_BLOCK_WEIGHT :: nat where "MAX_BLOCK_WEIGHT = 4 * 1024 * 1024"
definition MAX_TX_WEIGHT :: nat where "MAX_TX_WEIGHT = MAX_BLOCK_WEIGHT div 16"
definition MAX_SUITE2_TX_WEIGHT :: nat where "MAX_SUITE2_TX_WEIGHT = 2304 * 1024"
definition SHIELDED_V2_SUITE2_VERIFY_WEIGHT :: nat where
  "SHIELDED_V2_SUITE2_VERIFY_WEIGHT = 128 * WEIGHT_UNITS_PER_VERIFY_MS"
definition FEE_RATE_WEIGHT_SCALE :: nat where "FEE_RATE_WEIGHT_SCALE = 1000"

definition starts_with_two :: "bytes \<Rightarrow> bool" where
  "starts_with_two bs = (case bs of [] \<Rightarrow> False | b # _ \<Rightarrow> b = 2)"

fun is_suite2_action :: "action \<Rightarrow> bool" where
  "is_suite2_action (ShieldedV2 bundle) = starts_with_two bundle"
| "is_suite2_action (Tipped _ inner) = is_suite2_action inner"
| "is_suite2_action (Timestamped _ inner) = is_suite2_action inner"
| "is_suite2_action (MultisigExec inner _) = is_suite2_action inner"
| "is_suite2_action (ProposeMultisig _ inner) = is_suite2_action inner"
| "is_suite2_action _ = False"

fun verify_weight :: "action \<Rightarrow> nat" where
  "verify_weight (ShieldedV2 bundle) =
     (if starts_with_two bundle then SHIELDED_V2_SUITE2_VERIFY_WEIGHT else SHIELDED_V2_VERIFY_WEIGHT)"
| "verify_weight (Tipped _ inner) = verify_weight inner"
| "verify_weight (Timestamped _ inner) = verify_weight inner"
| "verify_weight (MultisigExec inner _) = verify_weight inner"
| "verify_weight (ProposeMultisig _ inner) = verify_weight inner"
| "verify_weight _ = 0"

definition tx_weight :: "'a chain_env_scheme \<Rightarrow> signed_transaction \<Rightarrow> nat" where
  "tx_weight C stx = saturating_add 64 (stx_serialized_size C stx) (verify_weight (tx_action (stx_transaction stx)))"

definition block_weight :: "'a chain_env_scheme \<Rightarrow> block \<Rightarrow> nat" where
  "block_weight C b =
     fold (\<lambda>stx acc. saturating_add 64 acc (verify_weight (tx_action (stx_transaction stx))))
       (transactions b) (serialized_size C b)"

definition fee_rate :: "nat \<Rightarrow> nat \<Rightarrow> nat" where
  "fee_rate bid weight = saturating_mul 128 bid FEE_RATE_WEIGHT_SCALE div max weight 1"

section \<open>Sizes and weights\<close>

lemma length_borsh_vec [simp]: "length (borsh_vec bs) = 4 + length bs"
  by (simp add: borsh_vec_def)

lemma serialized_size_sum:
  "serialized_size C b = length (pow_preimage (header b)) + 4 + sum_list (map (stx_serialized_size C) (transactions b))"
  by (simp add: serialized_size_def borsh_block_def length_concat stx_serialized_size_def [abs_def] comp_def)

definition well_sized :: "block_header \<Rightarrow> bool" where
  "well_sized h \<longleftrightarrow> length (prev_hash h) = 32 \<and> length (tx_root h) = 32 \<and> length (hd_receipts_root h) = 32
     \<and> length (hd_state_root h) = 32 \<and> length (proposer h) \<le> MAX_LEN \<and> hd_height h < 2 ^ 64
     \<and> timestamp_ms h < 2 ^ 64 \<and> bits h < 2 ^ 32 \<and> hd_nonce h < 2 ^ 64"

lemma header_length: "well_sized h \<Longrightarrow> length (pow_preimage h) = 164 + length (proposer h)"
  by (simp add: pow_preimage_def well_sized_def)

lemma saturating_fold:
  "fold (\<lambda>x acc. saturating_add 64 acc (f x)) zs a = (if zs = [] then a else min (a + sum_list (map f zs)) (2 ^ 64 - 1))"
proof (induction zs arbitrary: a)
  case (Cons x zs)
  then show ?case by (auto simp: saturating_add_def add.assoc min_def)
qed simp

lemma le_bytes_inj:
  assumes "to_le_bytes n x = to_le_bytes n y" "x < 256 ^ n" "y < 256 ^ n"
  shows "x = y"
proof -
  have "be_value (be_bytes n x) = be_value (be_bytes n y)" using assms(1) by (simp add: be_bytes_def)
  then show ?thesis using assms(2,3) by (simp add: be_value_be_bytes)
qed

lemma append_cong_len: "length zs = length ys \<Longrightarrow> zs @ us = ys @ vs \<longleftrightarrow> zs = ys \<and> us = vs"
  by (rule append_eq_append_conv) simp

lemma borsh_vec_append:
  assumes "borsh_vec zs @ us = borsh_vec ys @ vs" "length zs < 2 ^ 32" "length ys < 2 ^ 32"
  shows "zs = ys \<and> us = vs"
proof -
  have "to_le_bytes 4 (length zs) = to_le_bytes 4 (length ys)" and t: "zs @ us = ys @ vs"
    using assms(1) by (simp_all add: borsh_vec_def append_cong_len)
  then have "length zs = length ys" using assms(2,3) by (intro le_bytes_inj [of 4]) simp_all
  with t show ?thesis by (simp add: append_cong_len)
qed

text \<open>C24. The encoding of a header determines the header: two headers of well-formed size with the
  same preimage are the same header, so that the block id and the proof-of-work seal commit to
  every field.  An assembled block always carries the transaction root of its body.\<close>

theorem header_encoding_binds:
  assumes "well_sized h" "well_sized k" "pow_preimage h = pow_preimage k"
  shows "h = k \<and> tx_root_matches C (assemble C n prev sr rr t i txs)"
proof -
  note w = assms(1) [unfolded well_sized_def] and v = assms(2) [unfolded well_sized_def]
  have fixed: "to_le_bytes 8 (hd_height h) = to_le_bytes 8 (hd_height k)" "prev_hash h = prev_hash k"
      "tx_root h = tx_root k" "hd_receipts_root h = hd_receipts_root k" "hd_state_root h = hd_state_root k"
      "to_le_bytes 8 (timestamp_ms h) = to_le_bytes 8 (timestamp_ms k)"
    and rest: "borsh_vec (ascii (proposer h)) @ to_le_bytes 4 (unat (version_bits h)) @ to_le_bytes 4 (bits h)
        @ to_le_bytes 8 (hd_nonce h)
      = borsh_vec (ascii (proposer k)) @ to_le_bytes 4 (unat (version_bits k)) @ to_le_bytes 4 (bits k)
        @ to_le_bytes 8 (hd_nonce k)"
    using assms(3) w v by (simp_all add: pow_preimage_def append_cong_len)
  have "ascii (proposer h) = ascii (proposer k) \<and> to_le_bytes 4 (unat (version_bits h)) @ to_le_bytes 4 (bits h)
        @ to_le_bytes 8 (hd_nonce h) = to_le_bytes 4 (unat (version_bits k)) @ to_le_bytes 4 (bits k)
        @ to_le_bytes 8 (hd_nonce k)"
    using w v by (intro borsh_vec_append [OF rest]) (simp_all add: MAX_LEN_def)
  then have tail: "proposer h = proposer k" "to_le_bytes 4 (unat (version_bits h)) = to_le_bytes 4 (unat (version_bits k))"
      "to_le_bytes 4 (bits h) = to_le_bytes 4 (bits k)" "to_le_bytes 8 (hd_nonce h) = to_le_bytes 8 (hd_nonce k)"
    by (simp_all add: append_cong_len)
  have u: "unat x < 256 ^ 4" for x :: "32 word" using unsigned_less [of x] by simp
  have "version_bits h = version_bits k" using le_bytes_inj [OF tail(2) u u] by (rule word_unat_eq_iff [THEN iffD2])
  moreover have "hd_height h = hd_height k" "timestamp_ms h = timestamp_ms k" "hd_nonce h = hd_nonce k" "bits h = bits k"
    using le_bytes_inj [OF fixed(1)] le_bytes_inj [OF fixed(6)] le_bytes_inj [OF tail(4)] le_bytes_inj [OF tail(3)] w v
    by simp_all
  ultimately have "h = k" using fixed tail by simp
  then show ?thesis by (simp add: tx_root_matches_def assemble_def)
qed

definition sample_header :: block_header where
  "sample_header = \<lparr>hd_height = 1, prev_hash = replicate 32 1, tx_root = replicate 32 2, hd_receipts_root = replicate 32 3,
     hd_state_root = replicate 32 4, timestamp_ms = 5, proposer = ''miner.sov'', version_bits = 6, bits = 7, hd_nonce = 8\<rparr>"

theorem header_encoding_binds_witness:
  "well_sized sample_header \<and> pow_preimage (sample_header\<lparr>hd_nonce := 9\<rparr>) \<noteq> pow_preimage sample_header"
proof -
  have w: "well_sized sample_header" "well_sized (sample_header\<lparr>hd_nonce := 9\<rparr>)"
    by (simp_all add: sample_header_def well_sized_def MAX_LEN_def)
  have "sample_header\<lparr>hd_nonce := 9\<rparr> \<noteq> sample_header" by (simp add: sample_header_def)
  then show ?thesis using header_encoding_binds [OF w(2,1)] w(1) by blast
qed

end
