(* ===== verification/ArmContract.thy ===== *)
theory ArmContract
  imports Runtime
begin

text \<open>
  The contract between the dispatch and its arms: a relation \<open>W\<close> between the state before an arm
  and its result.  The locale \<open>dispatch_contract\<close> collects what the arms owe, and the lemma about
  \<open>run_action\<close> is proved once inside it; the predicate \<open>P\<close> restricts the actions a contract
  speaks about.  \<open>when_ok R\<close> turns a relation between two states into one that speaks about the
  results that do not reject.
\<close>

text \<open>The bound of a \<open>u128\<close>, kept folded, and the checked operations in terms of it.\<close>

definition u128_limit :: nat where "u128_limit = 2 ^ 128"

lemma bal_add_Some: "bal_add a b = Some c \<longleftrightarrow> c = a + b \<and> a + b < u128_limit"
  by (simp add: u128_limit_def)

lemma bal_add_None: "bal_add a b = None \<longleftrightarrow> u128_limit \<le> a + b"
  by (simp add: u128_limit_def)

lemmas bal_simps = bal_add_Some bal_add_None

definition when_ok :: "('s \<Rightarrow> 's \<Rightarrow> bool) \<Rightarrow> 's \<Rightarrow> 's \<times> ('f + 'r) \<Rightarrow> bool" where
  "when_ok R x r = (case r of (x', Inr _) \<Rightarrow> R x x' | (_, Inl _) \<Rightarrow> True)"

lemma when_ok_simps [simp]:
  "when_ok R x (succeed x') = R x x'" "when_ok R x (fail_with reason x') = R x x'"
  "when_ok R x (reject_with e x')" "when_ok R x (panic x')"
  "when_ok R x (x', Inr st) = R x x'" "when_ok R x (x', Inl f)"
  by (simp_all add: when_ok_def outcome_defs)

lemma when_okD: "when_ok R x r \<Longrightarrow> r = (x', Inr st) \<Longrightarrow> R x x'"
  by (simp add: when_ok_def)

lemma when_okI: "(\<And>x' st. r = (x', Inr st) \<Longrightarrow> R x x') \<Longrightarrow> when_ok R x r"
  by (auto simp: when_ok_def split: prod.split sum.split)

lemma when_ok_mono: "when_ok R y r \<Longrightarrow> (\<And>x'. R y x' \<Longrightarrow> S x x') \<Longrightarrow> when_ok S x r"
  by (auto simp: when_ok_def split: prod.splits sum.splits)

text \<open>What the plan of an intent's two legs contains.\<close>

lemma plan_legs_amounts:
  assumes "plan_legs l g w own bo sol bs give deliver h = Inr p"
  shows "give \<le> leg_balance l g own bo \<and> owner_debited p = leg_balance l g own bo - give
    \<and> deliver \<le> leg_balance l w sol bs \<and> solver_debited p = leg_balance l w sol bs - deliver
    \<and> solver_credited p = leg_balance l g sol bs + give \<and> owner_credited p = leg_balance l w own bo + deliver"
  using assms by (auto simp: plan_legs_def bal_simps simp del: checked_add_Some)

lemma settle_leg_of_inj:
  "settle_leg_of l a = Inr g \<Longrightarrow> settle_leg_of l b = Inr g \<Longrightarrow> a = b"
  by (auto simp: settle_leg_of_def split: asset.splits if_splits)

locale dispatch_contract =
  fixes C :: "'a exec_env_scheme" and ctx :: block_context and stx :: signed_transaction
    and P :: "action \<Rightarrow> bool" and W :: "exec \<Rightarrow> arm_result \<Rightarrow> bool"
  assumes same: "r \<noteq> Inl Panic \<Longrightarrow> W x (x, r)"
    and shielded_v2: "P (ShieldedV2 b) \<Longrightarrow> W x (exec_shielded_v2 C ctx (stx_transaction stx) None fee b x)"
    and transfer: "P (Transfer to v) \<Longrightarrow> W x (exec_transfer C (stx_transaction stx) to v x)"
    and claim_vesting: "P ClaimVesting \<Longrightarrow> W x (exec_claim_vesting ctx x)"
    and deploy: "P (Deploy w) \<Longrightarrow> W x (exec_deploy w x)"
    and contract_call: "P (Call c g d) \<Longrightarrow> W x (exec_call C ctx (stx_transaction stx) c g d x)"
    and shielded_v1: "P (Shielded b) \<Longrightarrow> W x (exec_shielded C ctx (stx_transaction stx) b x)"
    and htlc_lock: "P (HtlcLock to v h n) \<Longrightarrow> W x (exec_htlc_lock C stx to v h n x)"
    and htlc_claim: "P (HtlcClaim i pre) \<Longrightarrow> W x (exec_htlc_claim C ctx (stx_transaction stx) i pre x)"
    and htlc_refund: "P (HtlcRefund i) \<Longrightarrow> W x (exec_htlc_refund C ctx (stx_transaction stx) i x)"
    and token_issue: "P (TokenIssue s v to) \<Longrightarrow> W x (exec_token_issue C (stx_transaction stx) s v to x)"
    and token_transfer:
      "P (TokenTransfer a to v) \<Longrightarrow> W x (exec_token_transfer C ctx (stx_transaction stx) a to v x)"
    and token_burn: "P (TokenBurn a v) \<Longrightarrow> W x (exec_token_burn C ctx (stx_transaction stx) a v x)"
    and token_set_policy:
      "P (TokenSetPolicy a p) \<Longrightarrow> W x (exec_token_set_policy C (stx_transaction stx) a p x)"
    and intent_settle: "P (IntentSettle s') \<Longrightarrow> W x (exec_intent_settle C ctx (stx_transaction stx) s' x)"
    and intent_cancel: "P (IntentCancel it) \<Longrightarrow> W x (exec_intent_cancel C (stx_transaction stx) it x)"
    and rotate_key: "P (RotateKey k sg) \<Longrightarrow> W x (exec_rotate_key C (stx_transaction stx) hy k sg x)"
    and register_name: "P (RegisterName nm) \<Longrightarrow> W x (exec_register_name C ctx (stx_transaction stx) nm x)"
    and transfer_nm: "P (TransferName nm to) \<Longrightarrow> W x (exec_transfer_name C (stx_transaction stx) nm to x)"
    and nft_mint: "P (NftMint s t to m) \<Longrightarrow> W x (exec_nft_mint C ctx (stx_transaction stx) s t to m x)"
    and nft_transfer: "P (NftTransfer h t to) \<Longrightarrow> W x (exec_nft_transfer C (stx_transaction stx) h t to x)"
    and nft_set_meta: "P (NftSetMeta h t m) \<Longrightarrow> W x (exec_nft_set_meta C (stx_transaction stx) h t m x)"
    and set_msig: "P (SetMultisig ks n) \<Longrightarrow> W x (exec_set_multisig C (stx_transaction stx) hy ks n x)"
    and propose: "P (ProposeMultisig j inner) \<Longrightarrow> W x (exec_propose_multisig C ctx (stx_transaction stx) j inner x)"
    and approve: "P (ApproveMultisig j h) \<Longrightarrow> W x (exec_approve_multisig C ctx (stx_transaction stx) j h x)"
    and cancel: "P (CancelMultisig j h) \<Longrightarrow> W x (exec_cancel_multisig C ctx (stx_transaction stx) j h x)"
    and vault_deposit: "P (VaultDeposit v) \<Longrightarrow> W x (exec_vault_deposit C (stx_transaction stx) v x)"
    and vault_withdraw: "P (VaultWithdraw v) \<Longrightarrow> W x (exec_vault_withdraw C (stx_transaction stx) v x)"
    and vault_mint: "P (VaultMint v) \<Longrightarrow> W x (exec_vault_mint C (stx_transaction stx) v x)"
    and vault_burn: "P (VaultBurn v) \<Longrightarrow> W x (exec_vault_burn C (stx_transaction stx) v x)"
    and oracle_update: "P (OracleUpdate n) \<Longrightarrow> W x (exec_oracle_update C (stx_transaction stx) n x)"
begin

lemmas arms = shielded_v2 transfer claim_vesting deploy contract_call shielded_v1 htlc_lock htlc_claim
  htlc_refund token_issue token_transfer token_burn token_set_policy intent_settle intent_cancel
  rotate_key register_name transfer_nm nft_mint nft_transfer nft_set_meta set_msig propose approve
  cancel vault_deposit vault_withdraw vault_mint vault_burn oracle_update

lemma dispatch_ok:
  assumes "P a" "ad_effects ad = None"
  shows "W x (dispatch C ctx stx ad a x)"
  using assms by (cases a) (simp_all add: arms same outcome_defs)

lemma run_action_ok:
  assumes "P (ad_action ad)" "ad_effects ad = None"
  shows "W x (run_action C ctx stx ad x)"
  using dispatch_ok [OF assms] by (simp add: run_action_def same outcome_defs split: option.split)

end

end
