(* ===== verification/Journal.thy ===== *)
theory Journal
  imports Ledger
begin

text \<open>
  Undoing a block.  The chain starts a journal before it executes a block, and applies the
  journal backwards to disconnect the block or to reject it (\<open>connect_to_active\<close> and
  \<open>disconnect_to\<close> in \<open>chain/src/blockchain.rs\<close>).

  The locale \<open>journalled_store\<close> states what a write and its journal entries owe each other;
  from it follows that any sequence of writes is undone exactly.  The interpretation \<open>lj\<close> on
  the ledger's writes discharges the laws for every write operation of \<open>ledger.rs\<close>.  The
  \<open>view\<close> that is restored is the whole state except the journal itself and the commitment's
  internal node store.
\<close>

section \<open>Journals\<close>

primrec run_log :: "('w \<Rightarrow> 's \<Rightarrow> 's) \<Rightarrow> ('w \<Rightarrow> 's \<Rightarrow> 'o list) \<Rightarrow> 'w list \<Rightarrow> 's \<Rightarrow> 'o list" where
  "run_log put log [] s = []"
| "run_log put log (w # ws) s = log w s @ run_log put log ws (put w s)"

locale journalled_store =
  fixes put :: "'w \<Rightarrow> 's \<Rightarrow> 's"
    and log :: "'w \<Rightarrow> 's \<Rightarrow> 'o list"
    and revert :: "'o \<Rightarrow> 's \<Rightarrow> 's"
    and view :: "'s \<Rightarrow> 'v"
    and ok :: "'s \<Rightarrow> bool"
  assumes ok_write: "ok s \<Longrightarrow> ok (put w s)"
    and revert_view: "view s = view s' \<Longrightarrow> view (revert e s) = view (revert e s')"
    and revert_write: "ok s \<Longrightarrow> view (fold revert (rev (log w s)) (put w s)) = view s"
begin

lemma ok_run: "ok s \<Longrightarrow> ok (fold put ws s)"
  by (induction ws arbitrary: s) (simp_all add: ok_write)

lemma revert_view_fold: "view s = view s' \<Longrightarrow> view (fold revert es s) = view (fold revert es s')"
proof (induction es arbitrary: s s')
  case (Cons e es)
  show ?case using Cons.IH [OF revert_view [OF Cons.prems]] by simp
qed simp

lemma revert_run: "ok s \<Longrightarrow> view (fold revert (rev (run_log put log ws s)) (fold put ws s)) = view s"
proof (induction ws arbitrary: s)
  case (Cons w ws)
  have "view (fold revert (rev (log w s)) (fold revert (rev (run_log put log ws (put w s))) (fold put ws (put w s))))
      = view (fold revert (rev (log w s)) (put w s))"
    using Cons.IH [OF ok_write [OF Cons.prems]] by (rule revert_view_fold)
  also have "\<dots> = view s" using Cons.prems by (rule revert_write)
  finally show ?case by simp
qed simp

end

section \<open>The ledger's writes\<close>

datatype store_write =
    WAccount account_id account
  | WContract account_id bytes bytes
  | WShieldedBundle shielded_bundle
  | WShieldedValue balance
  | WShieldedV2 "pq_digest list" "pq_digest list"
  | WShieldedV2Value balance
  | WDeshieldV2Window nat balance
  | WDeshieldWindow nat balance
  | WLockHtlc hash htlc
  | WSettleHtlc hash
  | WOraclePrice nat
  | WVault account_id vault
  | WMultisig account_id multisig
  | WProposal hash multisig_proposal
  | WRemoveProposal hash
  | WRemoveProposalsFor account_id
  | WNftClass hash nft_class
  | WNft hash bytes nft_token
  | WToken hash token_info
  | WTokenBalance hash account_id balance
  | WTokenPolicy hash compliance_policy
  | WTokenWindow hash account_id spend_window
  | WConsumeIntent hash
  | WMined balance

fun apply_write :: "'a codec_scheme \<Rightarrow> store_write \<Rightarrow> ledger \<Rightarrow> ledger" where
  "apply_write C (WAccount i a) l = set_account C i a l"
| "apply_write C (WContract c k v) l = set_contract_value C c k v l"
| "apply_write C (WShieldedBundle b) l =
     (case apply_shielded_bundle C b l of (l', Inr _) \<Rightarrow> l' | _ \<Rightarrow> l)"
| "apply_write C (WShieldedValue v) l = put_shielded_value C v l"
| "apply_write C (WShieldedV2 nfs cms) l = (case apply_shielded_v2 C nfs cms l of Inr l' \<Rightarrow> l' | _ \<Rightarrow> l)"
| "apply_write C (WShieldedV2Value v) l = put_shielded_v2_value C v l"
| "apply_write C (WDeshieldV2Window a b) l = set_deshield_v2_window C a b l"
| "apply_write C (WDeshieldWindow a b) l = set_deshield_window C a b l"
| "apply_write C (WLockHtlc i h) l = (case lock_htlc C i h l of Some l' \<Rightarrow> l' | None \<Rightarrow> l)"
| "apply_write C (WSettleHtlc i) l = (case settle_htlc C i l of Some (_, l') \<Rightarrow> l' | None \<Rightarrow> l)"
| "apply_write C (WOraclePrice p) l = set_oracle_price C p l"
| "apply_write C (WVault i v) l = (case set_vault C i v l of Some l' \<Rightarrow> l' | None \<Rightarrow> l)"
| "apply_write C (WMultisig i m) l = set_multisig C i m l"
| "apply_write C (WProposal i p) l = set_proposal C i p l"
| "apply_write C (WRemoveProposal i) l = remove_proposal C i l"
| "apply_write C (WRemoveProposalsFor i) l = snd (remove_proposals_for C i l)"
| "apply_write C (WNftClass i c) l = set_nft_class C i c l"
| "apply_write C (WNft c i t) l = put_nft C c i t l"
| "apply_write C (WToken i t) l = set_token C i t l"
| "apply_write C (WTokenBalance a h b) l = set_token_balance C a h b l"
| "apply_write C (WTokenPolicy a p) l = set_token_policy C a p l"
| "apply_write C (WTokenWindow a h w) l = set_token_window C a h w l"
| "apply_write C (WConsumeIntent i) l = consume_intent C i l"
| "apply_write C (WMined v) l = (case add_mined_emitted C v l of Some l' \<Rightarrow> l' | None \<Rightarrow> l)"

definition write_log :: "'a codec_scheme \<Rightarrow> store_write \<Rightarrow> ledger \<Rightarrow> undo_op list" where
  "write_log C w l = (case undo (apply_write C w (l\<lparr>undo := Some []\<rparr>)) of Some j \<Rightarrow> j | None \<Rightarrow> [])"

definition strip :: "ledger \<Rightarrow> ledger" where
  "strip l = l\<lparr>undo := None, commitment := \<lparr>smt_nodes = Map.empty, smt_values = Map.empty,
     smt_defaults = [], smt_root = []\<rparr>\<rparr>"

text \<open>No store keeps a default value: writing one removes the entry.\<close>

definition ledger_clean :: "ledger \<Rightarrow> bool" where
  "ledger_clean l \<longleftrightarrow>
     (\<forall>i. bt_get (accounts l) i \<noteq> Some account_default)
     \<and> (\<forall>k. bt_get (contract_storage l) k \<noteq> Some [])
     \<and> (\<forall>k. bt_get (token_balances l) k \<noteq> Some 0)
     \<and> (\<forall>k. bt_get (token_windows l) k \<noteq> Some spend_window_default)"

lemma strip_eqE:
  assumes "strip s = strip s'"
  obtains u c where "s' = s\<lparr>undo := u, commitment := c\<rparr>"
proof -
  have "s' = s\<lparr>undo := undo s', commitment := commitment s'\<rparr>"
    using assms by (cases s, cases s') (simp add: strip_def)
  then show ?thesis by (rule that)
qed

lemma strip_simps [simp]:
  "strip (commit C sl ov l) = strip l" "strip (record_op op l) = strip l"
  "strip (l\<lparr>undo := u\<rparr>) = strip l"
  by (simp_all add: strip_def commit_def record_op_def)

lemma undo_one_view:
  assumes "strip s = strip s'"
  shows "strip (undo_one C e s) = strip (undo_one C e s')"
proof -
  obtain u c where "s' = s\<lparr>undo := u, commitment := c\<rparr>" using assms by (rule strip_eqE)
  then show ?thesis
    by (cases e) (simp_all add: strip_def commit_defs Let_def)
qed

lemma bt_put_same [simp]: "bt_put k (bt_get m k) m = m"
  by (rule bt.ext) simp

lemma bt_put_twice [simp]: "bt_put k v (bt_put k w m) = bt_put k v m"
  by (rule bt.ext) simp

lemma bt_put_insert [simp]: "bt_put k v (bt_insert k w m) = bt_put k v m"
  by (rule bt.ext) simp

lemma bt_put_remove [simp]: "bt_put k v (bt_remove k m) = bt_put k v m"
  by (rule bt.ext) simp

lemma bs_remove_insert: "bt_get m k = None \<Longrightarrow> bt_remove k (bs_insert k m) = m"
  by (rule bt.ext) (auto simp: bs_insert_def)

lemma bs_insert_same: "bt_get m k = Some () \<Longrightarrow> bs_insert k m = m"
  by (rule bt.ext) (auto simp: bs_insert_def)

lemma keep_nondefault:
  assumes "\<And>k. bt_get m k \<noteq> Some d"
  shows "(case bt_get m k of Some a \<Rightarrow> if a = d then None else Some a | None \<Rightarrow> None) = bt_get m k"
  using assms [of k] by (auto split: option.splits)

lemma put_some: "bt_get m k = Some v \<Longrightarrow> bt_put k (Some v) m = m"
  using bt_put_same [of k m] by simp

lemma put_none: "bt_get m k = None \<Longrightarrow> bt_put k None m = m"
  using bt_put_same [of k m] by simp

lemma ledger_cleanD:
  assumes "ledger_clean l"
  shows "bt_get (accounts l) i \<noteq> Some account_default"
    and "bt_get (contract_storage l) k \<noteq> Some []"
    and "bt_get (token_balances l) tk \<noteq> Some 0"
    and "bt_get (token_windows l) tk \<noteq> Some spend_window_default"
  using assms by (auto simp only: ledger_clean_def)

lemma keep_account:
  assumes "ledger_clean l"
  shows "(case bt_get (accounts l) i of None \<Rightarrow> None | Some a \<Rightarrow> if account_is_empty a then None else Some a)
           = bt_get (accounts l) i"
  using ledger_cleanD(1) [OF assms, of i] by (auto simp: account_is_empty_def split: option.splits)

lemmas ledger_keep [simp] = keep_account keep_nondefault [OF ledger_cleanD(2)]
  keep_nondefault [OF ledger_cleanD(3)] keep_nondefault [OF ledger_cleanD(4)]


lemmas log_defs = write_log_def strip_def write_defs commit_defs Let_def account_is_empty_def
  contract_value_def

lemmas fallible_defs = apply_shielded_bundle_def apply_shielded_v2_def lock_htlc_def settle_htlc_def
  set_vault_def add_mined_emitted_def bt_contains_def

abbreviation reverts :: "'a codec_scheme \<Rightarrow> store_write \<Rightarrow> ledger \<Rightarrow> bool" where
  "reverts C w l \<equiv> strip (fold (undo_one C) (rev (write_log C w l)) (apply_write C w l)) = strip l"

lemma reverts_plain:
  assumes "ledger_clean l"
  shows "reverts C (WAccount i a) l" "reverts C (WContract i k bs) l" "reverts C (WShieldedValue b) l"
    "reverts C (WShieldedV2Value b) l" "reverts C (WDeshieldV2Window n b) l"
    "reverts C (WDeshieldWindow n b) l" "reverts C (WOraclePrice n) l" "reverts C (WMultisig i m) l"
    "reverts C (WProposal h p) l" "reverts C (WRemoveProposal h) l" "reverts C (WNftClass h c) l"
    "reverts C (WNft h k t) l" "reverts C (WToken h ti) l" "reverts C (WTokenBalance h i b) l"
    "reverts C (WTokenWindow h i sw) l"
  by (simp_all add: log_defs assms)

lemma reverts_fallible:
  shows "reverts C (WShieldedBundle b) l" "reverts C (WShieldedV2 nfs cms) l" "reverts C (WLockHtlc h x) l"
    "reverts C (WSettleHtlc h) l" "reverts C (WVault i v) l" "reverts C (WMined n) l"
  by (simp_all add: log_defs fallible_defs put_some put_none
        split: option.splits sum.splits prod.splits
        del: checked_add_Some checked_add_None checked_sub_Some)

lemma reverts_intent: "reverts C (WConsumeIntent h) l"
  by (cases "bt_get (consumed_intents l) h")
    (simp_all add: log_defs intent_consumed_def bt_contains_def bs_remove_insert bs_insert_same)

subsection \<open>The two writes that touch many entries\<close>

primrec drop_log :: "hash list \<Rightarrow> (hash, multisig_proposal) btree_map \<Rightarrow> undo_op list" where
  "drop_log [] m = []"
| "drop_log (i # ids) m = UProposal i (bt_get m i) # drop_log ids (bt_remove i m)"

lemma drop_proposals:
  "fold drop_proposal ids l =
     l\<lparr>undo := map_option (\<lambda>j. j @ drop_log ids (proposals l)) (undo l),
       proposals := fold bt_remove ids (proposals l)\<rparr>"
proof (induction ids arbitrary: l)
  case Nil
  show ?case by (cases l) (simp add: option.map_ident)
next
  case (Cons i ids)
  have "drop_proposal i l = l\<lparr>undo := map_option (\<lambda>j. j @ [UProposal i (bt_get (proposals l) i)]) (undo l),
      proposals := bt_remove i (proposals l)\<rparr>"
    by (simp add: drop_proposal_def record_op_def)
  then show ?case by (simp add: Cons.IH option.map_comp comp_def)
qed

lemma revert_drops:
  "strip (fold (undo_one C) (rev (drop_log ids (proposals l))) (l\<lparr>proposals := fold bt_remove ids (proposals l)\<rparr>))
     = strip l"
proof (induction ids arbitrary: l)
  case (Cons i ids)
  let ?l1 = "l\<lparr>proposals := bt_remove i (proposals l)\<rparr>"
  have "strip (undo_one C (UProposal i (bt_get (proposals l) i))
          (fold (undo_one C) (rev (drop_log ids (proposals ?l1))) (?l1\<lparr>proposals := fold bt_remove ids (proposals ?l1)\<rparr>)))
      = strip (undo_one C (UProposal i (bt_get (proposals l) i)) ?l1)"
    by (rule undo_one_view, rule Cons.IH)
  also have "\<dots> = strip l" by (simp add: log_defs)
  finally show ?case by simp
qed simp

lemma undo_fold_view:
  "strip s = strip s' \<Longrightarrow> strip (fold (undo_one C) es s) = strip (fold (undo_one C) es s')"
proof (induction es arbitrary: s s')
  case (Cons e es)
  show ?case using Cons.IH [OF undo_one_view [OF Cons.prems]] by simp
qed simp

lemma reverts_proposals: "reverts C (WRemoveProposalsFor i) l"
proof -
  let ?ids = "map fst (proposals_for l i)"
  have "strip (fold (undo_one C) (rev (drop_log ?ids (proposals l))) (snd (remove_proposals_for C i l))) = strip l"
    if "?ids \<noteq> []"
  proof -
    have "strip (snd (remove_proposals_for C i l)) = strip (l\<lparr>proposals := fold bt_remove ?ids (proposals l)\<rparr>)"
      using that by (simp add: remove_proposals_for_def Let_def drop_proposals strip_def commit_defs)
    then show ?thesis using revert_drops by (metis undo_fold_view)
  qed
  then show ?thesis
    by (simp add: write_log_def remove_proposals_for_def Let_def drop_proposals commit_defs proposals_for_def)
qed

lemma bt_get_fold_remove: "bt_get (fold bt_remove ks m) k = (if k \<in> set ks then None else bt_get m k)"
  by (induction ks arbitrary: m) auto

lemma bt_get_fold_put:
  assumes "\<forall>(k, w) \<in> set xs. bt_get m k = Some w"
    and "\<forall>k. bt_get m' k = (if k \<in> X then None else bt_get m k)"
  shows "bt_get (fold (\<lambda>(k, w). bt_put k (Some w)) xs m') k
    = (if k \<in> X - fst ` set xs then None else bt_get m k)"
  using assms
proof (induction xs arbitrary: m' X)
  case (Cons x xs)
  obtain k1 w where x: "x = (k1, w)" by (cases x)
  have "\<forall>k. bt_get (bt_put k1 (Some w) m') k = (if k \<in> X - {k1} then None else bt_get m k)"
    using Cons.prems by (auto simp: x)
  from Cons.IH [OF _ this] Cons.prems(1) show ?case by (auto simp: x)
qed simp

lemma restore_removed:
  assumes "\<forall>(k, w) \<in> set xs. bt_get m k = Some w"
  shows "fold (\<lambda>(k, w). bt_put k (Some w)) (rev xs) (fold bt_remove (map fst xs) m) = m"
  by (rule bt.ext, subst bt_get_fold_put [where m = m and X = "fst ` set xs"])
    (use assms in \<open>auto simp: bt_get_fold_remove\<close>)

lemma clear_windows:
  "\<exists>c. fold (clear_window C) ks l = l\<lparr>token_windows := fold bt_remove ks (token_windows l), commitment := c\<rparr>"
proof (induction ks arbitrary: l)
  case Nil
  show ?case by (rule exI [of _ "commitment l"]) simp
next
  case (Cons k ks)
  from Cons.IH [of "clear_window C k l"] show ?case by (auto simp: clear_window_def commit_def)
qed

lemma record_windows:
  "fold (\<lambda>((a, h), w). record_op (UTokenWindow a h (Some w))) xs l
     = l\<lparr>undo := map_option (\<lambda>j. j @ map (\<lambda>((a, h), w). UTokenWindow a h (Some w)) xs) (undo l)\<rparr>"
proof (induction xs arbitrary: l)
  case (Cons x xs)
  then show ?case by (simp add: record_op_def option.map_comp comp_def split: prod.splits)
qed (simp add: option.map_ident)

lemma undo_windows:
  assumes "\<forall>(k, w) \<in> set xs. w \<noteq> spend_window_default"
  shows "strip (fold (undo_one C) (map (\<lambda>((a, h), w). UTokenWindow a h (Some w)) xs) l)
    = strip (l\<lparr>token_windows := fold (\<lambda>(k, w). bt_put k (Some w)) xs (token_windows l)\<rparr>)"
  using assms
proof (induction xs arbitrary: l)
  case (Cons x xs)
  obtain a h w where x: "x = ((a, h), w)" by (metis prod.exhaust)
  let ?l = "l\<lparr>token_windows := bt_put (a, h) (Some w) (token_windows l)\<rparr>"
  have "strip (undo_one C (UTokenWindow a h (Some w)) l) = strip ?l"
    using Cons.prems by (simp add: x)
  then have "strip (fold (undo_one C) (map (\<lambda>((a, h), w). UTokenWindow a h (Some w)) xs) (undo_one C (UTokenWindow a h (Some w)) l))
    = strip (fold (undo_one C) (map (\<lambda>((a, h), w). UTokenWindow a h (Some w)) xs) ?l)"
    by (rule undo_fold_view)
  with Cons.IH [of ?l] Cons.prems show ?case by (simp add: x)
qed simp

lemma set_token_policy_shape:
  fixes C :: "'a codec_scheme" and l :: ledger and asset :: hash
  defines "cl \<equiv> filter (\<lambda>((a, _), _). a = asset) (bt_entries (token_windows l))"
  shows "\<exists>c. set_token_policy C asset p l = l\<lparr>
      undo := map_option (\<lambda>j. j @ UTokenPolicy asset (bt_get (token_policies l) asset)
                               # map (\<lambda>((a, h), w). UTokenWindow a h (Some w)) cl) (undo l),
      token_policies := bt_insert asset p (token_policies l),
      token_windows := fold bt_remove (map fst cl) (token_windows l),
      commitment := c\<rparr>"
proof -
  let ?l = "commit C (token_policy_slot C asset) (Some (borsh_policy C p))
    (l\<lparr>undo := map_option (\<lambda>j. j @ UTokenPolicy asset (bt_get (token_policies l) asset)
                               # map (\<lambda>((a, h), w). UTokenWindow a h (Some w)) cl) (undo l),
       token_policies := bt_insert asset p (token_policies l)\<rparr>)"
  have "set_token_policy C asset p l = fold (clear_window C) (map fst cl) ?l"
    by (simp add: set_token_policy_def Let_def cl_def record_windows record_op_def option.map_comp comp_def)
  then show ?thesis using clear_windows [of C "map fst cl" ?l] by (auto simp: commit_def)
qed

lemma reverts_policy:
  assumes "ledger_clean l"
  shows "reverts C (WTokenPolicy asset p) l"
proof -
  define cl where "cl = filter (\<lambda>((a, _), _). a = asset) (bt_entries (token_windows l))"
  let ?ws = "map (\<lambda>((a, h), w). UTokenWindow a h (Some w)) cl"
  let ?mid = "l\<lparr>token_policies := bt_insert asset p (token_policies l)\<rparr>"
  have got: "\<forall>(k, w) \<in> set cl. bt_get (token_windows l) k = Some w"
    by (auto simp: cl_def bt_entries_iff)
  then have nd: "\<forall>(k, w) \<in> set (rev cl). w \<noteq> spend_window_default"
    using ledger_cleanD(4) [OF assms] by auto
  have log: "write_log C (WTokenPolicy asset p) l = UTokenPolicy asset (bt_get (token_policies l) asset) # ?ws"
    using set_token_policy_shape [of C asset p "l\<lparr>undo := Some []\<rparr>"]
    by (auto simp: write_log_def cl_def)
  have post: "strip (set_token_policy C asset p l)
      = strip (?mid\<lparr>token_windows := fold bt_remove (map fst cl) (token_windows l)\<rparr>)"
    using set_token_policy_shape [of C asset p l] by (auto simp: cl_def strip_def)
  have "strip (fold (undo_one C) (rev ?ws) (set_token_policy C asset p l)) = strip ?mid"
    using undo_fold_view [OF post, of C "rev ?ws"] undo_windows [OF nd, of C] restore_removed [OF got]
    by (simp add: rev_map strip_def)
  from undo_one_view [OF this, of C "UTokenPolicy asset (bt_get (token_policies l) asset)"]
  show ?thesis by (simp add: log strip_def commit_def)
qed

lemma reverts_all: "ledger_clean l \<Longrightarrow> reverts C w l"
  by (cases w)
    (simp_all only: reverts_plain reverts_fallible reverts_intent reverts_proposals reverts_policy)

subsection \<open>Writes keep the stores free of defaults\<close>

lemma ledger_clean_write:
  assumes "ledger_clean l"
  shows "ledger_clean (apply_write C w l)"
proof -
  have pol: "ledger_clean (set_token_policy C a p l)" for a p
    using set_token_policy_shape [of C a p l] assms
    by (auto simp: ledger_clean_def bt_get_fold_remove split: if_splits)
  have rp: "ledger_clean (snd (remove_proposals_for C i l))" for i
    using assms by (simp add: ledger_clean_def remove_proposals_for_def Let_def drop_proposals commit_defs)
  show ?thesis
  proof (cases w)
    case (WTokenPolicy a p) then show ?thesis using pol by simp
  next
    case (WRemoveProposalsFor i) then show ?thesis using rp by simp
  qed (use assms in \<open>auto simp: ledger_clean_def write_defs commit_defs Let_def account_is_empty_def
        fallible_defs split: option.splits sum.splits prod.splits
        simp del: checked_add_Some checked_add_None checked_sub_Some\<close>)
qed

interpretation lj: journalled_store "apply_write C" "write_log C" "undo_one C" strip ledger_clean
  by unfold_locales (auto intro: ledger_clean_write undo_one_view reverts_all)

subsection \<open>The journal a run leaves behind\<close>

abbreviation journals :: "'a codec_scheme \<Rightarrow> store_write \<Rightarrow> ledger \<Rightarrow> bool" where
  "journals C w l \<equiv> undo (apply_write C w l) = map_option (\<lambda>j. j @ write_log C w l) (undo l)"

lemma journals_plain:
  shows "journals C (WAccount i a) l" "journals C (WContract i k bs) l" "journals C (WShieldedValue b) l"
    "journals C (WShieldedV2Value b) l" "journals C (WDeshieldV2Window n b) l"
    "journals C (WDeshieldWindow n b) l" "journals C (WOraclePrice n) l" "journals C (WMultisig i m) l"
    "journals C (WProposal h p) l" "journals C (WRemoveProposal h) l" "journals C (WNftClass h c) l"
    "journals C (WNft h k t) l" "journals C (WToken h ti) l" "journals C (WTokenBalance h i b) l"
    "journals C (WTokenWindow h i sw) l"
  by (simp_all add: log_defs)

lemma journals_fallible:
  shows "journals C (WShieldedBundle b) l" "journals C (WShieldedV2 nfs cms) l" "journals C (WLockHtlc h x) l"
    "journals C (WSettleHtlc h) l" "journals C (WVault i v) l" "journals C (WMined n) l"
  by (simp_all add: log_defs fallible_defs option.map_comp comp_def option.map_ident
        split: option.splits sum.splits prod.splits
        del: checked_add_Some checked_add_None checked_sub_Some)

lemma journals_intent: "journals C (WConsumeIntent h) l"
  by (simp add: log_defs intent_consumed_def option.map_ident)

lemma journals_proposals: "journals C (WRemoveProposalsFor i) l"
  by (simp add: write_log_def remove_proposals_for_def Let_def drop_proposals commit_defs proposals_for_def
        option.map_ident)

lemma journals_policy: "journals C (WTokenPolicy a p) l"
  using set_token_policy_shape [of C a p l] set_token_policy_shape [of C a p "l\<lparr>undo := Some []\<rparr>"]
  by (auto simp: write_log_def)

lemma undo_write: "journals C w l"
  by (cases w)
    (simp_all only: journals_plain journals_fallible journals_intent journals_proposals journals_policy)

lemma undo_run:
  "undo (fold (apply_write C) ws l)
     = map_option (\<lambda>j. j @ run_log (apply_write C) (write_log C) ws l) (undo l)"
  by (induction ws arbitrary: l) (simp_all add: undo_write option.map_comp comp_def option.map_ident)

lemma undo_block:
  assumes "ledger_clean l" and "l' = fold (apply_write C) ws (begin_undo l)"
  shows "strip (apply_undo C (fst (take_undo l')) (snd (take_undo l'))) = strip l"
proof -
  let ?l = "begin_undo l"
  have clean: "ledger_clean ?l" using assms(1) by (simp add: begin_undo_def ledger_clean_def)
  have u: "undo ?l = Some []" by (simp add: begin_undo_def)
  have j: "fst (take_undo l') = run_log (apply_write C) (write_log C) ws ?l"
    unfolding assms(2) take_undo_def fst_conv undo_run u by simp
  have "strip (apply_undo C (fst (take_undo l')) (snd (take_undo l')))
      = strip (fold (undo_one C) (rev (fst (take_undo l'))) l')"
    unfolding apply_undo_def take_undo_def fst_conv snd_conv strip_simps
    by (rule undo_fold_view) simp
  also have "\<dots> = strip ?l" using lj.revert_run [OF clean, of C ws] unfolding j by (simp only: assms(2))
  finally show ?thesis by (simp add: begin_undo_def)
qed

end
