(* ===== verification/Sample.thy ===== *)
theory Sample
  imports Runtime
begin

text \<open>
  A small environment, ledger and block context at which the theorems about the state transition
  are instantiated.  Hashing is the identity and every signature verifies, so the executions
  below depend on the runtime's own checks only.
\<close>

definition sample_env :: exec_env where
  "sample_env = \<lparr>blake3 = (\<lambda>bs. bs), ed25519_verify_strict = \<lambda>_ _ _. True, ml_dsa_65_verify = \<lambda>_ _ _. True,
     hex_encode = \<lambda>_. [], borsh_public_key = \<lambda>_. [], orchard_root = concat,
     orchard_rk_verify = \<lambda>_ _. True, orchard_binding_verify = \<lambda>_ _. True, orchard_verify_proof = \<lambda>_. True,
     orchard_bundle_commitment = \<lambda>_. [], rescue_merge = \<lambda>d l r. l @ r,
     borsh_balance = \<lambda>_. [], borsh_account = \<lambda>_. [], borsh_token_info = \<lambda>_. [], borsh_policy = \<lambda>_. [],
     borsh_spend_window = \<lambda>_. [], borsh_window_pair = \<lambda>_. [], borsh_htlcs = \<lambda>_. [], borsh_nft_classes = \<lambda>_. [],
     borsh_nfts = \<lambda>_. [], borsh_multisigs = \<lambda>_. [], borsh_proposals = \<lambda>_. [], borsh_vaults = \<lambda>_. [],
     borsh_u128 = \<lambda>_. [], sha256 = (\<lambda>bs. bs), borsh_action = \<lambda>_. [], decode_action = \<lambda>_. None,
     zk_suite2 = False, blake3_derive_key = \<lambda>_ bs. bs, verify_auth = \<lambda>_ _ _. True,
     decode_bundle = \<lambda>_ _. Inl (WireOther []), verify_spend = \<lambda>_ _. None, verify_spend_suite2 = \<lambda>_ _ _. None,
     decode_shielded = \<lambda>_. None, vm_execute = \<lambda>_ _ _ _ _. Inl VmOutOfGas\<rparr>"

definition sample_mining :: mining_policy where
  "sample_mining = mainnet_like\<lparr>mining_budget_grains := 2000000000000000\<rparr>"

definition sample_ctx :: block_context where
  "sample_ctx = \<lparr>bc_height = 10, bc_prev_hash = [], bc_block_time_ms = 10000000, bc_mining = sample_mining,
     bc_gas_price = 1, bc_miner = ''miner'', bc_pq = None, bc_tx_domain = Legacy, fee_auction_active = True,
     shielded_v2_active = True, shielded_v2_suite2_active = False, tx_timestamp_active = True,
     bc_chain_domain = \<lparr>chain_id = ''sov'', genesis = []\<rparr>\<rparr>"

definition sample_key :: public_key where
  "sample_key = PkV1Ed25519 [7]"

definition sample_account :: "nat \<Rightarrow> account" where
  "sample_account b = \<lparr>nonce = 0, balance = b, locked = 0, unlock_height = 0, acct_key = Some sample_key, code = None\<rparr>"

text \<open>Three accounts; \<open>vault\<close> is controlled by a one-of-one multisig policy.\<close>

definition sample_ledger :: ledger where
  "sample_ledger = (ledger_new sample_env)\<lparr>
     accounts := bt_insert ''vault'' (sample_account 5000)
                   (bt_insert ''bob'' (sample_account 200000) (bt_insert ''alice'' (sample_account 900000) bt_empty)),
     multisigs := bt_insert ''vault'' \<lparr>ms_signers = [sample_key], ms_threshold = 1\<rparr> bt_empty\<rparr>"

definition sample_tx :: "account_id \<Rightarrow> nat \<Rightarrow> action \<Rightarrow> signed_transaction" where
  "sample_tx i n a = \<lparr>stx_transaction = \<lparr>tx_signer = i, tx_public_key = sample_key, tx_nonce = n, tx_action = a\<rparr>,
     stx_signature = SigV1Ed25519 []\<rparr>"

lemma and_then_simps: "and_then (Inr a) f = f a" "and_then (Inl e) f = Inl e"
  by (simp_all add: and_then_def)

lemma not_implicit: "length i \<noteq> 64 \<Longrightarrow> \<not> is_implicit i"
  by (simp add: is_implicit_def)

lemmas sample_defs = sample_env_def sample_ctx_def sample_key_def sample_account_def sample_ledger_def
  sample_tx_def ledger_new_def

lemmas admission_defs = admit_def Let_def and_then_simps ensure_def ok_or_def verify_signature_mode_def verifies_def
  verify_signature_in_def pk_verify_def authorize_def not_implicit pq_gate_def
  check_shielded_retirement_def find_inactive_feature.simps unwrap_timestamp_def has_nested_timestamp_def
  check_data_cap_def data_len_def intrinsic_fee_def tx_gas_def envelope_gas_def fund_fee_def
  verify_direct_suite2_withdrawal_for_fee_def checked_add_def checked_sub_def checked_mul_def reserve_fee_def
  resolve_action_def wraps_authority_def pq_requires_hybrid_authority_def

lemmas gas_constants = INTRINSIC_GAS_def BOOKKEEPING_GAS_def

lemma sample_ctx_fields [simp]:
  "bc_height sample_ctx = 10" "bc_miner sample_ctx = ''miner''" "bc_gas_price sample_ctx = 1"
  "bc_pq sample_ctx = None" "bc_mining sample_ctx = sample_mining"
  by (simp_all add: sample_ctx_def)

lemma sample_tx_fields [simp]:
  "tx_signer (stx_transaction (sample_tx i n a)) = i" "tx_action (stx_transaction (sample_tx i n a)) = a"
  "tx_nonce (stx_transaction (sample_tx i n a)) = n" "tx_public_key (stx_transaction (sample_tx i n a)) = sample_key"
  by (simp_all add: sample_tx_def)

lemma sample_account_fields [simp]:
  "balance (sample_account b) = b" "locked (sample_account b) = 0" "nonce (sample_account b) = 0"
  "acct_key (sample_account b) = Some sample_key" "code (sample_account b) = None"
  by (simp_all add: sample_account_def)

lemma sample_ledger_reads [simp]:
  "account_of sample_ledger i = (if i = ''alice'' then sample_account 900000 else if i = ''bob'' then sample_account 200000
     else if i = ''vault'' then sample_account 5000 else account_default)"
  "bt_get (multisigs sample_ledger) i
     = (if i = ''vault'' then Some \<lparr>ms_signers = [sample_key], ms_threshold = 1\<rparr> else None)"
  "nfts sample_ledger = bt_empty" "htlcs sample_ledger = bt_empty" "tokens sample_ledger = bt_empty"
  "vaults sample_ledger = bt_empty" "proposals sample_ledger = bt_empty" "mined_emitted sample_ledger = 0"
  "token_balances sample_ledger = bt_empty" "token_policies sample_ledger = bt_empty"
  by (auto simp: account_of_def sample_ledger_def ledger_new_def)

lemma sample_recipient [simp]: "length i < 64 \<Longrightarrow> nfts l = bt_empty \<Longrightarrow> resolve_recipient C l i = i"
  by (simp add: resolve_recipient_def not_implicit resolve_name_def)

lemma default_account_fields [simp]:
  "balance account_default = 0" "locked account_default = 0" "nonce account_default = 0"
  "acct_key account_default = None" "code account_default = None"
  by (simp_all add: account_default_def)

lemma sample_admitted:
  assumes "account_of l ''alice'' = sample_account 900000" "bt_get (multisigs l) ''alice'' = None"
    and "bare a" "carried a = None" "data_len a = None" "gas_for a \<le> 900000"
  shows "admit sample_env sample_ctx l (sample_tx ''alice'' 0 a)
     = Inr \<lparr>ad_signer = (sample_account (900000 - gas_for a))\<lparr>nonce := 1\<rparr>, ad_fee = gas_for a, ad_tip = 0,
            ad_gas = gas_for a, ad_timing = None, ad_action = a, ad_ms_error = None, ad_hybrid = False,
            ad_effects = None\<rparr>"
proof -
  have "gas_for a * Suc 0 < 2 ^ 128" using assms(6) by simp
  then show ?thesis
    using assms
    by (simp add: admit_def Let_def and_then_simps ensure_def ok_or_def verify_signature_mode_def verifies_def
        verify_signature_in_def pk_verify_def authorize_def pq_gate_def check_shielded_retirement_def
        bare_quiet_gates check_data_cap_def intrinsic_fee_def tx_gas_def envelope_gas_def fund_fee_def
        checked_add_def checked_sub_def checked_mul_def reserve_fee_def pq_requires_hybrid_authority_def sample_defs)
qed

lemma sample_proposal_admitted:
  "admit sample_env sample_ctx sample_ledger (sample_tx ''alice'' 0 (ProposeMultisig ''vault'' (Transfer ''alice'' 100)))
     = Inr \<lparr>ad_signer = (sample_account 849000)\<lparr>nonce := 1\<rparr>, ad_fee = 51000, ad_tip = 0, ad_gas = 51000,
            ad_timing = None, ad_action = ProposeMultisig ''vault'' (Transfer ''alice'' 100), ad_ms_error = None,
            ad_hybrid = False, ad_effects = None\<rparr>"
  by (simp add: sample_defs admission_defs account_of_def gas_constants)

end
