(* ===== verification/Supply.thy ===== *)
theory Supply
  imports ArmContract Journal Sample
begin

text \<open>
  Conservation of the native currency.  \<open>native_supply\<close> is the sum that \<open>Ledger::total_supply\<close>
  computes with overflow checks, and \<open>books\<close> says that the two escrow counters agree with
  the escrows they count.  While an arm runs, the signer's account is a copy outside the
  ledger and the fee is in neither; \<open>worth\<close> counts both in the right place.

  The contract every arm of the dispatch owes is the locale \<open>dispatch_contract\<close>, over an
  arbitrary relation between the state before and after; it is interpreted here for the supply.
\<close>

declare checked_add_Some [simp del] checked_add_None [simp del] bal_simps [simp]

section \<open>What the ledger owns\<close>

definition acct_value :: "account \<Rightarrow> nat" where
  "acct_value a = balance a + locked a"

definition native_supply :: "ledger \<Rightarrow> nat" where
  "native_supply l = bt_sum (\<lambda>_. acct_value) (accounts l) + shielded_value l + shielded_v2_value l
     + htlc_locked l + vault_collateral l"

definition books :: "ledger \<Rightarrow> bool" where
  "books l \<longleftrightarrow> htlc_locked l = bt_sum (\<lambda>_. htlc_amount) (htlcs l)
     \<and> vault_collateral l = bt_sum (\<lambda>_. collateral) (vaults l)"

lemma account_total_eq: "account_total a = (if acct_value a < 2 ^ 128 then Some (acct_value a) else None)"
  by (simp add: account_total_def acct_value_def checked_add_def)

lemma sum_totals_eq:
  "s < 2 ^ 128 \<Longrightarrow> sum_totals s as = (if s + sum_list (map acct_value as) < 2 ^ 128
     then Some (s + sum_list (map acct_value as)) else None)"
proof (induction as arbitrary: s)
  case (Cons a as)
  show ?case
    using Cons.IH [of "s + acct_value a"]
    by (auto simp: account_total_eq checked_add_def add.assoc)
qed simp

lemma total_supply_eq:
  "total_supply l = (if native_supply l < 2 ^ 128 then Some (native_supply l) else None)"
proof -
  have "sum_list (map acct_value (bt_values (accounts l))) = bt_sum (\<lambda>_. acct_value) (accounts l)"
    by (simp add: bt_values_def entry_sum_def comp_def case_prod_unfold)
  then show ?thesis
    using sum_totals_eq [of 0 "bt_values (accounts l)"]
    by (auto simp: total_supply_def native_supply_def checked_add_def)
qed

section \<open>Writes\<close>

text \<open>The part of the ledger that holds native value.\<close>

definition money where
  "money l = (accounts l, shielded_value l, shielded_v2_value l, htlcs l, htlc_locked l, vaults l,
     vault_collateral l, mined_emitted l)"

lemma money_fields:
  "money l' = money l \<Longrightarrow> accounts l' = accounts l \<and> shielded_value l' = shielded_value l
     \<and> shielded_v2_value l' = shielded_v2_value l \<and> htlcs l' = htlcs l \<and> htlc_locked l' = htlc_locked l
     \<and> vaults l' = vaults l \<and> vault_collateral l' = vault_collateral l \<and> mined_emitted l' = mined_emitted l"
  by (simp add: money_def)

lemma money_commit:
  "money (commit C sl ov l) = money l" "money (record_op e l) = money l"
  "money (commit_counter C nm v l) = money l" "money (recommit_htlcs C l) = money l"
  "money (recommit_vaults C l) = money l"
  by (simp_all add: money_def commit_defs Let_def)

lemmas commit_fields [simp] = money_commit [THEN money_fields]

lemma quiet_writes:
  "money (set_contract_value C c k bs l) = money l"
  "money (fst (apply_shielded_bundle C b l)) = money l"
  "money (set_deshield_v2_window C n v l) = money l"
  "money (set_deshield_window C n v l) = money l"
  "money (set_oracle_price C n l) = money l"
  "money (set_multisig C i m l) = money l"
  "money (set_proposal C h p l) = money l"
  "money (remove_proposal C h l) = money l"
  "money (set_nft_class C h c' l) = money l"
  "money (put_nft C h bs t l) = money l"
  "money (set_token C h ti l) = money l"
  "money (set_token_balance C h i v l) = money l"
  "money (set_token_window C h i w l) = money l"
  "money (consume_intent C h l) = money l"
  by (simp_all add: money_def write_defs commit_defs Let_def apply_shielded_bundle_def
        split: prod.splits sum.splits)

lemma quiet_policy: "money (set_token_policy C a p l) = money l"
  using set_token_policy_shape [of C a p l] by (auto simp: money_def)

lemma quiet_proposals: "money (snd (remove_proposals_for C i l)) = money l"
  by (simp add: money_def remove_proposals_for_def Let_def drop_proposals commit_defs)

lemma quiet_v2: "apply_shielded_v2 C nfs cms l = Inr l' \<Longrightarrow> money l' = money l"
  by (auto simp: money_def apply_shielded_v2_def commit_defs Let_def split: sum.splits)

lemma quiet_fold: "(\<And>y l. y \<in> set ys \<Longrightarrow> money (f y l) = money l) \<Longrightarrow> money (fold f ys l) = money l"
  by (induction ys arbitrary: l) simp_all

lemma quiet_window: "money (put_window C a i w l) = money l"
  by (simp add: put_window_def quiet_writes split: option.split)

lemmas quiet [simp] = quiet_writes quiet_policy quiet_proposals quiet_window

lemma supply_quiet: "money l' = money l \<Longrightarrow> native_supply l' = native_supply l"
  by (drule money_fields) (simp add: native_supply_def)

lemma books_quiet: "money l' = money l \<Longrightarrow> books l' = books l"
  by (drule money_fields) (simp add: books_def)

lemma account_quiet: "money l' = money l \<Longrightarrow> account_of l' i = account_of l i"
  by (drule money_fields) (simp add: account_of_def)

lemmas quiet_fields [simp] = quiet [THEN money_fields] quiet [THEN supply_quiet] quiet [THEN books_quiet]
  quiet [THEN account_quiet]

lemma set_account_fields [simp]:
  "shielded_value (set_account C i a l) = shielded_value l"
  "shielded_v2_value (set_account C i a l) = shielded_v2_value l"
  "htlcs (set_account C i a l) = htlcs l" "htlc_locked (set_account C i a l) = htlc_locked l"
  "vaults (set_account C i a l) = vaults l" "vault_collateral (set_account C i a l) = vault_collateral l"
  "multisigs (set_account C i a l) = multisigs l" "nfts (set_account C i a l) = nfts l"
  "mined_emitted (set_account C i a l) = mined_emitted l"
  by (simp_all add: set_account_def commit_defs Let_def)

lemma account_of_set_account [simp]:
  "account_of (set_account C i a l) j = (if j = i then a else account_of l j)"
  by (simp add: account_of_def set_account_def commit_defs Let_def account_is_empty_def)

lemma acct_value_default [simp]: "acct_value account_default = 0"
  by (simp add: acct_value_def account_default_def)

lemma acct_weight: "opt_weight (\<lambda>_. acct_value) i (bt_get (accounts l) i) = acct_value (account_of l i)"
  by (simp add: account_of_def split: option.split)

lemma supply_set_account:
  "native_supply (set_account C i a l) + acct_value (account_of l i) = native_supply l + acct_value a"
proof -
  let ?st = "if account_is_empty a then None else Some a"
  have "accounts (set_account C i a l) = bt_put i ?st (accounts l)"
    by (simp add: set_account_def commit_defs Let_def)
  moreover have "opt_weight (\<lambda>_. acct_value) i ?st = acct_value a" by (auto simp: account_is_empty_def)
  ultimately show ?thesis
    using bt_sum_put [of "\<lambda>_. acct_value" i ?st "accounts l"] by (simp add: native_supply_def acct_weight)
qed

lemma books_set_account [simp]: "books (set_account C i a l) = books l"
  by (simp add: books_def)

lemma acct_value_bound: "acct_value (account_of l i) \<le> native_supply l"
proof (cases "bt_get (accounts l) i")
  case (Some a)
  then show ?thesis
    using bt.sum_member [OF Some, of "\<lambda>_. acct_value"] by (simp add: native_supply_def account_of_def)
qed (simp add: account_of_def)

subsection \<open>Counters\<close>

lemma put_shielded_value_fields [simp]:
  "shielded_value (put_shielded_value C v l) = v" "accounts (put_shielded_value C v l) = accounts l"
  "shielded_v2_value (put_shielded_value C v l) = shielded_v2_value l"
  "htlcs (put_shielded_value C v l) = htlcs l" "htlc_locked (put_shielded_value C v l) = htlc_locked l"
  "vaults (put_shielded_value C v l) = vaults l" "vault_collateral (put_shielded_value C v l) = vault_collateral l"
  "mined_emitted (put_shielded_value C v l) = mined_emitted l"
  by (simp_all add: write_defs commit_defs Let_def)

lemma put_shielded_v2_value_fields [simp]:
  "shielded_v2_value (put_shielded_v2_value C v l) = v" "accounts (put_shielded_v2_value C v l) = accounts l"
  "shielded_value (put_shielded_v2_value C v l) = shielded_value l"
  "htlcs (put_shielded_v2_value C v l) = htlcs l" "htlc_locked (put_shielded_v2_value C v l) = htlc_locked l"
  "vaults (put_shielded_v2_value C v l) = vaults l"
  "vault_collateral (put_shielded_v2_value C v l) = vault_collateral l"
  "mined_emitted (put_shielded_v2_value C v l) = mined_emitted l"
  by (simp_all add: write_defs commit_defs Let_def)

lemma lock_htlc_money:
  assumes "lock_htlc C i h l = Some l'"
  shows "native_supply l' = native_supply l + htlc_amount h \<and> (books l \<longrightarrow> books l')
    \<and> account_of l' = account_of l \<and> mined_emitted l' = mined_emitted l"
proof -
  have new: "bt_get (htlcs l) i = None"
    and f: "accounts l' = accounts l \<and> shielded_value l' = shielded_value l
      \<and> shielded_v2_value l' = shielded_v2_value l \<and> htlcs l' = bt_insert i h (htlcs l)
      \<and> htlc_locked l' = htlc_locked l + htlc_amount h
      \<and> vaults l' = vaults l \<and> vault_collateral l' = vault_collateral l \<and> mined_emitted l' = mined_emitted l"
    using assms by (auto simp: lock_htlc_def bt_contains_def Let_def split: if_splits option.splits)
  have "books l'" if "books l"
    using that bt.sum_ins [of "\<lambda>_. htlc_amount" i h "htlcs l"] by (simp add: books_def f new)
  then show ?thesis by (simp add: native_supply_def fun_eq_iff account_of_def f)
qed

lemma settle_htlc_money:
  assumes "settle_htlc C i l = Some (h, l')" "books l"
  shows "native_supply l = native_supply l' + htlc_amount h \<and> books l' \<and> account_of l' = account_of l
    \<and> mined_emitted l' = mined_emitted l"
proof -
  have got: "bt_get (htlcs l) i = Some h"
    using assms(1) by (auto simp: settle_htlc_def Let_def split: option.splits)
  have le: "htlc_amount h \<le> htlc_locked l"
    using bt.sum_member [OF got, of "\<lambda>_. htlc_amount"] assms(2) by (simp add: books_def)
  then have f: "accounts l' = accounts l \<and> shielded_value l' = shielded_value l
      \<and> shielded_v2_value l' = shielded_v2_value l \<and> htlcs l' = bt_remove i (htlcs l)
      \<and> htlc_locked l' = htlc_locked l - htlc_amount h
      \<and> vaults l' = vaults l \<and> vault_collateral l' = vault_collateral l \<and> mined_emitted l' = mined_emitted l"
    using assms(1) by (auto simp: settle_htlc_def Let_def checked_sub_def split: if_splits option.splits)
  have "books l'"
    using assms(2) le bt.sum_del [of "\<lambda>_. htlc_amount" i "htlcs l"] by (simp add: books_def f got)
  then show ?thesis using le by (simp add: native_supply_def fun_eq_iff account_of_def f)
qed

lemma vault_weight: "opt_weight (\<lambda>_. collateral) i (bt_get (vaults l) i) = collateral (vault_of l i)"
  by (simp add: vault_of_def vault_default_def split: option.split)

lemma set_vault_money:
  assumes "set_vault C i v l = Some l'" "books l"
  shows "native_supply l' + collateral (vault_of l i) = native_supply l + collateral v \<and> books l'
    \<and> account_of l' = account_of l \<and> mined_emitted l' = mined_emitted l"
proof -
  let ?st = "if vault_is_empty v then None else Some v"
  have prev: "(case bt_get (vaults l) i of Some p \<Rightarrow> collateral p | None \<Rightarrow> 0) = collateral (vault_of l i)"
    by (simp add: vault_of_def vault_default_def split: option.split)
  have w: "opt_weight (\<lambda>_. collateral) i ?st = collateral v" by (simp add: vault_is_empty_def)
  have le: "collateral (vault_of l i) \<le> vault_collateral l"
    and f: "accounts l' = accounts l \<and> shielded_value l' = shielded_value l
      \<and> shielded_v2_value l' = shielded_v2_value l \<and> htlcs l' = htlcs l \<and> htlc_locked l' = htlc_locked l
      \<and> vaults l' = bt_put i ?st (vaults l)
      \<and> vault_collateral l' = vault_collateral l - collateral (vault_of l i) + collateral v
      \<and> mined_emitted l' = mined_emitted l"
    using assms(1) by (auto simp: set_vault_def Let_def prev bind_eq_Some_conv split: option.splits)
  have "books l'"
    using assms(2) le bt_sum_put [of "\<lambda>_. collateral" i ?st "vaults l"]
    unfolding books_def w vault_weight by (simp add: f)
  then show ?thesis using le by (simp add: native_supply_def fun_eq_iff account_of_def f)
qed

lemma shielded_value_money:
  "add_shielded_value C v l = Some l' \<Longrightarrow>
     native_supply l' = native_supply l + v \<and> books l' = books l \<and> account_of l' = account_of l
       \<and> mined_emitted l' = mined_emitted l"
  "sub_shielded_value C v l = Some l' \<Longrightarrow>
     native_supply l = native_supply l' + v \<and> books l' = books l \<and> account_of l' = account_of l
       \<and> mined_emitted l' = mined_emitted l"
  "add_shielded_v2_value C v l = Some l' \<Longrightarrow>
     native_supply l' = native_supply l + v \<and> books l' = books l \<and> account_of l' = account_of l
       \<and> mined_emitted l' = mined_emitted l"
  "sub_shielded_v2_value C v l = Some l' \<Longrightarrow>
     native_supply l = native_supply l' + v \<and> books l' = books l \<and> account_of l' = account_of l
       \<and> mined_emitted l' = mined_emitted l"
  by (auto simp: add_shielded_value_def sub_shielded_value_def add_shielded_v2_value_def
      sub_shielded_v2_value_def native_supply_def books_def account_of_def fun_eq_iff split: option.splits)

section \<open>Arms\<close>

definition exec_total :: "exec \<Rightarrow> nat" where
  "exec_total x = native_supply (xl x) + acct_value (xs x) + xfee x"

definition conserves :: "exec \<Rightarrow> exec \<Rightarrow> bool" where
  "conserves x x' \<longleftrightarrow> (books (xl x) \<longrightarrow> books (xl x') \<and> exec_total x' = exec_total x
     \<and> mined_emitted (xl x') = mined_emitted (xl x))"

lemma conserves_refl [simp]: "conserves x x"
  by (simp add: conserves_def)

lemma conserves_quiet:
  assumes "money (xl x') = money (xl x)" "acct_value (xs x') + xfee x' = acct_value (xs x) + xfee x"
  shows "conserves x x'"
  using supply_quiet [OF assms(1)] books_quiet [OF assms(1)] money_fields [OF assms(1)] assms(2)
  by (simp add: conserves_def exec_total_def)

lemma acct_value_updates [simp]:
  "acct_value (a\<lparr>balance := b\<rparr>) = b + locked a" "acct_value (a\<lparr>nonce := n\<rparr>) = acct_value a"
  "acct_value (a\<lparr>acct_key := k\<rparr>) = acct_value a" "acct_value (a\<lparr>code := c\<rparr>) = acct_value a"
  by (simp_all add: acct_value_def)

lemma acct_value_split: "acct_value a = balance a + locked a"
  by (rule acct_value_def)

lemma do_transfer_money:
  assumes "do_transfer C l i a to v = Inr (st, a', l')"
  shows "native_supply l' + acct_value a' = native_supply l + acct_value a" "books l' = books l"
    "account_of l' i = account_of l i" "mined_emitted l' = mined_emitted l"
proof -
  let ?r = "resolve_recipient C l to"
  let ?l = "set_account C ?r ((account_of l ?r)\<lparr>balance := balance (account_of l ?r) + v\<rparr>) l"
  have c: "l' = l \<and> a' = a \<or> ?r \<noteq> i \<and> v \<le> balance a \<and> a' = a\<lparr>balance := balance a - v\<rparr> \<and> l' = ?l"
    using assms by (auto simp: do_transfer_def Let_def split: option.splits if_splits)
  then show "native_supply l' + acct_value a' = native_supply l + acct_value a"
    using supply_set_account [of C ?r "(account_of l ?r)\<lparr>balance := balance (account_of l ?r) + v\<rparr>" l]
    by (auto simp: acct_value_split)
  show "books l' = books l" "account_of l' i = account_of l i" "mined_emitted l' = mined_emitted l" using c by auto
qed

lemma execute_proposal_money:
  assumes "execute_proposal_action C l i a = Inr (st, l')"
  shows "native_supply l' = native_supply l \<and> books l' = books l \<and> mined_emitted l' = mined_emitted l"
proof (cases "\<exists>to v. a = Transfer to v")
  case True
  then obtain to v a' l1 where "do_transfer C l i (account_of l i) to v = Inr (st, a', l1)"
    and l': "l' = set_account C i a' l1"
    using assms by (auto simp: execute_proposal_action_def split: sum.splits prod.splits)
  note d = do_transfer_money [OF this(1)]
  show ?thesis using d supply_set_account [of C i a' l1] by (simp add: l')
next
  case False
  then show ?thesis using assms by (cases a) (auto simp: execute_proposal_action_def)
qed

lemma settle_contract_money:
  "settle_contract_token_transfers C l c cmds h = Inr l' \<Longrightarrow> money l' = money l"
  by (auto simp: settle_contract_token_transfers_def Let_def quiet_fold case_prod_unfold
      split: if_splits sum.splits)

lemma quiet_storage: "money (fold (\<lambda>(k, v). set_contract_value C c k v) kvs l) = money l"
  by (simp add: quiet_fold case_prod_unfold)

lemma conserves_transfer: "when_ok conserves x (exec_transfer C tx to v x)"
proof (rule when_okI)
  fix x' st assume "exec_transfer C tx to v x = (x', Inr st)"
  then obtain a l where "do_transfer C (xl x) (tx_signer tx) (xs x) to v = Inr (st, a, l)"
    and x': "x' = x\<lparr>xl := l, xs := a\<rparr>"
    by (auto simp: exec_transfer_def outcome_defs split: sum.splits prod.splits)
  note d = do_transfer_money [OF this(1)]
  show "conserves x x'" using d by (simp add: conserves_def exec_total_def x')
qed

lemma conserves_call: "when_ok conserves x (exec_call C ctx tx c g d x)"
  unfolding exec_call_def
  by (auto intro!: conserves_quiet dest!: settle_contract_money simp: Let_def acct_value_split quiet_storage
      simp del: checked_mul_Some split: option.split sum.split vm_error.split prod.split)

lemma bundle_quiet: "apply_shielded_bundle C b l = (l', r) \<Longrightarrow> money l' = money l"
  using quiet_writes(2) [of C b l] by simp

lemma conserves_move_shielded: "when_ok conserves x (move_shielded C vb mag w x)"
  unfolding move_shielded_def
  by (auto simp: Let_def conserves_def exec_total_def acct_value_split
      dest!: shielded_value_money split: option.split prod.split)

lemma conserves_trans_quiet:
  assumes "when_ok conserves (x\<lparr>xl := l\<rparr>) r" "money l = money (xl x)"
  shows "when_ok conserves x r"
  using assms(1)
proof (rule when_ok_mono)
  show "conserves x x'" if "conserves (x\<lparr>xl := l\<rparr>) x'" for x'
    using that supply_quiet [OF assms(2)] books_quiet [OF assms(2)] money_fields [OF assms(2)]
    by (simp add: conserves_def exec_total_def)
qed

lemma conserves_shielded: "when_ok conserves x (exec_shielded C ctx tx b x)"
  unfolding exec_shielded_def Let_def
  by (auto intro: conserves_quiet conserves_trans_quiet [OF conserves_move_shielded] dest!: bundle_quiet
      split: option.split prod.split sum.split)

lemma conserves_htlc_lock: "when_ok conserves x (exec_htlc_lock C stx to v h n x)"
  unfolding exec_htlc_lock_def Let_def
  by (auto simp: conserves_def exec_total_def acct_value_split dest!: lock_htlc_money split: option.split)

lemma conserves_release: "bt_get (htlcs (xl x)) i = Some h \<Longrightarrow> when_ok conserves x (release_htlc C i h x)"
  unfolding release_htlc_def Let_def
  using settle_htlc_money [of C i "xl x" h]
  by (auto simp: conserves_def exec_total_def acct_value_split settle_htlc_def Let_def split: option.splits)

lemma conserves_htlc_claim: "when_ok conserves x (exec_htlc_claim C ctx tx i pre x)"
  unfolding exec_htlc_claim_def by (auto intro: conserves_release split: option.split)

lemma conserves_htlc_refund: "when_ok conserves x (exec_htlc_refund C ctx tx i x)"
  unfolding exec_htlc_refund_def by (auto intro: conserves_release split: option.split)

lemma conserves_token:
  "when_ok conserves x (exec_token_issue C tx s v to x)"
  "when_ok conserves x (exec_token_transfer C ctx tx a to v x)"
  "when_ok conserves x (exec_token_burn C ctx tx a v x)"
  "when_ok conserves x (exec_token_set_policy C tx a p x)"
  unfolding exec_token_issue_def exec_token_transfer_def exec_token_burn_def exec_token_set_policy_def Let_def
  by (auto intro!: conserves_quiet split: option.split sum.split)

lemma quiet_legs:
  "money (put_leg_token C g i v l) = money l" "money (put_leg_window C g i w l) = money l"
  by (simp_all add: put_leg_token_def put_leg_window_def split: settle_leg.split)

lemma settle_intent_money:
  assumes "settle_intent_legs C l a sol s h = Inr (a', l')"
    and "give_asset (si_intent (st_intent s)) \<noteq> want_asset (si_intent (st_intent s))"
    and "int_owner (si_intent (st_intent s)) \<noteq> sol"
  shows "native_supply l' + acct_value a' = native_supply l + acct_value a \<and> books l' = books l
    \<and> account_of l' sol = account_of l sol \<and> mined_emitted l' = mined_emitted l"
proof -
  let ?i = "si_intent (st_intent s)"
  let ?o = "int_owner ?i"
  let ?oa = "account_of l ?o"
  obtain g w p where g: "settle_leg_of l (give_asset ?i) = Inr g" and w: "settle_leg_of l (want_asset ?i) = Inr w"
    and p: "plan_legs l g w ?o (balance ?oa) sol (balance a) (give_amount ?i) (deliver_amount s) h = Inr p"
    using assms(1) by (auto simp: settle_intent_legs_def Let_def or_fail_def split: sum.splits)
  define oa where "oa = (if w = Native then (if g = Native then ?oa\<lparr>balance := owner_debited p\<rparr> else ?oa)
      \<lparr>balance := owner_credited p\<rparr> else (if g = Native then ?oa\<lparr>balance := owner_debited p\<rparr> else ?oa))"
  have l': "money l' = money (set_account C ?o oa l)"
    and a': "a' = (if g = Native then (if w = Native then a\<lparr>balance := solver_debited p\<rparr> else a)
      \<lparr>balance := solver_credited p\<rparr> else (if w = Native then a\<lparr>balance := solver_debited p\<rparr> else a))"
    using assms(1) by (auto simp: settle_intent_legs_def Let_def or_fail_def g w p quiet_legs oa_def)
  have gw: "g \<noteq> w" using settle_leg_of_inj [OF g] w assms(2) by blast
  have "acct_value oa + acct_value a' = acct_value ?oa + acct_value a"
    using plan_legs_amounts [OF p] gw
    by (auto simp: oa_def a' leg_balance_def acct_value_split split: settle_leg.splits)
  moreover note supply_set_account [of C ?o oa l]
  ultimately show ?thesis
    using supply_quiet [OF l'] books_quiet [OF l'] account_quiet [OF l', of sol] money_fields [OF l'] assms(3) by simp
qed

lemma conserves_intent:
  "when_ok conserves x (exec_intent_settle C ctx tx s x)" "when_ok conserves x (exec_intent_cancel C tx i x)"
  unfolding exec_intent_settle_def exec_intent_cancel_def Let_def
  by (auto simp: conserves_def exec_total_def dest!: settle_intent_money split: sum.split prod.split)

lemma quiet_nft:
  "mint_nft C h t to m n l = Some l' \<Longrightarrow> money l' = money l"
  "transfer_nft C h t to l = Some l' \<Longrightarrow> money l' = money l"
  "set_nft_meta C h t m l = Some l' \<Longrightarrow> money l' = money l"
  "register_name C nm to n l = Some l' \<Longrightarrow> money l' = money l"
  "transfer_name C nm to l = Some l' \<Longrightarrow> money l' = money l"
  by (auto simp: mint_nft_def transfer_nft_def set_nft_meta_def register_name_def transfer_name_def
      split: if_splits option.splits)

lemma conserves_plain:
  "when_ok conserves x (exec_claim_vesting ctx x)" "when_ok conserves x (exec_deploy wm x)"
  "when_ok conserves x (exec_rotate_key C tx hy k sg x)"
  "when_ok conserves x (exec_set_multisig C tx hy ks n x)"
  "when_ok conserves x (exec_cancel_multisig C ctx tx j h x)"
  "when_ok conserves x (exec_oracle_update C tx n x)"
  "when_ok conserves x (exec_register_name C ctx tx nm x)"
  "when_ok conserves x (exec_transfer_name C tx nm to x)"
  "when_ok conserves x (exec_nft_mint C ctx tx s t to m x)"
  "when_ok conserves x (exec_nft_transfer C tx h t to x)"
  "when_ok conserves x (exec_nft_set_meta C tx h t m x)"
  unfolding exec_claim_vesting_def exec_deploy_def exec_rotate_key_def exec_set_multisig_def
    exec_cancel_multisig_def exec_oracle_update_def exec_register_name_def exec_transfer_name_def
    exec_nft_mint_def exec_nft_transfer_def exec_nft_set_meta_def Let_def
  by (auto intro!: conserves_quiet dest!: quiet_nft simp: acct_value_split split: option.split sum.split)

lemma conserves_vault:
  "when_ok conserves x (exec_vault_deposit C tx v x)" "when_ok conserves x (exec_vault_withdraw C tx v x)"
  "when_ok conserves x (exec_vault_mint C tx v x)" "when_ok conserves x (exec_vault_burn C tx v x)"
  unfolding exec_vault_deposit_def exec_vault_withdraw_def exec_vault_mint_def exec_vault_burn_def
    store_vault_def Let_def
  by (auto simp: conserves_def exec_total_def acct_value_split vault_of_def
      dest!: set_vault_money split: option.split)

lemma conserves_multisig:
  "when_ok conserves x (exec_propose_multisig C ctx tx j a x)"
  "when_ok conserves x (exec_approve_multisig C ctx tx j h x)"
  unfolding exec_propose_multisig_def exec_approve_multisig_def Let_def
  by (auto simp: conserves_def exec_total_def dest!: execute_proposal_money split: option.split sum.split prod.split)

lemma conserves_shield_in:
  "when_ok conserves x (apply_shield_in C v x)"
  unfolding apply_shield_in_def Let_def
  by (auto simp: conserves_def exec_total_def acct_value_split dest!: shielded_value_money split: option.split)

lemma deshield_out_total:
  assumes "apply_deshield_out C v d w x = (x', Inr st)" "v \<noteq> 0 \<or> d = 0"
  shows "exec_total x' + d = exec_total x \<and> books (xl x') = books (xl x)
    \<and> mined_emitted (xl x') = mined_emitted (xl x)"
  using assms unfolding apply_deshield_out_def Let_def outcome_defs
  by (auto simp: exec_total_def acct_value_split dest!: shielded_value_money split: option.splits if_splits prod.splits)

lemma v2_effects_total:
  assumes "apply_v2_effects C eff d x = (x', Inr st)" "deshield_out eff \<noteq> 0 \<or> d = 0" "books (xl x)"
  shows "exec_total x' + d = exec_total x \<and> books (xl x') \<and> mined_emitted (xl x') = mined_emitted (xl x)"
proof -
  obtain l x1 where l: "apply_shielded_v2 C (eff_nullifiers eff) (eff_commitments eff) (xl x) = Inr l"
    and x1: "apply_shield_in C (shield_in eff) (x\<lparr>xl := l\<rparr>) = (x1, Inr ())"
    and x': "apply_deshield_out C (deshield_out eff) d (window_update eff) x1 = (x', Inr st)"
    using assms(1) by (auto simp: apply_v2_effects_def outcome_defs split: sum.splits prod.splits v2_state_error.splits)
  note q = quiet_v2 [OF l]
  have "conserves (x\<lparr>xl := l\<rparr>) x1" using when_okD [OF conserves_shield_in x1] .
  with deshield_out_total [OF x' assms(2)] supply_quiet [OF q] books_quiet [OF q] money_fields [OF q] assms(3)
  show ?thesis by (simp add: conserves_def exec_total_def)
qed

lemma conserves_shielded_v2: "when_ok conserves x (exec_shielded_v2 C ctx tx None fee b x)"
proof (rule when_okI)
  fix x' st assume "exec_shielded_v2 C ctx tx None fee b x = (x', Inr st)"
  then obtain eff where "apply_v2_effects C eff 0 x = (x', Inr st)"
    by (auto simp: exec_shielded_v2_def outcome_defs split: if_splits sum.splits)
  from v2_effects_total [OF this] show "conserves x x'" by (simp add: conserves_def)
qed

interpretation native: dispatch_contract C ctx stx "\<lambda>_. True" "when_ok conserves"
  by unfold_locales
    (simp_all add: conserves_shielded_v2 conserves_transfer conserves_plain conserves_call conserves_shielded
      conserves_htlc_lock conserves_htlc_claim conserves_htlc_refund conserves_token conserves_intent
      conserves_vault conserves_multisig, simp add: when_ok_def split: sum.split)

section \<open>The signer's stored account\<close>

text \<open>
  Only the execution of a multisig proposal can touch the stored account of the signer while the
  signer's copy is in flight.
\<close>

definition runs_proposal :: "action \<Rightarrow> bool" where
  "runs_proposal a = (case a of ProposeMultisig _ _ \<Rightarrow> True | ApproveMultisig _ _ \<Rightarrow> True | _ \<Rightarrow> False)"

definition stored_same :: "account_id \<Rightarrow> exec \<Rightarrow> exec \<Rightarrow> bool" where
  "stored_same i x x' \<longleftrightarrow> account_of (xl x') i = account_of (xl x) i"

lemma stored_refl [simp]: "stored_same i x x"
  by (simp add: stored_same_def)

lemma stored_quiet: "money (xl x') = money (xl x) \<Longrightarrow> stored_same i x x'"
  unfolding stored_same_def by (rule account_quiet)

lemma account_of_counters:
  "lock_htlc C h t l = Some l' \<Longrightarrow> account_of l' = account_of l"
  "settle_htlc C h l = Some (t, l') \<Longrightarrow> account_of l' = account_of l"
  "set_vault C j v l = Some l' \<Longrightarrow> account_of l' = account_of l"
  "apply_shielded_v2 C nfs cms l = Inr l' \<Longrightarrow> account_of l' = account_of l"
  by (auto simp: account_of_def fun_eq_iff lock_htlc_def settle_htlc_def set_vault_def Let_def
      dest!: quiet_v2 money_fields split: if_splits option.splits)

lemma stored_transfer: "when_ok (stored_same (tx_signer tx)) x (exec_transfer C tx to v x)"
  by (auto simp: exec_transfer_def stored_same_def dest: do_transfer_money(3) split: sum.split prod.split)

lemma stored_call: "when_ok (stored_same i) x (exec_call C ctx tx c g d x)"
  unfolding exec_call_def
  by (auto intro!: stored_quiet dest!: settle_contract_money simp: Let_def quiet_storage
      simp del: checked_mul_Some split: option.split sum.split vm_error.split prod.split)

lemma stored_move: "when_ok (stored_same i) x (move_shielded C vb mag w x)"
  unfolding move_shielded_def
  by (auto simp: Let_def stored_same_def dest!: shielded_value_money split: option.split prod.split)

lemma stored_shielded: "when_ok (stored_same i) x (exec_shielded C ctx tx b x)"
proof -
  have m: "when_ok (stored_same i) x (move_shielded C vb mag w (x\<lparr>xl := l\<rparr>))"
    if "money l = money (xl x)" for vb mag w l
    using stored_move [of i "x\<lparr>xl := l\<rparr>"] by (rule when_ok_mono) (simp add: stored_same_def account_quiet [OF that])
  show ?thesis
    unfolding exec_shielded_def Let_def
    by (auto intro!: m stored_quiet dest!: bundle_quiet split: option.split prod.split sum.split)
qed

lemma stored_htlc:
  "when_ok (stored_same i) x (exec_htlc_lock C stx to v h n x)"
  "when_ok (stored_same i) x (exec_htlc_claim C ctx tx h pre x)"
  "when_ok (stored_same i) x (exec_htlc_refund C ctx tx h x)"
  unfolding exec_htlc_lock_def exec_htlc_claim_def exec_htlc_refund_def release_htlc_def Let_def
  by (auto simp: stored_same_def dest!: account_of_counters split: option.split)

lemma stored_quiet_arms:
  "when_ok (stored_same i) x (exec_token_issue C tx s v to x)"
  "when_ok (stored_same i) x (exec_token_transfer C ctx tx a to v x)"
  "when_ok (stored_same i) x (exec_token_burn C ctx tx a v x)"
  "when_ok (stored_same i) x (exec_token_set_policy C tx a p x)"
  "when_ok (stored_same i) x (exec_intent_cancel C tx it x)"
  "when_ok (stored_same i) x (exec_claim_vesting ctx x)" "when_ok (stored_same i) x (exec_deploy wm x)"
  "when_ok (stored_same i) x (exec_rotate_key C tx hy k sg x)"
  "when_ok (stored_same i) x (exec_set_multisig C tx hy ks n x)"
  "when_ok (stored_same i) x (exec_cancel_multisig C ctx tx j h x)"
  "when_ok (stored_same i) x (exec_oracle_update C tx n x)"
  "when_ok (stored_same i) x (exec_register_name C ctx tx nm x)"
  "when_ok (stored_same i) x (exec_transfer_name C tx nm to x)"
  "when_ok (stored_same i) x (exec_nft_mint C ctx tx s t to m x)"
  "when_ok (stored_same i) x (exec_nft_transfer C tx h t to x)"
  "when_ok (stored_same i) x (exec_nft_set_meta C tx h t m x)"
  unfolding exec_claim_vesting_def exec_deploy_def exec_rotate_key_def exec_set_multisig_def
    exec_cancel_multisig_def exec_oracle_update_def exec_register_name_def exec_transfer_name_def
    exec_nft_mint_def exec_nft_transfer_def exec_nft_set_meta_def exec_token_issue_def
    exec_token_transfer_def exec_token_burn_def exec_token_set_policy_def exec_intent_cancel_def Let_def
  by (auto intro!: stored_quiet dest!: quiet_nft split: option.split sum.split)

lemma stored_vault:
  "when_ok (stored_same i) x (exec_vault_deposit C tx v x)" "when_ok (stored_same i) x (exec_vault_withdraw C tx v x)"
  "when_ok (stored_same i) x (exec_vault_mint C tx v x)" "when_ok (stored_same i) x (exec_vault_burn C tx v x)"
  unfolding exec_vault_deposit_def exec_vault_withdraw_def exec_vault_mint_def exec_vault_burn_def
    store_vault_def Let_def
  by (auto simp: stored_same_def dest!: account_of_counters split: option.split)

lemma stored_intent: "when_ok (stored_same (tx_signer tx)) x (exec_intent_settle C ctx tx s x)"
  unfolding exec_intent_settle_def Let_def
  by (auto simp: stored_same_def dest!: settle_intent_money split: sum.split prod.split)

lemma stored_shield_in: "when_ok (stored_same i) x (apply_shield_in C v x)"
  unfolding apply_shield_in_def Let_def
  by (auto simp: stored_same_def dest!: shielded_value_money split: option.split)

lemma stored_deshield_out: "when_ok (stored_same i) x (apply_deshield_out C v d w x)"
  unfolding apply_deshield_out_def Let_def
  by (auto simp: stored_same_def dest!: shielded_value_money split: option.split)

lemma stored_v2_effects: "when_ok (stored_same i) x (apply_v2_effects C eff d x)"
proof (rule when_okI)
  fix x' st assume "apply_v2_effects C eff d x = (x', Inr st)"
  then obtain l x1 where l: "apply_shielded_v2 C (eff_nullifiers eff) (eff_commitments eff) (xl x) = Inr l"
    and x1: "apply_shield_in C (shield_in eff) (x\<lparr>xl := l\<rparr>) = (x1, Inr ())"
    and x': "apply_deshield_out C (deshield_out eff) d (window_update eff) x1 = (x', Inr st)"
    by (auto simp: apply_v2_effects_def outcome_defs split: sum.splits prod.splits v2_state_error.splits)
  show "stored_same i x x'"
    using account_of_counters(4) [OF l] when_okD [OF stored_shield_in x1] when_okD [OF stored_deshield_out x']
    by (simp add: stored_same_def)
qed

lemma stored_shielded_v2: "when_ok (stored_same i) x (exec_shielded_v2 C ctx tx eff fee b x)"
  unfolding exec_shielded_v2_def by (auto simp: stored_v2_effects split: option.split sum.split)

interpretation stored: dispatch_contract C ctx stx "\<lambda>a. \<not> runs_proposal a"
  "when_ok (stored_same (tx_signer (stx_transaction stx)))"
  by unfold_locales
    (simp_all add: stored_transfer stored_call stored_shielded stored_htlc stored_quiet_arms stored_vault
      stored_intent stored_shielded_v2 runs_proposal_def, simp add: when_ok_def split: sum.split)

section \<open>Transactions\<close>

lemma admitE:
  assumes "admit C ctx l stx = Inr ad"
  obtains acct fee eff n reserved inner timing
  where "verify_signature_mode C stx (bc_tx_domain ctx)"
    and "authorize C l (stx_transaction stx) (account_of l (tx_signer (stx_transaction stx))) = Inr acct"
    and "tx_nonce (stx_transaction stx) = nonce acct"
    and "pq_gate ctx (stx_transaction stx) acct = Inr ()"
    and "check_shielded_retirement C ctx (tx_action (stx_transaction stx)) = Inr ()"
    and "find_inactive_feature ctx (tx_action (stx_transaction stx)) = None"
    and "unwrap_timestamp ctx (tx_action (stx_transaction stx)) = Inr (inner, timing)"
    and "check_data_cap ctx inner = Inr ()"
    and "intrinsic_fee ctx (stx_transaction stx) = Inr fee"
    and "fund_fee C ctx l (stx_transaction stx) acct fee = Inr eff"
    and "checked_add 64 (nonce acct) 1 = Some n"
    and "reserve_fee (acct\<lparr>nonce := n\<rparr>) fee (eff \<noteq> None) = Inr reserved"
    and "resolve_action C ctx l (stx_transaction stx) (pq_requires_hybrid_authority ctx acct) inner reserved
           = Inr (ad_signer ad, ad_tip ad, ad_action ad, ad_ms_error ad)"
    and "ad_fee ad = fee" "ad_gas ad = tx_gas (stx_transaction stx)" "ad_timing ad = timing"
    and "ad_effects ad = eff" "ad_hybrid ad = pq_requires_hybrid_authority ctx acct"
  using assms unfolding admit_def Let_def
  by (auto split: option.splits)

lemma authorize_value: "authorize C l tx a = Inr a' \<Longrightarrow> acct_value a' = acct_value a \<and> nonce a' = nonce a"
  by (auto simp: authorize_def split: option.splits if_splits)

lemma reserve_fee_value:
  "reserve_fee a fee d = Inr a' \<Longrightarrow> acct_value a' + (if d then 0 else fee) = acct_value a"
  by (auto simp: reserve_fee_def acct_value_split split: if_splits)

lemma resolve_action_value:
  "resolve_action C ctx l tx hy a acct = Inr (acct', tip, act, ms) \<Longrightarrow> acct_value acct' + tip = acct_value acct"
  by (auto simp: resolve_action_def acct_value_split split: action.splits if_splits)

lemma fund_fee_effects:
  assumes "fund_fee C ctx l tx a fee = Inr (Some eff)"
  shows "\<exists>b. tx_action tx = ShieldedV2 b" "deshield_out eff \<noteq> 0"
  using assms
  by (auto simp: fund_fee_def verify_direct_suite2_withdrawal_for_fee_def
      split: if_splits action.splits sum.splits)

lemma admit_value:
  assumes "admit C ctx l stx = Inr ad"
  shows "acct_value (ad_signer ad) + ad_tip ad + (if ad_effects ad = None then ad_fee ad else 0)
    = acct_value (account_of l (tx_signer (stx_transaction stx)))"
  using assms
  by (rule admitE) (auto dest!: authorize_value reserve_fee_value resolve_action_value)

lemma admit_effects:
  assumes "admit C ctx l stx = Inr ad" "ad_effects ad = Some eff"
  shows "(\<exists>b. ad_action ad = ShieldedV2 b) \<and> ad_ms_error ad = None \<and> deshield_out eff \<noteq> 0 \<and> ad_tip ad = 0"
proof -
  obtain acct fee e reserved inner timing
    where *: "unwrap_timestamp ctx (tx_action (stx_transaction stx)) = Inr (inner, timing)"
      "fund_fee C ctx l (stx_transaction stx) acct fee = Inr e" "ad_effects ad = e"
      "resolve_action C ctx l (stx_transaction stx) (pq_requires_hybrid_authority ctx acct) inner reserved
        = Inr (ad_signer ad, ad_tip ad, ad_action ad, ad_ms_error ad)"
    using assms(1) by (rule admitE)
  then obtain b where b: "tx_action (stx_transaction stx) = ShieldedV2 b" and d: "deshield_out eff \<noteq> 0"
    using fund_fee_effects [of C ctx l "stx_transaction stx" acct fee eff] assms(2) by auto
  then have "inner = ShieldedV2 b" using *(1) by (simp add: unwrap_timestamp_def has_nested_timestamp_def)
  then have "ad_action ad = ShieldedV2 b \<and> ad_ms_error ad = None \<and> ad_tip ad = 0"
    using *(4) by (simp add: resolve_action_def)
  with d show ?thesis by blast
qed

lemma credit_money:
  assumes "credit C l i v = Inr l'"
  shows "native_supply l' = native_supply l + v \<and> books l' = books l \<and> mined_emitted l' = mined_emitted l"
  using assms supply_set_account [of C i "(account_of l i)\<lparr>balance := balance (account_of l i) + v\<rparr>" l]
  by (auto simp: credit_def Let_def acct_value_split split: if_splits option.splits)

lemma finish_money:
  assumes "finish C ctx stx ad x st = (l', Inr r)"
  shows "native_supply l' + acct_value (account_of (xl x) (tx_signer (stx_transaction stx)))
      = exec_total x + ad_tip ad \<and> books l' = books (xl x) \<and> mined_emitted l' = mined_emitted (xl x)"
  using assms supply_set_account [of C "tx_signer (stx_transaction stx)" "xs x" "xl x"]
  by (auto simp: finish_def Let_def distribute_fee_def exec_total_def dest!: credit_money split: sum.splits)

lemma run_action_total:
  assumes "admit C ctx l stx = Inr ad" "books l"
    and "run_action C ctx stx ad (start_exec l ad) = (x, Inr st)"
  shows "exec_total x + ad_tip ad = native_supply l + acct_value (account_of l (tx_signer (stx_transaction stx)))
    \<and> books (xl x) \<and> mined_emitted (xl x) = mined_emitted l"
proof (cases "ad_effects ad")
  case None
  have "conserves (start_exec l ad) x"
    using when_okD [OF native.run_action_ok assms(3)] None by simp
  then show ?thesis
    using assms(2) admit_value [OF assms(1)] None by (simp add: conserves_def exec_total_def start_exec_def)
next
  case (Some eff)
  note e = admit_effects [OF assms(1) Some]
  obtain b where "ad_action ad = ShieldedV2 b" using e by blast
  then have "apply_v2_effects C eff (ad_fee ad) (start_exec l ad) = (x, Inr st)"
    using assms(3) e Some
    by (auto simp: run_action_def exec_shielded_v2_def outcome_defs split: if_splits)
  from v2_effects_total [OF this] show ?thesis
    using e assms(2) admit_value [OF assms(1)] Some by (simp add: exec_total_def start_exec_def)
qed

text \<open>The ledger between the action and the write-back of the signer.\<close>

lemma apply_transactionE:
  assumes "apply_transaction C ctx stx l = (l', Inr r)"
  obtains ad x st where "admit C ctx l stx = Inr ad"
    and "run_action C ctx stx ad (start_exec l ad) = (x, Inr st)"
    and "finish C ctx stx ad x st = (l', Inr r)"
  using assms by (auto simp: apply_transaction_def split: sum.splits prod.splits)

lemma stored_run_action:
  assumes "admit C ctx l stx = Inr ad" "\<not> runs_proposal (ad_action ad)"
    and "run_action C ctx stx ad (start_exec l ad) = (x, Inr st)"
  shows "account_of (xl x) (tx_signer (stx_transaction stx)) = account_of l (tx_signer (stx_transaction stx))"
proof (cases "ad_effects ad")
  case None
  show ?thesis
    using when_okD [OF stored.run_action_ok [OF assms(2) None] assms(3)]
    by (simp add: stored_same_def start_exec_def)
next
  case (Some eff)
  obtain b where b: "ad_action ad = ShieldedV2 b" using admit_effects [OF assms(1) Some] by blast
  have "exec_shielded_v2 C ctx (stx_transaction stx) (ad_effects ad) (ad_fee ad) b (start_exec l ad) = (x, Inr st)"
    using assms(3) admit_effects [OF assms(1) Some] b by (simp add: run_action_def)
  from when_okD [OF stored_shielded_v2 this] show ?thesis by (simp add: stored_same_def start_exec_def)
qed

lemma transaction_money:
  assumes "books l" "admit C ctx l stx = Inr ad"
    and "run_action C ctx stx ad (start_exec l ad) = (x, Inr st)" "finish C ctx stx ad x st = (l', Inr r)"
  shows "books l' \<and> native_supply l' + acct_value (account_of (xl x) (tx_signer (stx_transaction stx)))
      = native_supply l + acct_value (account_of l (tx_signer (stx_transaction stx)))
    \<and> mined_emitted l' = mined_emitted l"
  using run_action_total [OF assms(2,1,3)] finish_money [OF assms(4)] by simp

text \<open>No carrier of the action holds a proposal or an approval.\<close>

fun proposal_free :: "action \<Rightarrow> bool" where
  "proposal_free (MultisigExec a _) = proposal_free a"
| "proposal_free (Tipped _ inner) = proposal_free inner"
| "proposal_free (Timestamped _ inner) = proposal_free inner"
| "proposal_free (ProposeMultisig _ _) = False"
| "proposal_free (ApproveMultisig _ _) = False"
| "proposal_free _ = True"

lemma proposal_free_runs: "proposal_free a \<Longrightarrow> \<not> runs_proposal a"
  by (cases a) (simp_all add: runs_proposal_def)

lemma proposal_free_unwrap:
  "unwrap_timestamp ctx a = Inr (b, t) \<Longrightarrow> proposal_free a \<Longrightarrow> proposal_free b"
  by (cases a) (auto simp: unwrap_timestamp_def split: if_splits)

lemma proposal_free_resolve:
  "resolve_action C ctx l tx hy a acct = Inr (acct', tip, b, ms) \<Longrightarrow> proposal_free a \<Longrightarrow> proposal_free b"
  by (cases a) (auto simp: resolve_action_def split: if_splits)

lemma proposal_free_admit:
  assumes "admit C ctx l stx = Inr ad" "proposal_free (tx_action (stx_transaction stx))"
  shows "\<not> runs_proposal (ad_action ad)"
  using assms(1)
  by (rule admitE) (rule proposal_free_runs, erule proposal_free_resolve, erule proposal_free_unwrap, rule assms(2))

lemma transaction_conserves:
  assumes "books l" "apply_transaction C ctx stx l = (l', Inr r)"
  shows "books l' \<and> mined_emitted l' = mined_emitted l
    \<and> (proposal_free (tx_action (stx_transaction stx)) \<longrightarrow> native_supply l' = native_supply l)"
  using assms(2)
proof (rule apply_transactionE)
  fix ad x st
  assume *: "admit C ctx l stx = Inr ad" "run_action C ctx stx ad (start_exec l ad) = (x, Inr st)"
    "finish C ctx stx ad x st = (l', Inr r)"
  show ?thesis
    using transaction_money [OF assms(1) *]
      stored_run_action [OF *(1) proposal_free_admit [OF *(1)] *(2)] by auto
qed

section \<open>Blocks\<close>

lemma add_mined_money:
  assumes "add_mined_emitted C v l = Some l'"
  shows "native_supply l' = native_supply l \<and> books l' = books l \<and> mined_emitted l' = mined_emitted l + v"
proof -
  have "mined_emitted l' = mined_emitted l + v" and "accounts l' = accounts l \<and> shielded_value l' = shielded_value l
    \<and> shielded_v2_value l' = shielded_v2_value l \<and> htlcs l' = htlcs l \<and> htlc_locked l' = htlc_locked l
    \<and> vaults l' = vaults l \<and> vault_collateral l' = vault_collateral l"
    using assms by (auto simp: add_mined_emitted_def split: option.splits)
  then show ?thesis by (simp add: native_supply_def books_def)
qed

lemma coinbase_money:
  assumes "apply_coinbase C ctx l = (l', Inr reward)"
  shows "native_supply l' = native_supply l + reward \<and> (books l \<longrightarrow> books l')
    \<and> mined_emitted l' = mined_emitted l + reward
    \<and> reward = reward_at (bc_mining ctx) (bc_height ctx) (mined_emitted l)"
  using assms
  by (auto simp: apply_coinbase_def Let_def dest!: credit_money add_mined_money
      split: if_splits sum.splits option.splits)

lemma transactions_books:
  assumes "books l" "apply_transactions_from C ctx i stxs l = (l', Inr rs)"
  shows "books l' \<and> mined_emitted l' = mined_emitted l \<and> length rs = length stxs
    \<and> (list_all (\<lambda>stx. proposal_free (tx_action (stx_transaction stx))) stxs \<longrightarrow> native_supply l' = native_supply l)"
  using assms
proof (induction stxs arbitrary: i l rs)
  case (Cons stx stxs)
  then obtain l1 r rs' where 1: "apply_transaction C ctx stx l = (l1, Inr r)"
    and 2: "apply_transactions_from C ctx (Suc i) stxs l1 = (l', Inr rs')" "rs = r # rs'"
    by (auto split: prod.splits sum.splits)
  show ?case
    using transaction_conserves [OF Cons.prems(1) 1] Cons.IH [OF _ 2(1)] 2(2) by simp
qed simp

section \<open>Proposals that touch the account of their own signer\<close>

lemma admit_bare:
  assumes "admit C ctx l stx = Inr ad" "bare (tx_action (stx_transaction stx))"
  shows "ad_action ad = tx_action (stx_transaction stx) \<and> ad_ms_error ad = None \<and> ad_effects ad = None
    \<and> ad_tip ad = 0"
proof -
  obtain acct reserved inner timing
    where 1: "unwrap_timestamp ctx (tx_action (stx_transaction stx)) = Inr (inner, timing)"
      and 2: "resolve_action C ctx l (stx_transaction stx) (pq_requires_hybrid_authority ctx acct) inner reserved
        = Inr (ad_signer ad, ad_tip ad, ad_action ad, ad_ms_error ad)"
    using assms(1) by (rule admitE)
  have b: "ad_action ad = tx_action (stx_transaction stx) \<and> ad_ms_error ad = None \<and> ad_tip ad = 0"
    using bare_unwrap [OF assms(2) 1] bare_resolve [OF assms(2)] 2 by blast
  moreover have "ad_effects ad = None"
  proof (cases "ad_effects ad")
    case (Some eff)
    then show ?thesis using admit_effects [OF assms(1) Some] b assms(2) by (auto simp: bare_def)
  qed
  ultimately show ?thesis by simp
qed

lemma proposal_credits:
  assumes "execute_proposal_action C l j (Transfer to v) = Inr (Success, l')"
    and "resolve_recipient C l to = i" "i \<noteq> j"
  shows "acct_value (account_of l' i) = acct_value (account_of l i) + v"
  using assms
  by (auto simp: execute_proposal_action_def do_transfer_def Let_def acct_value_split
      split: sum.splits option.splits if_splits)

lemma proposal_debits:
  assumes "execute_proposal_action C l j (Transfer to v) = Inr (Success, l')" "resolve_recipient C l to \<noteq> j"
  shows "acct_value (account_of l' j) + v = acct_value (account_of l j)"
  using assms
  by (auto simp: execute_proposal_action_def do_transfer_def Let_def acct_value_split
      split: sum.splits option.splits if_splits)

lemma propose_executes:
  assumes "exec_propose_multisig C ctx tx j (Transfer to v) (start_exec l ad) = (x, Inr Success)"
    and "bt_get (multisigs l) j = Some policy" "ms_threshold policy \<le> 1"
  shows "execute_proposal_action C l j (Transfer to v) = Inr (Success, xl x)"
  using assms
  by (auto simp: exec_propose_multisig_def Let_def outcome_defs start_exec_def as_u16_def is_proposable_def
      split: option.splits sum.splits prod.splits if_splits)

lemma finish_status: "finish C ctx stx ad x st = (l', Inr r) \<Longrightarrow> rc_status r = st"
  by (auto simp: finish_def Let_def make_receipt_def split: sum.splits)

lemma admit_multisig_exec:
  assumes "admit C ctx l stx = Inr ad" "tx_action (stx_transaction stx) = MultisigExec a approvals"
  shows "ad_action ad = a" "ad_effects ad = None"
proof -
  obtain acct fee reserved inner timing e
    where 1: "unwrap_timestamp ctx (tx_action (stx_transaction stx)) = Inr (inner, timing)"
      and 2: "fund_fee C ctx l (stx_transaction stx) acct fee = Inr e" "ad_effects ad = e"
      and 3: "resolve_action C ctx l (stx_transaction stx) (pq_requires_hybrid_authority ctx acct) inner reserved
        = Inr (ad_signer ad, ad_tip ad, ad_action ad, ad_ms_error ad)"
    using assms(1) by (rule admitE)
  have "inner = MultisigExec a approvals"
    using 1 assms(2) by (simp add: unwrap_timestamp_def split: if_splits)
  then show "ad_action ad = a" using 3 by (simp add: resolve_action_def)
  show "ad_effects ad = None"
    using fund_fee_effects(1) [of C ctx l "stx_transaction stx" acct fee] 2 assms(2) by (cases e) auto
qed

lemma proposal_drift:
  assumes "books l" "apply_transaction C ctx stx l = (l', Inr r)" "rc_status r = Success"
    and "tx_action (stx_transaction stx) = ProposeMultisig j (Transfer to v)"
    and "bt_get (multisigs l) j = Some policy" "ms_threshold policy \<le> 1"
    and "resolve_recipient C l to = tx_signer (stx_transaction stx)" "j \<noteq> tx_signer (stx_transaction stx)"
  shows "native_supply l' + v = native_supply l"
  using assms(2)
proof (rule apply_transactionE)
  fix ad x st
  assume *: "admit C ctx l stx = Inr ad" "run_action C ctx stx ad (start_exec l ad) = (x, Inr st)"
    "finish C ctx stx ad x st = (l', Inr r)"
  have st: "st = Success" using finish_status [OF *(3)] assms(3) by simp
  have "exec_propose_multisig C ctx (stx_transaction stx) j (Transfer to v) (start_exec l ad) = (x, Inr Success)"
    using *(2) admit_bare [OF *(1)] by (simp add: run_action_def st bare_def assms(4))
  from proposal_credits [OF propose_executes [OF this assms(5,6)] assms(7)] assms(8)
  show ?thesis using transaction_money [OF assms(1) *] by simp
qed

lemma own_vault_drift:
  assumes "books l" "apply_transaction C ctx stx l = (l', Inr r)" "rc_status r = Success"
    and "tx_action (stx_transaction stx) = MultisigExec (ProposeMultisig j (Transfer to v)) approvals"
    and "tx_signer (stx_transaction stx) = j"
    and "bt_get (multisigs l) j = Some policy" "ms_threshold policy \<le> 1" "resolve_recipient C l to \<noteq> j"
  shows "native_supply l' = native_supply l + v"
  using assms(2)
proof (rule apply_transactionE)
  fix ad x st
  assume *: "admit C ctx l stx = Inr ad" "run_action C ctx stx ad (start_exec l ad) = (x, Inr st)"
    "finish C ctx stx ad x st = (l', Inr r)"
  have st: "st = Success" using finish_status [OF *(3)] assms(3) by simp
  have "exec_propose_multisig C ctx (stx_transaction stx) j (Transfer to v) (start_exec l ad) = (x, Inr Success)"
    using *(2) admit_multisig_exec [OF *(1) assms(4)] by (auto simp: run_action_def st outcome_defs split: option.splits)
  from proposal_debits [OF propose_executes [OF this assms(6,7)] assms(8)] show ?thesis
    using transaction_money [OF assms(1) *] assms(5) by simp
qed

section \<open>Properties\<close>

lemmas execution_defs = apply_transaction_def run_action_def start_exec_def finish_def distribute_fee_def credit_def
  outcome_defs make_receipt_def checked_add_def checked_sub_def

lemma bt_sum_insert_new: "bt_get m k = None \<Longrightarrow> bt_sum f (bt_insert k v m) = bt_sum f m + f k v"
  using bt.sum_ins [of f k v m] by simp

lemma sample_books: "books sample_ledger"
  by (simp add: books_def sample_ledger_def ledger_new_def)

lemma sample_supply: "native_supply sample_ledger = 1105000"
  by (simp add: native_supply_def sample_ledger_def ledger_new_def bt_sum_insert_new acct_value_split)

lemma sample_transfer_runs:
  assumes "account_of l ''alice'' = sample_account 900000" "bt_get (multisigs l) ''alice'' = None"
    and "nfts l = bt_empty" "balance (account_of l ''bob'') = 200000" "balance (account_of l ''miner'') < 10 ^ 15"
  shows "\<exists>l' r. apply_transaction sample_env sample_ctx (sample_tx ''alice'' 0 (Transfer ''bob'' 100)) l = (l', Inr r)
    \<and> rc_status r = Success"
  using assms
  by (simp add: execution_defs sample_admitted [of _ "Transfer ''bob'' 100"] bare_def data_len_def gas_constants exec_transfer_def do_transfer_def Let_def)

lemma sample_proposal_runs:
  "\<exists>l' r. apply_transaction sample_env sample_ctx
        (sample_tx ''alice'' 0 (ProposeMultisig ''vault'' (Transfer ''alice'' 100))) sample_ledger = (l', Inr r)
    \<and> rc_status r = Success"
  by (simp add: execution_defs sample_proposal_admitted exec_propose_multisig_def is_proposable_def
      legacy_member_def pq_requires_hybrid_authority_def as_u16_def execute_proposal_action_def do_transfer_def Let_def)

lemma mined_reads:
  "add_mined_emitted C v l = Some l' \<Longrightarrow> account_of l' = account_of l \<and> multisigs l' = multisigs l \<and> nfts l' = nfts l"
  by (auto simp: add_mined_emitted_def account_of_def fun_eq_iff commit_defs Let_def split: option.splits)

lemma sample_coinbase:
  "\<exists>l'. apply_coinbase sample_env sample_ctx sample_ledger = (l', Inr 1250000000)
    \<and> (\<forall>i. account_of l' i = (if i = ''miner'' then account_default\<lparr>balance := 1250000000\<rparr> else account_of sample_ledger i))
    \<and> multisigs l' = multisigs sample_ledger \<and> nfts l' = bt_empty"
proof -
  have r: "reward_at sample_mining 10 0 = 1250000000"
    by (simp add: reward_at_def sample_mining_def mainnet_like_def)
  let ?l = "set_account sample_env ''miner'' (account_default\<lparr>balance := 1250000000\<rparr>) sample_ledger"
  obtain l' where l': "add_mined_emitted sample_env 1250000000 ?l = Some l'"
    by (simp add: add_mined_emitted_def checked_add_def)
  then have "apply_coinbase sample_env sample_ctx sample_ledger = (l', Inr 1250000000)"
    by (simp add: apply_coinbase_def r credit_def checked_add_def)
  then show ?thesis using mined_reads [OF l'] by auto
qed

text \<open>C1. A transaction that is mined, whether its action succeeds or fails, leaves the supply that
  \<open>Ledger::total_supply\<close> computes and the emission counter unchanged, and keeps the escrow counters
  equal to the escrows they count, unless its action is a multisig proposal or approval, also inside
  a carrier.\<close>

theorem transaction_conserves_supply:
  assumes "books l" "apply_transaction C ctx stx l = (l', Inr r)"
    and "proposal_free (tx_action (stx_transaction stx))"
  shows "total_supply l' = total_supply l \<and> mined_emitted l' = mined_emitted l \<and> books l'"
  using transaction_conserves [OF assms(1,2)] assms(3) by (simp add: total_supply_eq)

theorem transaction_conserves_supply_witness:
  "\<exists>l' r. apply_transaction sample_env sample_ctx (sample_tx ''alice'' 0 (Transfer ''bob'' 100)) sample_ledger
      = (l', Inr r) \<and> rc_status r = Success \<and> total_supply l' = total_supply sample_ledger"
  using sample_transfer_runs [of sample_ledger] transaction_conserves_supply [OF sample_books, of sample_env sample_ctx
      "sample_tx ''alice'' 0 (Transfer ''bob'' 100)"]
  by auto

text \<open>C2. Executing a block, the coinbase and then the transactions in order: the reward is what the
  schedule grants at that height, and whatever the transactions are, the emission counter rises by
  exactly this reward, the escrow counters stay exact and there is one receipt per transaction.  If
  no transaction is, or carries, a multisig proposal or approval, then the supply rises by exactly the
  reward too, and it stays within the cap of 21 million when the supply so far is the premine plus
  the emission and the premine and the mining budget fit beneath the cap together.\<close>

theorem block_mints_only_reward:
  assumes "books l" "apply_coinbase C ctx l = (l1, Inr reward)" "apply_transactions C ctx stxs l1 = (l2, Inr rs)"
  shows "reward = reward_at (bc_mining ctx) (bc_height ctx) (mined_emitted l)
    \<and> mined_emitted l2 = mined_emitted l + reward \<and> books l2 \<and> length rs = length stxs
    \<and> (list_all (\<lambda>stx. proposal_free (tx_action (stx_transaction stx))) stxs \<longrightarrow>
         native_supply l2 = native_supply l + reward
         \<and> (\<forall>premine. native_supply l = premine + mined_emitted l
              \<and> mined_emitted l \<le> mining_budget_grains (bc_mining ctx)
              \<and> premine + mining_budget_grains (bc_mining ctx) \<le> MAX_SUPPLY_GRAINS \<longrightarrow> within_cap (native_supply l2)))"
proof -
  note c = coinbase_money [OF assms(2)]
  have "books l1" using c assms(1) by blast
  note t = transactions_books [OF this assms(3) [unfolded apply_transactions_def]]
  have "within_cap (native_supply l + reward)"
    if "native_supply l = premine + mined_emitted l" "mined_emitted l \<le> mining_budget_grains (bc_mining ctx)"
      "premine + mining_budget_grains (bc_mining ctx) \<le> MAX_SUPPLY_GRAINS" for premine
    using that c reward_at_le_remaining [OF that(2), of "bc_height ctx"] by (auto simp: within_cap_def)
  with c t show ?thesis by auto
qed

theorem block_mints_only_reward_witness:
  "\<exists>l1 l2 r. apply_coinbase sample_env sample_ctx sample_ledger = (l1, Inr 1250000000)
    \<and> apply_transactions sample_env sample_ctx [sample_tx ''alice'' 0 (Transfer ''bob'' 100)] l1 = (l2, Inr [r])
    \<and> native_supply l2 = native_supply sample_ledger + 1250000000 \<and> within_cap (native_supply l2)"
proof -
  let ?t = "sample_tx ''alice'' 0 (Transfer ''bob'' 100)"
  obtain l1 where l1: "apply_coinbase sample_env sample_ctx sample_ledger = (l1, Inr 1250000000)"
    and reads: "\<forall>i. account_of l1 i = (if i = ''miner'' then account_default\<lparr>balance := 1250000000\<rparr>
        else account_of sample_ledger i)" "multisigs l1 = multisigs sample_ledger" "nfts l1 = bt_empty"
    using sample_coinbase by blast
  then obtain l2 r where r: "apply_transaction sample_env sample_ctx ?t l1 = (l2, Inr r)"
    using sample_transfer_runs [of l1] by auto
  then have l2: "apply_transactions sample_env sample_ctx [?t] l1 = (l2, Inr [r])"
    by (simp add: apply_transactions_def)
  have "native_supply l2 = native_supply sample_ledger + 1250000000 \<and> within_cap (native_supply l2)"
    using block_mints_only_reward [OF sample_books l1 l2]
    by (simp add: sample_supply sample_mining_def MAX_SUPPLY_GRAINS_value within_cap_def)
  with l1 l2 show ?thesis by blast
qed

text \<open>C9. A one-of-n multisig member who proposes a payment from the vault to itself: the transaction is
  accepted and reported as successful, the vault is debited, but the credit is written to the
  stored account and then overwritten by the in-flight copy of the signer, so the amount paid
  leaves the supply.\<close>

theorem proposal_paying_signer_destroys_value:
  assumes "books l" "apply_transaction C ctx stx l = (l', Inr r)" "rc_status r = Success"
    and "tx_action (stx_transaction stx) = ProposeMultisig vault (Transfer to amount)"
    and "bt_get (multisigs l) vault = Some policy" "ms_threshold policy \<le> 1"
    and "resolve_recipient C l to = tx_signer (stx_transaction stx)" "vault \<noteq> tx_signer (stx_transaction stx)"
  shows "native_supply l' + amount = native_supply l"
  using assms by (rule proposal_drift)

theorem proposal_paying_signer_destroys_value_witness:
  "\<exists>l' r. apply_transaction sample_env sample_ctx
        (sample_tx ''alice'' 0 (ProposeMultisig ''vault'' (Transfer ''alice'' 100))) sample_ledger = (l', Inr r)
    \<and> native_supply l' + 100 = native_supply sample_ledger"
  using sample_proposal_runs proposal_paying_signer_destroys_value [OF sample_books, of sample_env sample_ctx
      "sample_tx ''alice'' 0 (ProposeMultisig ''vault'' (Transfer ''alice'' 100))" _ _ "''vault''" "''alice''" 100
      "\<lparr>ms_signers = [sample_key], ms_threshold = 1\<rparr>"]
  by auto

text \<open>A multisig account that relays a proposal of its own.\<close>

definition own_vault_ledger :: ledger where
  "own_vault_ledger = sample_ledger\<lparr>accounts := bt_insert ''vault'' (sample_account 300000) (accounts sample_ledger)\<rparr>"

definition own_vault_tx :: signed_transaction where
  "own_vault_tx = sample_tx ''vault'' 0 (MultisigExec (ProposeMultisig ''vault'' (Transfer ''bob'' 100))
     [\<lparr>ap_signer = 0, ap_signature = SigV1Ed25519 []\<rparr>])"

lemma own_vault_reads [simp]:
  "account_of own_vault_ledger i = (if i = ''alice'' then sample_account 900000 else if i = ''bob'' then sample_account 200000
     else if i = ''vault'' then sample_account 300000 else account_default)"
  "multisigs own_vault_ledger = multisigs sample_ledger" "nfts own_vault_ledger = bt_empty"
  by (auto simp: account_of_def own_vault_ledger_def sample_ledger_def ledger_new_def)

lemma own_vault_tx_fields [simp]:
  "tx_signer (stx_transaction own_vault_tx) = ''vault''" "tx_public_key (stx_transaction own_vault_tx) = sample_key"
  "tx_nonce (stx_transaction own_vault_tx) = 0"
  "tx_action (stx_transaction own_vault_tx) = MultisigExec (ProposeMultisig ''vault'' (Transfer ''bob'' 100))
     [\<lparr>ap_signer = 0, ap_signature = SigV1Ed25519 []\<rparr>]"
  by (simp_all add: own_vault_tx_def)

lemma own_vault_approved:
  "multisig_exec_error sample_env sample_ctx own_vault_ledger (stx_transaction own_vault_tx) False
     (ProposeMultisig ''vault'' (Transfer ''bob'' 100)) [\<lparr>ap_signer = 0, ap_signature = SigV1Ed25519 []\<rparr>] = None"
  by (simp add: multisig_exec_error_def wraps_authority_def approved_signers_def Let_def as_u16_def pk_verify_def sample_key_def sample_env_def
      is_pq_multisig_migration_def)

lemma own_vault_admitted:
  "admit sample_env sample_ctx own_vault_ledger own_vault_tx
     = Inr \<lparr>ad_signer = (sample_account 198000)\<lparr>nonce := 1\<rparr>, ad_fee = 102000, ad_tip = 0, ad_gas = 102000,
            ad_timing = None, ad_action = ProposeMultisig ''vault'' (Transfer ''bob'' 100), ad_ms_error = None,
            ad_hybrid = False, ad_effects = None\<rparr>"
proof -
  have "verify_signature_mode sample_env own_vault_tx (bc_tx_domain sample_ctx)" "envelope_gas sample_key = 0"
    by (simp_all add: verify_signature_mode_def verifies_def verify_signature_in_def pk_verify_def own_vault_tx_def
        sample_tx_def sample_ctx_def sample_key_def sample_env_def envelope_gas_def)
  moreover have "sample_account 300000\<lparr>nonce := Suc 0, balance := 198000\<rparr> = sample_account 198000\<lparr>nonce := Suc 0\<rparr>"
    by (simp add: sample_account_def)
  ultimately show ?thesis
    by (simp add: admit_def Let_def and_then_simps ensure_def ok_or_def authorize_def pq_gate_def check_shielded_retirement_def
        find_inactive_feature.simps unwrap_timestamp_def has_nested_timestamp_def check_data_cap_def data_len_def
        intrinsic_fee_def tx_gas_def fund_fee_def verify_direct_suite2_withdrawal_for_fee_def checked_add_def
        checked_sub_def checked_mul_def reserve_fee_def resolve_action_def pq_requires_hybrid_authority_def gas_consts
        own_vault_approved [simplified])
qed

lemma own_vault_runs:
  "\<exists>l' r. apply_transaction sample_env sample_ctx own_vault_tx own_vault_ledger = (l', Inr r) \<and> rc_status r = Success"
  by (simp add: execution_defs own_vault_admitted exec_propose_multisig_def is_proposable_def
      legacy_member_def pq_requires_hybrid_authority_def as_u16_def execute_proposal_action_def do_transfer_def Let_def)

lemma own_vault_books: "books own_vault_ledger"
  by (simp add: books_def own_vault_ledger_def sample_ledger_def ledger_new_def)

text \<open>C40. A multisig account that sends a proposal to pay from itself, through its own
  \<open>MultisigExec\<close> carrier: the transaction is reported as successful, the recipient is credited, but
  the debit of the vault is written to the stored account and then overwritten by the in-flight copy
  of the signer, so the amount paid is created out of nothing.\<close>

theorem proposal_from_own_vault_creates_value:
  assumes "books l" "apply_transaction C ctx stx l = (l', Inr r)" "rc_status r = Success"
    and "tx_action (stx_transaction stx) = MultisigExec (ProposeMultisig vault (Transfer to amount)) approvals"
    and "tx_signer (stx_transaction stx) = vault"
    and "bt_get (multisigs l) vault = Some policy" "ms_threshold policy \<le> 1" "resolve_recipient C l to \<noteq> vault"
  shows "native_supply l' = native_supply l + amount"
  using assms by (rule own_vault_drift)

theorem proposal_from_own_vault_creates_value_witness:
  "\<exists>l' r. apply_transaction sample_env sample_ctx own_vault_tx own_vault_ledger = (l', Inr r)
    \<and> native_supply l' = native_supply own_vault_ledger + 100"
  using own_vault_runs proposal_from_own_vault_creates_value [OF own_vault_books, of sample_env sample_ctx own_vault_tx
      _ _ "''vault''" "''bob''" 100 "[\<lparr>ap_signer = 0, ap_signature = SigV1Ed25519 []\<rparr>]"
      "\<lparr>ms_signers = [sample_key], ms_threshold = 1\<rparr>"]
  by auto

end
