(* ===== verification/Tokens.thy ===== *)
theory Tokens
  imports Supply
begin

text \<open>
  Conservation of issued assets: for every asset, the units held by all accounts plus the units
  burned are the units issued.  The relation between issued, burned and held units is what
  \<open>check_token_conservation\<close> of the \<open>verify\<close> crate tests after each block; here every arm of
  the dispatch is shown to keep it, through the contract of theory \<open>ArmContract\<close>.
\<close>

section \<open>Holdings\<close>

abbreviation asset_weight :: "hash \<Rightarrow> hash \<times> account_id \<Rightarrow> nat \<Rightarrow> nat" where
  "asset_weight a k v \<equiv> (if fst k = a then v else 0)"

definition held :: "(hash \<times> account_id, balance) btree_map \<Rightarrow> hash \<Rightarrow> nat" where
  "held m a = bt_sum (asset_weight a) m"

definition cell :: "(hash \<times> account_id, balance) btree_map \<Rightarrow> hash \<times> account_id \<Rightarrow> nat" where
  "cell m k = (case bt_get m k of Some v \<Rightarrow> v | None \<Rightarrow> 0)"

definition put_cell where
  "put_cell k v m = bt_put k (if v = 0 then None else Some v) m"

definition holdings :: "ledger \<Rightarrow> hash \<Rightarrow> nat" where
  "holdings l a = held (token_balances l) a"

definition issued_units :: "ledger \<Rightarrow> hash \<Rightarrow> nat" where
  "issued_units l a = (case bt_get (tokens l) a of None \<Rightarrow> 0 | Some info \<Rightarrow> tok_issued info)"

definition burned_units :: "ledger \<Rightarrow> hash \<Rightarrow> nat" where
  "burned_units l a = (case bt_get (tokens l) a of None \<Rightarrow> 0 | Some info \<Rightarrow> tok_burned info)"

definition token_books :: "ledger \<Rightarrow> bool" where
  "token_books l \<longleftrightarrow> (\<forall>a. holdings l a + burned_units l a = issued_units l a)"

lemmas unit_defs = holdings_def issued_units_def burned_units_def

lemma cell_put [simp]: "cell (put_cell k v m) j = (if j = k then v else cell m j)"
  by (simp add: cell_def put_cell_def)

lemma held_put: "held (put_cell k v m) a + asset_weight a k (cell m k) = held m a + asset_weight a k v"
proof -
  have "opt_weight (asset_weight a) k (bt_get m k) = asset_weight a k (cell m k)"
    by (simp add: cell_def split: option.split)
  moreover have "opt_weight (asset_weight a) k (if v = 0 then None else Some v) = asset_weight a k v"
    by (auto split: if_splits)
  ultimately show ?thesis
    using bt_sum_put [of "asset_weight a" k "if v = 0 then None else Some v" m] by (simp add: held_def put_cell_def)
qed

lemma held_transfer:
  assumes "v \<le> cell m (b, i)"
  shows "held (put_cell (b, j) (cell (put_cell (b, i) (cell m (b, i) - v) m) (b, j) + v)
      (put_cell (b, i) (cell m (b, i) - v) m)) a = held m a"
  using held_put [of "(b, j)" "cell (put_cell (b, i) (cell m (b, i) - v) m) (b, j) + v" "put_cell (b, i) (cell m (b, i) - v) m" a]
    held_put [of "(b, i)" "cell m (b, i) - v" m a] assms
  by (auto split: if_splits)

lemma token_balance_cell: "token_balance l a i = cell (token_balances l) (a, i)"
  by (simp add: token_balance_def cell_def)

section \<open>Writes\<close>

definition token_view where
  "token_view l = (tokens l, token_balances l)"

lemma token_view_fields: "token_view l' = token_view l \<Longrightarrow> tokens l' = tokens l \<and> token_balances l' = token_balances l"
  by (simp add: token_view_def)

lemma token_quiet_writes:
  "token_view (set_account C i ac l) = token_view l"
  "token_view (set_contract_value C i k bs l) = token_view l"
  "token_view (fst (apply_shielded_bundle C b l)) = token_view l"
  "token_view (put_shielded_value C v l) = token_view l"
  "token_view (put_shielded_v2_value C v l) = token_view l"
  "token_view (set_deshield_v2_window C n v l) = token_view l"
  "token_view (set_deshield_window C n v l) = token_view l"
  "token_view (set_oracle_price C n l) = token_view l"
  "token_view (set_multisig C i m l) = token_view l"
  "token_view (set_proposal C h p l) = token_view l"
  "token_view (remove_proposal C h l) = token_view l"
  "token_view (set_nft_class C h cl l) = token_view l"
  "token_view (put_nft C h bs t l) = token_view l"
  "token_view (set_token_window C h i w l) = token_view l"
  "token_view (consume_intent C h l) = token_view l"
  by (simp_all add: token_view_def write_defs commit_defs Let_def apply_shielded_bundle_def
        split: prod.splits sum.splits)

lemma token_quiet_many:
  "token_view (set_token_policy C a p l) = token_view l"
  "token_view (snd (remove_proposals_for C i l)) = token_view l"
  "token_view (put_window C a i w l) = token_view l"
  using set_token_policy_shape [of C a p l]
  by (auto simp: token_view_def remove_proposals_for_def drop_proposals put_window_def
      token_quiet_writes [THEN token_view_fields] commit_defs Let_def split: option.split)

lemmas token_quiet [simp] = token_quiet_writes token_quiet_many

lemma token_commit:
  "token_view (commit C sl ov l) = token_view l" "token_view (record_op e l) = token_view l"
  "token_view (commit_counter C nm v l) = token_view l" "token_view (recommit_htlcs C l) = token_view l"
  "token_view (recommit_vaults C l) = token_view l" "token_view (recommit_shielded_v2 C l) = token_view l"
  by (simp_all add: token_view_def commit_defs Let_def)

lemmas token_fields [simp] = token_commit [THEN token_view_fields] token_quiet [THEN token_view_fields]

lemma token_quiet_counters:
  "lock_htlc C h t l = Some l' \<Longrightarrow> token_view l' = token_view l"
  "settle_htlc C h l = Some (t, l') \<Longrightarrow> token_view l' = token_view l"
  "set_vault C i v l = Some l' \<Longrightarrow> token_view l' = token_view l"
  "apply_shielded_v2 C nfs cms l = Inr l' \<Longrightarrow> token_view l' = token_view l"
  "add_shielded_value C b l = Some l' \<Longrightarrow> token_view l' = token_view l"
  "sub_shielded_value C b l = Some l' \<Longrightarrow> token_view l' = token_view l"
  "add_shielded_v2_value C b l = Some l' \<Longrightarrow> token_view l' = token_view l"
  "sub_shielded_v2_value C b l = Some l' \<Longrightarrow> token_view l' = token_view l"
  by (auto simp: lock_htlc_def settle_htlc_def set_vault_def apply_shielded_v2_def add_shielded_value_def
      sub_shielded_value_def add_shielded_v2_value_def sub_shielded_v2_value_def token_view_def Let_def
      split: if_splits option.splits sum.splits)

lemma token_quiet_items:
  "mint_nft C h k i m n l = Some l' \<Longrightarrow> token_view l' = token_view l"
  "transfer_nft C h k i l = Some l' \<Longrightarrow> token_view l' = token_view l"
  "set_nft_meta C h k m l = Some l' \<Longrightarrow> token_view l' = token_view l"
  "register_name C nm i n l = Some l' \<Longrightarrow> token_view l' = token_view l"
  "transfer_name C nm i l = Some l' \<Longrightarrow> token_view l' = token_view l"
  by (auto simp: mint_nft_def transfer_nft_def set_nft_meta_def register_name_def transfer_name_def
      split: if_splits option.splits)

lemma token_quiet_bundle: "apply_shielded_bundle C sb l = (l', r) \<Longrightarrow> token_view l' = token_view l"
  using token_quiet_writes(3) [of C sb l] by simp

lemma token_quiet_transfer: "do_transfer C l i ac j b = Inr (st, ac', l') \<Longrightarrow> token_view l' = token_view l"
  by (auto simp: do_transfer_def Let_def split: option.splits if_splits)

lemma token_quiet_proposal: "execute_proposal_action C l i a = Inr (st, l') \<Longrightarrow> token_view l' = token_view l"
  by (auto simp: execute_proposal_action_def dest!: token_quiet_transfer split: action.splits sum.splits prod.splits)

lemmas token_quiet_fallible = token_quiet_counters token_quiet_items token_quiet_bundle token_quiet_transfer
  token_quiet_proposal

lemma set_token_balance_view [simp]:
  "token_balances (set_token_balance C a i v l) = put_cell (a, i) v (token_balances l)"
  "tokens (set_token_balance C a i v l) = tokens l"
  "token_balances (set_token C a info l) = token_balances l"
  "tokens (set_token C a info l) = bt_insert a info (tokens l)"
  by (simp_all add: put_cell_def write_defs commit_defs Let_def)

lemma token_books_view: "token_view l' = token_view l \<Longrightarrow> token_books l' = token_books l"
  by (drule token_view_fields) (simp add: token_books_def unit_defs)

lemma token_booksI:
  "token_books l \<Longrightarrow> tokens l' = tokens l \<Longrightarrow> (\<And>a. holdings l' a = holdings l a) \<Longrightarrow> token_books l'"
  by (simp add: token_books_def issued_units_def burned_units_def)

section \<open>Arms\<close>

definition token_keeps :: "exec \<Rightarrow> exec \<Rightarrow> bool" where
  "token_keeps x x' \<longleftrightarrow> (token_books (xl x) \<longrightarrow> token_books (xl x'))"

lemma token_keeps_view: "token_view (xl x') = token_view (xl x) \<Longrightarrow> token_keeps x x'"
  unfolding token_keeps_def using token_books_view by blast

lemma token_keeps_quiet:
  "when_ok token_keeps x (exec_claim_vesting ctx x)" "when_ok token_keeps x (exec_deploy wm x)"
  "when_ok token_keeps x (exec_transfer C tx to v x)"
  "when_ok token_keeps x (exec_rotate_key C tx hy k sg x)"
  "when_ok token_keeps x (exec_set_multisig C tx hy ks n x)"
  "when_ok token_keeps x (exec_cancel_multisig C ctx tx j h x)"
  "when_ok token_keeps x (exec_oracle_update C tx n x)"
  "when_ok token_keeps x (exec_register_name C ctx tx nm x)"
  "when_ok token_keeps x (exec_transfer_name C tx nm to x)"
  "when_ok token_keeps x (exec_nft_mint C ctx tx s t to m x)"
  "when_ok token_keeps x (exec_nft_transfer C tx h t to x)"
  "when_ok token_keeps x (exec_nft_set_meta C tx h t m x)"
  "when_ok token_keeps x (exec_token_set_policy C tx h p x)"
  "when_ok token_keeps x (exec_intent_cancel C tx it x)"
  "when_ok token_keeps x (exec_htlc_lock C stx to v h n x)"
  "when_ok token_keeps x (exec_htlc_claim C ctx tx h t x)"
  "when_ok token_keeps x (exec_htlc_refund C ctx tx h x)"
  unfolding exec_claim_vesting_def exec_deploy_def exec_transfer_def exec_rotate_key_def exec_set_multisig_def
    exec_cancel_multisig_def exec_oracle_update_def exec_register_name_def exec_transfer_name_def
    exec_nft_mint_def exec_nft_transfer_def exec_nft_set_meta_def exec_token_set_policy_def
    exec_intent_cancel_def exec_htlc_lock_def exec_htlc_claim_def exec_htlc_refund_def release_htlc_def Let_def
  by (auto intro!: token_keeps_view dest!: token_quiet_fallible
      split: option.split sum.split prod.split)

lemma token_keeps_vault_quiet:
  "when_ok token_keeps x (exec_vault_deposit C tx v x)" "when_ok token_keeps x (exec_vault_withdraw C tx v x)"
  unfolding exec_vault_deposit_def exec_vault_withdraw_def store_vault_def Let_def
  by (auto intro!: token_keeps_view dest!: token_quiet_fallible
      split: option.split)

lemma token_keeps_multisig:
  "when_ok token_keeps x (exec_propose_multisig C ctx tx j a x)"
  "when_ok token_keeps x (exec_approve_multisig C ctx tx j h x)"
  unfolding exec_propose_multisig_def exec_approve_multisig_def Let_def
  by (auto intro!: token_keeps_view dest!: token_quiet_fallible split: option.split sum.split prod.split)

lemma token_keeps_move: "when_ok token_keeps x (move_shielded C vb mag w x)"
  unfolding move_shielded_def Let_def
  by (auto intro!: token_keeps_view dest!: token_quiet_fallible
      split: option.split prod.split)

lemma token_keeps_start:
  assumes "when_ok token_keeps (x\<lparr>xl := l\<rparr>) r" "token_view l = token_view (xl x)"
  shows "when_ok token_keeps x r"
  using assms(1) by (rule when_ok_mono) (simp add: token_keeps_def token_books_view [OF assms(2)])

lemma token_keeps_shielded: "when_ok token_keeps x (exec_shielded C ctx tx b x)"
  unfolding exec_shielded_def Let_def
  by (auto intro!: token_keeps_view token_keeps_start [OF token_keeps_move] dest!: token_quiet_bundle
      split: option.split prod.split sum.split)

lemma token_keeps_shield_in: "when_ok token_keeps x (apply_shield_in C v x)"
  unfolding apply_shield_in_def Let_def
  by (auto intro!: token_keeps_view dest!: token_quiet_fallible split: option.split)

lemma token_keeps_deshield_out: "when_ok token_keeps x (apply_deshield_out C v d w x)"
  unfolding apply_deshield_out_def Let_def
  by (auto intro!: token_keeps_view dest!: token_quiet_fallible
      split: option.split)

lemma token_keeps_v2_effects: "when_ok token_keeps x (apply_v2_effects C eff d x)"
proof (rule when_okI)
  fix x' st assume "apply_v2_effects C eff d x = (x', Inr st)"
  then obtain l x1 where l: "apply_shielded_v2 C (eff_nullifiers eff) (eff_commitments eff) (xl x) = Inr l"
    and x1: "apply_shield_in C (shield_in eff) (x\<lparr>xl := l\<rparr>) = (x1, Inr ())"
    and x': "apply_deshield_out C (deshield_out eff) d (window_update eff) x1 = (x', Inr st)"
    by (auto simp: apply_v2_effects_def outcome_defs split: sum.splits prod.splits v2_state_error.splits)
  show "token_keeps x x'"
    using token_books_view [OF token_quiet_counters(4) [OF l]] when_okD [OF token_keeps_shield_in x1]
      when_okD [OF token_keeps_deshield_out x']
    by (simp add: token_keeps_def)
qed

lemma token_keeps_shielded_v2: "when_ok token_keeps x (exec_shielded_v2 C ctx tx eff fee b x)"
  unfolding exec_shielded_v2_def
  by (auto intro: token_keeps_view simp: token_keeps_v2_effects split: option.split sum.split)

subsection \<open>Issuing, moving and burning\<close>

lemma token_books_issue:
  assumes "token_books l" "b = token_balance l a i + v"
    and "tok_issued info = issued_units l a + v" "tok_burned info = burned_units l a"
  shows "token_books (set_token_balance C a i b (set_token C a info l))" (is "token_books ?l")
  unfolding token_books_def
proof
  fix c
  have "holdings ?l c = holdings l c + (if c = a then v else 0)"
    using held_put [of "(a, i)" b "token_balances l" c] assms(2)
    by (auto simp: holdings_def token_balance_cell split: if_splits)
  then show "holdings ?l c + burned_units ?l c = issued_units ?l c"
    using assms(1) [unfolded token_books_def, rule_format, of c] assms(3,4)
    by (auto simp: issued_units_def burned_units_def split: option.splits)
qed

lemma token_books_burn:
  assumes "token_books l" "v \<le> token_balance l a i" "b = token_balance l a i - v"
    and "tok_issued info = issued_units l a" "tok_burned info = burned_units l a + v"
  shows "token_books (set_token_balance C a i b (set_token C a info l))" (is "token_books ?l")
  unfolding token_books_def
proof
  fix c
  have "holdings ?l c + (if c = a then v else 0) = holdings l c"
    using held_put [of "(a, i)" b "token_balances l" c] assms(2,3)
    by (auto simp: holdings_def token_balance_cell split: if_splits)
  then show "holdings ?l c + burned_units ?l c = issued_units ?l c"
    using assms(1) [unfolded token_books_def, rule_format, of c] assms(4,5)
    by (auto simp: issued_units_def burned_units_def split: option.splits)
qed

lemma token_books_move:
  assumes "token_books l" "v \<le> token_balance l a i" "i \<noteq> j"
  shows "token_books (set_token_balance C a j (token_balance l a j + v)
      (set_token_balance C a i (token_balance l a i - v) l))"
  using assms held_transfer [of v "token_balances l" a i j]
  by (intro token_booksI [OF assms(1)]) (auto simp: holdings_def token_balance_cell)

lemma token_keeps_issue: "when_ok token_keeps x (exec_token_issue C tx s v to x)"
  unfolding exec_token_issue_def Let_def
  by (auto simp: token_keeps_def issued_units_def burned_units_def intro!: token_books_issue split: option.split)

lemma token_keeps_transfer: "when_ok token_keeps x (exec_token_transfer C ctx tx a to v x)"
  unfolding exec_token_transfer_def Let_def
  by (auto simp: token_keeps_def token_books_view [OF token_quiet_many(3)] intro!: token_books_move
      split: option.split sum.split)

lemma token_keeps_burn: "when_ok token_keeps x (exec_token_burn C ctx tx a v x)"
  unfolding exec_token_burn_def Let_def
  by (auto simp: token_keeps_def token_books_view [OF token_quiet_many(3)] issued_units_def burned_units_def
      intro!: token_books_burn split: option.split sum.split)

lemma token_keeps_vault_mint: "when_ok token_keeps x (exec_vault_mint C tx v x)"
  unfolding exec_vault_mint_def store_vault_def Let_def
  by (auto simp: token_keeps_def issued_units_def burned_units_def dest!: token_quiet_counters(3) token_books_view
      intro!: token_books_issue split: option.split)

lemma token_keeps_vault_burn: "when_ok token_keeps x (exec_vault_burn C tx v x)"
  unfolding exec_vault_burn_def store_vault_def Let_def
  by (auto simp: token_keeps_def issued_units_def burned_units_def dest!: token_quiet_counters(3) token_books_view
      intro!: token_books_burn split: option.split)

section \<open>Batches of a contract\<close>

text \<open>The token balances after the scratch view of a batch is written back.\<close>

definition overlay :: "ledger \<Rightarrow> batch \<Rightarrow> (hash \<times> account_id, balance) btree_map" where
  "overlay l b = fold (\<lambda>(k, v). put_cell k v) (bt_entries (scratch b)) (token_balances l)"

lemma bt_get_fold_cells:
  "distinct (map fst es) \<Longrightarrow> bt_get (fold (\<lambda>(k, v). put_cell k v) es m) j
     = (case map_of es j of Some v \<Rightarrow> if v = 0 then None else Some v | None \<Rightarrow> bt_get m j)"
proof (induction es arbitrary: m)
  case (Cons e es)
  obtain k v where "e = (k, v)" by force
  with Cons show ?case
    by (auto simp: put_cell_def map_of_eq_None_iff [THEN iffD2] image_def split: option.splits dest: map_of_SomeD)
qed simp

lemma overlay_get:
  "bt_get (overlay l b) k = (case bt_get (scratch b) k of
      Some v \<Rightarrow> if v = 0 then None else Some v | None \<Rightarrow> bt_get (token_balances l) k)"
  using bt_get_fold_cells [OF sorted_keys_distinct [OF bt.ents_sorted], of "scratch b" "token_balances l" k]
  by (simp add: overlay_def bt.map_of_ents)

lemma overlay_insert: "overlay l (b\<lparr>scratch := bt_insert k v (scratch b)\<rparr>) = put_cell k v (overlay l b)"
  by (rule bt.ext) (simp add: overlay_get put_cell_def)

lemma overlay_windows: "overlay l (b\<lparr>batch_windows := w\<rparr>) = overlay l b"
  by (simp add: overlay_def)

lemma scratch_cell: "scratch_balance l b a i = cell (overlay l b) (a, i)"
  by (simp add: scratch_balance_def cell_def overlay_get token_balance_def split: option.split)

lemma batch_gate_overlay: "batch_gate l c h a to v b = Inr b' \<Longrightarrow> overlay l b' = overlay l b"
  by (auto simp: batch_gate_def Let_def overlay_windows split: option.splits sum.splits if_splits)

lemma batch_step_held:
  assumes "batch_step l c h cmd b = Inr b'"
  shows "held (overlay l b') a = held (overlay l b) a"
proof -
  let ?s = "cmd_asset cmd" and ?v = "cmd_amount cmd"
  obtain to b1 where gate: "batch_gate l c h ?s to ?v b = Inr b1" and le: "?v \<le> scratch_balance l b1 ?s c"
    and b': "b' = (let b2 = b1\<lparr>scratch := bt_insert (?s, c) (scratch_balance l b1 ?s c - ?v) (scratch b1)\<rparr>
      in b2\<lparr>scratch := bt_insert (?s, to) (scratch_balance l b2 ?s to + ?v) (scratch b2)\<rparr>)"
    using assms unfolding batch_step_def Let_def by (fastforce split: if_splits sum.splits option.splits)
  have "overlay l b' = put_cell (?s, to)
      (cell (put_cell (?s, c) (cell (overlay l b) (?s, c) - ?v) (overlay l b)) (?s, to) + ?v)
      (put_cell (?s, c) (cell (overlay l b) (?s, c) - ?v) (overlay l b))"
    unfolding b' Let_def by (simp only: overlay_insert scratch_cell batch_gate_overlay [OF gate])
  then show ?thesis
    using held_transfer [of ?v "overlay l b" ?s c to a] le by (simp only: scratch_cell batch_gate_overlay [OF gate])
qed

lemma batch_run_held: "batch_run l c h cmds b = Inr b' \<Longrightarrow> held (overlay l b') a = held (overlay l b) a"
  by (induction cmds arbitrary: b) (auto dest: batch_step_held split: sum.splits)

lemma fold_token_balances:
  "token_balances (fold (\<lambda>((a, i), v). set_token_balance C a i v) es l)
     = fold (\<lambda>(k, v). put_cell k v) es (token_balances l)
   \<and> tokens (fold (\<lambda>((a, i), v). set_token_balance C a i v) es l) = tokens l"
  by (induction es arbitrary: l) (auto split: prod.splits)

lemma fold_token_windows: "token_view (fold (\<lambda>(a, w). set_token_window C a c w) es l) = token_view l"
  by (induction es arbitrary: l) (auto split: prod.splits)

lemma token_books_contract:
  assumes "settle_contract_token_transfers C l c cmds h = Inr l'" "token_books l"
  shows "token_books l'"
proof (cases "cmds = []")
  case False
  let ?b0 = "\<lparr>scratch = bt_empty, batch_windows = bt_empty\<rparr>"
  obtain b where run: "batch_run l c h cmds ?b0 = Inr b"
    and l': "l' = fold (\<lambda>(a, w). set_token_window C a c w) (bt_entries (batch_windows b))
      (fold (\<lambda>((a, i), v). set_token_balance C a i v) (bt_entries (scratch b)) l)"
    using assms(1) False by (auto simp: settle_contract_token_transfers_def Let_def split: sum.splits)
  have v: "token_balances l' = overlay l b \<and> tokens l' = tokens l"
    using token_view_fields [OF fold_token_windows [of C c "bt_entries (batch_windows b)"]]
      fold_token_balances [of C "bt_entries (scratch b)" l]
    by (simp add: l' overlay_def)
  have "overlay l ?b0 = token_balances l" by (simp add: overlay_def)
  with batch_run_held [OF run] v assms(2) show ?thesis
    by (intro token_booksI [OF assms(2)]) (simp_all add: holdings_def)
qed (use assms in \<open>simp add: settle_contract_token_transfers_def\<close>)

lemma fold_storage_view: "token_view (fold (\<lambda>(k, v). set_contract_value C c k v) es l) = token_view l"
  by (induction es arbitrary: l) (auto split: prod.splits)

lemma token_keeps_call: "when_ok token_keeps x (exec_call C ctx tx c g d x)"
  unfolding exec_call_def Let_def
  by (auto intro: token_keeps_view token_books_contract simp: token_books_view [OF fold_storage_view]
      simp del: checked_mul_Some split: option.split sum.split vm_error.split prod.split)
    (auto simp: token_keeps_def token_books_view [OF fold_storage_view] intro: token_books_contract)

section \<open>Intents\<close>

definition put_leg :: "settle_leg \<Rightarrow> account_id \<Rightarrow> nat \<Rightarrow> (hash \<times> account_id, nat) btree_map \<Rightarrow> (hash \<times> account_id, nat) btree_map" where
  "put_leg g i v m = (case g of Native \<Rightarrow> m | TokenLeg a \<Rightarrow> put_cell (a, i) v m)"

lemma put_leg_token_view [simp]:
  "token_balances (put_leg_token C g i v l) = put_leg g i v (token_balances l)"
  "tokens (put_leg_token C g i v l) = tokens l"
  "token_view (put_leg_window C g i w l) = token_view l"
  by (simp_all add: put_leg_token_def put_leg_def put_leg_window_def split: settle_leg.split)

lemma held_pair:
  assumes "v \<le> cell m (a, i)" "i \<noteq> j"
  shows "held (put_cell (a, j) (cell m (a, j) + v) (put_cell (a, i) (cell m (a, i) - v) m)) c = held m c"
  using held_transfer [OF assms(1), of j c] assms(2) by simp

lemma held_legs:
  assumes "plan_legs l g w own bo sol bs give deliver h = Inr p" "g \<noteq> w" "own \<noteq> sol"
  shows "held (put_leg w own (owner_credited p) (put_leg w sol (solver_debited p)
      (put_leg g sol (solver_credited p) (put_leg g own (owner_debited p) (token_balances l))))) a
    = held (token_balances l) a"
proof -
  define m where "m = token_balances l"
  define m1 where "m1 = put_leg g sol (solver_credited p) (put_leg g own (owner_debited p) m)"
  note amounts = plan_legs_amounts [OF assms(1)]
  have 1: "held m1 a = held m a"
  proof (cases g)
    case (TokenLeg b)
    then show ?thesis
      using amounts held_pair [of give m b own sol a] assms(3)
      by (simp add: m1_def m_def put_leg_def leg_balance_def token_balance_cell)
  qed (simp add: m1_def put_leg_def)
  have 2: "held (put_leg w own (owner_credited p) (put_leg w sol (solver_debited p) m1)) a = held m1 a"
  proof (cases w)
    case (TokenLeg b)
    have "cell m1 (b, i) = cell m (b, i)" for i
      using assms(2) TokenLeg by (cases g) (auto simp: m1_def put_leg_def)
    then have "deliver \<le> cell m1 (b, sol)" "solver_debited p = cell m1 (b, sol) - deliver"
      "owner_credited p = cell m1 (b, own) + deliver"
      using amounts TokenLeg by (simp_all add: m_def leg_balance_def token_balance_cell)
    then show ?thesis using held_pair [of deliver m1 b sol own a] assms(3) TokenLeg by (simp add: put_leg_def)
  qed (simp add: put_leg_def)
  show ?thesis using 1 2 by (simp add: m1_def m_def)
qed

lemma token_books_intent:
  assumes "settle_intent_legs C l ac sol s h = Inr (ac', l')"
    and "give_asset (si_intent (st_intent s)) \<noteq> want_asset (si_intent (st_intent s))"
    and "int_owner (si_intent (st_intent s)) \<noteq> sol" "token_books l"
  shows "token_books l'"
proof -
  let ?i = "si_intent (st_intent s)"
  let ?o = "int_owner ?i"
  obtain g w p where g: "settle_leg_of l (give_asset ?i) = Inr g" and w: "settle_leg_of l (want_asset ?i) = Inr w"
    and p: "plan_legs l g w ?o (balance (account_of l ?o)) sol (balance ac) (give_amount ?i) (deliver_amount s) h = Inr p"
    using assms(1) by (auto simp: settle_intent_legs_def Let_def or_fail_def split: sum.splits)
  have view: "tokens l' = tokens l \<and> token_balances l' = put_leg w ?o (owner_credited p) (put_leg w sol (solver_debited p)
      (put_leg g sol (solver_credited p) (put_leg g ?o (owner_debited p) (token_balances l))))"
    using assms(1)
    by (auto simp: settle_intent_legs_def Let_def or_fail_def g w p put_leg_token_view(3) [THEN token_view_fields])
  have "g \<noteq> w" using settle_leg_of_inj [OF g] w assms(2) by blast
  from held_legs [OF p this assms(3)] view show ?thesis
    by (intro token_booksI [OF assms(4)]) (simp_all add: holdings_def)
qed

lemma token_keeps_intent: "when_ok token_keeps x (exec_intent_settle C ctx tx s x)"
  unfolding exec_intent_settle_def Let_def
  by (auto simp: token_keeps_def token_books_view [OF token_quiet_writes(15)]
      intro: token_books_intent split: sum.split prod.split)

interpretation units: dispatch_contract C ctx stx "\<lambda>_. True" "when_ok token_keeps"
  by unfold_locales
    (simp_all add: token_keeps_quiet token_keeps_vault_quiet token_keeps_multisig token_keeps_shielded
      token_keeps_shielded_v2 token_keeps_issue token_keeps_transfer token_keeps_burn token_keeps_vault_mint
      token_keeps_vault_burn token_keeps_call token_keeps_intent, simp add: when_ok_def token_keeps_def split: sum.split)

section \<open>Transactions and blocks\<close>

lemma token_run_action:
  assumes "admit C ctx l stx = Inr ad" "run_action C ctx stx ad (start_exec l ad) = (x, Inr st)" "token_books l"
  shows "token_books (xl x)"
proof (cases "ad_effects ad")
  case None
  show ?thesis
    using when_okD [OF units.run_action_ok [OF TrueI None] assms(2)] assms(3)
    by (simp add: token_keeps_def start_exec_def)
next
  case (Some eff)
  obtain b where b: "ad_action ad = ShieldedV2 b" using admit_effects [OF assms(1) Some] by blast
  have "exec_shielded_v2 C ctx (stx_transaction stx) (ad_effects ad) (ad_fee ad) b (start_exec l ad) = (x, Inr st)"
    using assms(2) admit_effects [OF assms(1) Some] b by (simp add: run_action_def)
  from when_okD [OF token_keeps_shielded_v2 this] assms(3) show ?thesis by (simp add: token_keeps_def start_exec_def)
qed

lemma token_quiet_credit: "credit C l i v = Inr l' \<Longrightarrow> token_view l' = token_view l"
  by (auto simp: credit_def Let_def split: if_splits option.splits)

lemma token_quiet_finish: "finish C ctx stx ad x st = (l', Inr r) \<Longrightarrow> token_view l' = token_view (xl x)"
  by (auto simp: finish_def distribute_fee_def Let_def dest!: token_quiet_credit split: sum.splits)

lemma token_transaction:
  assumes "apply_transaction C ctx stx l = (l', Inr r)" "token_books l"
  shows "token_books l'"
  using assms(1)
  by (rule apply_transactionE) (simp add: token_books_view [OF token_quiet_finish] token_run_action assms(2))

lemma token_transactions:
  "apply_transactions_from C ctx i stxs l = (l', Inr rs) \<Longrightarrow> token_books l \<Longrightarrow> token_books l'"
proof (induction stxs arbitrary: i l rs)
  case (Cons stx stxs)
  then show ?case by (auto dest: token_transaction split: prod.splits sum.splits)
qed simp

lemma token_supply_held:
  assumes "token_books l" "bt_get (tokens l) a = Some info"
  shows "token_supply info = Some (holdings l a)"
proof -
  have "holdings l a + tok_burned info = tok_issued info"
    using assms(1) [unfolded token_books_def, rule_format, of a] assms(2)
    by (simp add: issued_units_def burned_units_def)
  then show ?thesis by (auto simp: token_supply_def)
qed

text \<open>C3. The empty ledger satisfies the asset invariant, that for each asset the units held by all
  accounts and the units burned add up to the units issued, and the transactions of a block keep
  it, through issues, transfers, burns, vault mints and repayments, settlements of intents and the
  transfers a contract queues.  In particular the circulating supply \<open>TokenInfo::supply\<close> reports is
  the sum of the balances.\<close>

theorem assets_conserved:
  assumes "token_books l" "apply_transactions C ctx stxs l = (l', Inr rs)"
  shows "token_books l' \<and> token_books (ledger_new C)
    \<and> (\<forall>a info. bt_get (tokens l') a = Some info \<longrightarrow> token_supply info = Some (holdings l' a))"
proof -
  have "token_books l'" using token_transactions [OF assms(2) [unfolded apply_transactions_def] assms(1)] .
  moreover have "token_books (ledger_new C)"
    by (simp add: token_books_def unit_defs ledger_new_def held_def)
  ultimately show ?thesis using token_supply_held by blast
qed

lemma sample_asset: "token_asset_id sample_env ''alice'' ''USD'' \<noteq> xusd_asset_id sample_env" "valid_token_symbol ''USD''"
  by code_simp+

lemma held_put_new: "bt_get m (a, i) = None \<Longrightarrow> held (put_cell (a, i) v m) a = held m a + v"
  using held_put [of "(a, i)" v m a] by (simp add: cell_def)

lemma held_empty [simp]: "held bt_empty a = 0"
  by (simp add: held_def)

lemma sample_issue_runs:
  "\<exists>l' r. apply_transaction sample_env sample_ctx (sample_tx ''alice'' 0 (TokenIssue ''USD'' 50 ''bob'')) sample_ledger
      = (l', Inr r) \<and> holdings l' (token_asset_id sample_env ''alice'' ''USD'') = 50"
  by (simp add: execution_defs sample_admitted bare_def data_len_def gas_constants exec_token_issue_def
      sample_asset mint_block_def token_balance_def Let_def holdings_def held_put_new)

theorem assets_conserved_witness:
  "\<exists>l' r. apply_transactions sample_env sample_ctx [sample_tx ''alice'' 0 (TokenIssue ''USD'' 50 ''bob'')] sample_ledger
      = (l', Inr [r]) \<and> holdings l' (token_asset_id sample_env ''alice'' ''USD'') = 50 \<and> token_books l'"
proof -
  have books: "token_books sample_ledger"
    by (simp add: token_books_def unit_defs sample_ledger_def ledger_new_def held_def)
  obtain l' r where "apply_transaction sample_env sample_ctx (sample_tx ''alice'' 0 (TokenIssue ''USD'' 50 ''bob'')) sample_ledger
      = (l', Inr r)" and h: "holdings l' (token_asset_id sample_env ''alice'' ''USD'') = 50"
    using sample_issue_runs by blast
  then have "apply_transactions sample_env sample_ctx [sample_tx ''alice'' 0 (TokenIssue ''USD'' 50 ''bob'')] sample_ledger
      = (l', Inr [r])"
    by (simp add: apply_transactions_def)
  from this h assets_conserved [OF books this] show ?thesis by blast
qed

end
