(* ===== verification/Atomicity.thy ===== *)
theory Atomicity
  imports Supply
begin

text \<open>
  A rejected transaction leaves no trace.  The runtime mutates the ledger in place, and several
  arms return an arithmetic error after their first write; the block builder relies on none of
  these errors being reachable.  Here this is shown from three facts about the ledger: the escrow
  counters agree with the escrows, the supply is within the cap, and the frontier of the second
  shielded pool is well formed.
\<close>

section \<open>Soundness of a ledger\<close>

definition pool_ok :: "'a pool_prims_scheme \<Rightarrow> ledger \<Rightarrow> bool" where
  "pool_ok C l \<longleftrightarrow> (\<exists>leaves. v2_inv C leaves (shielded_v2 l))"

definition ledger_sound :: "'a pool_prims_scheme \<Rightarrow> ledger \<Rightarrow> bool" where
  "ledger_sound C l \<longleftrightarrow> books l \<and> within_cap (native_supply l) \<and> pool_ok C l"

definition err_clean :: "'a exec_env_scheme \<Rightarrow> exec \<Rightarrow> arm_result \<Rightarrow> bool" where
  "err_clean C x r \<longleftrightarrow> (books (xl x) \<and> pool_ok C (xl x) \<and> exec_total x < u128_limit
     \<longrightarrow> (\<forall>x' f. r = (x', Inl f) \<longrightarrow> xl x' = xl x \<and> f \<noteq> Panic))"

lemma err_clean_simps [simp]:
  "err_clean C x (succeed y)" "err_clean C x (fail_with reason y)" "err_clean C x (y, Inr st)"
  "xl y = xl x \<Longrightarrow> err_clean C x (reject_with e y)" "err_clean C x (x, Inl (Reject e))"
  by (simp_all add: err_clean_def outcome_defs)

lemma err_cleanI:
  assumes "books (xl x) \<Longrightarrow> pool_ok C (xl x) \<Longrightarrow> exec_total x < u128_limit \<Longrightarrow>
    \<exists>y st. r = (y, Inr st) \<or> (\<exists>e. r = (y, Inl (Reject e)) \<and> xl y = xl x)"
  shows "err_clean C x r"
  using assms by (auto simp: err_clean_def)

section \<open>Arms\<close>

lemma err_clean_plain:
  "err_clean C x (exec_claim_vesting ctx x)" "err_clean C x (exec_deploy wm x)"
  "err_clean C x (exec_transfer C tx to v x)"
  "err_clean C x (exec_rotate_key C tx hy k sg x)"
  "err_clean C x (exec_set_multisig C tx hy ks n x)"
  "err_clean C x (exec_cancel_multisig C ctx tx j h x)"
  "err_clean C x (exec_oracle_update C tx n x)"
  "err_clean C x (exec_register_name C ctx tx nm x)"
  "err_clean C x (exec_transfer_name C tx nm to x)"
  "err_clean C x (exec_nft_mint C ctx tx s t to m x)"
  "err_clean C x (exec_nft_transfer C tx h t to x)"
  "err_clean C x (exec_nft_set_meta C tx h t m x)"
  "err_clean C x (exec_token_set_policy C tx h p x)"
  "err_clean C x (exec_intent_cancel C tx it x)"
  "err_clean C x (exec_intent_settle C ctx tx sm x)"
  "err_clean C x (exec_htlc_lock C stx to v h n x)"
  "err_clean C x (exec_token_issue C tx s v to x)"
  "err_clean C x (exec_token_transfer C ctx tx h to v x)"
  "err_clean C x (exec_token_burn C ctx tx h v x)"
  unfolding exec_claim_vesting_def exec_deploy_def exec_transfer_def exec_rotate_key_def exec_set_multisig_def
    exec_cancel_multisig_def exec_oracle_update_def exec_register_name_def exec_transfer_name_def
    exec_nft_mint_def exec_nft_transfer_def exec_nft_set_meta_def exec_token_set_policy_def
    exec_intent_cancel_def exec_intent_settle_def exec_htlc_lock_def exec_token_issue_def
    exec_token_transfer_def exec_token_burn_def Let_def
  by (simp_all split: option.split sum.split prod.split)

lemma err_clean_call: "err_clean C x (exec_call C ctx tx c g d x)"
  unfolding exec_call_def Let_def
  by (simp split: option.split sum.split prod.split vm_error.split)

lemma err_clean_multisig:
  "err_clean C x (exec_propose_multisig C ctx tx j a x)" "err_clean C x (exec_approve_multisig C ctx tx j h x)"
  unfolding exec_propose_multisig_def exec_approve_multisig_def Let_def
  by (simp_all split: option.split sum.split prod.split)

lemma balance_le_total: "balance (xs x) \<le> exec_total x"
  by (simp add: exec_total_def acct_value_split)

lemma err_clean_release:
  assumes "bt_get (htlcs (xl x)) i = Some h"
  shows "err_clean C x (release_htlc C i h x)"
proof (rule err_cleanI)
  assume "books (xl x)" "exec_total x < u128_limit"
  moreover have "htlc_amount h \<le> htlc_locked (xl x)"
    using bt.sum_member [OF assms, of "\<lambda>_. htlc_amount"] calculation(1) by (simp add: books_def)
  ultimately have "balance (xs x) + htlc_amount h < u128_limit"
    by (simp add: exec_total_def acct_value_split native_supply_def)
  then show "\<exists>y st. release_htlc C i h x = (y, Inr st) \<or> (\<exists>e. release_htlc C i h x = (y, Inl (Reject e)) \<and> xl y = xl x)"
    by (auto simp: release_htlc_def Let_def outcome_defs split: option.split)
qed

lemma err_clean_htlc:
  "err_clean C x (exec_htlc_claim C ctx tx i pre x)" "err_clean C x (exec_htlc_refund C ctx tx i x)"
  unfolding exec_htlc_claim_def exec_htlc_refund_def
  by (simp_all add: err_clean_release split: option.split)

lemma set_vault_total:
  assumes "books l" "vault_collateral l + collateral v < u128_limit + collateral (vault_of l i)"
  shows "\<exists>l'. set_vault C i v l = Some l'"
proof -
  have "collateral (vault_of l i) \<le> vault_collateral l"
    using bt.sum_member [of "vaults l" i _ "\<lambda>_. collateral"] assms(1)
    by (cases "bt_get (vaults l) i") (simp_all add: books_def vault_of_def vault_default_def)
  then have "Option.bind (bal_sub (vault_collateral l) (collateral (vault_of l i))) (\<lambda>t. bal_add t (collateral v))
      = Some (vault_collateral l - collateral (vault_of l i) + collateral v)"
    using assms(2) by (simp add: bind_eq_Some_conv)
  moreover have "(case bt_get (vaults l) i of Some p \<Rightarrow> collateral p | None \<Rightarrow> 0) = collateral (vault_of l i)"
    by (simp add: vault_of_def vault_default_def split: option.split)
  ultimately show ?thesis by (simp add: set_vault_def Let_def)
qed

lemma err_clean_store:
  assumes "books (xl x) \<Longrightarrow> exec_total x < u128_limit \<Longrightarrow>
    books (xl y) \<and> vault_collateral (xl y) + collateral v < u128_limit + collateral (vault_of (xl y) (tx_signer tx))"
  shows "err_clean C x (store_vault C tx v y)"
proof (rule err_cleanI)
  assume "books (xl x)" "exec_total x < u128_limit"
  from assms [OF this] obtain l where "set_vault C (tx_signer tx) v (xl y) = Some l"
    using set_vault_total by blast
  then show "\<exists>z st. store_vault C tx v y = (z, Inr st) \<or> (\<exists>e. store_vault C tx v y = (z, Inl (Reject e)) \<and> xl z = xl x)"
    by (simp add: store_vault_def outcome_defs)
qed

lemma collateral_le_total: "vault_collateral (xl x) + balance (xs x) \<le> exec_total x"
  by (simp add: exec_total_def acct_value_split native_supply_def)

lemma err_clean_vault:
  "err_clean C x (exec_vault_deposit C tx v x)" "err_clean C x (exec_vault_withdraw C tx v x)"
  "err_clean C x (exec_vault_mint C tx v x)" "err_clean C x (exec_vault_burn C tx v x)"
  unfolding exec_vault_deposit_def exec_vault_withdraw_def exec_vault_mint_def exec_vault_burn_def Let_def
  using collateral_le_total [of x]
  by (auto intro!: err_clean_store simp: vault_of_def split: option.split)

lemma move_shielded_ok:
  assumes "shielded_value (xl x) + balance (xs x) < u128_limit"
    and "vb < 0 \<longrightarrow> mag \<le> balance (xs x)" "0 < vb \<longrightarrow> mag \<le> shielded_value (xl x)"
  shows "\<exists>y st. move_shielded C vb mag w x = (y, Inr st)"
  using assms
  by (auto simp: move_shielded_def Let_def outcome_defs add_shielded_value_def sub_shielded_value_def split: option.split)

lemma err_clean_move:
  assumes "apply_shielded_bundle C sb (xl x) = (l, r)"
    and "vb < 0 \<longrightarrow> mag \<le> balance (xs x)" "0 < vb \<longrightarrow> mag \<le> shielded_value (xl x)"
  shows "err_clean C x (move_shielded C vb mag w (x\<lparr>xl := l\<rparr>))"
proof (rule err_cleanI)
  assume "exec_total x < u128_limit"
  then have "shielded_value (xl x) + balance (xs x) < u128_limit"
    by (simp add: exec_total_def acct_value_split native_supply_def)
  then show "\<exists>y st. move_shielded C vb mag w (x\<lparr>xl := l\<rparr>) = (y, Inr st)
      \<or> (\<exists>e. move_shielded C vb mag w (x\<lparr>xl := l\<rparr>) = (y, Inl (Reject e)) \<and> xl y = xl x)"
    using move_shielded_ok [of "x\<lparr>xl := l\<rparr>" vb mag C w] assms money_fields [OF bundle_quiet [OF assms(1)]] by auto
qed

lemma err_clean_shielded: "err_clean C x (exec_shielded C ctx tx b x)"
  unfolding exec_shielded_def Let_def
  by (auto intro!: err_clean_move split: option.split sum.split prod.split)

subsection \<open>The second shielded pool\<close>

definition covered :: "v2_effects \<Rightarrow> balance \<Rightarrow> exec \<Rightarrow> bool" where
  "covered eff d x \<longleftrightarrow> shield_in eff \<le> balance (xs x) \<and> deshield_out eff \<le> shielded_v2_value (xl x) + shield_in eff
     \<and> d \<le> balance (xs x) - shield_in eff + deshield_out eff"

lemma check_effects_covered:
  assumes "check_effects l mining height bal pi = Inr eff"
  shows "shield_in eff \<le> bal \<and> deshield_out eff \<le> shielded_v2_value l + shield_in eff"
  using assms by (auto simp: check_effects_def Let_def split: option.splits if_splits)

lemma verified_covered:
  assumes "verify_bundle_for_carrier_with_suite2 C b l mining height domain i n bal s2 = Inr eff"
  shows "shield_in eff \<le> bal \<and> deshield_out eff \<le> shielded_v2_value l + shield_in eff"
  using assms
  by (auto simp: verify_bundle_for_carrier_with_suite2_def Let_def dest!: check_effects_covered
      split: sum.splits wire_error.splits option.splits if_splits)

lemma shield_in_ok:
  assumes "v \<le> balance (xs x)" "shielded_v2_value (xl x) + balance (xs x) < u128_limit"
  shows "\<exists>y. apply_shield_in C v x = (y, Inr ()) \<and> balance (xs y) = balance (xs x) - v
    \<and> shielded_v2_value (xl y) = shielded_v2_value (xl x) + v"
  using assms by (auto simp: apply_shield_in_def Let_def add_shielded_v2_value_def split: option.split)

lemma deshield_out_ok:
  assumes "v \<le> shielded_v2_value (xl x)" "shielded_v2_value (xl x) + balance (xs x) < u128_limit"
    and "d \<le> balance (xs x) + v"
  shows "\<exists>y st. apply_deshield_out C v d w x = (y, Inr st)"
  using assms by (auto simp: apply_deshield_out_def Let_def sub_shielded_v2_value_def outcome_defs split: option.split)

lemma err_clean_effects:
  assumes "covered eff d x"
  shows "err_clean C x (apply_v2_effects C eff d x)"
proof (rule err_cleanI)
  assume pool: "pool_ok C (xl x)" and "exec_total x < u128_limit"
  then have tot: "shielded_v2_value (xl x) + balance (xs x) < u128_limit"
    by (simp add: exec_total_def acct_value_split native_supply_def)
  let ?r = "apply_v2_effects C eff d x"
  show "\<exists>y st. ?r = (y, Inr st) \<or> (\<exists>e. ?r = (y, Inl (Reject e)) \<and> xl y = xl x)"
  proof (cases "apply_shielded_v2 C (eff_nullifiers eff) (eff_commitments eff) (xl x)")
    case (Inl e)
    moreover have "e \<noteq> V2Panicked"
      using Inl pool v2_apply_no_panic by (fastforce simp: apply_shielded_v2_def pool_ok_def split: sum.splits)
    ultimately show ?thesis by (cases e) (simp_all add: apply_v2_effects_def outcome_defs)
  next
    case (Inr l)
    have v: "shielded_v2_value l = shielded_v2_value (xl x)" using money_fields [OF quiet_v2 [OF Inr]] by blast
    obtain y where "apply_shield_in C (shield_in eff) (x\<lparr>xl := l\<rparr>) = (y, Inr ())"
      and "balance (xs y) = balance (xs x) - shield_in eff" "shielded_v2_value (xl y) = shielded_v2_value (xl x) + shield_in eff"
      using shield_in_ok [of "shield_in eff" "x\<lparr>xl := l\<rparr>" C] assms tot v by (auto simp: covered_def)
    then show ?thesis
      using Inr deshield_out_ok [of "deshield_out eff" y d C "window_update eff"] assms tot
      by (auto simp: apply_v2_effects_def covered_def)
  qed
qed

lemma err_clean_shielded_v2: "err_clean C x (exec_shielded_v2 C ctx tx None fee b x)"
  unfolding exec_shielded_v2_def
  by (auto intro!: err_clean_effects dest: verified_covered simp: covered_def split: sum.split)

interpretation atomic: dispatch_contract C ctx stx "\<lambda>_. True" "err_clean C"
  by unfold_locales
    (simp_all add: err_clean_shielded_v2 err_clean_plain err_clean_call err_clean_shielded err_clean_htlc
      err_clean_vault err_clean_multisig, auto simp: err_clean_def)

section \<open>Transactions\<close>

lemma credit_ok:
  assumes "native_supply l + v < u128_limit"
  shows "\<exists>l'. credit C l i v = Inr l'"
  using assms acct_value_bound [of l i] by (auto simp: credit_def Let_def acct_value_split split: option.split)

lemma finish_ok:
  assumes "exec_total x + ad_tip ad < u128_limit"
  shows "\<exists>l' r. finish C ctx stx ad x st = (l', Inr r)"
proof -
  let ?l = "set_account C (tx_signer (stx_transaction stx)) (xs x) (xl x)"
  have b: "native_supply ?l \<le> native_supply (xl x) + acct_value (xs x)"
    using supply_set_account [of C "tx_signer (stx_transaction stx)" "xs x" "xl x"] by simp
  then obtain l1 where l1: "credit C ?l (bc_miner ctx) (xfee x) = Inr l1"
    using credit_ok [of ?l "xfee x" C "bc_miner ctx"] assms by (auto simp: exec_total_def)
  moreover obtain l2 where "credit C l1 (bc_miner ctx) (ad_tip ad) = Inr l2"
    using credit_ok [of l1 "ad_tip ad" C "bc_miner ctx"] credit_money [OF l1] assms b by (auto simp: exec_total_def)
  ultimately show ?thesis by (simp add: finish_def Let_def distribute_fee_def)
qed

text \<open>A fee paid out of a withdrawal is covered by it.\<close>

lemma deferred_covered:
  assumes "admit C ctx l stx = Inr ad" "ad_effects ad = Some eff"
  shows "covered eff (ad_fee ad) (start_exec l ad)"
proof -
  obtain acct fee e reserved inner n
    where *: "fund_fee C ctx l (stx_transaction stx) acct fee = Inr e" "ad_effects ad = e" "ad_fee ad = fee"
      "reserve_fee (acct\<lparr>nonce := n\<rparr>) fee (e \<noteq> None) = Inr reserved"
      "resolve_action C ctx l (stx_transaction stx) (pq_requires_hybrid_authority ctx acct) inner reserved
        = Inr (ad_signer ad, ad_tip ad, ad_action ad, ad_ms_error ad)"
    using assms(1) by (rule admitE)
  have "balance reserved = balance acct" using *(2,4) assms(2) by (auto simp: reserve_fee_def)
  moreover have "balance (ad_signer ad) = balance reserved"
    using *(5) admit_effects [OF assms] by (auto simp: resolve_action_def split: action.splits if_splits)
  moreover have "shield_in eff = 0 \<and> deshield_out eff \<le> shielded_v2_value l \<and> fee \<le> balance acct + deshield_out eff"
    using *(1,2) assms(2)
    by (auto simp: fund_fee_def verify_direct_suite2_withdrawal_for_fee_def dest!: verified_covered
        split: if_splits action.splits sum.splits option.splits)
  ultimately show ?thesis using *(3) by (simp add: covered_def start_exec_def)
qed

lemma err_clean_run:
  assumes "admit C ctx l stx = Inr ad"
  shows "err_clean C (start_exec l ad) (run_action C ctx stx ad (start_exec l ad))"
proof (cases "ad_effects ad")
  case None
  then show ?thesis by (rule atomic.run_action_ok [rotated]) simp
next
  case (Some eff)
  obtain b where "ad_action ad = ShieldedV2 b" using admit_effects [OF assms Some] by blast
  then show ?thesis
    using err_clean_effects [OF deferred_covered [OF assms Some], of C] admit_effects [OF assms Some] Some
    by (simp add: run_action_def exec_shielded_v2_def)
qed

lemma cap_limit: "within_cap n \<Longrightarrow> m \<le> 4 * n \<Longrightarrow> m < u128_limit"
  by (simp add: within_cap_def MAX_SUPPLY_GRAINS_value u128_limit_def)

lemma start_total:
  assumes "admit C ctx l stx = Inr ad" "within_cap (native_supply l)" "pool_ok C l"
  shows "exec_total (start_exec l ad) < u128_limit"
proof (cases "ad_effects ad")
  case None
  then show ?thesis
    using admit_value [OF assms(1)] acct_value_bound [of l "tx_signer (stx_transaction stx)"]
    by (intro cap_limit [OF assms(2)]) (simp add: exec_total_def start_exec_def)
next
  case (Some eff)
  then have "ad_fee ad \<le> balance (ad_signer ad) + shielded_v2_value l"
    using deferred_covered [OF assms(1) Some] by (auto simp: covered_def start_exec_def)
  then have "ad_fee ad \<le> acct_value (ad_signer ad) + native_supply l"
    by (simp add: acct_value_split native_supply_def)
  then show ?thesis
    using admit_value [OF assms(1)] acct_value_bound [of l "tx_signer (stx_transaction stx)"] Some
    by (intro cap_limit [OF assms(2)]) (simp add: exec_total_def start_exec_def)
qed

lemma rejected_untouched:
  assumes "ledger_sound C l" "apply_transaction C ctx stx l = (l', Inl f)"
  shows "l' = l \<and> f \<noteq> Panic"
proof (cases "admit C ctx l stx")
  case (Inl e)
  then show ?thesis using assms(2) by (auto simp: apply_transaction_def)
next
  case (Inr ad)
  note sound = assms(1) [unfolded ledger_sound_def]
  obtain x r where x: "run_action C ctx stx ad (start_exec l ad) = (x, r)" by fastforce
  show ?thesis
  proof (cases r)
    case (Inl g)
    then show ?thesis
      using assms(2) Inr x err_clean_run [OF Inr] sound start_total [OF Inr]
      by (auto simp: apply_transaction_def err_clean_def start_exec_def)
  next
    case st: (Inr st)
    have "exec_total x + ad_tip ad < u128_limit"
      using run_action_total [OF Inr _ x [unfolded st]] sound acct_value_bound [of l "tx_signer (stx_transaction stx)"]
      by (intro cap_limit [of "native_supply l"]) auto
    from finish_ok [OF this, of C ctx stx st] show ?thesis
      using assms(2) Inr x st by (auto simp: apply_transaction_def)
  qed
qed

text \<open>C6. A transaction that is not mined leaves no trace: on a ledger whose escrow counters are exact,
  whose supply is within the cap and whose second pool is well formed, a rejected transaction
  returns the ledger as it was, journal included, and execution never panics.\<close>

theorem rejected_transaction_leaves_ledger:
  assumes "ledger_sound C l" "apply_transaction C ctx stx l = (l', Inl f)"
  shows "l' = l \<and> (\<exists>e. f = Reject e)"
  using rejected_untouched [OF assms] by (cases f) auto

lemma sample_sound: "ledger_sound sample_env sample_ledger"
  unfolding ledger_sound_def pool_ok_def
proof (intro conjI exI)
  show "v2_inv sample_env [] (shielded_v2 sample_ledger)"
    using v2_new_inv [of sample_env] by (simp add: sample_ledger_def ledger_new_def)
qed (simp_all add: sample_books sample_supply within_cap_def MAX_SUPPLY_GRAINS_value)

theorem rejected_transaction_leaves_ledger_witness:
  "\<exists>e. apply_transaction sample_env sample_ctx (sample_tx ''alice'' 7 (Transfer ''bob'' 100)) sample_ledger
     = (sample_ledger, Inl (Reject e))"
proof -
  have "admit sample_env sample_ctx sample_ledger (sample_tx ''alice'' 7 (Transfer ''bob'' 100)) = Inl (BadNonce 0 7)"
    by (simp add: sample_defs admission_defs account_of_def)
  then have "apply_transaction sample_env sample_ctx (sample_tx ''alice'' 7 (Transfer ''bob'' 100)) sample_ledger
     = (sample_ledger, Inl (Reject (BadNonce 0 7)))"
    by (simp add: apply_transaction_def)
  then show ?thesis using rejected_transaction_leaves_ledger [OF sample_sound] by blast
qed

end
