(* ===== verification/Rollback.thy ===== *)
theory Rollback
  imports Supply
begin

text \<open>
  Disconnecting a block.  Every arm, and so every transaction and every block, changes the ledger
  only through writes that theory \<open>Journal\<close> can undo; this holds for the transactions that are
  rejected halfway too.  The one exception is a v1 bundle that does not fit into the note
  commitment tree, so the weight of a run, the number of v1 actions it applies, is tracked.
\<close>

section \<open>Runs of writes\<close>

fun v1_weight :: "store_write \<Rightarrow> nat" where
  "v1_weight (WShieldedBundle b) = length (sb_actions b)"
| "v1_weight _ = 0"

definition written :: "'a codec_scheme \<Rightarrow> nat \<Rightarrow> ledger \<Rightarrow> ledger \<Rightarrow> bool" where
  "written C n l l' \<longleftrightarrow> (\<exists>ws. l' = fold (apply_write C) ws l \<and> sum_list (map v1_weight ws) \<le> n)"

lemma written_refl [simp]: "written C n l l"
  by (auto simp: written_def intro: exI [of _ "[]"])

lemma written_trans: "written C m l l1 \<Longrightarrow> written C n l1 l2 \<Longrightarrow> written C (m + n) l l2"
  unfolding written_def
proof (elim exE conjE)
  fix ws vs assume *: "l1 = fold (apply_write C) ws l" "sum_list (map v1_weight ws) \<le> m"
    "l2 = fold (apply_write C) vs l1" "sum_list (map v1_weight vs) \<le> n"
  show "\<exists>us. l2 = fold (apply_write C) us l \<and> sum_list (map v1_weight us) \<le> m + n"
    by (rule exI [of _ "ws @ vs"]) (use * in simp)
qed

lemma written_step: "written C (v1_weight w) l (apply_write C w l)"
  by (auto simp: written_def intro: exI [of _ "[w]"])

lemma written_apply: "v1_weight w = 0 \<Longrightarrow> written C n l l1 \<Longrightarrow> written C n l (apply_write C w l1)"
  using written_trans [of C n l l1 "v1_weight w" "apply_write C w l1"] written_step [of C w l1] by simp

lemma written_mono: "written C m l l' \<Longrightarrow> m \<le> n \<Longrightarrow> written C n l l'"
  by (auto simp: written_def)

text \<open>Each write of the ledger as an element of \<open>store_write\<close>.\<close>

lemma as_writes:
  "set_account C i a l = apply_write C (WAccount i a) l"
  "set_contract_value C i k bs l = apply_write C (WContract i k bs) l"
  "put_shielded_value C v l = apply_write C (WShieldedValue v) l"
  "put_shielded_v2_value C v l = apply_write C (WShieldedV2Value v) l"
  "set_deshield_v2_window C n v l = apply_write C (WDeshieldV2Window n v) l"
  "set_deshield_window C n v l = apply_write C (WDeshieldWindow n v) l"
  "set_oracle_price C n l = apply_write C (WOraclePrice n) l"
  "set_multisig C i m l = apply_write C (WMultisig i m) l"
  "set_proposal C h p l = apply_write C (WProposal h p) l"
  "remove_proposal C h l = apply_write C (WRemoveProposal h) l"
  "snd (remove_proposals_for C i l) = apply_write C (WRemoveProposalsFor i) l"
  "set_nft_class C h c l = apply_write C (WNftClass h c) l"
  "put_nft C h k t l = apply_write C (WNft h k t) l"
  "set_token C h ti l = apply_write C (WToken h ti) l"
  "set_token_balance C h i v l = apply_write C (WTokenBalance h i v) l"
  "set_token_policy C h pol l = apply_write C (WTokenPolicy h pol) l"
  "set_token_window C h i w l = apply_write C (WTokenWindow h i w) l"
  "consume_intent C h l = apply_write C (WConsumeIntent h) l"
  by simp_all

lemma written_writes [simp]:
  assumes "written C n l l1"
  shows "written C n l (set_account C i a l1)" "written C n l (set_contract_value C i k bs l1)"
    "written C n l (put_shielded_value C v l1)" "written C n l (put_shielded_v2_value C v l1)"
    "written C n l (set_deshield_v2_window C j v l1)" "written C n l (set_deshield_window C j v l1)"
    "written C n l (set_oracle_price C j l1)" "written C n l (set_multisig C i m l1)"
    "written C n l (set_proposal C h p l1)" "written C n l (remove_proposal C h l1)"
    "written C n l (snd (remove_proposals_for C i l1))" "written C n l (set_nft_class C h c l1)"
    "written C n l (put_nft C h k t l1)" "written C n l (set_token C h ti l1)"
    "written C n l (set_token_balance C h i v l1)" "written C n l (set_token_policy C h pol l1)"
    "written C n l (set_token_window C h i w l1)" "written C n l (consume_intent C h l1)"
    "written C n l (put_window C h i ow l1)" "written C n l (put_leg_token C g i v l1)"
    "written C n l (put_leg_window C g i ow l1)"
  by (simp_all only: as_writes put_window_def put_leg_token_def put_leg_window_def split: option.split settle_leg.split)
    (simp_all add: written_apply assms del: apply_write.simps)

lemma written_fallible:
  "lock_htlc C h t l = Some l' \<Longrightarrow> written C 0 l l'"
  "settle_htlc C h l = Some (t, l') \<Longrightarrow> written C 0 l l'"
  "set_vault C i v l = Some l' \<Longrightarrow> written C 0 l l'"
  "apply_shielded_v2 C nfs cms l = Inr l' \<Longrightarrow> written C 0 l l'"
  "add_mined_emitted C b l = Some l' \<Longrightarrow> written C 0 l l'"
  using written_step [of C "WLockHtlc h t" l] written_step [of C "WSettleHtlc h" l] written_step [of C "WVault i v" l]
    written_step [of C "WShieldedV2 nfs cms" l] written_step [of C "WMined b" l]
  by simp_all

lemma written_counters:
  "add_shielded_value C b l = Some l' \<Longrightarrow> written C 0 l l'"
  "sub_shielded_value C b l = Some l' \<Longrightarrow> written C 0 l l'"
  "add_shielded_v2_value C b l = Some l' \<Longrightarrow> written C 0 l l'"
  "sub_shielded_v2_value C b l = Some l' \<Longrightarrow> written C 0 l l'"
  "mint_nft C h k i m n l = Some l' \<Longrightarrow> written C 0 l l'"
  "transfer_nft C h k i l = Some l' \<Longrightarrow> written C 0 l l'"
  "set_nft_meta C h k m l = Some l' \<Longrightarrow> written C 0 l l'"
  "register_name C nm i n l = Some l' \<Longrightarrow> written C 0 l l'"
  "transfer_name C nm i l = Some l' \<Longrightarrow> written C 0 l l'"
  by (auto simp: add_shielded_value_def sub_shielded_value_def add_shielded_v2_value_def sub_shielded_v2_value_def
      mint_nft_def transfer_nft_def set_nft_meta_def register_name_def transfer_name_def
      split: option.splits if_splits)

lemma written_zero: "written C 0 l l' \<Longrightarrow> written C n l l'"
  by (erule written_mono) simp

lemma written_fold:
  "(\<And>y l l1. written C n l l1 \<Longrightarrow> written C n l (f y l1)) \<Longrightarrow> written C n l l1 \<Longrightarrow> written C n l (fold f ys l1)"
  by (induction ys arbitrary: l1) auto

section \<open>Arms\<close>

definition journalled :: "'a exec_env_scheme \<Rightarrow> nat \<Rightarrow> exec \<Rightarrow> arm_result \<Rightarrow> bool" where
  "journalled C n x r \<longleftrightarrow> written C n (xl x) (xl (fst r))"

lemma journalled_simps [simp]:
  "journalled C n x (succeed x') = written C n (xl x) (xl x')"
  "journalled C n x (fail_with reason x') = written C n (xl x) (xl x')"
  "journalled C n x (reject_with e x') = written C n (xl x) (xl x')"
  "journalled C n x (panic x') = written C n (xl x) (xl x')"
  "journalled C n x (x', r) = written C n (xl x) (xl x')"
  by (simp_all add: journalled_def outcome_defs)

lemmas written_dests = written_fallible written_counters

lemma journalled_plain:
  "journalled C n x (exec_claim_vesting ctx x)" "journalled C n x (exec_deploy wm x)"
  "journalled C n x (exec_rotate_key C tx hy k sg x)"
  "journalled C n x (exec_set_multisig C tx hy ks j x)"
  "journalled C n x (exec_cancel_multisig C ctx tx i h x)"
  "journalled C n x (exec_oracle_update C tx j x)"
  "journalled C n x (exec_token_set_policy C tx h p x)"
  "journalled C n x (exec_intent_cancel C tx it x)"
  "journalled C n x (exec_token_issue C tx s v to x)"
  "journalled C n x (exec_token_transfer C ctx tx h to v x)"
  "journalled C n x (exec_token_burn C ctx tx h v x)"
  unfolding exec_claim_vesting_def exec_deploy_def exec_rotate_key_def exec_set_multisig_def
    exec_cancel_multisig_def exec_oracle_update_def exec_token_set_policy_def
    exec_intent_cancel_def exec_token_issue_def exec_token_transfer_def exec_token_burn_def Let_def
  by (auto split: option.split sum.split)

lemma journalled_names:
  "journalled C n x (exec_register_name C ctx tx nm x)"
  "journalled C n x (exec_transfer_name C tx nm to x)"
  "journalled C n x (exec_nft_mint C ctx tx s t to m x)"
  "journalled C n x (exec_nft_transfer C tx h t to x)"
  "journalled C n x (exec_nft_set_meta C tx h t m x)"
  unfolding exec_register_name_def exec_transfer_name_def exec_nft_mint_def exec_nft_transfer_def
    exec_nft_set_meta_def Let_def
  by (auto dest!: written_dests intro: written_zero split: option.split sum.split)

lemma written_do_transfer: "do_transfer C l i ac j b = Inr (st, ac', l') \<Longrightarrow> written C n l l'"
  by (auto simp: do_transfer_def Let_def split: option.splits if_splits)

lemma written_proposal: "execute_proposal_action C l i a = Inr (st, l') \<Longrightarrow> written C n l l'"
  by (auto simp: execute_proposal_action_def dest!: written_do_transfer [where n = n] split: action.splits sum.splits prod.splits)

lemma written_contract: "settle_contract_token_transfers C l c cmds h = Inr l' \<Longrightarrow> written C n l l'"
  by (auto simp: settle_contract_token_transfers_def Let_def intro!: written_fold split: if_splits sum.splits)

lemma written_intent: "settle_intent_legs C l ac sol s h = Inr (ac', l') \<Longrightarrow> written C n l l'"
  by (auto simp: settle_intent_legs_def Let_def)

lemma journalled_value:
  "journalled C n x (exec_transfer C tx to v x)"
  "journalled C n x (exec_intent_settle C ctx tx s x)"
  "journalled C n x (exec_propose_multisig C ctx tx i a x)"
  "journalled C n x (exec_approve_multisig C ctx tx i h x)"
  unfolding exec_transfer_def exec_intent_settle_def exec_propose_multisig_def exec_approve_multisig_def Let_def
  by (auto dest!: written_do_transfer [where n = n] written_intent [where n = n] written_proposal [where n = n]
      split: option.split sum.split prod.split)

lemma journalled_htlc:
  "journalled C n x (exec_htlc_lock C stx to v h j x)"
  "journalled C n x (exec_htlc_claim C ctx tx h pre x)"
  "journalled C n x (exec_htlc_refund C ctx tx h x)"
  unfolding exec_htlc_lock_def exec_htlc_claim_def exec_htlc_refund_def release_htlc_def Let_def
  by (auto dest!: written_dests intro: written_zero split: option.split)

lemma written_then: "written C n l l1 \<Longrightarrow> written C 0 l1 l2 \<Longrightarrow> written C n l l2"
  using written_trans [of C n l l1 0 l2] by simp

lemma journalled_store_vault [simp]:
  "written C n (xl x) (xl y) \<Longrightarrow> journalled C n x (store_vault C tx v y)"
  by (auto simp: store_vault_def dest!: written_dests intro: written_then split: option.split)

lemma journalled_vault:
  "journalled C n x (exec_vault_deposit C tx v x)" "journalled C n x (exec_vault_withdraw C tx v x)"
  "journalled C n x (exec_vault_mint C tx v x)" "journalled C n x (exec_vault_burn C tx v x)"
  unfolding exec_vault_deposit_def exec_vault_withdraw_def exec_vault_mint_def exec_vault_burn_def Let_def
  by (auto split: option.split)

lemma journalled_call: "journalled C n x (exec_call C ctx tx c g d x)"
  unfolding exec_call_def Let_def
  by (auto dest!: written_contract [where n = n] intro!: written_fold
      simp del: checked_mul_Some split: option.split sum.split vm_error.split prod.split)

lemma written_bundle:
  assumes "apply_shielded_bundle C b l = (l', r)" "length (tree (shielded l)) + length (sb_actions b) \<le> ORCHARD_CAPACITY"
  shows "written C (length (sb_actions b)) l l'"
proof -
  obtain s res where s: "apply_bundle C b (shielded l) = (s, res)" by force
  show ?thesis
  proof (cases res)
    case (Inr u)
    then have "l' = apply_write C (WShieldedBundle b) l" using assms(1) s by (auto simp: apply_shielded_bundle_def)
    then show ?thesis using written_step [of C "WShieldedBundle b" l] by simp
  next
    case (Inl e)
    have "e = DoubleSpend" using apply_bundle_full [of C b "shielded l"] s Inl assms(2) by (cases e) auto
    then have "s = shielded l" using apply_bundle_double [of C b "shielded l"] s Inl by simp
    then have "l' = l" using assms(1) s Inl by (auto simp: apply_shielded_bundle_def)
    then show ?thesis by simp
  qed
qed

lemma journalled_move: "written C n (xl x) (xl y) \<Longrightarrow> journalled C n x (move_shielded C vb mag w y)"
  unfolding move_shielded_def Let_def
  by (auto dest!: written_dests intro: written_then split: option.split prod.split)

lemma journalled_shielded:
  assumes "\<And>sb. decode_shielded C b = Some sb \<Longrightarrow> length (sb_actions sb) \<le> n"
    and "length (tree (shielded (xl x))) + n \<le> ORCHARD_CAPACITY"
  shows "journalled C n x (exec_shielded C ctx tx b x)"
proof -
  have w: "written C n (xl x) l'" if "decode_shielded C b = Some sb" "apply_shielded_bundle C sb (xl x) = (l', r)" for sb l' r
    using written_bundle [OF that(2)] assms(1) [OF that(1)] assms(2) by (auto intro: written_mono)
  show ?thesis
    unfolding exec_shielded_def Let_def
    by (auto intro!: journalled_move dest: w split: option.split prod.split sum.split)
qed

lemma written_shield_in: "written C n (xl x) (xl (fst (apply_shield_in C v x)))"
  unfolding apply_shield_in_def Let_def
  by (auto dest!: written_dests intro: written_zero split: option.split)

lemma journalled_deshield_out:
  "written C n (xl x) (xl y) \<Longrightarrow> journalled C n x (apply_deshield_out C v d w y)"
  unfolding apply_deshield_out_def Let_def
  by (auto dest!: written_dests intro: written_then split: option.split)

lemma journalled_v2_effects: "journalled C n x (apply_v2_effects C eff d x)"
proof (cases "apply_shielded_v2 C (eff_nullifiers eff) (eff_commitments eff) (xl x)")
  case (Inr l)
  obtain y r where y: "apply_shield_in C (shield_in eff) (x\<lparr>xl := l\<rparr>) = (y, r)" by force
  have "written C 0 (xl x) l" using Inr by (rule written_fallible(4))
  moreover have "written C 0 l (xl y)" using written_shield_in [of C 0 "x\<lparr>xl := l\<rparr>" "shield_in eff"] y by simp
  ultimately have "written C n (xl x) (xl y)" using written_then [of C 0] written_zero by blast
  then show ?thesis
    using journalled_deshield_out Inr y by (auto simp: apply_v2_effects_def split: sum.split)
qed (auto simp: apply_v2_effects_def split: v2_state_error.split)

lemma journalled_shielded_v2: "journalled C n x (exec_shielded_v2 C ctx tx eff fee b x)"
  unfolding exec_shielded_v2_def by (auto simp: journalled_v2_effects split: option.split sum.split)

lemma tree_add_commitments: "length (tree (fst (add_commitments C cs s))) \<le> length (tree s) + length cs"
proof (induction cs arbitrary: s)
  case (Cons c cs)
  have "length (tree (fst (add_commitment C c s))) \<le> Suc (length (tree s))"
    by (simp add: add_commitment_def Let_def)
  with Cons [of "fst (add_commitment C c s)"] show ?case by (auto split: prod.split sum.split)
qed simp

lemma tree_bundle: "length (tree (fst (apply_bundle C b s))) \<le> length (tree s) + length (sb_actions b)"
  using tree_add_commitments [of C "sb_note_commitments b" "s\<lparr>nullifiers := fold bs_insert (sb_nullifiers b) (nullifiers s)\<rparr>"]
  by (simp add: apply_bundle_def Let_def sb_note_commitments_def)

lemma tree_write: "length (tree (shielded (apply_write C w l))) \<le> length (tree (shielded l)) + v1_weight w"
proof -
  have pol: "shielded (set_token_policy C a p l) = shielded l" for a p
    using set_token_policy_shape [of C a p l] by auto
  have rp: "shielded (snd (remove_proposals_for C i l)) = shielded l" for i
    by (simp add: remove_proposals_for_def Let_def drop_proposals commit_defs)
  show ?thesis
  proof (cases w)
    case (WShieldedBundle b)
    then show ?thesis
      using tree_bundle [of C b "shielded l"]
      by (auto simp: apply_shielded_bundle_def commit_defs Let_def split: prod.splits sum.splits)
  next
    case (WTokenPolicy a p) then show ?thesis using pol by simp
  next
    case (WRemoveProposalsFor i) then show ?thesis using rp by simp
  qed (simp_all add: write_defs commit_defs Let_def lock_htlc_def settle_htlc_def set_vault_def
        add_mined_emitted_def apply_shielded_v2_def split: option.split sum.split prod.split)
qed

lemma tree_written: "written C n l l' \<Longrightarrow> length (tree (shielded l')) \<le> length (tree (shielded l)) + n"
proof -
  have "length (tree (shielded (fold (apply_write C) ws l))) \<le> length (tree (shielded l)) + sum_list (map v1_weight ws)" for ws
  proof (induction ws arbitrary: l)
    case (Cons w ws)
    show ?case using Cons [of "apply_write C w l"] tree_write [of C w l] by simp
  qed simp
  then show "written C n l l' \<Longrightarrow> ?thesis" by (fastforce simp: written_def intro: order_trans)
qed

section \<open>Transactions and blocks\<close>

definition bundles_bounded :: "'a exec_env_scheme \<Rightarrow> nat \<Rightarrow> bool" where
  "bundles_bounded C n \<longleftrightarrow> (\<forall>b sb. decode_shielded C b = Some sb \<longrightarrow> length (sb_actions sb) \<le> n)"

definition journals_arm :: "'a exec_env_scheme \<Rightarrow> nat \<Rightarrow> exec \<Rightarrow> arm_result \<Rightarrow> bool" where
  "journals_arm C n x r \<longleftrightarrow> (bundles_bounded C n \<and> length (tree (shielded (xl x))) + n \<le> ORCHARD_CAPACITY
     \<longrightarrow> journalled C n x r)"

lemma journals_shielded: "journals_arm C n x (exec_shielded C ctx tx b x)"
  unfolding journals_arm_def bundles_bounded_def using journalled_shielded by blast

interpretation undoable: dispatch_contract C ctx stx "\<lambda>_. True" "journals_arm C n"
  by unfold_locales
    (simp_all add: journals_shielded, simp_all add: journals_arm_def journalled_plain journalled_names journalled_value
      journalled_htlc journalled_vault journalled_call journalled_shielded_v2)

lemma written_run_action:
  assumes "bundles_bounded C n" "length (tree (shielded (xl x))) + n \<le> ORCHARD_CAPACITY"
    and "admit C ctx l stx = Inr ad"
  shows "written C n (xl x) (xl (fst (run_action C ctx stx ad x)))"
proof (cases "ad_effects ad")
  case None
  then show ?thesis
    using undoable.run_action_ok [where C = C and ctx = ctx and stx = stx and n = n and x = x, OF TrueI None] assms(1,2)
    by (simp add: journals_arm_def journalled_def)
next
  case (Some eff)
  obtain b where "ad_action ad = ShieldedV2 b" using admit_effects [OF assms(3) Some] by blast
  then show ?thesis
    using journalled_shielded_v2 [of C n x ctx "stx_transaction stx"] admit_effects [OF assms(3) Some]
    by (simp add: run_action_def journalled_def)
qed

lemma written_credit: "credit C l i v = Inr l' \<Longrightarrow> written C n l l'"
  by (auto simp: credit_def Let_def split: if_splits option.splits)

lemma written_finish:
  assumes "finish C ctx stx ad x st = (l', r)"
  shows "written C 0 (xl x) l'"
proof -
  let ?l = "set_account C (tx_signer (stx_transaction stx)) (xs x) (xl x)"
  have s: "written C 0 (xl x) ?l" by simp
  have "written C 0 ?l l'"
    using assms
    by (auto simp: finish_def distribute_fee_def Let_def dest!: written_credit [where n = 0]
        intro: written_then split: sum.splits)
  with s show ?thesis by (rule written_then)
qed

lemma written_transaction:
  assumes "bundles_bounded C n" "length (tree (shielded l)) + n \<le> ORCHARD_CAPACITY"
    and "apply_transaction C ctx stx l = (l', r)"
  shows "written C n l l'"
proof (cases "admit C ctx l stx")
  case (Inr ad)
  obtain x res where x: "run_action C ctx stx ad (start_exec l ad) = (x, res)" by force
  have "written C n l (xl x)"
    using written_run_action [OF assms(1) _ Inr, of "start_exec l ad"] assms(2) x by (simp add: start_exec_def)
  then show ?thesis
    using assms(3) Inr x
    by (auto simp: apply_transaction_def dest!: written_finish intro: written_then split: sum.splits)
qed (use assms in \<open>simp add: apply_transaction_def\<close>)

lemma written_transactions:
  assumes "bundles_bounded C n" "length (tree (shielded l)) + n * length stxs \<le> ORCHARD_CAPACITY"
    and "apply_transactions_from C ctx i stxs l = (l', r)"
  shows "written C (n * length stxs) l l'"
  using assms(2,3)
proof (induction stxs arbitrary: i l l' r)
  case (Cons stx stxs)
  obtain l1 r1 where 1: "apply_transaction C ctx stx l = (l1, r1)" by force
  have w: "written C n l l1" using written_transaction [OF assms(1) _ 1] Cons.prems(1) by simp
  show ?case
  proof (cases r1)
    case (Inl f)
    then show ?thesis using Cons.prems(2) 1 w by (auto intro: written_mono)
  next
    case (Inr rc)
    obtain l2 r2 where 2: "apply_transactions_from C ctx (Suc i) stxs l1 = (l2, r2)" by force
    have "written C (n * length stxs) l1 l2"
      using Cons.IH [OF _ 2] tree_written [OF w] Cons.prems(1) by simp
    moreover have "l' = l2" using Cons.prems(2) 1 2 Inr by (auto split: sum.splits)
    ultimately show ?thesis using written_trans [OF w] by simp
  qed
qed simp

lemma written_coinbase: "apply_coinbase C ctx l = (l', r) \<Longrightarrow> written C 0 l l'"
  by (auto simp: apply_coinbase_def Let_def dest!: written_credit [where n = 0] written_fallible(5)
      intro: written_then split: if_splits sum.splits option.splits)

text \<open>The coinbase and then the transactions, as \<open>execute_block_on\<close> runs them.\<close>

definition run_block ::
  "'a exec_env_scheme \<Rightarrow> block_context \<Rightarrow> signed_transaction list \<Rightarrow> ledger \<Rightarrow> ledger \<times> (block_failure + receipt list)" where
  "run_block C ctx stxs l = (case apply_coinbase C ctx l of
      (l, Inl e) \<Rightarrow> (l, Inl (BlockReject e))
    | (l, Inr _) \<Rightarrow> apply_transactions C ctx stxs l)"

lemma written_run_block:
  assumes "bundles_bounded C n" "length (tree (shielded l)) + n * length stxs \<le> ORCHARD_CAPACITY"
    and "run_block C ctx stxs l = (l', r)"
  shows "written C (n * length stxs) l l'"
proof -
  obtain l1 r1 where 1: "apply_coinbase C ctx l = (l1, r1)" by force
  note w = written_coinbase [OF 1]
  show ?thesis
  proof (cases r1)
    case (Inl e)
    then show ?thesis using assms(3) 1 w by (auto simp: run_block_def intro: written_zero)
  next
    case (Inr v)
    then have "written C (n * length stxs) l1 l'"
      using written_transactions [OF assms(1), of l1] tree_written [OF w] assms(2,3) 1
      by (simp add: run_block_def apply_transactions_def)
    then show ?thesis using written_trans [OF w] by simp
  qed
qed

lemma ledger_clean_written: "written C n l l' \<Longrightarrow> ledger_clean l \<Longrightarrow> ledger_clean l'"
  by (auto simp: written_def lj.ok_run)

text \<open>C4. Undoing a block restores the ledger.  Run the coinbase and the transactions of a block after
  \<open>begin_undo\<close>, whether the block is accepted, rejected at some transaction or panics there; then
  \<open>apply_undo\<close> on the journal restores every store and counter of the ledger.  The commitment tree
  of the first shielded pool must have room for the block's v1 actions, with at most \<open>n\<close> actions in
  a bundle.\<close>

theorem block_rollback_restores:
  assumes "ledger_clean l" "bundles_bounded C n"
    and "length (tree (shielded l)) + n * length stxs \<le> ORCHARD_CAPACITY"
    and "run_block C ctx stxs (begin_undo l) = (l', r)"
  shows "strip (apply_undo C (fst (take_undo l')) (snd (take_undo l'))) = strip l"
proof -
  have "written C (n * length stxs) (begin_undo l) l'"
    using written_run_block [OF assms(2) _ assms(4)] assms(3) by (simp add: begin_undo_def)
  then show ?thesis using undo_block [OF assms(1)] by (auto simp: written_def)
qed

theorem block_rollback_restores_witness:
  "let l' = fst (run_block sample_env sample_ctx [sample_tx ''alice'' 0 (Transfer ''bob'' 100)] (begin_undo sample_ledger))
   in strip (apply_undo sample_env (fst (take_undo l')) (snd (take_undo l'))) = strip sample_ledger"
proof -
  have "ledger_clean sample_ledger"
    by (auto simp: ledger_clean_def sample_ledger_def ledger_new_def sample_account_def account_default_def)
  moreover have "bundles_bounded sample_env 0" by (simp add: bundles_bounded_def sample_env_def)
  moreover have "tree (shielded sample_ledger) = []" by (simp add: sample_ledger_def ledger_new_def shielded_new_def)
  ultimately show ?thesis
    using block_rollback_restores [of sample_ledger sample_env 0, OF _ _ _ prod.collapse [symmetric]]
    by (simp add: Let_def)
qed

end
