(* ===== verification/Pool.thy ===== *)
theory Pool
  imports Atomicity Rollback
begin

text \<open>
  The second shielded pool under the runtime: a transaction either leaves the pool as it was or
  changes it by one accepted \<open>v2_apply\<close>.  With the supply and escrow invariants this closes the
  invariant \<open>ledger_sound\<close> under blocks, so that no block drives execution into a panic.
\<close>

section \<open>Writes that leave the pool alone\<close>

lemma pool_commit [simp]:
  "shielded_v2 (commit C sl ov l) = shielded_v2 l" "shielded_v2 (record_op e l) = shielded_v2 l"
  "shielded_v2 (commit_counter C nm v l) = shielded_v2 l" "shielded_v2 (recommit_htlcs C l) = shielded_v2 l"
  "shielded_v2 (recommit_vaults C l) = shielded_v2 l"
  by (simp_all add: commit_defs Let_def)

lemma pool_writes [simp]:
  "shielded_v2 (set_contract_value C c k bs l) = shielded_v2 l"
  "shielded_v2 (fst (apply_shielded_bundle C b l)) = shielded_v2 l"
  "shielded_v2 (set_deshield_v2_window C n v l) = shielded_v2 l"
  "shielded_v2 (set_deshield_window C n v l) = shielded_v2 l"
  "shielded_v2 (set_oracle_price C n l) = shielded_v2 l"
  "shielded_v2 (set_multisig C i m l) = shielded_v2 l"
  "shielded_v2 (set_proposal C h p l) = shielded_v2 l"
  "shielded_v2 (remove_proposal C h l) = shielded_v2 l"
  "shielded_v2 (set_nft_class C h c' l) = shielded_v2 l"
  "shielded_v2 (put_nft C h bs t l) = shielded_v2 l"
  "shielded_v2 (set_token C h ti l) = shielded_v2 l"
  "shielded_v2 (set_token_balance C h i v l) = shielded_v2 l"
  "shielded_v2 (set_token_window C h i w l) = shielded_v2 l"
  "shielded_v2 (consume_intent C h l) = shielded_v2 l"
  "shielded_v2 (set_account C i a l) = shielded_v2 l"
  "shielded_v2 (put_shielded_value C v l) = shielded_v2 l"
  "shielded_v2 (put_shielded_v2_value C v l) = shielded_v2 l"
  by (simp_all add: write_defs commit_defs Let_def apply_shielded_bundle_def put_shielded_value_def
        put_shielded_v2_value_def set_account_def split: prod.splits sum.splits)

lemma pool_policy [simp]: "shielded_v2 (set_token_policy C a p l) = shielded_v2 l"
  using set_token_policy_shape [of C a p l] by auto

lemma pool_proposals [simp]: "shielded_v2 (snd (remove_proposals_for C i l)) = shielded_v2 l"
  by (simp add: remove_proposals_for_def Let_def drop_proposals commit_defs)

lemma pool_window [simp]: "shielded_v2 (put_window C a i w l) = shielded_v2 l"
  by (simp add: put_window_def split: option.split)

lemma pool_fold: "(\<And>y l. y \<in> set ys \<Longrightarrow> shielded_v2 (f y l) = shielded_v2 l) \<Longrightarrow> shielded_v2 (fold f ys l) = shielded_v2 l"
  by (induction ys arbitrary: l) simp_all

lemma pool_legs [simp]:
  "shielded_v2 (put_leg_token C g i v l) = shielded_v2 l" "shielded_v2 (put_leg_window C g i w l) = shielded_v2 l"
  by (simp_all add: put_leg_token_def put_leg_window_def split: settle_leg.split)

lemma pool_counters:
  "lock_htlc C h t l = Some l' \<Longrightarrow> shielded_v2 l' = shielded_v2 l"
  "settle_htlc C h l = Some (t, l') \<Longrightarrow> shielded_v2 l' = shielded_v2 l"
  "set_vault C j v l = Some l' \<Longrightarrow> shielded_v2 l' = shielded_v2 l"
  "add_shielded_value C u l = Some l' \<Longrightarrow> shielded_v2 l' = shielded_v2 l"
  "sub_shielded_value C u l = Some l' \<Longrightarrow> shielded_v2 l' = shielded_v2 l"
  "add_shielded_v2_value C u l = Some l' \<Longrightarrow> shielded_v2 l' = shielded_v2 l"
  "sub_shielded_v2_value C u l = Some l' \<Longrightarrow> shielded_v2 l' = shielded_v2 l"
  by (auto simp: lock_htlc_def settle_htlc_def set_vault_def add_shielded_value_def sub_shielded_value_def
      add_shielded_v2_value_def sub_shielded_v2_value_def Let_def split: if_splits option.splits)

lemma pool_nft:
  "mint_nft C h t to m n l = Some l' \<Longrightarrow> shielded_v2 l' = shielded_v2 l"
  "transfer_nft C h t to l = Some l' \<Longrightarrow> shielded_v2 l' = shielded_v2 l"
  "set_nft_meta C h t m l = Some l' \<Longrightarrow> shielded_v2 l' = shielded_v2 l"
  "register_name C nm to n l = Some l' \<Longrightarrow> shielded_v2 l' = shielded_v2 l"
  "transfer_name C nm to l = Some l' \<Longrightarrow> shielded_v2 l' = shielded_v2 l"
  by (auto simp: mint_nft_def transfer_nft_def set_nft_meta_def register_name_def transfer_name_def
      split: if_splits option.splits)

lemma pool_transfer: "do_transfer C l i a to v = Inr (st, a', l') \<Longrightarrow> shielded_v2 l' = shielded_v2 l"
  by (auto simp: do_transfer_def Let_def split: option.splits if_splits)

lemma pool_proposal: "execute_proposal_action C l i a = Inr (st, l') \<Longrightarrow> shielded_v2 l' = shielded_v2 l"
  by (cases a) (auto simp: execute_proposal_action_def dest!: pool_transfer split: sum.splits prod.splits)

lemma pool_contract: "settle_contract_token_transfers C l c cmds h = Inr l' \<Longrightarrow> shielded_v2 l' = shielded_v2 l"
  by (auto simp: settle_contract_token_transfers_def Let_def pool_fold case_prod_unfold split: if_splits sum.splits)

lemma pool_storage: "shielded_v2 (fold (\<lambda>(k, v). set_contract_value C c k v) kvs l) = shielded_v2 l"
  by (simp add: pool_fold case_prod_unfold)

lemma pool_intent: "settle_intent_legs C l a sol s h = Inr (a', l') \<Longrightarrow> shielded_v2 l' = shielded_v2 l"
  by (auto simp: settle_intent_legs_def Let_def or_fail_def split: sum.splits)

lemma pool_bundle: "apply_shielded_bundle C b l = (l', r) \<Longrightarrow> shielded_v2 l' = shielded_v2 l"
  using pool_writes(2) [of C b l] by simp

section \<open>Arms\<close>

definition pool_step :: "'a pool_prims_scheme \<Rightarrow> exec \<Rightarrow> exec \<Rightarrow> bool" where
  "pool_step C x x' \<longleftrightarrow> shielded_v2 (xl x') = shielded_v2 (xl x)
     \<or> (\<exists>nfs cms. v2_apply C nfs cms (shielded_v2 (xl x)) = Inr (shielded_v2 (xl x')))"

lemma pool_step_same [simp]: "shielded_v2 (xl x') = shielded_v2 (xl x) \<Longrightarrow> pool_step C x x'"
  by (simp add: pool_step_def)

lemma pool_plain:
  "when_ok (pool_step D) x (exec_token_issue C tx s v to x)"
  "when_ok (pool_step D) x (exec_token_transfer C ctx tx a to v x)"
  "when_ok (pool_step D) x (exec_token_burn C ctx tx a v x)"
  "when_ok (pool_step D) x (exec_token_set_policy C tx a p x)"
  "when_ok (pool_step D) x (exec_intent_cancel C tx it x)"
  "when_ok (pool_step D) x (exec_intent_settle C ctx tx sm x)"
  "when_ok (pool_step D) x (exec_transfer C tx to v x)"
  "when_ok (pool_step D) x (exec_claim_vesting ctx x)" "when_ok (pool_step D) x (exec_deploy wm x)"
  "when_ok (pool_step D) x (exec_rotate_key C tx hy k sg x)"
  "when_ok (pool_step D) x (exec_set_multisig C tx hy ks n x)"
  "when_ok (pool_step D) x (exec_cancel_multisig C ctx tx j h x)"
  "when_ok (pool_step D) x (exec_oracle_update C tx n x)"
  "when_ok (pool_step D) x (exec_register_name C ctx tx nm x)"
  "when_ok (pool_step D) x (exec_transfer_name C tx nm to x)"
  "when_ok (pool_step D) x (exec_nft_mint C ctx tx s t to m x)"
  "when_ok (pool_step D) x (exec_nft_transfer C tx h t to x)"
  "when_ok (pool_step D) x (exec_nft_set_meta C tx h t m x)"
  unfolding exec_claim_vesting_def exec_deploy_def exec_rotate_key_def exec_set_multisig_def exec_transfer_def
    exec_cancel_multisig_def exec_oracle_update_def exec_register_name_def exec_transfer_name_def
    exec_nft_mint_def exec_nft_transfer_def exec_nft_set_meta_def exec_token_issue_def exec_intent_settle_def
    exec_token_transfer_def exec_token_burn_def exec_token_set_policy_def exec_intent_cancel_def Let_def
  by (auto intro!: pool_step_same dest!: pool_nft pool_transfer pool_intent split: option.split sum.split prod.split)

lemma pool_value:
  "when_ok (pool_step D) x (exec_htlc_lock C stx to v h n x)"
  "when_ok (pool_step D) x (exec_htlc_claim C ctx tx h pre x)"
  "when_ok (pool_step D) x (exec_htlc_refund C ctx tx h x)"
  "when_ok (pool_step D) x (exec_vault_deposit C tx v x)" "when_ok (pool_step D) x (exec_vault_withdraw C tx v x)"
  "when_ok (pool_step D) x (exec_vault_mint C tx v x)" "when_ok (pool_step D) x (exec_vault_burn C tx v x)"
  "when_ok (pool_step D) x (exec_propose_multisig C ctx tx j a x)"
  "when_ok (pool_step D) x (exec_approve_multisig C ctx tx j h x)"
  unfolding exec_htlc_lock_def exec_htlc_claim_def exec_htlc_refund_def release_htlc_def exec_vault_deposit_def
    exec_vault_withdraw_def exec_vault_mint_def exec_vault_burn_def store_vault_def exec_propose_multisig_def
    exec_approve_multisig_def Let_def
  by (auto intro!: pool_step_same dest!: pool_counters pool_proposal split: option.split sum.split prod.split)

lemma pool_moves:
  "move_shielded C vb mag w x = (x', Inr st) \<Longrightarrow> shielded_v2 (xl x') = shielded_v2 (xl x)"
  "apply_shield_in C v x = (x', Inr ()) \<Longrightarrow> shielded_v2 (xl x') = shielded_v2 (xl x)"
  "apply_deshield_out C v d w x = (x', Inr st) \<Longrightarrow> shielded_v2 (xl x') = shielded_v2 (xl x)"
  unfolding move_shielded_def apply_shield_in_def apply_deshield_out_def Let_def outcome_defs
  by (auto dest!: pool_counters split: option.splits if_splits prod.splits)

lemma pool_call: "when_ok (pool_step D) x (exec_call C ctx tx c g d x)"
  unfolding exec_call_def
  by (auto intro!: pool_step_same dest!: pool_contract simp: Let_def pool_storage
      simp del: checked_mul_Some split: option.split sum.split vm_error.split prod.split)

lemma pool_shielded: "when_ok (pool_step D) x (exec_shielded C ctx tx b x)"
proof -
  have m: "when_ok (pool_step D) x (move_shielded C vb mag w (x\<lparr>xl := l\<rparr>))"
    if "shielded_v2 l = shielded_v2 (xl x)" for vb mag w l
    by (rule when_okI) (use that in \<open>auto dest!: pool_moves\<close>)
  show ?thesis
    unfolding exec_shielded_def Let_def
    by (auto intro!: m pool_step_same dest!: pool_bundle split: option.split prod.split sum.split)
qed

lemma pool_effects: "when_ok (pool_step C) x (apply_v2_effects C eff d x)"
proof (rule when_okI)
  fix x' st assume "apply_v2_effects C eff d x = (x', Inr st)"
  then obtain l x1 where l: "apply_shielded_v2 C (eff_nullifiers eff) (eff_commitments eff) (xl x) = Inr l"
    and x1: "apply_shield_in C (shield_in eff) (x\<lparr>xl := l\<rparr>) = (x1, Inr ())"
    and x': "apply_deshield_out C (deshield_out eff) d (window_update eff) x1 = (x', Inr st)"
    by (auto simp: apply_v2_effects_def outcome_defs split: sum.splits prod.splits v2_state_error.splits)
  have "v2_apply C (eff_nullifiers eff) (eff_commitments eff) (shielded_v2 (xl x)) = Inr (shielded_v2 l)"
    using l by (auto simp: apply_shielded_v2_def commit_defs Let_def split: sum.splits)
  then show "pool_step C x x'"
    using pool_moves(2) [OF x1] pool_moves(3) [OF x'] by (auto simp: pool_step_def)
qed

lemma pool_shielded_v2: "when_ok (pool_step C) x (exec_shielded_v2 C ctx tx eff fee b x)"
  unfolding exec_shielded_v2_def by (auto simp: pool_effects split: option.split sum.split)

interpretation pool: dispatch_contract C ctx stx "\<lambda>_. True" "when_ok (pool_step C)"
  by unfold_locales
    (simp_all add: pool_shielded_v2 pool_plain pool_value pool_call pool_shielded,
     simp add: when_ok_def split: sum.split)

section \<open>Transactions and blocks\<close>

lemma pool_credit: "credit C l i v = Inr l' \<Longrightarrow> shielded_v2 l' = shielded_v2 l"
  by (auto simp: credit_def Let_def split: if_splits option.splits)

lemma pool_finish: "finish C ctx stx ad x st = (l', Inr r) \<Longrightarrow> shielded_v2 l' = shielded_v2 (xl x)"
  by (auto simp: finish_def Let_def distribute_fee_def dest!: pool_credit split: sum.splits)

lemma pool_transaction:
  assumes "apply_transaction C ctx stx l = (l', Inr r)"
  shows "shielded_v2 l' = shielded_v2 l \<or> (\<exists>nfs cms. v2_apply C nfs cms (shielded_v2 l) = Inr (shielded_v2 l'))"
  using assms
proof (rule apply_transactionE)
  fix ad x st
  assume *: "admit C ctx l stx = Inr ad" "run_action C ctx stx ad (start_exec l ad) = (x, Inr st)"
    "finish C ctx stx ad x st = (l', Inr r)"
  have "when_ok (pool_step C) (start_exec l ad) (run_action C ctx stx ad (start_exec l ad))"
  proof (cases "ad_effects ad")
    case (Some eff)
    then obtain b where "ad_action ad = ShieldedV2 b" using admit_effects [OF *(1) Some] by blast
    then show ?thesis
      using pool_shielded_v2 [of C "start_exec l ad"] admit_effects [OF *(1) Some] by (simp add: run_action_def)
  qed (simp add: pool.run_action_ok)
  from when_okD [OF this *(2)] pool_finish [OF *(3)] show ?thesis by (simp add: pool_step_def start_exec_def)
qed

lemma pool_ok_transaction:
  assumes "apply_transaction C ctx stx l = (l', Inr r)" "pool_ok C l"
  shows "pool_ok C l'"
  using pool_transaction [OF assms(1)] assms(2) v2_apply_inv(1) unfolding pool_ok_def by metis

lemma sound_transaction:
  assumes "ledger_sound C l" "apply_transaction C ctx stx l = (l', Inr r)"
    and "proposal_free (tx_action (stx_transaction stx))"
  shows "ledger_sound C l'"
  using assms transaction_conserves [OF _ assms(2)] pool_ok_transaction [OF assms(2)]
  by (simp add: ledger_sound_def)

lemma sound_transactions:
  assumes "ledger_sound C l" "apply_transactions_from C ctx i stxs l = (l', r)"
    and "list_all (\<lambda>stx. proposal_free (tx_action (stx_transaction stx))) stxs"
  shows "ledger_sound C l' \<and> r \<noteq> Inl BlockPanic"
  using assms
proof (induction stxs arbitrary: i l l' r)
  case (Cons stx stxs)
  obtain l1 r1 where 1: "apply_transaction C ctx stx l = (l1, r1)" by fastforce
  show ?case
  proof (cases r1)
    case (Inl f)
    then show ?thesis
      using Cons.prems 1 rejected_untouched [OF Cons.prems(1)]
      by (cases f) (auto simp: block_failure_of_def)
  next
    case (Inr rc)
    obtain l2 r2 where 2: "apply_transactions_from C ctx (Suc i) stxs l1 = (l2, r2)" by fastforce
    have "ledger_sound C l1" using sound_transaction [OF Cons.prems(1)] 1 Inr Cons.prems(3) by simp
    from Cons.IH [OF this 2] show ?thesis
      using Cons.prems(2,3) 1 Inr 2 by (auto split: sum.splits)
  qed
qed simp

lemma coinbase_ok:
  assumes "ledger_sound C l" "native_supply l = premine + mined_emitted l"
    and "mined_emitted l \<le> mining_budget_grains (bc_mining ctx)"
    and "premine + mining_budget_grains (bc_mining ctx) \<le> MAX_SUPPLY_GRAINS"
  shows "\<exists>l' reward. apply_coinbase C ctx l = (l', Inr reward) \<and> ledger_sound C l'
    \<and> mined_emitted l' \<le> mining_budget_grains (bc_mining ctx) \<and> native_supply l' = premine + mined_emitted l'"
proof -
  let ?r = "reward_at (bc_mining ctx) (bc_height ctx) (mined_emitted l)"
  have r: "mined_emitted l + ?r \<le> mining_budget_grains (bc_mining ctx)"
    using reward_at_le_remaining [OF assms(3), of "bc_height ctx"] assms(3) by simp
  then have cap: "within_cap (native_supply l + ?r)" using assms(2,4) by (simp add: within_cap_def)
  obtain l1 where l1: "credit C l (bc_miner ctx) ?r = Inr l1"
    using credit_ok cap_limit [OF cap, of "native_supply l + ?r"] by force
  moreover have "mined_emitted l1 + ?r < u128_limit"
    using credit_money [OF l1] assms(2) cap_limit [OF cap, of "mined_emitted l + ?r"] by simp
  then obtain l2 where l2: "add_mined_emitted C ?r l1 = Some l2"
    by (auto simp: add_mined_emitted_def split: option.split)
  have "shielded_v2 l2 = shielded_v2 l1"
    using l2 by (auto simp: add_mined_emitted_def split: option.splits)
  then have pool: "pool_ok C l2"
    using assms(1) pool_credit [OF l1] by (simp add: ledger_sound_def pool_ok_def)
  show ?thesis
  proof (cases "?r = 0")
    case True
    then show ?thesis using assms by (simp add: apply_coinbase_def)
  next
    case False
    then have c: "apply_coinbase C ctx l = (l2, Inr ?r)" by (simp add: apply_coinbase_def l1 l2)
    from coinbase_money [OF this] show ?thesis
      using c pool r cap assms(1,2) by (simp add: ledger_sound_def)
  qed
qed

lemma transactions_results:
  assumes "apply_transactions_from C ctx j stxs l = (l', r)"
  shows "(\<exists>rs. r = Inr rs) \<or> r = Inl BlockPanic
    \<or> (\<exists>i<j + length stxs. \<exists>e. r = Inl (BlockReject (InvalidTransaction i e)))"
  using assms
proof (induction stxs arbitrary: j l l' r)
  case (Cons stx stxs)
  obtain l1 r1 where 1: "apply_transaction C ctx stx l = (l1, r1)" by fastforce
  show ?case
  proof (cases r1)
    case (Inl f)
    then show ?thesis using Cons.prems 1 by (cases f) (auto simp: block_failure_of_def)
  next
    case (Inr rc)
    obtain l2 r2 where 2: "apply_transactions_from C ctx (Suc j) stxs l1 = (l2, r2)" by fastforce
    from Cons.IH [OF this] show ?thesis using Cons.prems 1 Inr 2 by (cases r2) auto
  qed
qed simp

text \<open>C5. Soundness of a ledger is kept by every block without multisig proposals and approvals, accepted
  or rejected midway: the escrow counters are exact, the supply is within the cap and the second
  pool is well formed.  If moreover the supply so far is the premine plus the emission, the emission
  is within the mining budget, and the premine and the budget fit beneath the cap together, then the
  coinbase never fails and no transaction panics, so such a block is rejected only because one of
  its transactions is.  Proposals have to be excluded because they can destroy and create value.\<close>

theorem block_keeps_ledger_sound:
  assumes "ledger_sound C l" "native_supply l = premine + mined_emitted l"
    and "mined_emitted l \<le> mining_budget_grains (bc_mining ctx)"
    and "premine + mining_budget_grains (bc_mining ctx) \<le> MAX_SUPPLY_GRAINS"
    and "list_all (\<lambda>stx. proposal_free (tx_action (stx_transaction stx))) stxs"
    and "run_block C ctx stxs l = (l', r)"
  shows "ledger_sound C l'
    \<and> ((\<exists>rs. r = Inr rs) \<or> (\<exists>i e. i < length stxs \<and> r = Inl (BlockReject (InvalidTransaction i e))))"
proof -
  obtain l1 reward where c: "apply_coinbase C ctx l = (l1, Inr reward)" "ledger_sound C l1"
    using coinbase_ok [OF assms(1-4)] by blast
  then have t: "apply_transactions_from C ctx 0 stxs l1 = (l', r)"
    using assms(6) by (simp add: run_block_def apply_transactions_def)
  from transactions_results [OF t] sound_transactions [OF c(2) t assms(5)] show ?thesis by auto
qed

theorem block_keeps_ledger_sound_witness:
  "ledger_sound sample_env (fst (run_block sample_env sample_ctx [sample_tx ''alice'' 0 (Transfer ''bob'' 100)] sample_ledger))"
  using block_keeps_ledger_sound [OF sample_sound, of 1105000 sample_ctx "[sample_tx ''alice'' 0 (Transfer ''bob'' 100)]"]
  by (cases "run_block sample_env sample_ctx [sample_tx ''alice'' 0 (Transfer ''bob'' 100)] sample_ledger")
    (simp add: sample_supply sample_mining_def MAX_SUPPLY_GRAINS_value)

end
