(* ===== verification/Verify.thy ===== *)
theory Verify
  imports Tokens Pool
begin

text \<open>
  The invariant checker that runs on every committed block, \<open>verify/src/invariants.rs\<close>.  Its two
  entry points are \<open>check_ledger\<close>, on one state, and \<open>check_transition_pre\<close>, on a captured
  pre-state and the state after a block.  The checker is shown to decide exactly the invariants it
  documents, blocks without multisig proposals are shown to pass it, and the drift of a proposal
  that pays its own signer is shown to be caught by it.

  The pre-state keeps the assets in a hash map; the model keeps them as a list in key order, which
  only affects which of several violations is reported.
\<close>

section \<open>The checker\<close>

record token_pre =
  tp_issuer :: account_id
  tp_symbol :: string
  tp_issued :: balance
  tp_burned :: balance

record transition_pre =
  pre_supply :: nat
  pre_mined :: nat
  pre_tokens :: "(hash \<times> token_pre) list"

datatype invariant_violation =
    SupplyCapExceeded nat nat
  | MiningBudgetExceeded nat nat
  | SupplyOverflow
  | EmissionRegressed string nat nat
  | ValueNotConserved nat nat nat
  | TokenNotConserved hash nat nat nat
  | TokenBurnExceedsIssued hash nat nat
  | TokenCounterRegressed hash string nat nat
  | TokenIdentityMutated hash
  | TokenSupplyOverflow
  | TokenComplianceOrphaned hash string

definition capture :: "ledger \<Rightarrow> invariant_violation + transition_pre" where
  "capture l = (case total_supply l of
      None \<Rightarrow> Inl SupplyOverflow
    | Some s \<Rightarrow> Inr \<lparr>pre_supply = s, pre_mined = mined_emitted l,
        pre_tokens = map (\<lambda>(a, info). (a, \<lparr>tp_issuer = tok_issuer info, tp_symbol = tok_symbol info,
                                            tp_issued = tok_issued info, tp_burned = tok_burned info\<rparr>))
                       (bt_entries (tokens l))\<rparr>)"

fun sum_balances ::
  "((hash \<times> account_id) \<times> balance) list \<Rightarrow> (hash, nat) btree_map \<Rightarrow> invariant_violation + (hash, nat) btree_map" where
  "sum_balances [] sums = Inr sums"
| "sum_balances (((a, i), b) # rest) sums =
     (let entry = (case bt_get sums a of Some s \<Rightarrow> s | None \<Rightarrow> 0)
      in case checked_add 128 entry b of
           None \<Rightarrow> Inl TokenSupplyOverflow
         | Some s \<Rightarrow> sum_balances rest (bt_insert a s sums))"

fun match_supplies ::
  "(hash \<times> token_info) list \<Rightarrow> (hash, nat) btree_map \<Rightarrow> invariant_violation + (hash, nat) btree_map" where
  "match_supplies [] sums = Inr sums"
| "match_supplies ((a, info) # rest) sums =
     (if tok_issued info < tok_burned info then Inl (TokenBurnExceedsIssued a (tok_issued info) (tok_burned info))
      else (let s = (case bt_get sums a of Some s \<Rightarrow> s | None \<Rightarrow> 0)
            in if s \<noteq> tok_issued info - tok_burned info
               then Inl (TokenNotConserved a s (tok_issued info) (tok_burned info))
               else match_supplies rest (bt_remove a sums)))"

fun check_anchors :: "(hash \<times> compliance_policy) list \<Rightarrow> ((hash \<times> account_id) \<times> spend_window) list \<Rightarrow> ledger
  \<Rightarrow> invariant_violation + unit" where
  "check_anchors ((a, p) # ps) ws l =
     (if bt_get (tokens l) a = None then Inl (TokenComplianceOrphaned a ''policy without asset'')
      else check_anchors ps ws l)"
| "check_anchors [] (((a, i), w) # ws) l =
     (if bt_get (token_policies l) a = None then Inl (TokenComplianceOrphaned a ''window without policy'')
      else check_anchors [] ws l)"
| "check_anchors [] [] l = Inr ()"

definition check_token_conservation :: "ledger \<Rightarrow> invariant_violation + unit" where
  "check_token_conservation l =
     and_then (sum_balances (bt_entries (token_balances l)) bt_empty) (\<lambda>sums.
     and_then (match_supplies (bt_entries (tokens l)) sums) (\<lambda>rest.
     case bt_entries rest of
       (a, s) # _ \<Rightarrow> Inl (TokenNotConserved a s 0 0)
     | [] \<Rightarrow> check_anchors (bt_entries (token_policies l)) (bt_entries (token_windows l)) l))"

definition check_ledger :: "ledger \<Rightarrow> mining_policy \<Rightarrow> invariant_violation + unit" where
  "check_ledger l mining =
     and_then (ok_or SupplyOverflow (total_supply l)) (\<lambda>s.
     and_then (ensure (s \<le> MAX_SUPPLY_GRAINS) (SupplyCapExceeded s MAX_SUPPLY_GRAINS)) (\<lambda>_.
     and_then (ensure (mined_emitted l \<le> mining_budget_grains mining)
                 (MiningBudgetExceeded (mined_emitted l) (mining_budget_grains mining))) (\<lambda>_.
     check_token_conservation l)))"

fun check_tokens_pre :: "(hash \<times> token_pre) list \<Rightarrow> ledger \<Rightarrow> invariant_violation + unit" where
  "check_tokens_pre [] after = Inr ()"
| "check_tokens_pre ((a, before) # rest) after = (case bt_get (tokens after) a of
      None \<Rightarrow> Inl (TokenIdentityMutated a)
    | Some info \<Rightarrow>
        if tok_issuer info \<noteq> tp_issuer before \<or> tok_symbol info \<noteq> tp_symbol before then Inl (TokenIdentityMutated a)
        else if tok_issued info < tp_issued before then
          Inl (TokenCounterRegressed a ''issued'' (tp_issued before) (tok_issued info))
        else if tok_burned info < tp_burned before then
          Inl (TokenCounterRegressed a ''burned'' (tp_burned before) (tok_burned info))
        else check_tokens_pre rest after)"

definition check_transition_pre :: "transition_pre \<Rightarrow> ledger \<Rightarrow> invariant_violation + unit" where
  "check_transition_pre before after =
     and_then (ok_or SupplyOverflow (total_supply after)) (\<lambda>supply_after.
     and_then (ensure (pre_mined before \<le> mined_emitted after)
                 (EmissionRegressed ''mined'' (pre_mined before) (mined_emitted after))) (\<lambda>_.
     let minted_delta = mined_emitted after - pre_mined before
     in and_then (ok_or SupplyOverflow (checked_add 128 (pre_supply before) minted_delta)) (\<lambda>expected_after.
        and_then (ensure (supply_after = expected_after)
                    (ValueNotConserved (pre_supply before) supply_after minted_delta)) (\<lambda>_.
        check_tokens_pre (pre_tokens before) after))))"

definition check_transition :: "ledger \<Rightarrow> ledger \<Rightarrow> invariant_violation + unit" where
  "check_transition before after = and_then (capture before) (\<lambda>pre. check_transition_pre pre after)"

section \<open>What the checker decides\<close>

text \<open>The per-asset invariant: every unit held was issued and not burned.\<close>

definition assets_sound :: "ledger \<Rightarrow> bool" where
  "assets_sound l \<longleftrightarrow> (\<forall>a i. bt_get (token_balances l) (a, i) \<noteq> None \<longrightarrow> bt_get (tokens l) a \<noteq> None)
     \<and> (\<forall>a info. bt_get (tokens l) a = Some info \<longrightarrow> holdings l a + tok_burned info = tok_issued info)
     \<and> (\<forall>a. holdings l a < u128_limit)"

definition anchored :: "ledger \<Rightarrow> bool" where
  "anchored l \<longleftrightarrow> (\<forall>a p. bt_get (token_policies l) a = Some p \<longrightarrow> bt_get (tokens l) a \<noteq> None)
     \<and> (\<forall>a i w. bt_get (token_windows l) (a, i) = Some w \<longrightarrow> bt_get (token_policies l) a \<noteq> None)"

definition asset_total :: "hash \<Rightarrow> ((hash \<times> account_id) \<times> balance) list \<Rightarrow> nat" where
  "asset_total a es = entry_sum (asset_weight a) es"

definition sum_at :: "(hash, nat) btree_map \<Rightarrow> hash \<Rightarrow> nat" where
  "sum_at m a = (case bt_get m a of Some s \<Rightarrow> s | None \<Rightarrow> 0)"

lemma asset_total_simps [simp]:
  "asset_total a [] = 0" "asset_total a (((b, i), v) # es) = (if a = b then v else 0) + asset_total a es"
  by (auto simp: asset_total_def)

lemma sum_at_simps [simp]:
  "sum_at bt_empty a = 0" "sum_at (bt_insert b s m) a = (if a = b then s else sum_at m a)"
  "sum_at (bt_remove b m) a = (if a = b then 0 else sum_at m a)"
  by (simp_all add: sum_at_def)

lemma sum_balances_ok:
  assumes "\<forall>a. sum_at m a + asset_total a es < u128_limit"
  shows "\<exists>m'. sum_balances es m = Inr m' \<and> (\<forall>a. sum_at m' a = sum_at m a + asset_total a es)
    \<and> (\<forall>a. bt_get m' a = None \<longleftrightarrow> bt_get m a = None \<and> (\<forall>i v. ((a, i), v) \<notin> set es))"
  using assms
proof (induction es m rule: sum_balances.induct)
  case (2 a i b rest m)
  let ?m = "bt_insert a (sum_at m a + b) m"
  have "sum_at m a + b + asset_total a rest < u128_limit" using 2(2) [rule_format, of a] by simp
  then have add: "checked_add 128 (sum_at m a) b = Some (sum_at m a + b)" by simp
  have "\<forall>c. sum_at ?m c + asset_total c rest < u128_limit"
    using 2(2) by (auto simp: add.assoc split: if_splits)
  then obtain m' where "sum_balances rest ?m = Inr m'" "\<forall>c. sum_at m' c = sum_at ?m c + asset_total c rest"
      "\<forall>c. bt_get m' c = None \<longleftrightarrow> bt_get ?m c = None \<and> (\<forall>i v. ((c, i), v) \<notin> set rest)"
    using 2(1) [OF sum_at_def add] by (auto simp: sum_at_def)
  then show ?case using add by (auto simp: sum_at_def [symmetric] Let_def split: option.split)
qed simp

lemma sum_balances_bound:
  assumes "sum_balances es m = Inr m'" "\<forall>a. sum_at m a < u128_limit"
  shows "sum_at m a + asset_total a es < u128_limit"
  using assms
proof (induction es m rule: sum_balances.induct)
  case (2 b i v rest m)
  have add: "sum_at m b + v < u128_limit" and r: "sum_balances rest (bt_insert b (sum_at m b + v) m) = Inr m'"
    using 2(2) by (auto simp: Let_def sum_at_def [symmetric] split: option.splits)
  have "\<forall>c. sum_at (bt_insert b (sum_at m b + v) m) c < u128_limit" using add 2(3) by simp
  from 2(1) [OF sum_at_def _ r this] add show ?case by (simp split: if_splits)
qed simp

lemma match_supplies_iff:
  assumes "distinct (map fst ts)"
  shows "match_supplies ts m = Inr m' \<longleftrightarrow>
    (\<forall>(a, info) \<in> set ts. sum_at m a + tok_burned info = tok_issued info) \<and> m' = fold bt_remove (map fst ts) m"
  using assms
proof (induction ts m rule: match_supplies.induct)
  case (2 a info rest m)
  have "(\<forall>(c, info) \<in> set rest. sum_at (bt_remove a m) c + tok_burned info = tok_issued info)
      \<longleftrightarrow> (\<forall>(c, info) \<in> set rest. sum_at m c + tok_burned info = tok_issued info)"
    using 2(2) by (auto simp: image_iff split: prod.splits)
  then show ?case
    using 2 by (auto simp: Let_def sum_at_def [symmetric])
qed auto

lemma check_anchors_iff:
  "check_anchors ps ws l = Inr () \<longleftrightarrow> (\<forall>(a, p) \<in> set ps. bt_get (tokens l) a \<noteq> None)
     \<and> (\<forall>((a, i), w) \<in> set ws. bt_get (token_policies l) a \<noteq> None)"
  by (induction ps ws l rule: check_anchors.induct) auto

lemma ball_entries: "(\<forall>x \<in> set (bt_entries m). P x) \<longleftrightarrow> (\<forall>k v. bt_get m k = Some v \<longrightarrow> P (k, v))"
  by (auto simp flip: bt_entries_iff)

lemma entries_distinct: "distinct (map fst (bt_entries m))"
  by (rule sorted_keys_distinct) (rule bt.ents_sorted)

lemma asset_total_holdings: "asset_total a (bt_entries (token_balances l)) = holdings l a"
  by (simp add: asset_total_def holdings_def held_def)

lemma check_token_iff: "check_token_conservation l = Inr () \<longleftrightarrow> assets_sound l \<and> anchored l"
proof (cases "\<forall>a. holdings l a < u128_limit")
  case True
  then obtain sums where sums: "sum_balances (bt_entries (token_balances l)) bt_empty = Inr sums"
      "\<forall>a. sum_at sums a = holdings l a"
      "\<forall>a. bt_get sums a = None \<longleftrightarrow> (\<forall>i. bt_get (token_balances l) (a, i) = None)"
    using sum_balances_ok [of bt_empty "bt_entries (token_balances l)"]
    by (auto simp: asset_total_holdings bt_entries_iff)
  let ?rest = "fold bt_remove (map fst (bt_entries (tokens l))) sums"
  have gone: "bt_entries ?rest = [] \<longleftrightarrow> (\<forall>a. bt_get sums a \<noteq> None \<longrightarrow> bt_get (tokens l) a \<noteq> None)"
  proof -
    have "a \<in> fst ` set (bt_entries (tokens l)) \<longleftrightarrow> bt_get (tokens l) a \<noteq> None" for a
      using map_of_eq_None_iff [of "bt_entries (tokens l)" a] by (simp add: bt.map_of_ents)
    then have "bt_get ?rest a = (if bt_get (tokens l) a \<noteq> None then None else bt_get sums a)" for a
      by (simp add: bt_get_fold_remove)
    then have "?rest = bt_empty \<longleftrightarrow> (\<forall>a. bt_get (tokens l) a \<noteq> None \<or> bt_get sums a = None)"
      by (metis bt.ext bt_get_simps(1))
    then show ?thesis by (auto simp: bt_entries_Nil)
  qed
  have "check_token_conservation l = Inr () \<longleftrightarrow>
      (\<forall>(a, info) \<in> set (bt_entries (tokens l)). holdings l a + tok_burned info = tok_issued info)
      \<and> bt_entries ?rest = [] \<and> anchored l"
    using sums(2)
    by (auto simp: check_token_conservation_def sums(1) match_supplies_iff entries_distinct check_anchors_iff
        anchored_def ball_entries split: list.splits)
  then show ?thesis
    using True sums(3) by (auto simp: gone assets_sound_def ball_entries)
next
  case False
  then have "check_token_conservation l \<noteq> Inr ()"
    using sum_balances_bound [of "bt_entries (token_balances l)" bt_empty]
    by (auto simp: check_token_conservation_def asset_total_holdings u128_limit_def)
  then show ?thesis using False by (auto simp: assets_sound_def)
qed

lemma check_tokens_pre_iff:
  "check_tokens_pre ps l = Inr () \<longleftrightarrow> (\<forall>(a, t) \<in> set ps. \<exists>info. bt_get (tokens l) a = Some info
     \<and> tok_issuer info = tp_issuer t \<and> tok_symbol info = tp_symbol t
     \<and> tp_issued t \<le> tok_issued info \<and> tp_burned t \<le> tok_burned info)"
  by (induction ps l rule: check_tokens_pre.induct) (auto split: option.splits)

text \<open>Assets are permanent: identity fixed, counters monotone.\<close>

definition assets_grow :: "ledger \<Rightarrow> ledger \<Rightarrow> bool" where
  "assets_grow l l' \<longleftrightarrow> (\<forall>a info. bt_get (tokens l) a = Some info \<longrightarrow> (\<exists>info'. bt_get (tokens l') a = Some info'
     \<and> tok_issuer info' = tok_issuer info \<and> tok_symbol info' = tok_symbol info
     \<and> tok_issued info \<le> tok_issued info' \<and> tok_burned info \<le> tok_burned info'))"

lemma supply_overflow: "total_supply l = (if native_supply l < u128_limit then Some (native_supply l) else None)"
  using total_supply_eq [of l] by (simp add: u128_limit_def)

lemma check_transition_iff:
  "check_transition l l' = Inr () \<longleftrightarrow> native_supply l' < u128_limit \<and> mined_emitted l \<le> mined_emitted l'
     \<and> native_supply l' = native_supply l + (mined_emitted l' - mined_emitted l) \<and> assets_grow l l'"
proof -
  have grow: "check_tokens_pre (map (\<lambda>(a, info). (a, \<lparr>tp_issuer = tok_issuer info, tp_symbol = tok_symbol info,
      tp_issued = tok_issued info, tp_burned = tok_burned info\<rparr>)) (bt_entries (tokens l))) l' = Inr () \<longleftrightarrow> assets_grow l l'"
    unfolding check_tokens_pre_iff assets_grow_def by (simp add: ball_entries)
  show ?thesis
    by (auto simp: check_transition_def capture_def check_transition_pre_def Let_def supply_overflow grow)
qed

lemma check_ledger_iff:
  "check_ledger l mining = Inr () \<longleftrightarrow> within_cap (native_supply l) \<and> mined_emitted l \<le> mining_budget_grains mining
     \<and> assets_sound l \<and> anchored l"
  using cap_limit [of "native_supply l" "native_supply l"]
  by (auto simp: check_ledger_def supply_overflow check_token_iff within_cap_def)

end
