(* ===== verification/Checked.thy ===== *)
theory Checked
  imports Verify
begin

text \<open>
  Every block without multisig proposals passes the invariant checker.  Supply and units come from
  the theories \<open>Supply\<close> and \<open>Tokens\<close>; what is left are the facts about the identity of assets and
  the anchoring of their compliance state, which are shown here for every arm through the
  contract of theory \<open>ArmContract\<close>.
\<close>

section \<open>Evolution of the asset registry\<close>

definition asset_ok :: "ledger \<Rightarrow> bool" where
  "asset_ok l \<longleftrightarrow> anchored l \<and> (\<forall>a i. bt_get (token_balances l) (a, i) \<noteq> None \<longrightarrow> bt_get (tokens l) a \<noteq> None)
     \<and> (\<forall>a info. bt_get (tokens l) a = Some info \<longrightarrow> tok_issued info < u128_limit)"

definition policies_grow :: "ledger \<Rightarrow> ledger \<Rightarrow> bool" where
  "policies_grow l l' \<longleftrightarrow> (\<forall>a. bt_get (token_policies l) a \<noteq> None \<longrightarrow> bt_get (token_policies l') a \<noteq> None)"

text \<open>Every row of \<open>l'\<close> is either old or anchored in \<open>l'\<close> itself.\<close>

definition new_rows_ok :: "ledger \<Rightarrow> ledger \<Rightarrow> bool" where
  "new_rows_ok l l' \<longleftrightarrow>
     (\<forall>a i. bt_get (token_balances l') (a, i) \<noteq> None \<longrightarrow> bt_get (token_balances l) (a, i) \<noteq> None \<or> bt_get (tokens l') a \<noteq> None)
   \<and> (\<forall>a. bt_get (token_policies l') a \<noteq> None \<longrightarrow> bt_get (token_policies l) a \<noteq> None \<or> bt_get (tokens l') a \<noteq> None)
   \<and> (\<forall>a i. bt_get (token_windows l') (a, i) \<noteq> None \<longrightarrow> bt_get (token_windows l) (a, i) \<noteq> None \<or> bt_get (token_policies l') a \<noteq> None)
   \<and> (\<forall>a info. bt_get (tokens l') a = Some info \<longrightarrow> tok_issued info < u128_limit
        \<or> (\<exists>old. bt_get (tokens l) a = Some old \<and> tok_issued info = tok_issued old))"

definition evolves :: "ledger \<Rightarrow> ledger \<Rightarrow> bool" where
  "evolves l l' \<longleftrightarrow> assets_grow l l' \<and> policies_grow l l' \<and> new_rows_ok l l'"

lemmas evolve_defs = evolves_def policies_grow_def new_rows_ok_def

definition asset_view where
  "asset_view l = (tokens l, token_balances l, token_policies l, token_windows l)"

lemma assets_grow_refl [simp]: "assets_grow l l"
  by (simp add: assets_grow_def)

lemma assets_growE:
  assumes "assets_grow l l'" "bt_get (tokens l) a = Some info"
  obtains info' where "bt_get (tokens l') a = Some info'" "tok_issuer info' = tok_issuer info" "tok_symbol info' = tok_symbol info"
    "tok_issued info \<le> tok_issued info'" "tok_burned info \<le> tok_burned info'"
  using assms unfolding assets_grow_def by blast

lemma assets_grow_trans:
  assumes "assets_grow l l1" "assets_grow l1 l2"
  shows "assets_grow l l2"
  unfolding assets_grow_def
proof (intro allI impI)
  fix a info assume "bt_get (tokens l) a = Some info"
  then obtain i1 where 1: "bt_get (tokens l1) a = Some i1" "tok_issuer i1 = tok_issuer info" "tok_symbol i1 = tok_symbol info"
    "tok_issued info \<le> tok_issued i1" "tok_burned info \<le> tok_burned i1"
    using assets_growE [OF assms(1)] by metis
  then obtain i2 where "bt_get (tokens l2) a = Some i2" "tok_issuer i2 = tok_issuer i1" "tok_symbol i2 = tok_symbol i1"
    "tok_issued i1 \<le> tok_issued i2" "tok_burned i1 \<le> tok_burned i2"
    using assets_growE [OF assms(2)] by metis
  with 1 show "\<exists>info'. bt_get (tokens l2) a = Some info'
      \<and> tok_issuer info' = tok_issuer info \<and> tok_symbol info' = tok_symbol info
      \<and> tok_issued info \<le> tok_issued info' \<and> tok_burned info \<le> tok_burned info'"
    by auto
qed

lemma evolves_refl [simp]: "evolves l l"
  by (simp add: evolve_defs)

lemma assets_grow_known: "assets_grow l l' \<Longrightarrow> bt_get (tokens l) a \<noteq> None \<Longrightarrow> bt_get (tokens l') a \<noteq> None"
  unfolding assets_grow_def by fastforce

lemma policies_growD: "policies_grow l l' \<Longrightarrow> bt_get (token_policies l) a \<noteq> None \<Longrightarrow> bt_get (token_policies l') a \<noteq> None"
  by (simp add: policies_grow_def)

lemma new_rows_okD:
  assumes "new_rows_ok l l'"
  shows "bt_get (token_balances l') (a, i) \<noteq> None \<Longrightarrow> bt_get (token_balances l) (a, i) \<noteq> None \<or> bt_get (tokens l') a \<noteq> None"
    and "bt_get (token_policies l') a \<noteq> None \<Longrightarrow> bt_get (token_policies l) a \<noteq> None \<or> bt_get (tokens l') a \<noteq> None"
    and "bt_get (token_windows l') (a, i) \<noteq> None \<Longrightarrow> bt_get (token_windows l) (a, i) \<noteq> None \<or> bt_get (token_policies l') a \<noteq> None"
    and "bt_get (tokens l') a = Some info \<Longrightarrow> tok_issued info < u128_limit
        \<or> (\<exists>old. bt_get (tokens l) a = Some old \<and> tok_issued info = tok_issued old)"
  using assms unfolding new_rows_ok_def by blast+

lemma evolves_trans:
  assumes "evolves l l1" "evolves l1 l2"
  shows "evolves l l2"
proof -
  have 1: "assets_grow l l1" "policies_grow l l1" "new_rows_ok l l1"
    and 2: "assets_grow l1 l2" "policies_grow l1 l2" "new_rows_ok l1 l2"
    using assms by (auto simp: evolves_def)
  note grow = assets_grow_known [OF 2(1)] policies_growD [OF 2(2)]
  note rows = new_rows_okD [OF 1(3)] new_rows_okD [OF 2(3)]
  have "new_rows_ok l l2"
    unfolding new_rows_ok_def
  proof (intro conjI allI impI)
    fix a i assume "bt_get (token_balances l2) (a, i) \<noteq> None"
    from rows(5) [OF this] show "bt_get (token_balances l) (a, i) \<noteq> None \<or> bt_get (tokens l2) a \<noteq> None"
      using rows(1) [of a i] grow(1) [of a] by argo
  next
    fix a assume "bt_get (token_policies l2) a \<noteq> None"
    from rows(6) [OF this] show "bt_get (token_policies l) a \<noteq> None \<or> bt_get (tokens l2) a \<noteq> None"
      using rows(2) [of a] grow(1) [of a] by argo
  next
    fix a i assume "bt_get (token_windows l2) (a, i) \<noteq> None"
    from rows(7) [OF this] show "bt_get (token_windows l) (a, i) \<noteq> None \<or> bt_get (token_policies l2) a \<noteq> None"
      using rows(3) [of a i] grow(2) [of a] by argo
  next
    fix a info assume "bt_get (tokens l2) a = Some info"
    from rows(8) [OF this] rows(4)
    show "tok_issued info < u128_limit \<or> (\<exists>old. bt_get (tokens l) a = Some old \<and> tok_issued info = tok_issued old)"
      by fastforce
  qed
  moreover have "policies_grow l l2" using 1(2) 2(2) by (simp add: policies_grow_def)
  ultimately show ?thesis
    using assets_grow_trans [OF 1(1) 2(1)] by (simp add: evolves_def)
qed

lemma asset_okD:
  assumes "asset_ok l"
  shows "bt_get (token_balances l) (a, i) \<noteq> None \<Longrightarrow> bt_get (tokens l) a \<noteq> None"
    and "bt_get (token_policies l) a \<noteq> None \<Longrightarrow> bt_get (tokens l) a \<noteq> None"
    and "bt_get (token_windows l) (a, i) \<noteq> None \<Longrightarrow> bt_get (token_policies l) a \<noteq> None"
    and "bt_get (tokens l) a = Some info \<Longrightarrow> tok_issued info < u128_limit"
  using assms unfolding asset_ok_def anchored_def by blast+

lemma evolves_ok:
  assumes "evolves l l'" "asset_ok l"
  shows "asset_ok l'"
proof -
  have grow: "assets_grow l l'" "policies_grow l l'" "new_rows_ok l l'" using assms(1) by (auto simp: evolves_def)
  note known = assets_grow_known [OF grow(1)] policies_growD [OF grow(2)]
  note rows = new_rows_okD [OF grow(3)] asset_okD [OF assms(2)]
  show ?thesis
    unfolding asset_ok_def anchored_def
  proof (intro conjI allI impI)
    fix a p assume "bt_get (token_policies l') a = Some p"
    then show "bt_get (tokens l') a \<noteq> None" using rows(2,6) [of a] known(1) [of a] by auto
  next
    fix a i w assume "bt_get (token_windows l') (a, i) = Some w"
    then show "bt_get (token_policies l') a \<noteq> None" using rows(3,7) [of a i] known(2) [of a] by auto
  next
    fix a i assume "bt_get (token_balances l') (a, i) \<noteq> None"
    then show "bt_get (tokens l') a \<noteq> None" using rows(1,5) [of a i] known(1) [of a] by auto
  next
    fix a info assume "bt_get (tokens l') a = Some info"
    then show "tok_issued info < u128_limit" using rows(4,8) by fastforce
  qed
qed

lemma evolves_view: "asset_view l2 = asset_view l1 \<Longrightarrow> evolves l l2 = evolves l l1"
  by (simp add: asset_view_def evolve_defs assets_grow_def)

lemma evolves_quiet: "asset_view l' = asset_view l \<Longrightarrow> evolves l l'"
  by (simp add: evolves_view)

lemma asset_writes [simp]:
  "token_policies (set_token_balance C a i v l) = token_policies l"
  "token_windows (set_token_balance C a i v l) = token_windows l"
  "token_policies (set_token C a info l) = token_policies l" "token_windows (set_token C a info l) = token_windows l"
  "token_policies (set_token_window C a i w l) = token_policies l"
  "token_windows (set_token_window C a i w l)
     = bt_put (a, i) (if w = spend_window_default then None else Some w) (token_windows l)"
  by (simp_all add: write_defs commit_defs Let_def)

text \<open>The four writes that touch the registry, each under what its arm has checked.\<close>

lemma evolves_balance:
  assumes "evolves l l1" "bt_get (tokens l1) a \<noteq> None"
  shows "evolves l (set_token_balance C a i v l1)"
proof (rule evolves_trans [OF assms(1)])
  show "evolves l1 (set_token_balance C a i v l1)"
    using assms(2) by (auto simp: evolve_defs assets_grow_def put_cell_def)
qed

lemma evolves_window:
  assumes "evolves l l1" "bt_get (token_policies l1) a \<noteq> None"
  shows "evolves l (set_token_window C a i w l1)"
proof (rule evolves_trans [OF assms(1)])
  show "evolves l1 (set_token_window C a i w l1)"
    using assms(2) by (auto simp: evolve_defs assets_grow_def)
qed

lemma evolves_token:
  assumes "tok_issued info < u128_limit \<or> bt_get (tokens l) a \<noteq> None \<and> tok_issued info = tok_issued (the (bt_get (tokens l) a))"
    and "\<forall>old. bt_get (tokens l) a = Some old \<longrightarrow> tok_issuer info = tok_issuer old \<and> tok_symbol info = tok_symbol old
      \<and> tok_issued old \<le> tok_issued info \<and> tok_burned old \<le> tok_burned info"
  shows "evolves l (set_token C a info l)"
  using assms by (auto simp: evolve_defs assets_grow_def)

lemma evolves_policy:
  assumes "bt_get (tokens l) a \<noteq> None"
  shows "evolves l (set_token_policy C a p l)"
proof -
  have "tokens (set_token_policy C a p l) = tokens l" "token_balances (set_token_policy C a p l) = token_balances l"
    "token_policies (set_token_policy C a p l) = bt_insert a p (token_policies l)"
    "bt_get (token_windows (set_token_policy C a p l)) k \<noteq> None \<Longrightarrow> bt_get (token_windows l) k \<noteq> None" for k
    using set_token_policy_shape [of C a p l] by (auto simp: bt_get_fold_remove split: if_splits)
  then show ?thesis using assms by (simp add: evolve_defs assets_grow_def)
qed

section \<open>Writes that do not touch the registry\<close>

lemma asset_view_fields:
  "asset_view l' = asset_view l \<Longrightarrow> tokens l' = tokens l \<and> token_balances l' = token_balances l
     \<and> token_policies l' = token_policies l \<and> token_windows l' = token_windows l"
  by (simp add: asset_view_def)

lemma asset_quiet_writes:
  "asset_view (set_account C i ac l) = asset_view l"
  "asset_view (set_contract_value C i k bs l) = asset_view l"
  "asset_view (fst (apply_shielded_bundle C b l)) = asset_view l"
  "asset_view (put_shielded_value C v l) = asset_view l"
  "asset_view (put_shielded_v2_value C v l) = asset_view l"
  "asset_view (set_deshield_v2_window C n v l) = asset_view l"
  "asset_view (set_deshield_window C n v l) = asset_view l"
  "asset_view (set_oracle_price C n l) = asset_view l"
  "asset_view (set_multisig C i m l) = asset_view l"
  "asset_view (set_proposal C h p l) = asset_view l"
  "asset_view (remove_proposal C h l) = asset_view l"
  "asset_view (set_nft_class C h cl l) = asset_view l"
  "asset_view (put_nft C h bs t l) = asset_view l"
  "asset_view (consume_intent C h l) = asset_view l"
  "asset_view (snd (remove_proposals_for C i l)) = asset_view l"
  by (simp_all add: asset_view_def write_defs commit_defs Let_def apply_shielded_bundle_def
        remove_proposals_for_def drop_proposals split: prod.splits sum.splits)

lemma asset_commit:
  "asset_view (commit C sl ov l) = asset_view l" "asset_view (record_op e l) = asset_view l"
  "asset_view (commit_counter C nm v l) = asset_view l" "asset_view (recommit_htlcs C l) = asset_view l"
  "asset_view (recommit_vaults C l) = asset_view l" "asset_view (recommit_shielded_v2 C l) = asset_view l"
  by (simp_all add: asset_view_def commit_defs Let_def)

lemmas asset_quiet [simp] = asset_quiet_writes asset_commit
lemmas asset_fields [simp] = asset_quiet [THEN asset_view_fields]
lemmas evolves_writes [simp] = asset_quiet [THEN evolves_view]

lemma asset_quiet_counters:
  "lock_htlc C h t l = Some l' \<Longrightarrow> asset_view l' = asset_view l"
  "settle_htlc C h l = Some (t, l') \<Longrightarrow> asset_view l' = asset_view l"
  "set_vault C i v l = Some l' \<Longrightarrow> asset_view l' = asset_view l"
  "apply_shielded_v2 C nfs cms l = Inr l' \<Longrightarrow> asset_view l' = asset_view l"
  "add_shielded_value C b l = Some l' \<Longrightarrow> asset_view l' = asset_view l"
  "sub_shielded_value C b l = Some l' \<Longrightarrow> asset_view l' = asset_view l"
  "add_shielded_v2_value C b l = Some l' \<Longrightarrow> asset_view l' = asset_view l"
  "sub_shielded_v2_value C b l = Some l' \<Longrightarrow> asset_view l' = asset_view l"
  by (auto simp: lock_htlc_def settle_htlc_def set_vault_def apply_shielded_v2_def add_shielded_value_def
      sub_shielded_value_def add_shielded_v2_value_def sub_shielded_v2_value_def asset_view_def Let_def
      split: if_splits option.splits sum.splits)

lemma asset_quiet_items:
  "mint_nft C h k i m n l = Some l' \<Longrightarrow> asset_view l' = asset_view l"
  "transfer_nft C h k i l = Some l' \<Longrightarrow> asset_view l' = asset_view l"
  "set_nft_meta C h k m l = Some l' \<Longrightarrow> asset_view l' = asset_view l"
  "register_name C nm i n l = Some l' \<Longrightarrow> asset_view l' = asset_view l"
  "transfer_name C nm i l = Some l' \<Longrightarrow> asset_view l' = asset_view l"
  by (auto simp: mint_nft_def transfer_nft_def set_nft_meta_def register_name_def transfer_name_def
      split: if_splits option.splits)

lemma asset_quiet_bundle: "apply_shielded_bundle C sb l = (l', r) \<Longrightarrow> asset_view l' = asset_view l"
  using asset_quiet_writes(3) [of C sb l] by simp

lemma asset_quiet_transfer: "do_transfer C l i ac j b = Inr (st, ac', l') \<Longrightarrow> asset_view l' = asset_view l"
  by (auto simp: do_transfer_def Let_def split: option.splits if_splits)

lemma asset_quiet_proposal: "execute_proposal_action C l i a = Inr (st, l') \<Longrightarrow> asset_view l' = asset_view l"
  by (auto simp: execute_proposal_action_def dest!: asset_quiet_transfer split: action.splits sum.splits prod.splits)

lemmas asset_quiet_fallible = asset_quiet_counters asset_quiet_items asset_quiet_bundle asset_quiet_transfer
  asset_quiet_proposal

section \<open>Arms\<close>

definition asset_step :: "exec \<Rightarrow> exec \<Rightarrow> bool" where
  "asset_step x x' \<longleftrightarrow> evolves (xl x) (xl x')"

lemma asset_step_view: "asset_view (xl x') = asset_view (xl x) \<Longrightarrow> asset_step x x'"
  by (simp add: asset_step_def evolves_quiet)

lemma asset_step_quiet:
  "when_ok asset_step x (exec_claim_vesting ctx x)" "when_ok asset_step x (exec_deploy wm x)"
  "when_ok asset_step x (exec_transfer C tx to v x)"
  "when_ok asset_step x (exec_rotate_key C tx hy k sg x)"
  "when_ok asset_step x (exec_set_multisig C tx hy ks n x)"
  "when_ok asset_step x (exec_cancel_multisig C ctx tx j h x)"
  "when_ok asset_step x (exec_oracle_update C tx n x)"
  "when_ok asset_step x (exec_register_name C ctx tx nm x)"
  "when_ok asset_step x (exec_transfer_name C tx nm to x)"
  "when_ok asset_step x (exec_nft_mint C ctx tx s t to m x)"
  "when_ok asset_step x (exec_nft_transfer C tx h t to x)"
  "when_ok asset_step x (exec_nft_set_meta C tx h t m x)"
  "when_ok asset_step x (exec_intent_cancel C tx it x)"
  "when_ok asset_step x (exec_htlc_lock C stx to v h n x)"
  "when_ok asset_step x (exec_htlc_claim C ctx tx h t x)"
  "when_ok asset_step x (exec_htlc_refund C ctx tx h x)"
  unfolding exec_claim_vesting_def exec_deploy_def exec_transfer_def exec_rotate_key_def exec_set_multisig_def
    exec_cancel_multisig_def exec_oracle_update_def exec_register_name_def exec_transfer_name_def
    exec_nft_mint_def exec_nft_transfer_def exec_nft_set_meta_def
    exec_intent_cancel_def exec_htlc_lock_def exec_htlc_claim_def exec_htlc_refund_def release_htlc_def Let_def
  by (auto intro!: asset_step_view dest!: asset_quiet_fallible
      split: option.split sum.split prod.split)

lemma asset_step_vault_quiet:
  "when_ok asset_step x (exec_vault_deposit C tx v x)" "when_ok asset_step x (exec_vault_withdraw C tx v x)"
  unfolding exec_vault_deposit_def exec_vault_withdraw_def store_vault_def Let_def
  by (auto intro!: asset_step_view dest!: asset_quiet_fallible split: option.split)

lemma asset_step_multisig:
  "when_ok asset_step x (exec_propose_multisig C ctx tx j a x)"
  "when_ok asset_step x (exec_approve_multisig C ctx tx j h x)"
  unfolding exec_propose_multisig_def exec_approve_multisig_def Let_def
  by (auto intro!: asset_step_view dest!: asset_quiet_fallible split: option.split sum.split prod.split)

lemma asset_step_move: "when_ok asset_step x (move_shielded C vb mag w x)"
  unfolding move_shielded_def Let_def
  by (auto intro!: asset_step_view dest!: asset_quiet_fallible split: option.split prod.split)

lemma asset_step_start:
  assumes "when_ok asset_step (x\<lparr>xl := l\<rparr>) r" "asset_view l = asset_view (xl x)"
  shows "when_ok asset_step x r"
  using assms(1) by (rule when_ok_mono) (simp add: asset_step_def evolves_trans [OF evolves_quiet [OF assms(2)]])

lemma asset_step_shielded: "when_ok asset_step x (exec_shielded C ctx tx b x)"
  unfolding exec_shielded_def Let_def
  by (auto intro!: asset_step_view asset_step_start [OF asset_step_move] dest!: asset_quiet_bundle
      split: option.split prod.split sum.split)

lemma asset_step_shield_in: "when_ok asset_step x (apply_shield_in C v x)"
  unfolding apply_shield_in_def Let_def
  by (auto intro!: asset_step_view dest!: asset_quiet_fallible split: option.split)

lemma asset_step_deshield_out: "when_ok asset_step x (apply_deshield_out C v d w x)"
  unfolding apply_deshield_out_def Let_def
  by (auto intro!: asset_step_view dest!: asset_quiet_fallible split: option.split)

lemma asset_step_v2_effects: "when_ok asset_step x (apply_v2_effects C eff d x)"
proof (rule when_okI)
  fix x' st assume "apply_v2_effects C eff d x = (x', Inr st)"
  then obtain l x1 where l: "apply_shielded_v2 C (eff_nullifiers eff) (eff_commitments eff) (xl x) = Inr l"
    and x1: "apply_shield_in C (shield_in eff) (x\<lparr>xl := l\<rparr>) = (x1, Inr ())"
    and x': "apply_deshield_out C (deshield_out eff) d (window_update eff) x1 = (x', Inr st)"
    by (auto simp: apply_v2_effects_def outcome_defs split: sum.splits prod.splits v2_state_error.splits)
  show "asset_step x x'"
    using evolves_quiet [OF asset_quiet_counters(4) [OF l]] when_okD [OF asset_step_shield_in x1]
      when_okD [OF asset_step_deshield_out x']
    by (auto simp: asset_step_def intro: evolves_trans)
qed

lemma asset_step_shielded_v2: "when_ok asset_step x (exec_shielded_v2 C ctx tx eff fee b x)"
  unfolding exec_shielded_v2_def
  by (auto intro: asset_step_view simp: asset_step_v2_effects split: option.split sum.split)

subsection \<open>Issuing, moving and burning\<close>

lemma outgoing_ruled:
  "check_token_outgoing l a i j v h = Inr (Some w) \<Longrightarrow> bt_get (token_policies l) a \<noteq> None"
  by (auto simp: check_token_outgoing_def split: option.splits)

lemma evolves_put_window:
  assumes "evolves l l1" "w \<noteq> None \<longrightarrow> bt_get (token_policies l1) a \<noteq> None"
  shows "evolves l (put_window C a i w l1)"
  using assms by (auto simp: put_window_def evolves_window split: option.split)

lemma asset_step_issue: "when_ok asset_step x (exec_token_issue C tx s v to x)"
  unfolding exec_token_issue_def Let_def
  by (auto simp: asset_step_def intro!: evolves_balance evolves_token split: option.split)

lemma asset_step_transfer: "when_ok asset_step x (exec_token_transfer C ctx tx a to v x)"
  unfolding exec_token_transfer_def Let_def
  by (auto simp: asset_step_def dest: outgoing_ruled intro!: evolves_put_window evolves_balance
      split: option.split sum.split)

lemma asset_step_burn: "when_ok asset_step x (exec_token_burn C ctx tx a v x)"
  unfolding exec_token_burn_def Let_def
  by (auto simp: asset_step_def dest: outgoing_ruled intro!: evolves_put_window evolves_balance evolves_token
      split: option.split sum.split)

lemma asset_step_policy: "when_ok asset_step x (exec_token_set_policy C tx a p x)"
  unfolding exec_token_set_policy_def
  by (auto simp: asset_step_def intro!: evolves_policy split: option.split)

lemma asset_step_vault_mint: "when_ok asset_step x (exec_vault_mint C tx v x)"
  unfolding exec_vault_mint_def store_vault_def Let_def
  by (auto simp: asset_step_def evolves_view [OF asset_quiet_counters(3)] intro!: evolves_balance evolves_token
      split: option.split)

lemma asset_step_vault_burn: "when_ok asset_step x (exec_vault_burn C tx v x)"
  unfolding exec_vault_burn_def store_vault_def Let_def
  by (auto simp: asset_step_def evolves_view [OF asset_quiet_counters(3)] intro!: evolves_balance evolves_token
      split: option.split)

subsection \<open>Contracts\<close>

text \<open>A batch only ever touches rows of known assets and windows of assets with a policy.\<close>

definition batch_known :: "ledger \<Rightarrow> batch \<Rightarrow> bool" where
  "batch_known l b \<longleftrightarrow> (\<forall>a i. bt_get (scratch b) (a, i) \<noteq> None \<longrightarrow> bt_get (tokens l) a \<noteq> None)
     \<and> (\<forall>a. bt_get (batch_windows b) a \<noteq> None \<longrightarrow> bt_get (token_policies l) a \<noteq> None)"

lemma batch_gate_known: "batch_gate l c h a to v b = Inr b' \<Longrightarrow> batch_known l b \<Longrightarrow> batch_known l b'"
  unfolding batch_gate_def batch_known_def Let_def by (fastforce split: option.splits sum.splits if_splits)

lemma batch_step_known:
  assumes "batch_step l c h cmd b = Inr b'" "batch_known l b"
  shows "batch_known l b'"
proof -
  let ?s = "cmd_asset cmd"
  obtain to b1 v w where gate: "batch_gate l c h ?s to (cmd_amount cmd) b = Inr b1" and known: "bt_get (tokens l) ?s \<noteq> None"
    and b': "b' = b1\<lparr>scratch := bt_insert (?s, to) v (bt_insert (?s, c) w (scratch b1))\<rparr>"
    using assms(1) unfolding batch_step_def Let_def by (fastforce split: if_splits sum.splits option.splits)
  show ?thesis
    using batch_gate_known [OF gate assms(2)] known
    by (simp add: b' batch_known_def del: not_None_eq) blast
qed

lemma batch_run_known: "batch_run l c h cmds b = Inr b' \<Longrightarrow> batch_known l b \<Longrightarrow> batch_known l b'"
  by (induction cmds arbitrary: b) (auto dest: batch_step_known split: sum.splits)

lemma evolves_policies: "evolves l l1 \<Longrightarrow> bt_get (token_policies l) a \<noteq> None \<Longrightarrow> bt_get (token_policies l1) a \<noteq> None"
  using policies_growD unfolding evolves_def by blast

lemma evolves_known: "evolves l l1 \<Longrightarrow> bt_get (tokens l) a \<noteq> None \<Longrightarrow> bt_get (tokens l1) a \<noteq> None"
  using assets_grow_known unfolding evolves_def by blast

lemma evolves_then:
  assumes "evolves l l1"
  shows "bt_get (tokens l) a = Some info \<Longrightarrow> evolves l (set_token_balance C a i v l1)"
    and "bt_get (token_policies l) a = Some p \<Longrightarrow> evolves l (set_token_window C a i w l1)"
  by (rule evolves_balance [OF assms], rule evolves_known [OF assms], simp)
    (rule evolves_window [OF assms], rule evolves_policies [OF assms], simp)

lemma evolves_fold:
  assumes "evolves l l1" "\<And>e l1. e \<in> set es \<Longrightarrow> evolves l l1 \<Longrightarrow> evolves l (f e l1)"
  shows "evolves l (fold f es l1)"
  using assms by (induction es arbitrary: l1) auto

lemma evolves_contract:
  assumes "settle_contract_token_transfers C l c cmds h = Inr l'"
  shows "evolves l l'"
proof (cases "cmds = []")
  case False
  then obtain b where run: "batch_run l c h cmds \<lparr>scratch = bt_empty, batch_windows = bt_empty\<rparr> = Inr b"
    and l': "l' = fold (\<lambda>(a, w). set_token_window C a c w) (bt_entries (batch_windows b))
      (fold (\<lambda>((a, i), v). set_token_balance C a i v) (bt_entries (scratch b)) l)"
    using assms by (auto simp: settle_contract_token_transfers_def Let_def split: sum.splits)
  have "batch_known l b" using batch_run_known [OF run] by (simp add: batch_known_def)
  then have known: "((a, i), v) \<in> set (bt_entries (scratch b)) \<Longrightarrow> bt_get (tokens l) a \<noteq> None"
    and ruled: "(a, w) \<in> set (bt_entries (batch_windows b)) \<Longrightarrow> bt_get (token_policies l) a \<noteq> None" for a i v w
    by (auto simp: batch_known_def bt_entries_iff)
  have "evolves l (fold (\<lambda>((a, i), v). set_token_balance C a i v) (bt_entries (scratch b)) l)"
    by (rule evolves_fold) (auto intro: evolves_then dest!: known)
  then show ?thesis
    unfolding l' by (rule evolves_fold) (auto intro: evolves_then dest!: ruled)
qed (use assms in \<open>simp add: settle_contract_token_transfers_def\<close>)

lemma fold_storage_asset_view: "asset_view (fold (\<lambda>(k, v). set_contract_value C c k v) es l) = asset_view l"
  by (induction es arbitrary: l) (auto split: prod.splits)

lemma asset_step_call: "when_ok asset_step x (exec_call C ctx tx c g d x)"
  unfolding exec_call_def Let_def
  by (auto simp: asset_step_def evolves_view [OF fold_storage_asset_view] intro: evolves_contract
      simp del: checked_mul_Some split: option.split sum.split vm_error.split prod.split)

subsection \<open>Intents\<close>

definition leg_known :: "ledger \<Rightarrow> settle_leg \<Rightarrow> bool" where
  "leg_known l g = (case g of Native \<Rightarrow> True | TokenLeg a \<Rightarrow> bt_get (tokens l) a \<noteq> None)"

definition leg_ruled :: "ledger \<Rightarrow> settle_leg \<Rightarrow> spend_window option \<Rightarrow> bool" where
  "leg_ruled l g w = (case g of Native \<Rightarrow> True | TokenLeg a \<Rightarrow> w \<noteq> None \<longrightarrow> bt_get (token_policies l) a \<noteq> None)"

lemma settle_leg_known: "settle_leg_of l a = Inr g \<Longrightarrow> leg_known l g"
  by (auto simp: settle_leg_of_def leg_known_def split: asset.splits if_splits)

lemma evolves_leg_token: "evolves l l1 \<Longrightarrow> leg_known l g \<Longrightarrow> evolves l (put_leg_token C g i v l1)"
  by (cases g) (auto simp: put_leg_token_def leg_known_def evolves_then)

lemma evolves_leg_window: "evolves l l1 \<Longrightarrow> leg_ruled l g w \<Longrightarrow> evolves l (put_leg_window C g i w l1)"
  by (cases g; cases w) (auto simp: put_leg_window_def leg_ruled_def put_window_def evolves_then)

lemma leg_window_ruled: "leg_window l g i j v h = Inr w \<Longrightarrow> leg_ruled l g w"
  by (cases w) (auto simp: leg_window_def leg_ruled_def dest: outgoing_ruled split: settle_leg.splits)

lemma plan_legs_ruled:
  assumes "plan_legs l g w own bo sol bs give deliver h = Inr p"
  shows "leg_ruled l g (owner_window p) \<and> leg_ruled l w (solver_window p)"
  using assms by (auto simp: plan_legs_def or_fail_def dest: leg_window_ruled split: sum.splits)

lemma evolves_intent:
  assumes "settle_intent_legs C l ac sol s h = Inr (ac', l')"
  shows "evolves l l'"
proof -
  let ?i = "si_intent (st_intent s)"
  let ?o = "int_owner ?i"
  obtain g w p where g: "settle_leg_of l (give_asset ?i) = Inr g" and w: "settle_leg_of l (want_asset ?i) = Inr w"
    and p: "plan_legs l g w ?o (balance (account_of l ?o)) sol (balance ac) (give_amount ?i) (deliver_amount s) h = Inr p"
    using assms by (auto simp: settle_intent_legs_def Let_def or_fail_def split: sum.splits)
  show ?thesis
    using assms settle_leg_known [OF g] settle_leg_known [OF w] plan_legs_ruled [OF p]
    by (auto simp: settle_intent_legs_def Let_def or_fail_def g w p intro!: evolves_leg_token evolves_leg_window)
qed

lemma asset_step_intent: "when_ok asset_step x (exec_intent_settle C ctx tx s x)"
  unfolding exec_intent_settle_def Let_def
  by (auto simp: asset_step_def intro: evolves_intent split: sum.split prod.split)

interpretation registry: dispatch_contract C ctx stx "\<lambda>_. True" "when_ok asset_step"
  by unfold_locales
    (simp_all add: asset_step_quiet asset_step_vault_quiet asset_step_multisig asset_step_shielded
      asset_step_shielded_v2 asset_step_issue asset_step_transfer asset_step_burn asset_step_policy asset_step_vault_mint
      asset_step_vault_burn asset_step_call asset_step_intent, simp add: when_ok_def asset_step_def split: sum.split)

section \<open>Transactions and blocks\<close>

lemma asset_quiet_credit: "credit C l i v = Inr l' \<Longrightarrow> asset_view l' = asset_view l"
  by (auto simp: credit_def Let_def split: if_splits option.splits)

lemma asset_quiet_finish: "finish C ctx stx ad x st = (l', Inr r) \<Longrightarrow> asset_view l' = asset_view (xl x)"
  by (auto simp: finish_def distribute_fee_def Let_def dest!: asset_quiet_credit split: sum.splits)

lemma asset_quiet_coinbase: "apply_coinbase C ctx l = (l', Inr v) \<Longrightarrow> asset_view l' = asset_view l"
  by (auto simp: apply_coinbase_def add_mined_emitted_def Let_def asset_view_def
      dest!: asset_quiet_credit asset_view_fields split: sum.splits option.splits if_splits)

lemma evolves_run_action:
  assumes "admit C ctx l stx = Inr ad" "run_action C ctx stx ad (start_exec l ad) = (x, Inr st)"
  shows "evolves l (xl x)"
proof (cases "ad_effects ad")
  case None
  show ?thesis
    using when_okD [OF registry.run_action_ok [OF TrueI None] assms(2)] by (simp add: asset_step_def start_exec_def)
next
  case (Some eff)
  obtain b where b: "ad_action ad = ShieldedV2 b" using admit_effects [OF assms(1) Some] by blast
  have "exec_shielded_v2 C ctx (stx_transaction stx) (ad_effects ad) (ad_fee ad) b (start_exec l ad) = (x, Inr st)"
    using assms(2) admit_effects [OF assms(1) Some] b by (simp add: run_action_def)
  from when_okD [OF asset_step_shielded_v2 this] show ?thesis by (simp add: asset_step_def start_exec_def)
qed

lemma evolves_transaction: "apply_transaction C ctx stx l = (l', Inr r) \<Longrightarrow> evolves l l'"
  by (erule apply_transactionE) (simp add: evolves_view [OF asset_quiet_finish] evolves_run_action)

lemma evolves_transactions: "apply_transactions_from C ctx i stxs l = (l', Inr rs) \<Longrightarrow> evolves l l'"
proof (induction stxs arbitrary: i l rs)
  case (Cons stx stxs)
  then show ?case by (auto dest!: evolves_transaction intro: evolves_trans split: prod.splits sum.splits)
qed simp

lemma holdings_rows: "(\<And>i. bt_get (token_balances l) (a, i) = None) \<Longrightarrow> holdings l a = 0"
  unfolding asset_total_holdings [symmetric] asset_total_def
  by (auto simp: entry_sum_def bt_entries_iff)

lemma assets_sound_iff:
  assumes "\<forall>a info. bt_get (tokens l) a = Some info \<longrightarrow> tok_issued info < u128_limit"
  shows "assets_sound l \<longleftrightarrow> token_books l \<and> (\<forall>a i. bt_get (token_balances l) (a, i) \<noteq> None \<longrightarrow> bt_get (tokens l) a \<noteq> None)"
    (is "?L \<longleftrightarrow> ?B \<and> ?K")
proof -
  have books: "token_books l \<longleftrightarrow> (\<forall>a. case bt_get (tokens l) a of None \<Rightarrow> holdings l a = 0
      | Some info \<Rightarrow> holdings l a + tok_burned info = tok_issued info)"
    by (simp add: token_books_def issued_units_def burned_units_def split: option.split)
  have "?K \<Longrightarrow> bt_get (tokens l) a = None \<Longrightarrow> holdings l a = 0" for a
    using holdings_rows [of l a] by fastforce
  then have L: "?L \<Longrightarrow> ?B \<and> ?K" unfolding assets_sound_def books by (auto split: option.split)
  have "holdings l a < u128_limit" if ?B for a
  proof (cases "bt_get (tokens l) a")
    case None
    then show ?thesis using that [unfolded books, rule_format, of a] by (simp add: u128_limit_def)
  next
    case (Some info)
    then have "holdings l a \<le> tok_issued info" using that [unfolded books, rule_format, of a] by simp
    also have "\<dots> < u128_limit" using assms Some by blast
    finally show ?thesis .
  qed
  then have "?B \<and> ?K \<Longrightarrow> ?L" unfolding assets_sound_def books by (auto split: option.splits)
  with L show ?thesis by blast
qed

text \<open>C8. The two entry points of the invariant checker accept exactly what they document.  A state
  passes when its supply is within the cap, the emission within its budget, every asset's
  balances add up to issued minus burned, and policies and windows belong to known assets; a
  transition passes when the supply moves by the newly mined amount only and no asset changes its
  identity or loses issued or burned units.  Checked additions never let a wrong total through.\<close>

theorem checker_exact:
  "(check_ledger l mining = Inr () \<longleftrightarrow> within_cap (native_supply l) \<and> mined_emitted l \<le> mining_budget_grains mining
      \<and> assets_sound l \<and> anchored l)
   \<and> (check_transition l l' = Inr () \<longleftrightarrow> native_supply l' < u128_limit \<and> mined_emitted l \<le> mined_emitted l'
      \<and> native_supply l' = native_supply l + (mined_emitted l' - mined_emitted l) \<and> assets_grow l l')"
  using check_ledger_iff check_transition_iff by blast

definition counters_fit :: "ledger \<Rightarrow> bool" where
  "counters_fit l \<longleftrightarrow> (\<forall>a info. bt_get (tokens l) a = Some info \<longrightarrow> tok_issued info < u128_limit)"

lemma block_assets:
  assumes "run_block C ctx stxs l = (l', Inr rs)" "assets_sound l" "anchored l" "counters_fit l"
  shows "assets_sound l' \<and> anchored l' \<and> counters_fit l' \<and> assets_grow l l'"
proof -
  obtain l1 v where 1: "apply_coinbase C ctx l = (l1, Inr v)" and 2: "apply_transactions_from C ctx 0 stxs l1 = (l', Inr rs)"
    using assms(1) by (auto simp: run_block_def apply_transactions_def split: prod.splits sum.splits)
  have view: "asset_view l1 = asset_view l" using asset_quiet_coinbase [OF 1] .
  have ev: "evolves l l'" using evolves_trans [OF evolves_quiet [OF view] evolves_transactions [OF 2]] .
  have books: "token_books l" using assms(2,4) assets_sound_iff [of l] by (simp add: counters_fit_def)
  have "asset_ok l" using assms(2-4) by (simp add: asset_ok_def assets_sound_def counters_fit_def)
  from evolves_ok [OF ev this] have ok: "asset_ok l'" .
  have "token_view l1 = token_view l" using asset_view_fields [OF view] by (simp add: token_view_def)
  then have "token_books l'" using token_transactions [OF 2] books token_books_view by blast
  then show ?thesis
    using ok ev assets_sound_iff [of l'] by (simp add: asset_ok_def counters_fit_def evolves_def)
qed

lemma checked_block:
  assumes "books l" "check_ledger l (bc_mining ctx) = Inr ()" "counters_fit l"
    and "native_supply l = premine + mined_emitted l"
    and "premine + mining_budget_grains (bc_mining ctx) \<le> MAX_SUPPLY_GRAINS"
    and "list_all (\<lambda>stx. proposal_free (tx_action (stx_transaction stx))) stxs"
    and "run_block C ctx stxs l = (l', Inr rs)"
  shows "check_transition l l' = Inr () \<and> check_ledger l' (bc_mining ctx) = Inr ()
    \<and> books l' \<and> counters_fit l' \<and> native_supply l' = premine + mined_emitted l'"
proof -
  note pre = assms(2) [unfolded check_ledger_iff]
  obtain l1 v where 1: "apply_coinbase C ctx l = (l1, Inr v)" and 2: "apply_transactions_from C ctx 0 stxs l1 = (l', Inr rs)"
    using assms(7) by (auto simp: run_block_def apply_transactions_def split: prod.splits sum.splits)
  note c = coinbase_money [OF 1]
  have "books l1" using c assms(1) by blast
  note t = transactions_books [OF this 2]
  have mined: "mined_emitted l' \<le> mining_budget_grains (bc_mining ctx)"
    using c t pre reward_at_le_remaining [of "mined_emitted l" "bc_mining ctx" "bc_height ctx"] by simp
  then have cap: "within_cap (native_supply l')" using c t assms(4,5,6) by (simp add: within_cap_def)
  note a = block_assets [OF assms(7) _ _ assms(3)]
  show ?thesis
    using c t mined cap cap_limit [OF cap, of "native_supply l'"] a pre assms(4,6)
    by (simp add: check_ledger_iff check_transition_iff)
qed

text \<open>C7. Blocks without multisig proposals never trip the checker: executing one on a state that
  passed the checks yields a transition and a state that pass them again, whatever its
  transactions do, and the hypotheses hold of the new state, so the argument carries along the
  whole chain.  The checker is then a safeguard that cannot stop a correct node.\<close>

theorem block_passes_checker:
  assumes "books l" "check_ledger l (bc_mining ctx) = Inr ()" "counters_fit l"
    and "native_supply l = premine + mined_emitted l"
    and "premine + mining_budget_grains (bc_mining ctx) \<le> MAX_SUPPLY_GRAINS"
    and "list_all (\<lambda>stx. proposal_free (tx_action (stx_transaction stx))) stxs"
    and "run_block C ctx stxs l = (l', Inr rs)"
  shows "check_transition l l' = Inr () \<and> check_ledger l' (bc_mining ctx) = Inr ()
    \<and> books l' \<and> counters_fit l' \<and> native_supply l' = premine + mined_emitted l'"
  by (rule checked_block [OF assms])

lemma sample_checked: "check_ledger sample_ledger sample_mining = Inr ()"
  by (simp add: check_ledger_iff assets_sound_def anchored_def within_cap_def sample_supply MAX_SUPPLY_GRAINS_value
      holdings_def u128_limit_def) (simp add: sample_ledger_def ledger_new_def)

theorem block_passes_checker_witness:
  "\<exists>l' rs. run_block sample_env sample_ctx [sample_tx ''alice'' 0 (Transfer ''bob'' 100)] sample_ledger = (l', Inr rs)
    \<and> check_ledger l' sample_mining = Inr () \<and> check_transition sample_ledger l' = Inr ()"
proof -
  let ?t = "sample_tx ''alice'' 0 (Transfer ''bob'' 100)"
  obtain l1 where l1: "apply_coinbase sample_env sample_ctx sample_ledger = (l1, Inr 1250000000)"
    and reads: "\<forall>i. account_of l1 i = (if i = ''miner'' then account_default\<lparr>balance := 1250000000\<rparr>
        else account_of sample_ledger i)" "multisigs l1 = multisigs sample_ledger" "nfts l1 = bt_empty"
    using sample_coinbase by blast
  then obtain l2 r where "apply_transaction sample_env sample_ctx ?t l1 = (l2, Inr r)"
    using sample_transfer_runs [of l1] by auto
  with l1 have run: "run_block sample_env sample_ctx [?t] sample_ledger = (l2, Inr [r])"
    by (simp add: run_block_def apply_transactions_def)
  from block_passes_checker [OF sample_books _ _ _ _ _ run, of 1105000] run show ?thesis
    by (simp add: sample_checked sample_supply MAX_SUPPLY_GRAINS_value counters_fit_def)
      (simp add: sample_mining_def MAX_SUPPLY_GRAINS_value)
qed

lemma transactions_split:
  assumes "apply_transactions_from C ctx i (pre @ stx # post) l = (l', Inr rs)"
  obtains l1 l2 r rs1 rs2 where "apply_transactions_from C ctx i pre l = (l1, Inr rs1)" "length rs1 = length pre"
    "apply_transaction C ctx stx l1 = (l2, Inr r)" "apply_transactions_from C ctx (Suc (i + length pre)) post l2 = (l', Inr rs2)"
    "rs = rs1 @ r # rs2"
  using assms
proof (induction pre arbitrary: i l rs thesis)
  case Nil
  then show ?case by (auto split: prod.splits sum.splits)
next
  case (Cons y pre)
  obtain m q qs where 1: "apply_transaction C ctx y l = (m, Inr q)"
    and 2: "apply_transactions_from C ctx (Suc i) (pre @ stx # post) m = (l', Inr qs)" "rs = q # qs"
    using Cons.prems(2) by (auto split: prod.splits sum.splits)
  show ?case
  proof (rule Cons.IH [OF _ 2(1)])
    fix l1 rs1 l2 r rs2
    assume a: "apply_transactions_from C ctx (Suc i) pre m = (l1, Inr rs1)" "length rs1 = length pre"
      "apply_transaction C ctx stx l1 = (l2, Inr r)" "apply_transactions_from C ctx (Suc (Suc i + length pre)) post l2 = (l', Inr rs2)"
      "qs = rs1 @ r # rs2"
    show ?thesis by (rule Cons.prems(1) [of l1 "q # rs1" l2 r rs2]) (use a 1 2(2) in simp_all)
  qed
qed

text \<open>C10. The drift of a proposal that pays its own signer does not go unnoticed.  Take a block that
  executes to the end, in which one transaction is a successful proposal of a one-of-n multisig
  vault to pay a positive amount to the transaction's own signer, and in which no other
  transaction is, or carries, a proposal or an approval: the checker refuses the transition as
  one that does not conserve value.  A member of such a multisig can thus make a block that carries
  the proposal fail at the invariant check.\<close>

theorem drift_is_caught:
  assumes "books l" "within_cap (native_supply l + reward)" "apply_coinbase C ctx l = (l1, Inr reward)"
    and "apply_transactions C ctx before l1 = (lp, Inr rs_before)"
    and "apply_transactions C ctx (before @ stx # after) l1 = (l', Inr rs)" "rc_status (rs ! length before) = Success"
    and "list_all (\<lambda>stx. proposal_free (tx_action (stx_transaction stx))) (before @ after)"
    and "tx_action (stx_transaction stx) = ProposeMultisig vault (Transfer to amount)" "0 < amount"
    and "bt_get (multisigs lp) vault = Some policy" "ms_threshold policy \<le> 1"
    and "resolve_recipient C lp to = tx_signer (stx_transaction stx)" "vault \<noteq> tx_signer (stx_transaction stx)"
  shows "check_transition l l' = Inl (ValueNotConserved (native_supply l) (native_supply l') reward)"
  using assms(5) unfolding apply_transactions_def
proof (rule transactions_split)
  fix l2 l3 r rs1 rs2
  assume run: "apply_transactions_from C ctx 0 before l1 = (l2, Inr rs1)" "length rs1 = length before"
    "apply_transaction C ctx stx l2 = (l3, Inr r)" "apply_transactions_from C ctx (Suc (0 + length before)) after l3 = (l', Inr rs2)"
    "rs = rs1 @ r # rs2"
  note c = coinbase_money [OF assms(3)]
  have lp: "l2 = lp" "books l1" using run(1) assms(1,4) c by (simp_all add: apply_transactions_def)
  note before = transactions_books [OF lp(2) run(1)]
  then have "books l2" by blast
  note own = transaction_conserves [OF this run(3)]
  note after = transactions_books [OF conjunct1 [OF own] run(4)]
  have "rc_status r = Success" using assms(6) run(2,5) by (simp add: nth_append)
  then have "native_supply l3 + amount = native_supply l2"
    using proposal_drift [OF \<open>books l2\<close> run(3) _ assms(8) _ assms(11)] assms(10,12,13) lp(1) by simp
  then have drift: "native_supply l' + amount = native_supply l + reward" and "mined_emitted l' = mined_emitted l + reward"
    using before own after c assms(7) by simp_all
  moreover have "native_supply l + reward < u128_limit" "native_supply l < u128_limit" "native_supply l' < u128_limit"
    using cap_limit [OF assms(2)] drift by auto
  ultimately show ?thesis
    using assms(9) by (simp add: check_transition_def capture_def check_transition_pre_def Let_def supply_overflow ensure_def)
qed

definition drained_ctx :: block_context where
  "drained_ctx = sample_ctx\<lparr>bc_mining := sample_mining\<lparr>mining_budget_grains := 0\<rparr>\<rparr>"

lemma drained_coinbase: "apply_coinbase sample_env drained_ctx sample_ledger = (sample_ledger, Inr 0)"
  by (simp add: apply_coinbase_def drained_ctx_def reward_at_def)

lemma drained_proposal_admitted:
  "admit sample_env drained_ctx sample_ledger (sample_tx ''alice'' 0 (ProposeMultisig ''vault'' (Transfer ''alice'' 100)))
     = Inr \<lparr>ad_signer = (sample_account 849000)\<lparr>nonce := 1\<rparr>, ad_fee = 51000, ad_tip = 0, ad_gas = 51000,
            ad_timing = None, ad_action = ProposeMultisig ''vault'' (Transfer ''alice'' 100), ad_ms_error = None,
            ad_hybrid = False, ad_effects = None\<rparr>"
  by (simp add: drained_ctx_def sample_defs admission_defs account_of_def gas_constants)

lemma drained_ctx_fields [simp]:
  "bc_height drained_ctx = 10" "bc_miner drained_ctx = ''miner''" "bc_gas_price drained_ctx = 1" "bc_pq drained_ctx = None"
  by (simp_all add: drained_ctx_def)

lemma drained_proposal_runs:
  "\<exists>l' r. apply_transaction sample_env drained_ctx
        (sample_tx ''alice'' 0 (ProposeMultisig ''vault'' (Transfer ''alice'' 100))) sample_ledger = (l', Inr r)
    \<and> rc_status r = Success"
  by (simp add: execution_defs drained_proposal_admitted exec_propose_multisig_def is_proposable_def
      legacy_member_def pq_requires_hybrid_authority_def as_u16_def execute_proposal_action_def do_transfer_def Let_def)

theorem drift_is_caught_witness:
  "\<exists>l' r. apply_transactions sample_env drained_ctx
        [sample_tx ''alice'' 0 (ProposeMultisig ''vault'' (Transfer ''alice'' 100))] sample_ledger = (l', Inr [r])
    \<and> check_transition sample_ledger l' = Inl (ValueNotConserved 1105000 (native_supply l') 0)"
proof -
  let ?t = "sample_tx ''alice'' 0 (ProposeMultisig ''vault'' (Transfer ''alice'' 100))"
  obtain l' r where r: "apply_transactions sample_env drained_ctx [?t] sample_ledger = (l', Inr [r])" "rc_status r = Success"
    using drained_proposal_runs by (auto simp: apply_transactions_def)
  have "apply_transactions sample_env drained_ctx [] sample_ledger = (sample_ledger, Inr [])" by (simp add: apply_transactions_def)
  from drift_is_caught [OF sample_books _ drained_coinbase this, of ?t "[]" l' "[r]" "''vault''" "''alice''" 100
        "\<lparr>ms_signers = [sample_key], ms_threshold = 1\<rparr>"] r
  show ?thesis by (simp add: sample_supply within_cap_def MAX_SUPPLY_GRAINS_value)
qed

end
