(* ===== verification/Genesis.thy ===== *)
theory Genesis
  imports Block Checked
begin

text \<open>
  The initial state and block 0, \<open>chain/src/genesis.rs\<close>.  Building genesis establishes every
  hypothesis that the theorems about blocks carry along: exact escrow counters, a supply that
  leaves room for the whole mining budget, and a state the invariant checker accepts.
\<close>

section \<open>Building genesis\<close>

record genesis_account =
  ga_account :: account_id
  ga_key :: public_key
  ga_balance :: balance

record vesting_grant =
  vg_account :: account_id
  vg_amount :: balance
  vg_unlock_height :: nat

record genesis_config =
  gc_chain_id :: string
  gc_timestamp_ms :: nat
  gc_accounts :: "genesis_account list"
  gc_mining :: mining_policy
  gc_vesting :: "vesting_grant list"

record genesis =
  g_ledger :: ledger
  g_block :: block
  g_coinbase :: account_id

datatype genesis_error =
    VestingUnknownAccount account_id
  | GenesisSupplyCapExceeded nat nat
  | GenesisOverflow

fun sum_amounts :: "nat \<Rightarrow> balance list \<Rightarrow> nat option" where
  "sum_amounts tot [] = Some tot"
| "sum_amounts tot (a # rest) = (case checked_add 128 tot a of
      None \<Rightarrow> None
    | Some t \<Rightarrow> sum_amounts t rest)"

definition account_new :: "public_key \<Rightarrow> balance \<Rightarrow> account" where
  "account_new key b = account_default\<lparr>balance := b, acct_key := Some key\<rparr>"

fun apply_vesting :: "'a codec_scheme \<Rightarrow> vesting_grant list \<Rightarrow> ledger \<Rightarrow> genesis_error + ledger" where
  "apply_vesting C [] l = Inr l"
| "apply_vesting C (v # rest) l =
     (if \<not> account_exists l (vg_account v) then Inl (VestingUnknownAccount (vg_account v))
      else (let a = account_of l (vg_account v)
            in case bal_add (locked a) (vg_amount v) of
                 None \<Rightarrow> Inl GenesisOverflow
               | Some lk \<Rightarrow> apply_vesting C rest
                   (set_account C (vg_account v) (a\<lparr>locked := lk, unlock_height := vg_unlock_height v\<rparr>) l)))"

definition fund_accounts :: "'a codec_scheme \<Rightarrow> genesis_account list \<Rightarrow> ledger \<Rightarrow> ledger" where
  "fund_accounts C as l = fold (\<lambda>a. set_account C (ga_account a) (account_new (ga_key a) (ga_balance a))) as l"

definition genesis_build :: "'a tx_codec_scheme \<Rightarrow> genesis_config \<Rightarrow> genesis_error + genesis" where
  "genesis_build C cfg =
     and_then (ok_or GenesisOverflow
                 (sum_amounts 0 (map ga_balance (gc_accounts cfg) @ map vg_amount (gc_vesting cfg)))) (\<lambda>alloc.
     and_then (ok_or GenesisOverflow (checked_add 128 alloc (mining_budget_grains (gc_mining cfg)))) (\<lambda>tot.
     and_then (ensure (tot \<le> MAX_SUPPLY_GRAINS) (GenesisSupplyCapExceeded tot MAX_SUPPLY_GRAINS)) (\<lambda>_.
     and_then (apply_vesting C (gc_vesting cfg) (fund_accounts C (gc_accounts cfg) (ledger_new C))) (\<lambda>l.
     let coinbase = (case gc_accounts cfg of a # _ \<Rightarrow> ga_account a | [] \<Rightarrow> ''genesis.sov'');
         b = assemble C 0 HASH_ZERO (state_root l) (receipts_root C []) (gc_timestamp_ms cfg) coinbase []
     in Inr \<lparr>g_ledger = l,
             g_block = b\<lparr>header := (header b)\<lparr>bits := to_compact (sha256d_target (gc_mining cfg))\<rparr>\<rparr>,
             g_coinbase = coinbase\<rparr>))))"

section \<open>The initial state is sound\<close>

lemma sum_amounts_Some: "sum_amounts t as = Some s \<Longrightarrow> s = t + sum_list as"
proof (induction as arbitrary: t)
  case (Cons a as)
  then show ?case by (fastforce simp: bal_simps split: option.splits)
qed simp

text \<open>What the two loops leave alone: everything but the accounts.\<close>

definition only_accounts :: "ledger \<Rightarrow> ledger \<Rightarrow> bool" where
  "only_accounts l l' \<longleftrightarrow> books l' = books l \<and> mined_emitted l' = mined_emitted l
     \<and> shielded_v2 l' = shielded_v2 l \<and> asset_view l' = asset_view l"

lemma only_accounts_set: "only_accounts l l1 \<Longrightarrow> only_accounts l (set_account C i a l1)"
  by (simp add: only_accounts_def)

lemma vesting_supply:
  "apply_vesting C vs l = Inr l' \<Longrightarrow> only_accounts l0 l \<Longrightarrow>
     only_accounts l0 l' \<and> native_supply l' = native_supply l + sum_list (map vg_amount vs)"
proof (induction vs arbitrary: l)
  case (Cons v vs)
  let ?a = "account_of l (vg_account v)"
  let ?l = "set_account C (vg_account v) (?a\<lparr>locked := locked ?a + vg_amount v, unlock_height := vg_unlock_height v\<rparr>) l"
  have step: "apply_vesting C vs ?l = Inr l'"
    using Cons.prems(1) by (auto simp: Let_def split: if_splits option.splits)
  have "native_supply ?l = native_supply l + vg_amount v"
    using supply_set_account [of C "vg_account v"
        "?a\<lparr>locked := locked ?a + vg_amount v, unlock_height := vg_unlock_height v\<rparr>" l]
    by (simp add: acct_value_def)
  with Cons.IH [OF step only_accounts_set [OF Cons.prems(2)]] show ?case by simp
qed simp

lemma fund_supply:
  "only_accounts l0 l \<Longrightarrow> only_accounts l0 (fund_accounts C as l)
     \<and> native_supply (fund_accounts C as l) \<le> native_supply l + sum_list (map ga_balance as)"
proof (induction as arbitrary: l)
  case (Cons a as)
  let ?l = "set_account C (ga_account a) (account_new (ga_key a) (ga_balance a)) l"
  have "native_supply ?l \<le> native_supply l + ga_balance a"
    using supply_set_account [of C "ga_account a" "account_new (ga_key a) (ga_balance a)" l]
    by (simp add: account_new_def acct_value_def account_default_def)
  with Cons.IH [OF only_accounts_set [OF Cons.prems, of C "ga_account a" "account_new (ga_key a) (ga_balance a)"]]
  show ?case by (simp add: fund_accounts_def)
qed (simp add: fund_accounts_def)

lemma fund_supply_distinct:
  "distinct (map ga_account as) \<Longrightarrow> \<forall>a \<in> set as. account_of l (ga_account a) = account_default \<Longrightarrow>
     native_supply (fund_accounts C as l) = native_supply l + sum_list (map ga_balance as)"
proof (induction as arbitrary: l)
  case (Cons a as)
  let ?l = "set_account C (ga_account a) (account_new (ga_key a) (ga_balance a)) l"
  have "native_supply ?l = native_supply l + ga_balance a"
    using supply_set_account [of C "ga_account a" "account_new (ga_key a) (ga_balance a)" l] Cons.prems(2)
    by (simp add: account_new_def acct_value_def account_default_def)
  moreover have "\<forall>b \<in> set as. account_of ?l (ga_account b) = account_default"
  proof
    fix b assume b: "b \<in> set as"
    then have "ga_account b \<noteq> ga_account a" using Cons.prems(1) by (metis distinct.simps(2) image_eqI list.simps(9) set_map)
    with b Cons.prems(2) show "account_of ?l (ga_account b) = account_default" by simp
  qed
  ultimately show ?case using Cons.IH [of ?l] Cons.prems(1) by (simp add: fund_accounts_def)
qed (simp add: fund_accounts_def)

lemma ledger_new_reads [simp]:
  "native_supply (ledger_new C) = 0" "account_of (ledger_new C) i = account_default" "books (ledger_new C)"
  "mined_emitted (ledger_new C) = 0" "pool_ok C (ledger_new C)"
proof -
  show "pool_ok C (ledger_new C)" using v2_new_inv [of C] by (auto simp: pool_ok_def ledger_new_def)
qed (simp_all add: native_supply_def account_of_def books_def ledger_new_def)

lemma genesis_facts:
  assumes "genesis_build C cfg = Inr g"
  shows "ledger_sound C (g_ledger g) \<and> check_ledger (g_ledger g) (gc_mining cfg) = Inr () \<and> counters_fit (g_ledger g)
    \<and> mined_emitted (g_ledger g) = 0
    \<and> native_supply (g_ledger g) + mining_budget_grains (gc_mining cfg) \<le> MAX_SUPPLY_GRAINS
    \<and> (distinct (map ga_account (gc_accounts cfg)) \<longrightarrow> native_supply (g_ledger g)
         = sum_list (map ga_balance (gc_accounts cfg)) + sum_list (map vg_amount (gc_vesting cfg)))
    \<and> is_genesis (g_block g) \<and> tx_root_matches C (g_block g) \<and> hd_state_root (header (g_block g)) = state_root (g_ledger g)"
proof -
  let ?l = "fund_accounts C (gc_accounts cfg) (ledger_new C)"
  obtain alloc l where s: "sum_amounts 0 (map ga_balance (gc_accounts cfg) @ map vg_amount (gc_vesting cfg)) = Some alloc"
    and cap: "alloc + mining_budget_grains (gc_mining cfg) \<le> MAX_SUPPLY_GRAINS"
    and v: "apply_vesting C (gc_vesting cfg) ?l = Inr l" and g: "g_ledger g = l" "is_genesis (g_block g)"
      "tx_root_matches C (g_block g)" "hd_state_root (header (g_block g)) = state_root l"
    using assms
    by (auto simp: genesis_build_def bal_simps Let_def is_genesis_def assemble_def tx_root_matches_def)
  have fund: "only_accounts (ledger_new C) ?l"
      "native_supply ?l \<le> sum_list (map ga_balance (gc_accounts cfg))"
    using fund_supply [of "ledger_new C" "ledger_new C" C "gc_accounts cfg"] by (simp_all add: only_accounts_def)
  note vest = vesting_supply [OF v fund(1)]
  have alloc: "alloc = sum_list (map ga_balance (gc_accounts cfg)) + sum_list (map vg_amount (gc_vesting cfg))"
    using sum_amounts_Some [OF s] by simp
  then have room: "native_supply l + mining_budget_grains (gc_mining cfg) \<le> MAX_SUPPLY_GRAINS"
    using vest fund(2) cap by simp
  have fields: "tokens l = bt_empty" "token_balances l = bt_empty" "token_policies l = bt_empty"
      "token_windows l = bt_empty" "shielded_v2 l = shielded_v2 (ledger_new C)"
    using vest by (simp_all add: only_accounts_def asset_view_def ledger_new_def)
  have "pool_ok C l" using ledger_new_reads(5) [of C] fields(5) by (simp add: pool_ok_def)
  moreover have "books l" "mined_emitted l = 0" using vest by (simp_all add: only_accounts_def)
  moreover have "within_cap (native_supply l)" using room by (simp add: within_cap_def)
  moreover have "assets_sound l \<and> anchored l \<and> counters_fit l"
    by (simp add: assets_sound_def anchored_def counters_fit_def fields holdings_def u128_limit_def)
  ultimately show ?thesis
    using g room vest fund_supply_distinct [of "gc_accounts cfg" "ledger_new C" C]
    by (simp add: ledger_sound_def check_ledger_iff)
qed

text \<open>C34. Genesis establishes the invariants.  Whenever a configuration is accepted, its ledger is sound
  (exact escrow counters, supply within the cap, a well-formed second pool) and passes the
  invariant checker; nothing has been mined; and the initial supply, which is at most the sum of
  the allocations and equal to it when no account is listed twice, leaves room for the entire
  mining budget under the cap.  With the mainnet policy, whose budget is the cap, the initial
  supply is therefore zero.  Block 0 is an empty genesis block that commits to the state.\<close>

theorem genesis_sound:
  assumes "genesis_build C cfg = Inr g"
  shows "ledger_sound C (g_ledger g) \<and> check_ledger (g_ledger g) (gc_mining cfg) = Inr () \<and> counters_fit (g_ledger g)
    \<and> mined_emitted (g_ledger g) = 0
    \<and> native_supply (g_ledger g) + mining_budget_grains (gc_mining cfg) \<le> MAX_SUPPLY_GRAINS
    \<and> (distinct (map ga_account (gc_accounts cfg)) \<longrightarrow> native_supply (g_ledger g)
         = sum_list (map ga_balance (gc_accounts cfg)) + sum_list (map vg_amount (gc_vesting cfg)))
    \<and> is_genesis (g_block g) \<and> tx_root_matches C (g_block g) \<and> hd_state_root (header (g_block g)) = state_root (g_ledger g)"
  by (rule genesis_facts [OF assms])

definition sample_genesis :: genesis_config where
  "sample_genesis = \<lparr>gc_chain_id = ''sov'', gc_timestamp_ms = 1000,
     gc_accounts = [\<lparr>ga_account = ''alice'', ga_key = sample_key, ga_balance = 700\<rparr>],
     gc_mining = sample_mining, gc_vesting = [\<lparr>vg_account = ''alice'', vg_amount = 300, vg_unlock_height = 5\<rparr>]\<rparr>"

theorem genesis_sound_witness:
  "\<exists>g. genesis_build sample_env sample_genesis = Inr g \<and> native_supply (g_ledger g) = 1000
    \<and> ledger_sound sample_env (g_ledger g)"
proof -
  obtain g where g: "genesis_build sample_env sample_genesis = Inr g"
    by (simp add: genesis_build_def sample_genesis_def fund_accounts_def Let_def account_exists_def bt_contains_def
        set_account_def commit_defs account_is_empty_def account_new_def account_default_def sample_mining_def checked_add_def
        MAX_SUPPLY_GRAINS_value ensure_def account_of_def)
  from genesis_sound [OF this] g show ?thesis by (auto simp: sample_genesis_def)
qed

end
