(* ===== verification/Governance.thy ===== *)
theory Governance
  imports Primitives
begin

text \<open>
  Miner-signalled activation of protocol upgrades, \<open>governance/src/lib.rs\<close>: thresholds, the state
  machine over signalling windows, the log of the bits that mined blocks carried, and the registry
  of deployments.  Heights are natural numbers; the walk over windows never passes the height it
  was asked for, so the 64-bit additions of the source cannot wrap.
\<close>

unbundle bit_operations_syntax

section \<open>Thresholds and deployments\<close>

definition MAX_SIGNAL_BIT :: nat where "MAX_SIGNAL_BIT = 28"

definition BIT_TX_DOMAIN :: nat where "BIT_TX_DOMAIN = 0"
definition BIT_FEE_AUCTION :: nat where "BIT_FEE_AUCTION = 1"
definition BIT_SHIELDED_V2 :: nat where "BIT_SHIELDED_V2 = 2"
definition BIT_TX_TIMESTAMP :: nat where "BIT_TX_TIMESTAMP = 3"
definition BIT_PQ_SUNSET :: nat where "BIT_PQ_SUNSET = 4"
definition BIT_SHIELDED_V2_SUITE2 :: nat where "BIT_SHIELDED_V2_SUITE2 = 5"
definition BIT_SHIELDED_V2_SUITE2_RECOVERY :: nat where "BIT_SHIELDED_V2_SUITE2_RECOVERY = 6"

datatype governance_error =
    BitOutOfRange nat
  | BadThreshold nat nat
  | ZeroPeriod
  | TimeoutBeforeStart nat nat
  | DuplicateDeployment string
  | DuplicateBit nat string
  | UnknownDeployment string

record threshold =
  th_num :: nat
  th_den :: nat

definition threshold_new :: "nat \<Rightarrow> nat \<Rightarrow> governance_error + threshold" where
  "threshold_new num den =
     (if den = 0 \<or> den < num then Inl (BadThreshold num den) else Inr \<lparr>th_num = num, th_den = den\<rparr>)"

definition is_met :: "threshold \<Rightarrow> nat \<Rightarrow> nat \<Rightarrow> bool" where
  "is_met t signaling per \<longleftrightarrow> th_num t * per \<le> signaling * th_den t"

datatype threshold_state = Defined | Started | LockedIn | Active | Failed

definition is_terminal :: "threshold_state \<Rightarrow> bool" where
  "is_terminal s \<longleftrightarrow> s = Active \<or> s = Failed"

record deployment =
  dep_name :: string
  dep_bit :: nat
  start_height :: nat
  timeout_height :: nat
  period :: nat
  dep_threshold :: threshold
  min_activation_height :: nat
  lockinontimeout :: bool

definition deployment_new ::
  "string \<Rightarrow> nat \<Rightarrow> nat \<Rightarrow> nat \<Rightarrow> nat \<Rightarrow> threshold \<Rightarrow> nat \<Rightarrow> bool \<Rightarrow> governance_error + deployment" where
  "deployment_new name b start timeout per t min_act lot =
     (if MAX_SIGNAL_BIT < b then Inl (BitOutOfRange b)
      else if per = 0 then Inl ZeroPeriod
      else if timeout \<le> start then Inl (TimeoutBeforeStart start timeout)
      else Inr \<lparr>dep_name = name, dep_bit = b, start_height = start, timeout_height = timeout, period = per,
                dep_threshold = t, min_activation_height = min_act, lockinontimeout = lot\<rparr>)"

definition window_start :: "deployment \<Rightarrow> nat \<Rightarrow> nat" where
  "window_start d h = h - h mod period d"

section \<open>Signals\<close>

text \<open>The trait \<open>MinerSignals\<close> is the function from a height and a bit to whether the block set it.\<close>

type_synonym miner_signals = "nat \<Rightarrow> nat \<Rightarrow> bool"

record signal_log =
  masks :: "(nat, 32 word) btree_map"

definition signal_log_new :: signal_log where
  "signal_log_new = \<lparr>masks = bt_empty\<rparr>"

definition record_mask :: "nat \<Rightarrow> 32 word \<Rightarrow> signal_log \<Rightarrow> signal_log \<times> 32 word option" where
  "record_mask h m s = (s\<lparr>masks := bt_insert h m (masks s)\<rparr>, bt_get (masks s) h)"

definition record_bit :: "nat \<Rightarrow> nat \<Rightarrow> signal_log \<Rightarrow> signal_log \<times> 32 word option" where
  "record_bit h b s =
     (if 32 \<le> b then (s, bt_get (masks s) h)
      else (let prev = (case bt_get (masks s) h of Some m \<Rightarrow> m | None \<Rightarrow> 0)
            in (s\<lparr>masks := bt_insert h (prev OR push_bit b 1) (masks s)\<rparr>, Some prev)))"

definition remove_mask :: "nat \<Rightarrow> signal_log \<Rightarrow> signal_log \<times> 32 word option" where
  "remove_mask h s = (s\<lparr>masks := bt_remove h (masks s)\<rparr>, bt_get (masks s) h)"

definition signals :: "signal_log \<Rightarrow> miner_signals" where
  "signals s h b =
     (if 32 \<le> b then False
      else (case bt_get (masks s) h of None \<Rightarrow> False | Some m \<Rightarrow> m AND push_bit b 1 \<noteq> 0))"

definition signaling_count_in_window :: "deployment \<Rightarrow> nat \<Rightarrow> miner_signals \<Rightarrow> nat" where
  "signaling_count_in_window d start sig =
     fold (\<lambda>off count. if sig (start + off) (dep_bit d) then count + 1 else count) [0 ..< period d] 0"

section \<open>The state machine\<close>

fun next_state :: "deployment \<Rightarrow> threshold_state \<Rightarrow> nat \<Rightarrow> nat \<Rightarrow> miner_signals \<Rightarrow> threshold_state" where
  "next_state d Defined next prev sig = (if start_height d \<le> next then Started else Defined)"
| "next_state d Started next prev sig =
     (if is_met (dep_threshold d) (signaling_count_in_window d prev sig) (period d) then LockedIn
      else if timeout_height d \<le> next then (if lockinontimeout d then LockedIn else Failed)
      else Started)"
| "next_state d LockedIn next prev sig = (if min_activation_height d \<le> next then Active else LockedIn)"
| "next_state d Active next prev sig = Active"
| "next_state d Failed next prev sig = Failed"

text \<open>
  The loop of \<open>state_at\<close>.  A period of zero is refused by \<open>Deployment::new\<close> (and would stop
  \<open>window_start\<close> with a division by zero before the loop); the guard makes the walk total.
\<close>

function walk_windows :: "deployment \<Rightarrow> miner_signals \<Rightarrow> nat \<Rightarrow> nat \<Rightarrow> threshold_state \<Rightarrow> threshold_state" where
  "walk_windows d sig target window state =
     (if window < target \<and> 0 < period d
      then walk_windows d sig target (window + period d) (next_state d state (window + period d) window sig)
      else state)"
  by pat_completeness auto
termination
  by (relation "measure (\<lambda>(d, sig, target, window, state). target - window)") auto

definition state_at :: "deployment \<Rightarrow> nat \<Rightarrow> miner_signals \<Rightarrow> threshold_state" where
  "state_at d h sig = walk_windows d sig (window_start d h) 0 Defined"

section \<open>The registry\<close>

type_synonym governance = "(string, deployment) btree_map"

definition register :: "deployment \<Rightarrow> governance \<Rightarrow> governance_error + governance" where
  "register d g =
     (if bt_contains g (dep_name d) then Inl (DuplicateDeployment (dep_name d))
      else (case List.find (\<lambda>(_, e). dep_bit e = dep_bit d) (bt_entries g) of
          Some (_, e) \<Rightarrow> Inl (DuplicateBit (dep_bit d) (dep_name e))
        | None \<Rightarrow> Inr (bt_insert (dep_name d) d g)))"

definition state_of :: "governance \<Rightarrow> string \<Rightarrow> nat \<Rightarrow> miner_signals \<Rightarrow> governance_error + threshold_state" where
  "state_of g name h sig = (case bt_get g name of
      None \<Rightarrow> Inl (UnknownDeployment name)
    | Some d \<Rightarrow> Inr (state_at d h sig))"

definition is_active :: "governance \<Rightarrow> string \<Rightarrow> nat \<Rightarrow> miner_signals \<Rightarrow> bool" where
  "is_active g name h sig \<longleftrightarrow> state_of g name h sig = Inr Active"

section \<open>States at window boundaries\<close>

declare walk_windows.simps [simp del]

text \<open>The state after \<open>k\<close> complete windows, and its agreement with the loop.\<close>

primrec boundary_state :: "deployment \<Rightarrow> miner_signals \<Rightarrow> nat \<Rightarrow> threshold_state" where
  "boundary_state d sig 0 = Defined"
| "boundary_state d sig (Suc k) =
     next_state d (boundary_state d sig k) (Suc k * period d) (k * period d) sig"

lemma walk_boundary:
  assumes "0 < period d" "j \<le> k"
  shows "walk_windows d sig (k * period d) (j * period d) (boundary_state d sig j) = boundary_state d sig k"
  using assms(2)
proof (induction "k - j" arbitrary: j)
  case 0
  then show ?case by (simp add: walk_windows.simps)
next
  case (Suc n)
  then have "j < k" by simp
  then have "j * period d < k * period d" using assms(1) by simp
  then have "walk_windows d sig (k * period d) (j * period d) (boundary_state d sig j)
      = walk_windows d sig (k * period d) (Suc j * period d) (boundary_state d sig (Suc j))"
    using assms(1) by (subst walk_windows.simps) (simp add: add.commute)
  also have "\<dots> = boundary_state d sig k" using Suc.hyps(1) [of "Suc j"] Suc.hyps(2) \<open>j < k\<close> by simp
  finally show ?case .
qed

lemma state_at_boundary:
  assumes "0 < period d"
  shows "state_at d h sig = boundary_state d sig (h div period d)"
proof -
  have "window_start d h = h div period d * period d"
    by (simp add: window_start_def minus_mod_eq_div_mult)
  then show ?thesis using walk_boundary [OF assms, of 0 "h div period d" sig] by (simp add: state_at_def)
qed

lemma count_eq: "signaling_count_in_window d start sig = card {i. i < period d \<and> sig (start + i) (dep_bit d)}"
proof -
  have "fold (\<lambda>i c. if P i then c + 1 else c) [0 ..< n] 0 = card {i. i < n \<and> P i}" for P and n :: nat
  proof (induction n)
    case (Suc n)
    have "{i. i < Suc n \<and> P i} = (if P n then insert n {i. i < n \<and> P i} else {i. i < n \<and> P i})"
      by (auto simp: less_Suc_eq)
    then show ?case using Suc by simp
  qed simp
  then show ?thesis by (simp add: signaling_count_in_window_def)
qed

text \<open>A window in which enough blocks signalled, after signalling opened.\<close>

definition met_window :: "deployment \<Rightarrow> miner_signals \<Rightarrow> nat \<Rightarrow> bool" where
  "met_window d sig j \<longleftrightarrow> start_height d \<le> j * period d
     \<and> is_met (dep_threshold d) (card {i. i < period d \<and> sig (j * period d + i) (dep_bit d)}) (period d)"

lemma boundary_history:
  "boundary_state d sig k = Started \<Longrightarrow> start_height d \<le> k * period d"
  "boundary_state d sig k = LockedIn \<Longrightarrow>
     (\<exists>j<k. met_window d sig j) \<or> lockinontimeout d \<and> timeout_height d \<le> k * period d"
  "boundary_state d sig k = Active \<Longrightarrow> min_activation_height d \<le> k * period d
     \<and> ((\<exists>j. Suc j < k \<and> met_window d sig j) \<or> lockinontimeout d \<and> timeout_height d \<le> k * period d)"
proof (induction k)
  case (Suc k)
  { case 1 then show ?case using Suc.IH(1) by (cases "boundary_state d sig k") (auto split: if_splits) }
  { case 2
    then show ?case
      using Suc.IH(1,2)
      by (cases "boundary_state d sig k")
        (auto simp: met_window_def count_eq less_Suc_eq split: if_splits) }
  { case 3
    then show ?case
      using Suc.IH(2,3)
      by (cases "boundary_state d sig k") (auto dest: Suc_lessD split: if_splits) }
qed simp_all

lemma terminal_stays:
  assumes "is_terminal (boundary_state d sig j)" "j \<le> k"
  shows "boundary_state d sig k = boundary_state d sig j"
  using assms(2)
proof (induction k rule: dec_induct)
  case (step n)
  then show ?case using assms(1) by (auto simp: is_terminal_def)
qed simp

text \<open>Under lock-in on timeout the machine passes \<open>Started\<close>, \<open>LockedIn\<close> and \<open>Active\<close> on schedule.\<close>

lemma boundary_started:
  assumes "start_height d \<le> k * period d" "0 < k"
  shows "boundary_state d sig k \<noteq> Defined"
  using assms by (cases k; cases "boundary_state d sig (k - 1)") auto

lemma never_failed: "lockinontimeout d \<Longrightarrow> boundary_state d sig k \<noteq> Failed"
  by (induction k) (simp, case_tac "boundary_state d sig k", auto split: if_splits)

lemma boundary_locked:
  assumes "lockinontimeout d" "start_height d \<le> k * period d" "timeout_height d \<le> Suc k * period d" "0 < k"
  shows "boundary_state d sig (Suc k) = LockedIn \<or> boundary_state d sig (Suc k) = Active"
  using boundary_started [OF assms(2,4), of sig] never_failed [OF assms(1), of sig k] assms(1,3)
  by (cases "boundary_state d sig k") auto

lemma boundary_active:
  assumes "lockinontimeout d" "start_height d \<le> k * period d" "timeout_height d \<le> Suc k * period d" "0 < k"
    and "min_activation_height d \<le> Suc (Suc k) * period d" "Suc (Suc k) \<le> n"
  shows "boundary_state d sig n = Active"
proof -
  have "boundary_state d sig (Suc (Suc k)) = Active"
    using boundary_locked [OF assms(1-4), of sig] assms(5) by (auto simp del: boundary_state.simps(2) mult_Suc
        simp: boundary_state.simps(2) [of d sig "Suc k"])
  then show ?thesis using terminal_stays [of d sig "Suc (Suc k)" n] assms(6) by (simp add: is_terminal_def)
qed

text \<open>The machine reads only the signals of complete windows.\<close>

lemma boundary_local:
  assumes "\<And>h. h < k * period d \<Longrightarrow> sig h (dep_bit d) = sig' h (dep_bit d)" "j \<le> k"
  shows "boundary_state d sig j = boundary_state d sig' j"
  using assms(2)
proof (induction j)
  case (Suc j)
  have "Suc j * period d \<le> k * period d" using Suc.prems by (rule mult_le_mono1)
  then have "{i. i < period d \<and> sig (j * period d + i) (dep_bit d)}
      = {i. i < period d \<and> sig' (j * period d + i) (dep_bit d)}"
    using assms(1) by auto
  then have "signaling_count_in_window d (j * period d) sig = signaling_count_in_window d (j * period d) sig'"
    by (simp add: count_eq)
  then show ?case using Suc by (cases "boundary_state d sig' j") simp_all
qed simp

section \<open>Properties\<close>

text \<open>C11. Activation is earned and final.  A deployment is active at a height only when its minimum
  activation height has been reached and, after signalling opened, either some complete window met
  the threshold at least one whole window earlier, or the deployment locks in on timeout and the
  timeout has passed.  From then on it is active at every later height; a failed deployment stays
  failed.  The state at a height depends only on the signals of blocks below the start of that
  height's window, so that branches which agree there agree on the state.\<close>

theorem activation_earned_and_final:
  assumes "0 < period d" "h \<le> h'"
    and "\<forall>i. i < window_start d h \<longrightarrow> sig' i (dep_bit d) = sig i (dep_bit d)"
  shows "(state_at d h sig = Active \<longrightarrow> min_activation_height d \<le> window_start d h
      \<and> ((\<exists>j. Suc (Suc j) * period d \<le> h \<and> met_window d sig j)
         \<or> lockinontimeout d \<and> timeout_height d \<le> window_start d h))
    \<and> (is_terminal (state_at d h sig) \<longrightarrow> state_at d h' sig = state_at d h sig)
    \<and> state_at d h sig' = state_at d h sig"
proof (intro conjI impI)
  let ?k = "h div period d"
  have w: "window_start d h = ?k * period d" by (simp add: window_start_def minus_mod_eq_div_mult)
  have k: "j * period d \<le> h \<longleftrightarrow> j \<le> ?k" for j using assms(1) by (simp add: less_eq_div_iff_mult_less_eq)
  {
    assume "state_at d h sig = Active"
    note a = boundary_history(3) [OF this [unfolded state_at_boundary [OF assms(1)]]]
    then show "min_activation_height d \<le> window_start d h" by (simp add: w)
    show "(\<exists>j. Suc (Suc j) * period d \<le> h \<and> met_window d sig j)
         \<or> lockinontimeout d \<and> timeout_height d \<le> window_start d h"
      using a unfolding w k by (auto simp: Suc_le_eq)
  next
    assume "is_terminal (state_at d h sig)"
    then show "state_at d h' sig = state_at d h sig"
      using terminal_stays [OF _ div_le_mono [OF assms(2)]] by (simp add: state_at_boundary [OF assms(1)])
  next
    show "state_at d h sig' = state_at d h sig"
      using boundary_local [of ?k d sig' sig ?k] assms(3) by (simp add: state_at_boundary [OF assms(1)] w)
  }
qed

definition sample_deployment :: deployment where
  "sample_deployment = \<lparr>dep_name = ''fee-auction'', dep_bit = 1, start_height = 10, timeout_height = 50, period = 10,
     dep_threshold = \<lparr>th_num = 8, th_den = 10\<rparr>, min_activation_height = 40, lockinontimeout = False\<rparr>"

lemma sample_active: "state_at sample_deployment 40 (\<lambda>_ _. True) = Active"
  by code_simp

theorem activation_earned_and_final_witness:
  "state_at sample_deployment 1000 (\<lambda>_ _. True) = Active \<and> state_at sample_deployment 40 (\<lambda>h _. h < 40) = Active"
  using activation_earned_and_final [of sample_deployment 40 1000 "\<lambda>h _. h < 40" "\<lambda>_ _. True"] sample_active
  by (simp add: sample_deployment_def is_terminal_def window_start_def)

text \<open>C12. Mandatory activation.  A deployment built by \<open>Deployment::new\<close> with lock-in on timeout
  becomes active whatever the miners signal: at every height at least three windows past the timeout
  and one past the minimum activation height.\<close>

theorem lockin_on_timeout_activates:
  assumes "deployment_new name b start timeout per t min_act True = Inr d"
    and "timeout + 3 * per \<le> h" "min_act + per \<le> h"
  shows "state_at d h sig = Active"
proof -
  have d: "period d = per" "start_height d = start" "timeout_height d = timeout" "min_activation_height d = min_act"
    "lockinontimeout d" and pos: "0 < per" "start < timeout"
    using assms(1) by (auto simp: deployment_new_def split: if_splits)
  let ?n = "h div per"
  have n: "h < Suc ?n * per" using pos(1) by (metis dividend_less_div_times mult_Suc add.commute)
  obtain k where k: "?n = Suc (Suc k)"
    using n assms(2) pos by (cases ?n; cases "?n - 1") auto
  have "timeout < k * per" using n assms(2) by (simp add: k)
  moreover from this have "0 < k" by (cases k) auto
  moreover have "min_act \<le> Suc (Suc k) * per" using n assms(3) by (simp add: k)
  ultimately have "boundary_state d sig (Suc (Suc k)) = Active"
    using boundary_active [of d k "Suc (Suc k)" sig] pos by (simp add: d)
  then show ?thesis by (simp add: state_at_boundary d pos(1) k)
qed

theorem lockin_on_timeout_activates_witness:
  "\<exists>d. deployment_new ''pq-sunset'' 4 10 50 10 \<lparr>th_num = 8, th_den = 10\<rparr> 40 True = Inr d
     \<and> state_at d 80 (\<lambda>_ _. False) = Active"
  using lockin_on_timeout_activates [of "''pq-sunset''" 4 10 50 10 "\<lparr>th_num = 8, th_den = 10\<rparr>" 40 _ 80 "\<lambda>_ _. False"]
  by (simp add: deployment_new_def MAX_SIGNAL_BIT_def)

section \<open>The registry keeps bits apart\<close>

definition registry_ok :: "governance \<Rightarrow> bool" where
  "registry_ok g \<longleftrightarrow> (\<forall>n d. bt_get g n = Some d \<longrightarrow> dep_name d = n)
     \<and> (\<forall>n d m e. bt_get g n = Some d \<longrightarrow> bt_get g m = Some e \<longrightarrow> dep_bit d = dep_bit e \<longrightarrow> n = m)"

lemma register_ok:
  assumes "registry_ok g" "register d g = Inr g'"
  shows "registry_ok g' \<and> bt_get g' (dep_name d) = Some d"
proof -
  have g': "g' = bt_insert (dep_name d) d g" and fresh: "bt_get g (dep_name d) = None"
    and "List.find (\<lambda>(_, e). dep_bit e = dep_bit d) (bt_entries g) = None"
    using assms(2) by (auto simp: register_def bt_contains_def split: if_splits option.splits)
  then have "bt_get g m = Some e \<Longrightarrow> dep_bit e \<noteq> dep_bit d" for m e
    using bt_entries_iff [of m e g] by (auto simp: find_None_iff)
  then show ?thesis using assms(1) fresh unfolding registry_ok_def g' by (simp split: if_splits) metis
qed

text \<open>The log answers with the last mask recorded for a height and nothing after a removal.\<close>

lemma signals_record: "signals (fst (record_mask h m s)) h' b =
    (if h' = h then b < 32 \<and> bit m b else signals s h' b)"
  by (auto simp: signals_def record_mask_def push_bit_of_1 and_exp_eq_0_iff_not_bit)

end
