(* ===== verification/Determinism.thy ===== *)
theory Determinism
  imports ArmContract
begin

text \<open>
  Execution does not depend on the undo journal.  The block producer executes on a ledger without a
  journal, the importer on the same ledger after \<open>begin_undo\<close>; both must arrive at the same roots.
  \<open>erase\<close> forgets the journal, and every operation of the runtime is shown to commute with it.
\<close>

definition erase :: "ledger \<Rightarrow> ledger" where
  "erase l = l\<lparr>undo := None\<rparr>"

lemmas case_congs = option.case_cong sum.case_cong prod.case_cong settle_leg.case_cong asset.case_cong if_cong

section \<open>Reads\<close>

lemma erase_fields [simp]:
  "undo (erase l) = None" "accounts (erase l) = accounts l" "contract_storage (erase l) = contract_storage l"
  "mined_emitted (erase l) = mined_emitted l" "shielded_value (erase l) = shielded_value l"
  "shielded (erase l) = shielded l" "shielded_v2_value (erase l) = shielded_v2_value l"
  "shielded_v2 (erase l) = shielded_v2 l" "deshield_v2_window (erase l) = deshield_v2_window l"
  "htlcs (erase l) = htlcs l" "htlc_locked (erase l) = htlc_locked l" "tokens (erase l) = tokens l"
  "token_balances (erase l) = token_balances l" "token_policies (erase l) = token_policies l"
  "token_windows (erase l) = token_windows l" "consumed_intents (erase l) = consumed_intents l"
  "deshield_window (erase l) = deshield_window l" "nft_classes (erase l) = nft_classes l" "nfts (erase l) = nfts l"
  "multisigs (erase l) = multisigs l" "proposals (erase l) = proposals l" "vaults (erase l) = vaults l"
  "vault_collateral (erase l) = vault_collateral l" "oracle_price_set (erase l) = oracle_price_set l"
  "commitment (erase l) = commitment l"
  by (simp_all add: erase_def)

lemma erase_reads [simp]:
  "account_of (erase l) = account_of l" "account_exists (erase l) = account_exists l"
  "contract_entries (erase l) = contract_entries l" "state_root (erase l) = state_root l"
  "total_supply (erase l) = total_supply l" "vault_of (erase l) = vault_of l" "oracle_price (erase l) = oracle_price l"
  "resolve_name C (erase l) = resolve_name C l" "name_taken C (erase l) = name_taken C l"
  "token_balance (erase l) = token_balance l" "token_window (erase l) = token_window l"
  "intent_consumed (erase l) = intent_consumed l" "nft_owner (erase l) = nft_owner l"
  "proposals_for (erase l) = proposals_for l" "name_record_of C (erase l) = name_record_of C l"
  by (simp_all add: fun_eq_iff account_of_def account_exists_def contract_entries_def state_root_def total_supply_def
      vault_of_def oracle_price_def resolve_name_def name_taken_def token_balance_def token_window_def
      intent_consumed_def nft_owner_def proposals_for_def name_record_of_def cong: case_congs)

lemma erase_runtime_reads [simp]:
  "resolve_recipient C (erase l) = resolve_recipient C l" "check_token_outgoing (erase l) = check_token_outgoing l"
  "holder_balances (erase l) = holder_balances l" "mint_block (erase l) = mint_block l"
  "settle_leg_of (erase l) = settle_leg_of l" "leg_balance (erase l) = leg_balance l" "leg_window (erase l) = leg_window l"
  "plan_legs (erase l) = plan_legs l" "legacy_member ctx (erase l) = legacy_member ctx l"
  "approve_with ctx (erase l) = approve_with ctx l" "scratch_balance (erase l) = scratch_balance l"
  "batch_gate (erase l) = batch_gate l"
  by (simp_all add: fun_eq_iff resolve_recipient_def check_token_outgoing_def holder_balances_def mint_block_def
      settle_leg_of_def leg_balance_def leg_window_def plan_legs_def legacy_member_def approve_with_def
      scratch_balance_def batch_gate_def cong: case_congs)

section \<open>Writes\<close>

lemma erase_writes:
  "erase (set_account C i a l) = set_account C i a (erase l)"
  "erase (set_contract_value C i k v l) = set_contract_value C i k v (erase l)"
  "erase (put_shielded_value C b l) = put_shielded_value C b (erase l)"
  "erase (put_shielded_v2_value C b l) = put_shielded_v2_value C b (erase l)"
  "erase (set_deshield_v2_window C n b l) = set_deshield_v2_window C n b (erase l)"
  "erase (set_deshield_window C n b l) = set_deshield_window C n b (erase l)"
  "erase (set_oracle_price C n l) = set_oracle_price C n (erase l)"
  "erase (set_multisig C i m l) = set_multisig C i m (erase l)"
  "erase (set_proposal C h p l) = set_proposal C h p (erase l)"
  "erase (remove_proposal C h l) = remove_proposal C h (erase l)"
  "erase (drop_proposal h l) = drop_proposal h (erase l)"
  "erase (set_nft_class C h cl l) = set_nft_class C h cl (erase l)"
  "erase (put_nft C h bs t l) = put_nft C h bs t (erase l)"
  "erase (set_token C h info l) = set_token C h info (erase l)"
  "erase (set_token_balance C h i b l) = set_token_balance C h i b (erase l)"
  "erase (set_token_window C h i w l) = set_token_window C h i w (erase l)"
  "erase (clear_window C ai l) = clear_window C ai (erase l)"
  "erase (consume_intent C h l) = consume_intent C h (erase l)"
  by (simp_all add: erase_def write_defs commit_defs Let_def)

lemma erase_commit:
  "erase (commit C sl ov l) = commit C sl ov (erase l)" "erase (record_op u l) = erase l" "record_op u (erase l) = erase l"
  "erase (recommit_shielded C l) = recommit_shielded C (erase l)"
  "erase (recommit_shielded_v2 C l) = recommit_shielded_v2 C (erase l)"
  "erase (commit_counter C nm v l) = commit_counter C nm v (erase l)"
  "erase (recommit_htlcs C l) = recommit_htlcs C (erase l)" "erase (recommit_proposals C l) = recommit_proposals C (erase l)"
  "erase (recommit_vaults C l) = recommit_vaults C (erase l)"
  by (simp_all add: erase_def commit_defs cong: case_congs)

lemma erase_fold: "(\<And>e l. erase (f e l) = f e (erase l)) \<Longrightarrow> erase (fold f es l) = fold f es (erase l)"
  by (induction es arbitrary: l) auto

lemma erase_fold_record: "erase (fold (\<lambda>e. record_op (g e)) es l) = erase l"
  by (induction es arbitrary: l) (auto simp: erase_commit)

lemma erase_many:
  "erase (set_token_policy C a p l) = set_token_policy C a p (erase l)"
  "remove_proposals_for C i (erase l) = map_prod id erase (remove_proposals_for C i l)"
  "erase (put_window C a i w l) = put_window C a i w (erase l)"
proof -
  have swap: "erase (l\<lparr>token_policies := m\<rparr>) = (erase l)\<lparr>token_policies := m\<rparr>" for l m by (simp add: erase_def)
  have quiet: "fold (\<lambda>((a, h), w). record_op (UTokenWindow a h (Some w))) es (erase l) = erase l" for es l
    by (induction es) (auto simp: erase_commit)
  have records: "erase (fold (\<lambda>((a, h), w). record_op (UTokenWindow a h (Some w))) es l) = erase l" for es l
    by (induction es arbitrary: l) (auto simp: erase_commit split: prod.splits)
  have policies: "token_policies (fold (\<lambda>((a, h), w). record_op (UTokenWindow a h (Some w))) es l) = token_policies l" for es l
    by (induction es arbitrary: l) (auto simp: record_op_def split: prod.splits)
  show "erase (set_token_policy C a p l) = set_token_policy C a p (erase l)"
    by (simp add: set_token_policy_def Let_def erase_fold erase_writes erase_commit swap records quiet policies)
      (simp add: record_op_def)
  show "remove_proposals_for C i (erase l) = map_prod id erase (remove_proposals_for C i l)"
    by (simp add: remove_proposals_for_def Let_def erase_commit erase_fold erase_writes)
qed (simp add: put_window_def erase_writes split: option.split)

lemma erase_fallible:
  "lock_htlc C h t (erase l) = map_option erase (lock_htlc C h t l)"
  "settle_htlc C h (erase l) = map_option (map_prod id erase) (settle_htlc C h l)"
  "set_vault C i v (erase l) = map_option erase (set_vault C i v l)"
  "apply_shielded_v2 C nfs cms (erase l) = map_sum id erase (apply_shielded_v2 C nfs cms l)"
  "add_shielded_value C b (erase l) = map_option erase (add_shielded_value C b l)"
  "sub_shielded_value C b (erase l) = map_option erase (sub_shielded_value C b l)"
  "add_shielded_v2_value C b (erase l) = map_option erase (add_shielded_v2_value C b l)"
  "sub_shielded_v2_value C b (erase l) = map_option erase (sub_shielded_v2_value C b l)"
  "mint_nft C h k i m n (erase l) = map_option erase (mint_nft C h k i m n l)"
  "transfer_nft C h k i (erase l) = map_option erase (transfer_nft C h k i l)"
  "set_nft_meta C h k m (erase l) = map_option erase (set_nft_meta C h k m l)"
  "register_name C nm i n (erase l) = map_option erase (register_name C nm i n l)"
  "transfer_name C nm i (erase l) = map_option erase (transfer_name C nm i l)"
  "add_mined_emitted C b (erase l) = map_option erase (add_mined_emitted C b l)"
  "apply_shielded_bundle C sb (erase l) = map_prod erase id (apply_shielded_bundle C sb l)"
  by (simp_all add: lock_htlc_def settle_htlc_def set_vault_def apply_shielded_v2_def add_shielded_value_def
      sub_shielded_value_def add_shielded_v2_value_def sub_shielded_v2_value_def mint_nft_def transfer_nft_def
      set_nft_meta_def register_name_def transfer_name_def add_mined_emitted_def apply_shielded_bundle_def
      erase_writes Let_def split: option.split sum.split prod.split)
    (simp_all add: erase_def commit_defs Let_def split: option.split)

section \<open>Arms\<close>

definition erase_exec :: "exec \<Rightarrow> exec" where
  "erase_exec x = x\<lparr>xl := erase (xl x)\<rparr>"

definition erase_result :: "exec \<times> 'r \<Rightarrow> exec \<times> 'r" where
  "erase_result r = (erase_exec (fst r), snd r)"

lemma erase_result_simps [simp]:
  "erase_result (succeed x) = succeed (x\<lparr>xl := erase (xl x)\<rparr>)"
  "erase_result (fail_with r x) = fail_with r (x\<lparr>xl := erase (xl x)\<rparr>)"
  "erase_result (reject_with e x) = reject_with e (x\<lparr>xl := erase (xl x)\<rparr>)"
  "erase_result (panic x) = panic (x\<lparr>xl := erase (xl x)\<rparr>)" "erase_result (x, res) = (x\<lparr>xl := erase (xl x)\<rparr>, res)"
  by (simp_all add: erase_result_def erase_exec_def outcome_defs)

text \<open>The rules that move \<open>erase\<close> and the update of the ledger outwards.\<close>

lemma xl_last:
  "x\<lparr>xl := l, xs := a\<rparr> = x\<lparr>xs := a, xl := l\<rparr>" "x\<lparr>xl := l, xfee := n\<rparr> = x\<lparr>xfee := n, xl := l\<rparr>"
  "x\<lparr>xl := l, xgas := n\<rparr> = x\<lparr>xgas := n, xl := l\<rparr>" "x\<lparr>xl := l, xret := bs\<rparr> = x\<lparr>xret := bs, xl := l\<rparr>"
  "x\<lparr>xl := l, xev := ev\<rparr> = x\<lparr>xev := ev, xl := l\<rparr>"
  by simp_all

lemmas erase_out = erase_writes [symmetric] erase_many(1,3) [symmetric] erase_many(2) erase_fallible erase_exec_def xl_last

lemma erase_plain_arms:
  "exec_claim_vesting ctx (erase_exec x) = erase_result (exec_claim_vesting ctx x)"
  "exec_deploy wm (erase_exec x) = erase_result (exec_deploy wm x)"
  "exec_rotate_key C tx hy k sg (erase_exec x) = erase_result (exec_rotate_key C tx hy k sg x)"
  "exec_oracle_update C tx n (erase_exec x) = erase_result (exec_oracle_update C tx n x)"
  "exec_intent_cancel C tx it (erase_exec x) = erase_result (exec_intent_cancel C tx it x)"
  "exec_set_multisig C tx hy ks n (erase_exec x) = erase_result (exec_set_multisig C tx hy ks n x)"
  "exec_token_set_policy C tx h p (erase_exec x) = erase_result (exec_token_set_policy C tx h p x)"
  "exec_cancel_multisig C ctx tx j h (erase_exec x) = erase_result (exec_cancel_multisig C ctx tx j h x)"
  unfolding exec_claim_vesting_def exec_deploy_def exec_rotate_key_def exec_oracle_update_def exec_intent_cancel_def
    exec_set_multisig_def exec_token_set_policy_def exec_cancel_multisig_def Let_def
  by (simp_all add: erase_out split: option.split)

lemma erase_item_arms:
  "exec_register_name C ctx tx nm (erase_exec x) = erase_result (exec_register_name C ctx tx nm x)"
  "exec_transfer_name C tx nm to (erase_exec x) = erase_result (exec_transfer_name C tx nm to x)"
  "exec_nft_mint C ctx tx s t to m (erase_exec x) = erase_result (exec_nft_mint C ctx tx s t to m x)"
  "exec_nft_transfer C tx h t to (erase_exec x) = erase_result (exec_nft_transfer C tx h t to x)"
  "exec_nft_set_meta C tx h t m (erase_exec x) = erase_result (exec_nft_set_meta C tx h t m x)"
  unfolding exec_register_name_def exec_transfer_name_def exec_nft_mint_def exec_nft_transfer_def exec_nft_set_meta_def Let_def
  by (simp_all add: erase_out split: option.split sum.split)

lemma erase_htlc_arms:
  "exec_htlc_lock C stx to v h n (erase_exec x) = erase_result (exec_htlc_lock C stx to v h n x)"
  "exec_htlc_claim C ctx tx h t (erase_exec x) = erase_result (exec_htlc_claim C ctx tx h t x)"
  "exec_htlc_refund C ctx tx h (erase_exec x) = erase_result (exec_htlc_refund C ctx tx h x)"
  unfolding exec_htlc_lock_def exec_htlc_claim_def exec_htlc_refund_def release_htlc_def Let_def
  by (simp_all add: erase_out split: option.split prod.split)

lemma erase_token_arms:
  "exec_token_issue C tx s v to (erase_exec x) = erase_result (exec_token_issue C tx s v to x)"
  "exec_token_transfer C ctx tx h to v (erase_exec x) = erase_result (exec_token_transfer C ctx tx h to v x)"
  "exec_token_burn C ctx tx h v (erase_exec x) = erase_result (exec_token_burn C ctx tx h v x)"
  unfolding exec_token_issue_def exec_token_transfer_def exec_token_burn_def Let_def
  by (simp_all add: erase_out split: option.split sum.split)

lemma erase_vault_arms:
  "exec_vault_deposit C tx v (erase_exec x) = erase_result (exec_vault_deposit C tx v x)"
  "exec_vault_withdraw C tx v (erase_exec x) = erase_result (exec_vault_withdraw C tx v x)"
  "exec_vault_mint C tx v (erase_exec x) = erase_result (exec_vault_mint C tx v x)"
  "exec_vault_burn C tx v (erase_exec x) = erase_result (exec_vault_burn C tx v x)"
  unfolding exec_vault_deposit_def exec_vault_withdraw_def exec_vault_mint_def exec_vault_burn_def store_vault_def Let_def
  by (simp_all add: erase_out split: option.split)

lemma erase_do_transfer:
  "do_transfer C (erase l) i ac j b = map_sum id (map_prod id (map_prod id erase)) (do_transfer C l i ac j b)"
  by (simp add: do_transfer_def Let_def erase_out split: option.split)

lemma erase_proposal_action:
  "execute_proposal_action C (erase l) i a = map_sum id (map_prod id erase) (execute_proposal_action C l i a)"
  by (cases a) (auto simp: execute_proposal_action_def erase_do_transfer erase_out split: sum.split)

lemma erase_transfer_arms:
  "exec_transfer C tx to v (erase_exec x) = erase_result (exec_transfer C tx to v x)"
  "exec_propose_multisig C ctx tx j a (erase_exec x) = erase_result (exec_propose_multisig C ctx tx j a x)"
  "exec_approve_multisig C ctx tx j h (erase_exec x) = erase_result (exec_approve_multisig C ctx tx j h x)"
  unfolding exec_transfer_def exec_propose_multisig_def exec_approve_multisig_def Let_def
  by (auto simp: erase_out erase_do_transfer erase_proposal_action split: option.split sum.split)

subsection \<open>Contracts and intents\<close>

lemma erase_batch_step [simp]: "batch_step (erase l) = batch_step l"
  by (simp add: fun_eq_iff batch_step_def Let_def cong: case_congs)

lemma erase_batch_run [simp]: "batch_run (erase l) c h cmds b = batch_run l c h cmds b"
  by (induction cmds arbitrary: b) (auto split: sum.split)

lemma erase_contract:
  "settle_contract_token_transfers C (erase l) c cmds h = map_sum id erase (settle_contract_token_transfers C l c cmds h)"
proof -
  have "fold (\<lambda>(a, w). set_token_window C a c w) es (erase l) = erase (fold (\<lambda>(a, w). set_token_window C a c w) es l)" for es l
    by (rule erase_fold [symmetric]) (auto simp: erase_writes)
  moreover have "fold (\<lambda>((a, i), v). set_token_balance C a i v) es (erase l)
      = erase (fold (\<lambda>((a, i), v). set_token_balance C a i v) es l)" for es l
    by (rule erase_fold [symmetric]) (auto simp: erase_writes)
  ultimately show ?thesis by (simp add: settle_contract_token_transfers_def Let_def split: sum.split)
qed

lemma erase_storage:
  "fold (\<lambda>(k, v). set_contract_value C c k v) es (erase l) = erase (fold (\<lambda>(k, v). set_contract_value C c k v) es l)"
  by (rule erase_fold [symmetric]) (auto simp: erase_writes)

lemma erase_call: "exec_call C ctx tx c g d (erase_exec x) = erase_result (exec_call C ctx tx c g d x)"
  unfolding exec_call_def Let_def
  by (auto simp: erase_out erase_contract erase_storage simp del: checked_mul_Some
      split: option.split sum.split vm_error.split prod.split)

lemma erase_leg:
  "put_leg_token C g i v (erase l) = erase (put_leg_token C g i v l)"
  "put_leg_window C g i w (erase l) = erase (put_leg_window C g i w l)"
  by (simp_all add: put_leg_token_def put_leg_window_def erase_out split: settle_leg.split)

lemma erase_intent_legs:
  "settle_intent_legs C (erase l) ac sol s h = map_sum id (map_prod id erase) (settle_intent_legs C l ac sol s h)"
  by (simp add: settle_intent_legs_def Let_def and_then_def erase_leg erase_out split: sum.split)

lemma erase_intent: "exec_intent_settle C ctx tx s (erase_exec x) = erase_result (exec_intent_settle C ctx tx s x)"
  unfolding exec_intent_settle_def Let_def
  by (auto simp: erase_out erase_intent_legs split: sum.split)

subsection \<open>Shielded pools\<close>

lemma erase_move: "move_shielded C vb mag w (erase_exec x) = erase_result (move_shielded C vb mag w x)"
  unfolding move_shielded_def Let_def
  by (auto simp: erase_out split: option.split prod.split)

lemma erase_move_at:
  "move_shielded C vb mag w (x\<lparr>xl := erase l\<rparr>) = erase_result (move_shielded C vb mag w (x\<lparr>xl := l\<rparr>))"
  using erase_move [of C vb mag w "x\<lparr>xl := l\<rparr>"] by (simp add: erase_exec_def)

lemma erase_shielded: "exec_shielded C ctx tx b (erase_exec x) = erase_result (exec_shielded C ctx tx b x)"
  unfolding exec_shielded_def Let_def
  by (auto simp: erase_out erase_move_at split: option.split prod.split sum.split)

lemma erase_shield_in: "apply_shield_in C v (erase_exec x) = erase_result (apply_shield_in C v x)"
  unfolding apply_shield_in_def Let_def
  by (auto simp: erase_out erase_result_def outcome_defs split: option.split)

lemma erase_deshield_out: "apply_deshield_out C v d w (erase_exec x) = erase_result (apply_deshield_out C v d w x)"
  unfolding apply_deshield_out_def Let_def
  by (auto simp: erase_out split: option.split)

lemma erase_v2_effects: "apply_v2_effects C eff d (erase_exec x) = erase_result (apply_v2_effects C eff d x)"
proof -
  have at: "apply_shield_in C v (x\<lparr>xl := erase l\<rparr>) = erase_result (apply_shield_in C v (x\<lparr>xl := l\<rparr>))" for v l
    using erase_shield_in [of C v "x\<lparr>xl := l\<rparr>"] by (simp add: erase_exec_def)
  show ?thesis
    unfolding apply_v2_effects_def
    by (auto simp: erase_fallible at erase_deshield_out [unfolded erase_exec_def] erase_exec_def
        split: sum.split prod.split v2_state_error.split)
qed

lemma erase_verify_v2 [simp]:
  "verify_bundle_for_carrier_with_suite2 C bs (erase l) = verify_bundle_for_carrier_with_suite2 C bs l"
  by (simp add: fun_eq_iff verify_bundle_for_carrier_with_suite2_def check_effects_def Let_def cong: case_congs)

lemma erase_shielded_v2:
  "exec_shielded_v2 C ctx tx eff fee b (erase_exec x) = erase_result (exec_shielded_v2 C ctx tx eff fee b x)"
  unfolding exec_shielded_v2_def
  by (auto simp: erase_v2_effects split: option.split sum.split) (simp_all add: erase_exec_def)

section \<open>Transactions and blocks\<close>

lemma erase_dispatch: "dispatch C ctx stx ad a (erase_exec x) = erase_result (dispatch C ctx stx ad a x)"
  by (cases a)
    (simp_all add: erase_plain_arms erase_item_arms erase_htlc_arms erase_token_arms erase_vault_arms erase_transfer_arms
      erase_call erase_intent erase_shielded erase_shielded_v2, simp_all add: erase_exec_def)

lemma erase_run_action: "run_action C ctx stx ad (erase_exec x) = erase_result (run_action C ctx stx ad x)"
  by (simp add: run_action_def erase_dispatch split: option.split) (simp add: erase_exec_def)

lemma erase_admission [simp]:
  "authorize C (erase l) = authorize C l" "fund_fee C ctx (erase l) = fund_fee C ctx l"
  "resolve_action C ctx (erase l) = resolve_action C ctx l"
  by (simp_all add: fun_eq_iff authorize_def fund_fee_def verify_direct_suite2_withdrawal_for_fee_def resolve_action_def
      multisig_exec_error_def cong: case_congs action.case_cong)

lemma erase_admit [simp]: "admit C ctx (erase l) stx = admit C ctx l stx"
  by (simp add: admit_def)

lemma erase_credit: "credit C (erase l) i v = map_sum id erase (credit C l i v)"
  by (simp add: credit_def Let_def erase_out split: option.split)

lemma erase_finish:
  "finish C ctx stx ad (erase_exec x) st = map_prod erase id (finish C ctx stx ad x st)"
  unfolding finish_def distribute_fee_def Let_def make_receipt_def
  by (auto simp: erase_out erase_credit split: sum.split)

lemma erase_transaction: "apply_transaction C ctx stx (erase l) = map_prod erase id (apply_transaction C ctx stx l)"
proof -
  have start: "start_exec (erase l) ad = erase_exec (start_exec l ad)" for ad by (simp add: start_exec_def erase_exec_def)
  show ?thesis
    unfolding apply_transaction_def
    by (simp add: start erase_run_action erase_result_def erase_finish split: sum.split prod.split)
      (simp add: erase_exec_def)
qed

lemma erase_transactions:
  "apply_transactions_from C ctx i stxs (erase l) = map_prod erase id (apply_transactions_from C ctx i stxs l)"
  by (induction stxs arbitrary: i l) (auto simp: erase_transaction split: prod.split sum.split)

lemma erase_coinbase: "apply_coinbase C ctx (erase l) = map_prod erase id (apply_coinbase C ctx l)"
  by (simp add: apply_coinbase_def Let_def erase_credit erase_fallible split: sum.split option.split)

lemma erase_undo [simp]: "erase (begin_undo l) = erase l" "snd (take_undo l) = erase l"
  by (simp_all add: erase_def begin_undo_def take_undo_def)

end
