(* ===== verification/ChainRules.thy ===== *)
theory ChainRules
  imports Genesis Governance Determinism
begin

text \<open>
  The state of the chain manager and the rules a block is held to, \<open>chain/src/blockchain.rs\<close>: the
  block index, the activation of deployments along a branch, the elastic size cap, the required
  difficulty and the median time past.

  \<open>ch_blocks\<close> is the active chain with genesis first and is never empty.  \<open>None\<close> as the result of a
  target is the panic of an \<open>expect\<close>.  Hash maps that are only looked up are partial functions.
\<close>

section \<open>State\<close>

record index_entry =
  ei_block :: block
  ei_sha_target :: target
  ei_chain_work :: nat
  ei_height :: nat
  ei_size :: nat

record pq_deployment_config =
  pd_deployment :: deployment
  pd_sunset_delay_blocks :: nat
  pd_threshold_grains :: nat

record blockchain =
  ch_chain_id :: string
  ch_ledger :: ledger
  ch_mining :: mining_policy
  ch_difficulty :: nat
  ch_blocks :: "block list"
  ch_index :: "hash \<rightharpoonup> index_entry"
  ch_head :: hash
  ch_genesis_ledger :: ledger
  ch_genesis_hash :: hash
  ch_checkpoints :: "(nat, hash) btree_map"
  ch_linked :: "hash set"
  ch_linkage_pending :: "hash list"
  ch_linkage_next :: nat
  ch_linkage_prev :: "hash option"
  ch_signal_mask :: "32 word"
  ch_coinbase_account :: "account_id option"
  ch_default_coinbase :: account_id
  ch_signals :: signal_log
  ch_pq :: "pq_deployment_config option"
  ch_tx_domain :: "deployment option"
  ch_grace_blocks :: nat
  ch_fee_auction :: "deployment option"
  ch_shielded_v2 :: "deployment option"
  ch_suite2 :: "deployment option"
  ch_suite2_recovery :: "deployment option"
  ch_tx_timestamp :: "deployment option"
  ch_receipts :: "(nat, receipt list) btree_map"
  ch_tx_height :: "hash \<rightharpoonup> nat"
  ch_undo_ring :: "(nat \<times> hash \<times> undo_op list) list"

datatype chain_error =
    BlockTooHeavy nat nat
  | GenesisRefused genesis_error
  | PowInsufficient
  | BadDifficultyBits nat nat
  | PowNotFound
  | HeightMismatch nat nat
  | PrevHashMismatch
  | BlockTooLarge nat nat
  | NonMonotonicTimestamp
  | TimestampNotAfterMedian nat nat
  | TxRootMismatch
  | BadSignatures
  | StateRootMismatch
  | ReceiptsRootMismatch
  | ExecutionRefused block_execution_error
  | CheckpointMismatch nat
  | Invariant invariant_violation

datatype chain_failure = Refused chain_error | ChainPanic

definition DIFFICULTY_WINDOW :: nat where "DIFFICULTY_WINDOW = 60"
definition BLOCK_SIZE_WINDOW :: nat where "BLOCK_SIZE_WINDOW = 100"
definition BLOCK_SIZE_GROWTH :: nat where "BLOCK_SIZE_GROWTH = 2"
definition BLOCK_SIZE_FLOOR :: nat where "BLOCK_SIZE_FLOOR = 1024 * 1024"
definition BLOCK_SIZE_CEILING :: nat where "BLOCK_SIZE_CEILING = 4 * 1024 * 1024"
definition SUITE2_SIZE_FLOOR :: nat where "SUITE2_SIZE_FLOOR = 2560 * 1024"
definition BLOCK_HEADER_SIZE_RESERVE :: nat where "BLOCK_HEADER_SIZE_RESERVE = 4096"
definition FINALITY_DEPTH :: nat where "FINALITY_DEPTH = 6"
definition EDA_ACTIVATION_MS :: nat where "EDA_ACTIVATION_MS = 1784239200000"
definition REORG_UNDO_WINDOW :: nat where "REORG_UNDO_WINDOW = 256"
definition TX_DOMAIN_GRACE_BLOCKS :: nat where "TX_DOMAIN_GRACE_BLOCKS = 576"
definition MAX_MINING_ITERS :: nat where "MAX_MINING_ITERS = 2 ^ 32"

definition canonical_target :: "target \<Rightarrow> target option" where
  "canonical_target t = from_compact (to_compact t)"

definition elastic_block_cap :: "nat list \<Rightarrow> nat" where
  "elastic_block_cap sizes =
     (let sorted_sizes = sort sizes;
          median = sorted_sizes ! (length sorted_sizes div 2)
      in max BLOCK_SIZE_FLOOR (min (saturating_mul 64 median BLOCK_SIZE_GROWTH) BLOCK_SIZE_CEILING))"

definition chain_head :: "blockchain \<Rightarrow> block" where
  "chain_head c = last (ch_blocks c)"

definition chain_height :: "blockchain \<Rightarrow> nat" where
  "chain_height c = hd_height (header (chain_head c))"

definition block_by_height :: "blockchain \<Rightarrow> nat \<Rightarrow> block option" where
  "block_by_height c h = (if h < length (ch_blocks c) then Some (ch_blocks c ! h) else None)"

section \<open>A new chain\<close>

definition chain_new :: "'a chain_env_scheme \<Rightarrow> genesis_config \<Rightarrow> chain_failure + blockchain" where
  "chain_new C cfg = (case genesis_build C cfg of
      Inl e \<Rightarrow> Inl (Refused (GenesisRefused e))
    | Inr g \<Rightarrow> (case check_ledger (g_ledger g) (gc_mining cfg) of
        Inl v \<Rightarrow> Inl (Refused (Invariant v))
      | Inr _ \<Rightarrow> (case canonical_target (sha256d_target (gc_mining cfg)) of
          None \<Rightarrow> Inl ChainPanic
        | Some t \<Rightarrow>
            (let gh = block_hash C (g_block g);
                 entry = \<lparr>ei_block = g_block g, ei_sha_target = t, ei_chain_work = work_saturating_add 0 (of_target t),
                          ei_height = 0, ei_size = serialized_size C (g_block g)\<rparr>
             in Inr \<lparr>ch_chain_id = gc_chain_id cfg, ch_ledger = g_ledger g, ch_mining = gc_mining cfg,
                     ch_difficulty = from_target t, ch_blocks = [g_block g], ch_index = [gh \<mapsto> entry], ch_head = gh,
                     ch_genesis_ledger = g_ledger g, ch_genesis_hash = gh, ch_checkpoints = bt_empty, ch_linked = {},
                     ch_linkage_pending = [], ch_linkage_next = 0, ch_linkage_prev = None, ch_signal_mask = 0,
                     ch_coinbase_account = None, ch_default_coinbase = g_coinbase g, ch_signals = signal_log_new,
                     ch_pq = None, ch_tx_domain = None, ch_grace_blocks = TX_DOMAIN_GRACE_BLOCKS,
                     ch_fee_auction = None, ch_shielded_v2 = None, ch_suite2 = None, ch_suite2_recovery = None,
                     ch_tx_timestamp = None, ch_receipts = bt_empty, ch_tx_height = Map.empty, ch_undo_ring = []\<rparr>))))"

section \<open>Deployments along a branch\<close>

text \<open>The walk over window boundaries that \<open>resolved_pq_with\<close>, \<open>tx_domain_activation_with\<close> and
  \<open>deployment_active_at\<close> share; a period of zero is refused by \<open>Deployment::new\<close>.  The boundary is a \<open>u64\<close> in the source, and
  its sum with the period stays below the range for every height that is not within a period of the
  last one.\<close>

function first_active :: "deployment \<Rightarrow> miner_signals \<Rightarrow> nat \<Rightarrow> nat \<Rightarrow> nat option" where
  "first_active d sig governing boundary =
     (if boundary \<le> governing \<and> 0 < period d then
        (if state_at d boundary sig = Active then Some boundary
         else first_active d sig governing (boundary + period d))
      else None)"
  by pat_completeness auto
termination
  by (relation "measure (\<lambda>(d, sig, governing, boundary). Suc governing - boundary)") auto

declare first_active.simps [simp del]

definition activation_height :: "deployment \<Rightarrow> nat \<Rightarrow> signal_log \<Rightarrow> nat option" where
  "activation_height d h s = first_active d (signals s) (h - h mod period d) (period d)"

definition resolved_pq_with :: "blockchain \<Rightarrow> nat \<Rightarrow> signal_log \<Rightarrow> pq_schedule option" where
  "resolved_pq_with c h s = (case ch_pq c of
      None \<Rightarrow> None
    | Some cfg \<Rightarrow> (case activation_height (pd_deployment cfg) h s of
        None \<Rightarrow> None
      | Some b \<Rightarrow> Some \<lparr>rotation_only_height = b, sunset_height = saturating_add 64 b (pd_sunset_delay_blocks cfg),
                       threshold_grains = pd_threshold_grains cfg\<rparr>))"

definition chain_domain :: "blockchain \<Rightarrow> signing_domain" where
  "chain_domain c = \<lparr>chain_id = ch_chain_id c, genesis = ch_genesis_hash c\<rparr>"

definition tx_domain_activation_with :: "blockchain \<Rightarrow> nat \<Rightarrow> signal_log \<Rightarrow> nat option" where
  "tx_domain_activation_with c h s = (case ch_tx_domain c of None \<Rightarrow> None | Some d \<Rightarrow> activation_height d h s)"

definition resolved_tx_domain_with :: "blockchain \<Rightarrow> nat \<Rightarrow> signal_log \<Rightarrow> signing_domain option" where
  "resolved_tx_domain_with c h s = map_option (\<lambda>_. chain_domain c) (tx_domain_activation_with c h s)"

definition resolved_tx_domain_mode_with :: "blockchain \<Rightarrow> nat \<Rightarrow> signal_log \<Rightarrow> tx_domain_mode" where
  "resolved_tx_domain_mode_with c h s = (case tx_domain_activation_with c h s of
      None \<Rightarrow> Legacy
    | Some activation \<Rightarrow>
        if h < saturating_add 64 activation (ch_grace_blocks c) then Grace (chain_domain c) else Bound (chain_domain c))"

definition deployment_active_at :: "deployment option \<Rightarrow> nat \<Rightarrow> signal_log \<Rightarrow> bool" where
  "deployment_active_at od h s = (case od of None \<Rightarrow> False | Some d \<Rightarrow> activation_height d h s \<noteq> None)"

definition shielded_v2_active_with :: "blockchain \<Rightarrow> nat \<Rightarrow> signal_log \<Rightarrow> bool" where
  "shielded_v2_active_with c h s = deployment_active_at (ch_shielded_v2 c) h s"

definition suite2_active_with :: "blockchain \<Rightarrow> nat \<Rightarrow> signal_log \<Rightarrow> bool" where
  "suite2_active_with c h s \<longleftrightarrow>
     (deployment_active_at (ch_suite2 c) h s \<or> deployment_active_at (ch_suite2_recovery c) h s)
     \<and> shielded_v2_active_with c h s"

text \<open>Walk parent links until a block that is the active block at its own height.  The fuel is the
  number of entries the walk may visit; the heights of linked entries descend to genesis.\<close>

definition on_active :: "'a crypto_scheme \<Rightarrow> blockchain \<Rightarrow> hash \<Rightarrow> index_entry \<Rightarrow> bool" where
  "on_active C c h e \<longleftrightarrow> map_option (block_hash C) (block_by_height c (ei_height e)) = Some h"

fun walk_to_active :: "'a crypto_scheme \<Rightarrow> blockchain \<Rightarrow> nat \<Rightarrow> hash \<Rightarrow> index_entry list \<times> index_entry option" where
  "walk_to_active C c 0 h = ([], None)"
| "walk_to_active C c (Suc n) h = (case ch_index c h of
      None \<Rightarrow> ([], None)
    | Some e \<Rightarrow>
        if on_active C c h e then ([], Some e)
        else (case walk_to_active C c n (prev_hash (header (ei_block e))) of (es, r) \<Rightarrow> (e # es, r)))"

definition walk_fuel :: "blockchain \<Rightarrow> hash \<Rightarrow> nat" where
  "walk_fuel c h = (case ch_index c h of None \<Rightarrow> 1 | Some e \<Rightarrow> Suc (ei_height e))"

definition branch_signals_from :: "'a crypto_scheme \<Rightarrow> blockchain \<Rightarrow> hash \<Rightarrow> signal_log" where
  "branch_signals_from C c parent = (case walk_to_active C c (walk_fuel c parent) parent of
      (es, r) \<Rightarrow>
        (let fork_height = (case r of Some e \<Rightarrow> ei_height e | None \<Rightarrow> 0);
             shared = fold (\<lambda>h s. fst (remove_mask h s)) [fork_height + 1 ..< Suc (chain_height c)] (ch_signals c)
         in fold (\<lambda>e s. fst (record_mask (hd_height (header (ei_block e))) (version_bits (header (ei_block e))) s))
              (rev es) shared))"

definition branch_tx_domain_mode :: "'a crypto_scheme \<Rightarrow> blockchain \<Rightarrow> block \<Rightarrow> tx_domain_mode" where
  "branch_tx_domain_mode C c b =
     (if ch_tx_domain c = None then Legacy
      else if prev_hash (header b) = ch_head c
      then resolved_tx_domain_mode_with c (hd_height (header b)) (ch_signals c)
      else resolved_tx_domain_mode_with c (hd_height (header b)) (branch_signals_from C c (prev_hash (header b))))"

definition branch_shielded_v2_active :: "'a crypto_scheme \<Rightarrow> blockchain \<Rightarrow> block \<Rightarrow> bool" where
  "branch_shielded_v2_active C c b =
     (if ch_shielded_v2 c = None then False
      else if prev_hash (header b) = ch_head c
      then shielded_v2_active_with c (hd_height (header b)) (ch_signals c)
      else shielded_v2_active_with c (hd_height (header b)) (branch_signals_from C c (prev_hash (header b))))"

section \<open>Size, difficulty and time\<close>

definition policy_with :: "blockchain \<Rightarrow> target \<Rightarrow> mining_policy" where
  "policy_with c t = (ch_mining c)\<lparr>sha256d_target := t\<rparr>"

fun recent_sizes :: "(hash \<rightharpoonup> index_entry) \<Rightarrow> nat \<Rightarrow> index_entry \<Rightarrow> nat list" where
  "recent_sizes idx 0 e = []"
| "recent_sizes idx (Suc n) e = ei_size e # (case idx (prev_hash (header (ei_block e))) of
      Some p \<Rightarrow> recent_sizes idx n p
    | None \<Rightarrow> [])"

definition block_size_limit :: "'a crypto_scheme \<Rightarrow> blockchain \<Rightarrow> index_entry \<Rightarrow> nat" where
  "block_size_limit C c parent =
     (let normal = elastic_block_cap (recent_sizes (ch_index c) BLOCK_SIZE_WINDOW parent)
      in if ch_suite2 c = None \<and> ch_suite2_recovery c = None then normal
         else (let height = saturating_add 64 (ei_height parent) 1;
                   ph = block_hash C (ei_block parent);
                   active = (if ph = ch_head c then suite2_active_with c height (ch_signals c)
                             else suite2_active_with c height (branch_signals_from C c ph))
               in if active then max normal SUITE2_SIZE_FLOOR else normal))"

fun window_entries :: "(hash \<rightharpoonup> index_entry) \<Rightarrow> nat \<Rightarrow> index_entry \<Rightarrow> (index_entry list \<times> index_entry) option" where
  "window_entries idx 0 e = Some ([], e)"
| "window_entries idx (Suc n) e = (case idx (prev_hash (header (ei_block e))) of
      None \<Rightarrow> None
    | Some p \<Rightarrow> (case window_entries idx n p of
        None \<Rightarrow> None
      | Some (es, before) \<Rightarrow> Some (e # es, before)))"

fun solve_times :: "nat \<Rightarrow> index_entry list \<Rightarrow> nat list" where
  "solve_times prev_ts [] = []"
| "solve_times prev_ts (e # es) =
     (let ts = timestamp_ms (header (ei_block e)) in (ts - prev_ts) # solve_times ts es)"

definition base_target :: "blockchain \<Rightarrow> index_entry \<Rightarrow> target option" where
  "base_target c parent =
     (if ei_height parent + 1 \<le> DIFFICULTY_WINDOW then canonical_target (sha256d_target (ch_mining c))
      else (case window_entries (ch_index c) DIFFICULTY_WINDOW parent of
          None \<Rightarrow> None
        | Some (newest_first, before) \<Rightarrow>
            (let entries = rev newest_first;
                 diffs = map (\<lambda>e. from_target (ei_sha_target e)) entries;
                 solves = solve_times (timestamp_ms (header (ei_block before))) entries
             in case lwma diffs solves (target_block_ms (ch_mining c)) of
                  None \<Rightarrow> None
                | Some D \<Rightarrow> canonical_target (to_target D))))"

definition expected_target :: "blockchain \<Rightarrow> index_entry \<Rightarrow> nat \<Rightarrow> target option" where
  "expected_target c parent ts = (case base_target c parent of
      None \<Rightarrow> None
    | Some base \<Rightarrow>
        if ts < EDA_ACTIVATION_MS then Some base
        else (let elapsed = ts - timestamp_ms (header (ei_block parent))
              in if eda_halvings elapsed (target_block_ms (ch_mining c)) = 0 then Some base
                 else canonical_target (to_target (eda (from_target base) elapsed (target_block_ms (ch_mining c))))))"

definition sync_active_difficulty :: "blockchain \<Rightarrow> blockchain option" where
  "sync_active_difficulty c = (case ch_index c (ch_head c) of
      None \<Rightarrow> None
    | Some e \<Rightarrow> (case base_target c e of
        None \<Rightarrow> None
      | Some t \<Rightarrow> Some (c\<lparr>ch_difficulty := from_target t\<rparr>)))"

definition chain_seal :: "'a chain_env_scheme \<Rightarrow> blockchain \<Rightarrow> block_header \<Rightarrow> hash" where
  "chain_seal C c h = pow_seal C (pow_algo (ch_mining c)) (ch_genesis_hash c) (pow_preimage h)"

fun branch_times :: "(hash \<rightharpoonup> index_entry) \<Rightarrow> nat \<Rightarrow> index_entry \<Rightarrow> nat list" where
  "branch_times idx 0 e = []"
| "branch_times idx (Suc n) e = timestamp_ms (header (ei_block e)) #
     (if n = 0 \<or> ei_height e = 0 then []
      else (case idx (prev_hash (header (ei_block e))) of Some p \<Rightarrow> branch_times idx n p | None \<Rightarrow> []))"

definition median_time_past_of :: "blockchain \<Rightarrow> index_entry \<Rightarrow> nat" where
  "median_time_past_of c tip =
     (let times = sort (branch_times (ch_index c) 11 tip) in times ! (length times div 2))"

section \<open>The context of a block\<close>

definition block_ctx ::
  "blockchain \<Rightarrow> signal_log \<Rightarrow> nat \<Rightarrow> hash \<Rightarrow> mining_policy \<Rightarrow> account_id \<Rightarrow> nat \<Rightarrow> block_context" where
  "block_ctx c s h prev policy miner time_ms =
     \<lparr>bc_height = h, bc_prev_hash = prev, bc_block_time_ms = time_ms, bc_mining = policy,
      bc_gas_price = gas_price policy, bc_miner = miner, bc_pq = resolved_pq_with c h s,
      bc_tx_domain = resolved_tx_domain_mode_with c h s,
      fee_auction_active = deployment_active_at (ch_fee_auction c) h s,
      shielded_v2_active = shielded_v2_active_with c h s,
      shielded_v2_suite2_active = suite2_active_with c h s,
      tx_timestamp_active = deployment_active_at (ch_tx_timestamp c) h s,
      bc_chain_domain = chain_domain c\<rparr>"

section \<open>Queries\<close>

definition mint_reward :: "blockchain \<Rightarrow> balance" where
  "mint_reward c = reward_at (ch_mining c) (chain_height c + 1) (mined_emitted (ch_ledger c))"

definition block_by_hash :: "'a crypto_scheme \<Rightarrow> blockchain \<Rightarrow> hash \<Rightarrow> block option" where
  "block_by_hash C c h = find (\<lambda>b. block_hash C b = h) (ch_blocks c)"

definition chain_receipt :: "blockchain \<Rightarrow> hash \<Rightarrow> (nat \<times> receipt) option" where
  "chain_receipt c tx = (case ch_tx_height c tx of
      None \<Rightarrow> None
    | Some h \<Rightarrow> (case bt_get (ch_receipts c) h of
        None \<Rightarrow> None
      | Some rs \<Rightarrow> map_option (Pair h) (find (\<lambda>r. rc_tx_id r = tx) rs)))"

definition confirmations :: "'a crypto_scheme \<Rightarrow> blockchain \<Rightarrow> hash \<Rightarrow> nat option" where
  "confirmations C c h = map_option (\<lambda>b. chain_height c - hd_height (header b) + 1) (block_by_hash C c h)"

definition is_final :: "'a crypto_scheme \<Rightarrow> blockchain \<Rightarrow> hash \<Rightarrow> bool" where
  "is_final C c h \<longleftrightarrow> h = ch_genesis_hash c
     \<or> (case confirmations C c h of None \<Rightarrow> False | Some n \<Rightarrow> FINALITY_DEPTH \<le> n)"

section \<open>Activation heights\<close>

lemma first_active_cases:
  assumes "0 < period d"
  shows "case first_active d sig (n * period d) (k * period d) of
      None \<Rightarrow> \<forall>j. k \<le> j \<and> j \<le> n \<longrightarrow> boundary_state d sig j \<noteq> Active
    | Some a \<Rightarrow> \<exists>j. k \<le> j \<and> j \<le> n \<and> a = j * period d \<and> boundary_state d sig j = Active
        \<and> (\<forall>i. k \<le> i \<and> i < j \<longrightarrow> boundary_state d sig i \<noteq> Active)"
proof (induction "Suc n - k" arbitrary: k)
  case 0
  then show ?case using assms by (auto simp: first_active.simps)
next
  case (Suc m)
  then have "k \<le> n" by simp
  have at: "state_at d (k * period d) sig = boundary_state d sig k" using assms by (simp add: state_at_boundary)
  show ?case
  proof (cases "boundary_state d sig k = Active")
    case True
    then have "first_active d sig (n * period d) (k * period d) = Some (k * period d)"
      using assms \<open>k \<le> n\<close> at by (simp add: first_active.simps)
    then show ?thesis using True \<open>k \<le> n\<close> by auto
  next
    case False
    then have step: "first_active d sig (n * period d) (k * period d) = first_active d sig (n * period d) (Suc k * period d)"
      using assms \<open>k \<le> n\<close> at by (subst first_active.simps) (simp add: add.commute)
    have "case first_active d sig (n * period d) (Suc k * period d) of
      None \<Rightarrow> \<forall>j. Suc k \<le> j \<and> j \<le> n \<longrightarrow> boundary_state d sig j \<noteq> Active
    | Some a \<Rightarrow> \<exists>j. Suc k \<le> j \<and> j \<le> n \<and> a = j * period d \<and> boundary_state d sig j = Active
        \<and> (\<forall>i. Suc k \<le> i \<and> i < j \<longrightarrow> boundary_state d sig i \<noteq> Active)"
      by (rule Suc.hyps(1)) (use Suc.hyps(2) in simp)
    with False show ?thesis unfolding step
      by (auto split: option.splits) (metis Suc_leI le_less_linear le_neq_implies_less Suc_leD)+
  qed
qed

lemma activation_spec:
  assumes "0 < period d"
  shows "(activation_height d h s \<noteq> None \<longleftrightarrow> state_at d h (signals s) = Active)
    \<and> (\<forall>a. activation_height d h s = Some a \<longrightarrow> (\<forall>i. state_at d i (signals s) = Active \<longleftrightarrow> a \<le> i))"
proof -
  let ?n = "h div period d" and ?B = "boundary_state d (signals s)"
  have h: "h - h mod period d = ?n * period d" by (simp add: minus_mod_eq_div_mult)
  have at: "state_at d i (signals s) = ?B (i div period d)" for i using assms by (rule state_at_boundary)
  have later: "?B j = Active \<Longrightarrow> j \<le> k \<Longrightarrow> ?B k = Active" for j k
    using terminal_stays [of d "signals s" j k] by (simp add: is_terminal_def)
  note walk = first_active_cases [OF assms, where sig = "signals s" and n = ?n and k = 1, folded h, simplified, folded activation_height_def]
  show ?thesis
  proof (cases "activation_height d h s")
    case None
    then have "?B ?n \<noteq> Active"
      using walk boundary_state.simps(1) [of d "signals s"] by (cases ?n) (auto simp del: boundary_state.simps(2))
    then show ?thesis using None at by simp
  next
    case (Some a)
    then obtain j where j: "1 \<le> j" "j \<le> ?n" "a = j * period d" "?B j = Active" "\<forall>i. 1 \<le> i \<and> i < j \<longrightarrow> ?B i \<noteq> Active"
      using walk by (auto simp: activation_height_def)
    have "state_at d i (signals s) = Active \<longleftrightarrow> a \<le> i" for i
    proof -
      have "a \<le> i \<longleftrightarrow> j \<le> i div period d" unfolding j(3) using assms by (simp add: less_eq_div_iff_mult_less_eq)
      moreover have "?B k = Active \<longleftrightarrow> j \<le> k" for k
      proof
        assume act: "?B k = Active"
        then have "1 \<le> k" by (cases k) auto
        with act j(5) show "j \<le> k" by (meson not_less)
      qed (use j(4) later in blast)
      ultimately show ?thesis by (simp add: at)
    qed
    moreover have "?B ?n = Active" using later j(2,4) by blast
    ultimately show ?thesis using Some at by simp
  qed
qed

lemma below_saturating_add: "h < 2 ^ w - 1 \<Longrightarrow> h < saturating_add w a b \<longleftrightarrow> h < a + b"
  unfolding saturating_add_def by auto

text \<open>C35. The activation walk of the chain manager (the loop over period boundaries that every gate
  shares) is exact: it finds a height if and only if the governance state machine has the deployment Active
  at the queried height, and the height it finds is the threshold of activity, Active at precisely the
  heights from it on.  The transaction-domain mode therefore follows the state machine with a delay: before
  activation every legacy signature passes, the bound form alone is accepted exactly where the deployment
  was Active already a grace window earlier, and both forms are accepted in between.\<close>

theorem activation_gates:
  assumes "0 < period d" and "ch_tx_domain c = Some d" and "h < 2 ^ 64 - 1"
  shows "(activation_height d h s \<noteq> None \<longleftrightarrow> state_at d h (signals s) = Active)
    \<and> (\<forall>a. activation_height d h s = Some a \<longrightarrow> (\<forall>i. state_at d i (signals s) = Active \<longleftrightarrow> a \<le> i))
    \<and> resolved_tx_domain_mode_with c h s =
        (if state_at d h (signals s) \<noteq> Active then Legacy
         else if ch_grace_blocks c \<le> h \<and> state_at d (h - ch_grace_blocks c) (signals s) = Active
         then Bound (chain_domain c) else Grace (chain_domain c))"
proof -
  let ?A = "\<lambda>i. state_at d i (signals s) = Active" and ?g = "ch_grace_blocks c"
  note spec = activation_spec [OF assms(1), of h s]
  have mode: "resolved_tx_domain_mode_with c h s =
      (if \<not> ?A h then Legacy else if ?g \<le> h \<and> ?A (h - ?g) then Bound (chain_domain c) else Grace (chain_domain c))"
  proof (cases "activation_height d h s")
    case None
    then show ?thesis using spec assms(2)
      by (simp add: resolved_tx_domain_mode_with_def tx_domain_activation_with_def)
  next
    case (Some a)
    then have act: "?A h" and from_a: "\<And>i. ?A i \<longleftrightarrow> a \<le> i" using spec by simp_all
    have "?g \<le> h \<and> ?A (h - ?g) \<longleftrightarrow> \<not> h < a + ?g" unfolding from_a using act [unfolded from_a] by linarith
    then show ?thesis using Some assms(2) act
      by (simp add: resolved_tx_domain_mode_with_def tx_domain_activation_with_def below_saturating_add [OF assms(3)])
  qed
  from spec mode show ?thesis by (elim conjE) (intro conjI; assumption)
qed

definition sample_log :: signal_log where
  "sample_log = fold (\<lambda>h s. fst (record_mask h 2 s)) [0..<40] signal_log_new"

definition sample_gated :: blockchain where
  "sample_gated = \<lparr>ch_chain_id = ''sov'', ch_ledger = sample_ledger, ch_mining = sample_mining, ch_difficulty = 1, ch_blocks = [],
     ch_index = Map.empty, ch_head = [], ch_genesis_ledger = sample_ledger, ch_genesis_hash = [], ch_checkpoints = bt_empty,
     ch_linked = {}, ch_linkage_pending = [], ch_linkage_next = 0, ch_linkage_prev = None, ch_signal_mask = 0,
     ch_coinbase_account = None, ch_default_coinbase = ''miner.sov'', ch_signals = sample_log, ch_pq = None,
     ch_tx_domain = Some sample_deployment, ch_grace_blocks = 5, ch_fee_auction = None, ch_shielded_v2 = None, ch_suite2 = None,
     ch_suite2_recovery = None, ch_tx_timestamp = None, ch_receipts = bt_empty, ch_tx_height = Map.empty, ch_undo_ring = []\<rparr>"

lemma signals_fold_record:
  "signals (fold (\<lambda>h s. fst (record_mask h m s)) hs s) h b \<longleftrightarrow> (if h \<in> set hs then b < 32 \<and> bit m b else signals s h b)"
  by (induction hs arbitrary: s) (auto simp: signals_record)

lemma sample_signals: "signals sample_log = (\<lambda>h b. h < 40 \<and> b = 1)"
proof (intro ext)
  fix h b :: nat
  have "bit (2 :: 32 word) b \<longleftrightarrow> b = 1" using bit_exp_iff [of 1 b, where 'a = "32 word"] by auto
  then show "signals sample_log h b = (h < 40 \<and> b = 1)"
    unfolding sample_log_def signals_fold_record by (auto simp: signals_def signal_log_new_def)
qed

lemma sample_signalled:
  "state_at sample_deployment 44 (\<lambda>h b. h < 40 \<and> b = 1) = Active"
  "state_at sample_deployment 39 (\<lambda>h b. h < 40 \<and> b = 1) \<noteq> Active"
  by code_simp+

theorem activation_gates_witness:
  "resolved_tx_domain_mode_with sample_gated 44 sample_log = Grace (chain_domain sample_gated)"
  using activation_gates [of sample_deployment sample_gated 44 sample_log] sample_signalled
  by (simp add: sample_signals sample_gated_def sample_deployment_def)

end
