(* ===== verification/Producer.thy ===== *)
theory Producer
  imports ChainRules
begin

text \<open>
  The block producer, \<open>build_candidate_for\<close> and \<open>MiningCandidate\<close> of \<open>chain/src/blockchain.rs\<close>: the
  selection of transactions under the size and weight budgets, the candidate with its committed
  roots, and the search for a nonce.

  The list of excluded transactions carries the execution error where the source carries its text.
  The verifying and the mining seal are the same function of the key and the preimage.
\<close>

section \<open>Mining candidates\<close>

record mining_candidate =
  mc_block :: block
  mc_target :: target
  mc_algo :: pow_algo
  mc_key :: hash

definition with_nonce :: "block \<Rightarrow> nat \<Rightarrow> block" where
  "with_nonce b n = b\<lparr>header := (header b)\<lparr>hd_nonce := n\<rparr>\<rparr>"

definition mc_seal :: "'a chain_env_scheme \<Rightarrow> mining_candidate \<Rightarrow> block_header \<Rightarrow> hash" where
  "mc_seal C m h = pow_seal C (mc_algo m) (mc_key m) (pow_preimage h)"

fun grind :: "'a chain_env_scheme \<Rightarrow> mining_candidate \<Rightarrow> nat \<Rightarrow> nat \<Rightarrow> mining_candidate \<times> block option" where
  "grind C m n 0 = (m, None)"
| "grind C m n (Suc togo) =
     (let m = m\<lparr>mc_block := with_nonce (mc_block m) n\<rparr>
      in if is_met_by (mc_target m) (mc_seal C m (header (mc_block m))) then (m, Some (mc_block m))
         else grind C m (Suc n) togo)"

definition into_sealed_block :: "'a chain_env_scheme \<Rightarrow> mining_candidate \<Rightarrow> chain_failure + block" where
  "into_sealed_block C m = ok_or (Refused PowNotFound) (snd (grind C m 0 MAX_MINING_ITERS))"

definition try_seal_batch :: "'a chain_env_scheme \<Rightarrow> mining_candidate \<Rightarrow> nat \<Rightarrow> nat \<Rightarrow> mining_candidate \<times> block option" where
  "try_seal_batch C m start n = grind C m start (saturating_add 64 start n - start)"

definition seal_with_nonce :: "'a chain_env_scheme \<Rightarrow> mining_candidate \<Rightarrow> nat \<Rightarrow> nat option \<Rightarrow> block option" where
  "seal_with_nonce C m n time_ms =
     (let b = with_nonce (mc_block m) n;
          b = (case time_ms of Some ts \<Rightarrow> b\<lparr>header := (header b)\<lparr>timestamp_ms := ts\<rparr>\<rparr> | None \<Rightarrow> b)
      in if is_met_by (mc_target m) (mc_seal C m (header b)) then Some b else None)"

definition seal_from_header :: "'a chain_env_scheme \<Rightarrow> mining_candidate \<Rightarrow> block_header \<Rightarrow> block option" where
  "seal_from_header C m h =
     (if tx_root h \<noteq> tx_root (header (mc_block m)) then None
      else if \<not> is_met_by (mc_target m) (mc_seal C m h) then None
      else Some ((mc_block m)\<lparr>header := h\<rparr>))"

section \<open>Selection\<close>

record selection =
  sl_probe :: ledger
  sl_size :: nat
  sl_weight :: nat
  sl_included :: "signed_transaction list"
  sl_excluded :: "(signed_transaction \<times> execution_error) list"

definition select_one ::
  "'a chain_env_scheme \<Rightarrow> block_context \<Rightarrow> nat \<Rightarrow> signed_transaction \<Rightarrow> selection \<Rightarrow> chain_failure + selection" where
  "select_one C ctx tx_budget stx s =
     (let tx_size = stx_serialized_size C stx;
          weight = saturating_add 64 (verify_weight (tx_action (stx_transaction stx))) tx_size
      in if tx_budget < saturating_add 64 (sl_size s) tx_size then Inr s
         else if MAX_BLOCK_WEIGHT < saturating_add 64 (sl_weight s) weight then Inr s
         else (case apply_transaction C ctx stx (sl_probe s) of
             (l, Inr _) \<Rightarrow> Inr (s\<lparr>sl_probe := l, sl_size := saturating_add 64 (sl_size s) tx_size,
               sl_weight := saturating_add 64 (sl_weight s) weight, sl_included := sl_included s @ [stx]\<rparr>)
           | (l, Inl (Reject e)) \<Rightarrow> Inr (s\<lparr>sl_probe := l, sl_excluded := sl_excluded s @ [(stx, e)]\<rparr>)
           | (l, Inl Panic) \<Rightarrow> Inl ChainPanic))"

fun select_all ::
  "'a chain_env_scheme \<Rightarrow> block_context \<Rightarrow> nat \<Rightarrow> signed_transaction list \<Rightarrow> selection \<Rightarrow> chain_failure + selection" where
  "select_all C ctx tx_budget [] s = Inr s"
| "select_all C ctx tx_budget (stx # stxs) s =
     and_then (select_one C ctx tx_budget stx s) (select_all C ctx tx_budget stxs)"

section \<open>Candidates\<close>

definition chain_failure_of :: "block_failure \<Rightarrow> chain_failure" where
  "chain_failure_of f = (case f of BlockReject e \<Rightarrow> Refused (ExecutionRefused e) | BlockPanic \<Rightarrow> ChainPanic)"

definition build_candidate_for ::
  "'a chain_env_scheme \<Rightarrow> blockchain \<Rightarrow> signed_transaction list \<Rightarrow> nat \<Rightarrow> account_id
     \<Rightarrow> chain_failure + (mining_candidate \<times> (signed_transaction \<times> execution_error) list)" where
  "build_candidate_for C c txs time_ms miner =
     and_then (ok_or ChainPanic (ch_index c (ch_head c))) (\<lambda>head.
     and_then (ok_or ChainPanic (expected_target c head time_ms)) (\<lambda>sha_target.
     let next_height = chain_height c + 1;
         tx_budget = block_size_limit C c head - BLOCK_HEADER_SIZE_RESERVE;
         policy = policy_with c sha_target;
         prev = block_hash C (chain_head c);
         ctx = block_ctx c (ch_signals c) next_height prev policy miner time_ms
     in case apply_coinbase C ctx (ch_ledger c) of
          (_, Inl e) \<Rightarrow> Inl (Refused (ExecutionRefused e))
        | (probe, Inr _) \<Rightarrow>
            and_then (select_all C ctx tx_budget txs
              \<lparr>sl_probe = probe, sl_size = 0,
               sl_weight = serialized_size C (assemble C next_height prev HASH_ZERO HASH_ZERO time_ms miner []),
               sl_included = [], sl_excluded = []\<rparr>) (\<lambda>s.
            case run_block C ctx (sl_included s) (ch_ledger c) of
              (_, Inl f) \<Rightarrow> Inl (chain_failure_of f)
            | (l, Inr rs) \<Rightarrow>
                let b = assemble C next_height prev (state_root l) (receipts_root C rs) time_ms miner (sl_included s)
                in Inr (\<lparr>mc_block = b\<lparr>header := (header b)\<lparr>version_bits := ch_signal_mask c, bits := to_compact sha_target\<rparr>\<rparr>,
                         mc_target = sha256d_target policy, mc_algo = pow_algo (ch_mining c), mc_key = ch_genesis_hash c\<rparr>,
                        sl_excluded s))))"

definition build_candidate ::
  "'a chain_env_scheme \<Rightarrow> blockchain \<Rightarrow> signed_transaction list \<Rightarrow> nat
     \<Rightarrow> chain_failure + (mining_candidate \<times> (signed_transaction \<times> execution_error) list)" where
  "build_candidate C c txs time_ms = build_candidate_for C c txs time_ms
     (case ch_coinbase_account c of Some i \<Rightarrow> i | None \<Rightarrow> ch_default_coinbase c)"

definition produce_block ::
  "'a chain_env_scheme \<Rightarrow> blockchain \<Rightarrow> signed_transaction list \<Rightarrow> nat \<Rightarrow> chain_failure + block" where
  "produce_block C c txs time_ms =
     and_then (build_candidate C c txs time_ms) (\<lambda>(m, _). into_sealed_block C m)"

end
