(* ===== verification/Linkage.thy ===== *)
theory Linkage
  imports ChainRules
begin

text \<open>
  Checkpoints and the proof of ancestry that gates the seal skip (\<open>assumevalid\<close>), and the
  configuration of a chain, \<open>chain/src/blockchain.rs\<close>.  Every hash in \<open>ch_linked\<close> is shown to lie on
  a chain of headers that starts at this chain's genesis, is linked by \<open>prev_hash\<close> and ends in the
  newest pinned hash; the streaming form proves the same as the batch form.
\<close>

section \<open>Configuration\<close>

definition set_signal_mask :: "32 word \<Rightarrow> blockchain \<Rightarrow> blockchain" where
  "set_signal_mask m c = c\<lparr>ch_signal_mask := m\<rparr>"

definition set_coinbase :: "account_id \<Rightarrow> blockchain \<Rightarrow> blockchain" where
  "set_coinbase i c = c\<lparr>ch_coinbase_account := Some i\<rparr>"

definition set_pq_deployment :: "pq_deployment_config \<Rightarrow> blockchain \<Rightarrow> blockchain" where
  "set_pq_deployment cfg c = c\<lparr>ch_pq := Some cfg\<rparr>"

definition set_tx_domain_deployment :: "deployment \<Rightarrow> blockchain \<Rightarrow> blockchain" where
  "set_tx_domain_deployment d c = c\<lparr>ch_tx_domain := Some d\<rparr>"

definition set_tx_domain_grace_blocks :: "nat \<Rightarrow> blockchain \<Rightarrow> blockchain" where
  "set_tx_domain_grace_blocks n c = c\<lparr>ch_grace_blocks := n\<rparr>"

definition set_fee_auction_deployment :: "deployment \<Rightarrow> blockchain \<Rightarrow> blockchain" where
  "set_fee_auction_deployment d c = c\<lparr>ch_fee_auction := Some d\<rparr>"

definition set_shielded_v2_deployment :: "deployment \<Rightarrow> blockchain \<Rightarrow> blockchain" where
  "set_shielded_v2_deployment d c = c\<lparr>ch_shielded_v2 := Some d\<rparr>"

definition set_suite2_deployment :: "deployment \<Rightarrow> blockchain \<Rightarrow> blockchain" where
  "set_suite2_deployment d c = c\<lparr>ch_suite2 := Some d\<rparr>"

definition set_suite2_recovery_deployment :: "deployment \<Rightarrow> blockchain \<Rightarrow> blockchain" where
  "set_suite2_recovery_deployment d c = c\<lparr>ch_suite2_recovery := Some d\<rparr>"

definition set_tx_timestamp_deployment :: "deployment \<Rightarrow> blockchain \<Rightarrow> blockchain" where
  "set_tx_timestamp_deployment d c = c\<lparr>ch_tx_timestamp := Some d\<rparr>"

lemmas setter_defs = set_signal_mask_def set_coinbase_def set_pq_deployment_def set_tx_domain_deployment_def
  set_tx_domain_grace_blocks_def set_fee_auction_deployment_def set_shielded_v2_deployment_def
  set_suite2_deployment_def set_suite2_recovery_deployment_def set_tx_timestamp_deployment_def

section \<open>Checkpoints\<close>

definition reset_linkage_progress :: "blockchain \<Rightarrow> blockchain" where
  "reset_linkage_progress c = c\<lparr>ch_linkage_pending := [], ch_linkage_next := 0, ch_linkage_prev := None\<rparr>"

definition set_checkpoints :: "(nat \<times> hash) list \<Rightarrow> blockchain \<Rightarrow> blockchain" where
  "set_checkpoints pins c = reset_linkage_progress
     (c\<lparr>ch_checkpoints := fold (\<lambda>(h, x). bt_insert h x) pins bt_empty, ch_linked := {}\<rparr>)"

definition newest_checkpoint_height :: "blockchain \<Rightarrow> nat" where
  "newest_checkpoint_height c = fold max (map fst (bt_entries (ch_checkpoints c))) 0"

definition newest_checkpoint :: "blockchain \<Rightarrow> (nat \<times> hash) option" where
  "newest_checkpoint c = map_option (Pair (newest_checkpoint_height c))
     (bt_get (ch_checkpoints c) (newest_checkpoint_height c))"

definition is_linked_to_checkpoint :: "blockchain \<Rightarrow> hash \<Rightarrow> bool" where
  "is_linked_to_checkpoint c h \<longleftrightarrow> h \<in> ch_linked c"

definition checkpoint_linkage_ready :: "blockchain \<Rightarrow> bool" where
  "checkpoint_linkage_ready c \<longleftrightarrow> bt_entries (ch_checkpoints c) = [] \<or> ch_linked c \<noteq> {}"

text \<open>The loop of \<open>install_checkpoint_linkage\<close>: \<open>i\<close> is the index, \<open>prev\<close> the hash before it; the hashes up
  to the pin, or the height of the mismatch.\<close>

fun link_headers ::
  "'a crypto_scheme \<Rightarrow> nat \<Rightarrow> hash \<Rightarrow> nat \<Rightarrow> hash option \<Rightarrow> block_header list \<Rightarrow> nat + hash list" where
  "link_headers C newest pinned i prev [] = Inl newest"
| "link_headers C newest pinned i prev (h # hs) =
     (if hd_height h \<noteq> i then Inl (hd_height h)
      else if (case prev of None \<Rightarrow> False | Some p \<Rightarrow> prev_hash h \<noteq> p) then Inl (hd_height h)
      else if hd_height h = newest then
        (if header_hash C h \<noteq> pinned then Inl newest else Inr [header_hash C h])
      else map_sum id ((#) (header_hash C h)) (link_headers C newest pinned (Suc i) (Some (header_hash C h)) hs))"

definition install_checkpoint_linkage ::
  "'a crypto_scheme \<Rightarrow> block_header list \<Rightarrow> blockchain \<Rightarrow> blockchain \<times> (chain_error + nat)" where
  "install_checkpoint_linkage C hs c = (case newest_checkpoint c of
      None \<Rightarrow> (c, Inr 0)
    | Some (newest, pinned) \<Rightarrow> (case hs of
        [] \<Rightarrow> (c, Inl (CheckpointMismatch newest))
      | first # _ \<Rightarrow> (case block_by_height c 0 of
          None \<Rightarrow> (c, Inl (CheckpointMismatch 0))
        | Some genesis_block \<Rightarrow>
            if hd_height first \<noteq> 0 \<or> header_hash C first \<noteq> block_hash C genesis_block
            then (c, Inl (CheckpointMismatch 0))
            else (case link_headers C newest pinned 0 None hs of
                Inl h \<Rightarrow> (c, Inl (CheckpointMismatch h))
              | Inr proven \<Rightarrow> (c\<lparr>ch_linked := set proven\<rparr>, Inr (length proven))))))"

definition relink_checkpoint_from_local :: "'a crypto_scheme \<Rightarrow> blockchain \<Rightarrow> blockchain \<times> nat" where
  "relink_checkpoint_from_local C c =
     (let newest = newest_checkpoint_height c
      in if bt_entries (ch_checkpoints c) = [] \<or> chain_height c < newest then (c, 0)
         else (let hs = map header (List.map_filter (block_by_height c) [0..<Suc newest])
               in if length hs \<noteq> newest + 1 then (c, 0)
                  else (case install_checkpoint_linkage C hs c of (c', Inl _) \<Rightarrow> (c', 0) | (c', Inr n) \<Rightarrow> (c', n))))"

definition add_checkpoints :: "'a crypto_scheme \<Rightarrow> (nat \<times> hash) list \<Rightarrow> blockchain \<Rightarrow> blockchain" where
  "add_checkpoints C pins c = fst (relink_checkpoint_from_local C
     (c\<lparr>ch_checkpoints := fold (\<lambda>(h, x). bt_insert h x) pins (ch_checkpoints c), ch_linked := {}\<rparr>))"

definition install_pending :: "hash list \<Rightarrow> blockchain \<Rightarrow> blockchain" where
  "install_pending hashes c = reset_linkage_progress (c\<lparr>ch_linked := set hashes\<rparr>)"

fun stream_headers ::
  "'a crypto_scheme \<Rightarrow> nat \<Rightarrow> hash \<Rightarrow> block_header list \<Rightarrow> blockchain \<Rightarrow> blockchain \<times> (chain_error + bool)" where
  "stream_headers C newest pinned [] c = (c, Inr False)"
| "stream_headers C newest pinned (h # hs) c =
     (let refuse = (reset_linkage_progress c, Inl (CheckpointMismatch (hd_height h)))
      in if hd_height h \<noteq> ch_linkage_next c then refuse
         else if (case ch_linkage_prev c of None \<Rightarrow> True | Some p \<Rightarrow> prev_hash h \<noteq> p) then refuse
         else if hd_height h = newest then
           (if header_hash C h \<noteq> pinned then refuse
            else (install_pending (ch_linkage_pending c @ [header_hash C h]) c, Inr True))
         else stream_headers C newest pinned hs
           (c\<lparr>ch_linkage_pending := ch_linkage_pending c @ [header_hash C h], ch_linkage_next := hd_height h + 1,
              ch_linkage_prev := Some (header_hash C h)\<rparr>))"

definition extend_checkpoint_linkage ::
  "'a crypto_scheme \<Rightarrow> block_header list \<Rightarrow> blockchain \<Rightarrow> blockchain \<times> (chain_error + bool)" where
  "extend_checkpoint_linkage C hs c = (case newest_checkpoint c of
      None \<Rightarrow> (c, Inr False)
    | Some (newest, pinned) \<Rightarrow>
        if checkpoint_linkage_ready c then (c, Inr True)
        else (case block_by_height c 0 of
            None \<Rightarrow> (c, Inl (CheckpointMismatch 0))
          | Some genesis_block \<Rightarrow>
              (let g = block_hash C genesis_block
               in if ch_linkage_prev c \<noteq> None then stream_headers C newest pinned hs c
                  else (let c = c\<lparr>ch_linkage_pending := ch_linkage_pending c @ [g], ch_linkage_next := 1,
                                  ch_linkage_prev := Some g\<rparr>
                        in if newest = 0 then
                             (if g \<noteq> pinned then (reset_linkage_progress c, Inl (CheckpointMismatch 0))
                              else (install_pending (ch_linkage_pending c) c, Inr True))
                           else stream_headers C newest pinned hs c))))"

definition checkpoint_satisfied :: "'a crypto_scheme \<Rightarrow> blockchain \<Rightarrow> bool" where
  "checkpoint_satisfied C c \<longleftrightarrow> bt_entries (ch_checkpoints c) = [] \<or> (case newest_checkpoint c of
      None \<Rightarrow> True
    | Some (newest, pinned) \<Rightarrow> map_option (block_hash C) (block_by_height c newest) = Some pinned)"

definition adopt_local_finalized_checkpoint :: "'a crypto_scheme \<Rightarrow> nat \<Rightarrow> blockchain \<Rightarrow> blockchain \<times> (nat \<times> hash) option" where
  "adopt_local_finalized_checkpoint C burial c =
     (if bt_entries (ch_checkpoints c) = [] \<or> \<not> checkpoint_satisfied C c then (c, None)
      else (case checked_sub (chain_height c) (max burial FINALITY_DEPTH) of
          None \<Rightarrow> (c, None)
        | Some height \<Rightarrow>
            if height \<le> newest_checkpoint_height c then (c, None)
            else (case block_by_height c height of
                None \<Rightarrow> (c, None)
              | Some b \<Rightarrow> (add_checkpoints C [(height, block_hash C b)] c, Some (height, block_hash C b)))))"

section \<open>Proofs of ancestry\<close>

fun linked_headers :: "'a crypto_scheme \<Rightarrow> block_header list \<Rightarrow> bool" where
  "linked_headers C (h # k # hs) \<longleftrightarrow> prev_hash k = header_hash C h \<and> linked_headers C (k # hs)"
| "linked_headers C _ \<longleftrightarrow> True"

definition ancestry :: "'a crypto_scheme \<Rightarrow> hash \<Rightarrow> nat \<Rightarrow> block_header list \<Rightarrow> bool" where
  "ancestry C g n hs \<longleftrightarrow> length hs = Suc n \<and> header_hash C (hd hs) = g \<and> linked_headers C hs"

definition pin_ancestor :: "'a crypto_scheme \<Rightarrow> hash \<Rightarrow> (nat \<times> hash) option \<Rightarrow> hash \<Rightarrow> bool" where
  "pin_ancestor C g pin h \<longleftrightarrow> (\<exists>newest pinned hs. pin = Some (newest, pinned) \<and> ancestry C g newest hs
     \<and> header_hash C (last hs) = pinned \<and> h \<in> header_hash C ` set hs)"

definition progress_ok :: "'a crypto_scheme \<Rightarrow> hash \<Rightarrow> hash option \<Rightarrow> nat \<Rightarrow> hash list \<Rightarrow> bool" where
  "progress_ok C g prev next pending = (case prev of
      None \<Rightarrow> pending = []
    | Some p \<Rightarrow> \<exists>hs n. ancestry C g n hs \<and> next = Suc n \<and> pending = map (header_hash C) hs \<and> p = header_hash C (last hs))"

definition linkage_ok :: "'a crypto_scheme \<Rightarrow> blockchain \<Rightarrow> bool" where
  "linkage_ok C c \<longleftrightarrow> (let g = block_hash C (ch_blocks c ! 0) in
     (\<forall>h \<in> ch_linked c. pin_ancestor C g (newest_checkpoint c) h)
     \<and> progress_ok C g (ch_linkage_prev c) (ch_linkage_next c) (ch_linkage_pending c))"

lemma newest_checkpoint_update [simp]:
  "newest_checkpoint (c\<lparr>ch_linked := L\<rparr>) = newest_checkpoint c"
  "newest_checkpoint (c\<lparr>ch_linkage_pending := ps\<rparr>) = newest_checkpoint c"
  "newest_checkpoint (c\<lparr>ch_linkage_next := n\<rparr>) = newest_checkpoint c"
  "newest_checkpoint (c\<lparr>ch_linkage_prev := p\<rparr>) = newest_checkpoint c"
  by (simp_all add: newest_checkpoint_def newest_checkpoint_height_def)

lemma linked_headers_snoc:
  "linked_headers C (hs @ [k]) \<longleftrightarrow> linked_headers C hs \<and> (hs = [] \<or> prev_hash k = header_hash C (last hs))"
  by (induction C hs rule: linked_headers.induct) auto

lemma ancestry_snoc:
  "ancestry C g n hs \<Longrightarrow> prev_hash k = header_hash C (last hs) \<Longrightarrow> ancestry C g (Suc n) (hs @ [k])"
  by (auto simp: ancestry_def linked_headers_snoc hd_append)

lemma link_headers_sound:
  "link_headers C newest pinned i prev hs = Inr ps \<Longrightarrow>
     \<exists>ks. ks \<noteq> [] \<and> hd ks = hd hs \<and> ps = map (header_hash C) ks \<and> linked_headers C ks \<and> i + length ks = Suc newest
       \<and> header_hash C (last ks) = pinned \<and> (\<forall>p. prev = Some p \<longrightarrow> prev_hash (hd ks) = p)"
proof (induction hs arbitrary: i prev ps)
  case (Cons h hs)
  show ?case
  proof (cases "hd_height h = newest")
    case True
    with Cons.prems show ?thesis by (intro exI [of _ "[h]"]) (auto split: if_splits option.splits)
  next
    case False
    with Cons.prems obtain qs where qs: "link_headers C newest pinned (Suc i) (Some (header_hash C h)) hs = Inr qs"
      "ps = header_hash C h # qs" by (auto split: if_splits sum.splits simp: map_sum_def)
    from Cons.IH [OF qs(1)] obtain ks where ks: "ks \<noteq> []" "qs = map (header_hash C) ks"
      "linked_headers C ks" "Suc i + length ks = Suc newest" "header_hash C (last ks) = pinned"
      "prev_hash (hd ks) = header_hash C h" by blast
    then have "linked_headers C (h # ks)" by (cases ks) simp_all
    with ks qs(2) Cons.prems False show ?thesis
      by (intro exI [of _ "h # ks"]) (auto split: if_splits option.splits)
  qed
qed simp

lemma install_linkage_ok:
  assumes "linkage_ok C c" "ch_blocks c \<noteq> []" "install_checkpoint_linkage C hs c = (c', r)"
  shows "linkage_ok C c'"
proof (cases r)
  case (Inl e)
  then show ?thesis using assms
    by (auto simp: install_checkpoint_linkage_def split: option.splits list.splits if_splits sum.splits)
next
  case (Inr n)
  show ?thesis
  proof (cases "newest_checkpoint c")
    case None
    then show ?thesis using assms by (simp add: install_checkpoint_linkage_def)
  next
    case (Some np)
    then obtain newest pinned first rest ps where f: "newest_checkpoint c = Some (newest, pinned)" "hs = first # rest"
      "header_hash C first = block_hash C (ch_blocks c ! 0)" "link_headers C newest pinned 0 None hs = Inr ps"
      "c' = c\<lparr>ch_linked := set ps\<rparr>"
      using assms(2,3) Inr
      by (cases np) (auto simp: install_checkpoint_linkage_def block_by_height_def split: option.splits list.splits
          if_splits sum.splits)
    from link_headers_sound [OF f(4)] obtain ks where ks: "hd ks = hd hs" "ks \<noteq> []" "ps = map (header_hash C) ks"
      "linked_headers C ks" "length ks = Suc newest" "header_hash C (last ks) = pinned" by auto
    then have "ancestry C (block_hash C (ch_blocks c ! 0)) newest ks" using f(2,3) by (simp add: ancestry_def)
    then have "pin_ancestor C (block_hash C (ch_blocks c ! 0)) (newest_checkpoint c) h" if "h \<in> set ps" for h
      using f(1) ks that unfolding pin_ancestor_def by auto
    then show ?thesis using assms(1) by (simp add: linkage_ok_def Let_def f(5))
  qed
qed

text \<open>The predicate reads the checkpoints, the genesis block and the linkage fields only.\<close>

lemma linkage_ok_cong:
  assumes "ch_checkpoints c' = ch_checkpoints c" "ch_linked c' = ch_linked c" "ch_linkage_pending c' = ch_linkage_pending c"
    and "ch_linkage_next c' = ch_linkage_next c" "ch_linkage_prev c' = ch_linkage_prev c" "ch_blocks c' ! 0 = ch_blocks c ! 0"
  shows "linkage_ok C c' = linkage_ok C c"
proof -
  have "newest_checkpoint c' = newest_checkpoint c"
    using assms(1) by (simp add: newest_checkpoint_def newest_checkpoint_height_def)
  then show ?thesis using assms by (simp add: linkage_ok_def)
qed

lemma linkage_ok_reset: "linkage_ok C c \<Longrightarrow> linkage_ok C (reset_linkage_progress c)"
  by (simp add: linkage_ok_def Let_def reset_linkage_progress_def progress_ok_def)

lemma set_checkpoints_linkage_ok: "linkage_ok C (set_checkpoints pins c)"
  by (simp add: linkage_ok_def set_checkpoints_def reset_linkage_progress_def progress_ok_def)

lemma relink_linkage_ok:
  assumes "linkage_ok C c" "ch_blocks c \<noteq> []"
  shows "linkage_ok C (fst (relink_checkpoint_from_local C c))"
  using assms install_linkage_ok [OF assms]
  by (auto simp: relink_checkpoint_from_local_def Let_def split: prod.split sum.split)

lemma add_checkpoints_linkage_ok:
  assumes "linkage_ok C c" "ch_blocks c \<noteq> []"
  shows "linkage_ok C (add_checkpoints C pins c)"
  unfolding add_checkpoints_def using assms by (intro relink_linkage_ok) (simp_all add: linkage_ok_def Let_def)

lemma install_pending_ok:
  assumes "newest_checkpoint c = Some (newest, pinned)" "ancestry C (block_hash C (ch_blocks c ! 0)) newest hs"
    and "header_hash C (last hs) = pinned"
  shows "linkage_ok C (install_pending (map (header_hash C) hs) c)"
proof -
  have "pin_ancestor C (block_hash C (ch_blocks c ! 0)) (newest_checkpoint c) h" if "h \<in> header_hash C ` set hs" for h
    using assms that unfolding pin_ancestor_def by blast
  then show ?thesis by (simp add: linkage_ok_def install_pending_def reset_linkage_progress_def progress_ok_def)
qed

lemma stream_headers_ok:
  assumes "linkage_ok C c" "newest_checkpoint c = Some (newest, pinned)"
    and "stream_headers C newest pinned hs c = (c', r)"
  shows "linkage_ok C c'"
  using assms
proof (induction hs arbitrary: c)
  case (Cons h hs)
  show ?case
  proof (cases "hd_height h = ch_linkage_next c \<and> ch_linkage_prev c = Some (prev_hash h)")
    case False
    then have "c' = reset_linkage_progress c" using Cons.prems(3) by (auto simp: Let_def split: option.splits if_splits)
    then show ?thesis using linkage_ok_reset [OF Cons.prems(1)] by simp
  next
    case True
    with Cons.prems(1) obtain ks n where ks: "ancestry C (block_hash C (ch_blocks c ! 0)) n ks" "ch_linkage_next c = Suc n"
      "ch_linkage_pending c = map (header_hash C) ks" "prev_hash h = header_hash C (last ks)"
      by (auto simp: linkage_ok_def Let_def progress_ok_def)
    note more = ancestry_snoc [OF ks(1,4)]
    let ?d = "c\<lparr>ch_linkage_pending := ch_linkage_pending c @ [header_hash C h], ch_linkage_next := hd_height h + 1,
              ch_linkage_prev := Some (header_hash C h)\<rparr>"
    show ?thesis
    proof (cases "hd_height h = newest")
      case pin: True
      then have "ancestry C (block_hash C (ch_blocks c ! 0)) newest (ks @ [h])" using more True ks(2) by simp
      from install_pending_ok [OF Cons.prems(2) this] show ?thesis
        using Cons.prems(3) True pin ks(3) linkage_ok_reset [OF Cons.prems(1)] by (auto simp: Let_def split: if_splits)
    next
      case False
      have "progress_ok C (block_hash C (ch_blocks c ! 0)) (Some (header_hash C h)) (hd_height h + 1)
          (ch_linkage_pending c @ [header_hash C h])"
        unfolding progress_ok_def option.case
        using more True ks(2,3) by (intro exI [of _ "ks @ [h]"] exI [of _ "Suc n"]) simp
      then have "linkage_ok C ?d" using Cons.prems(1) by (simp add: linkage_ok_def Let_def)
      moreover have "newest_checkpoint ?d = Some (newest, pinned)" using Cons.prems(2) by simp
      moreover have "stream_headers C newest pinned hs ?d = (c', r)" using Cons.prems(3) True False by (simp add: Let_def)
      ultimately show ?thesis by (rule Cons.IH)
    qed
  qed
qed simp

lemma extend_linkage_ok:
  assumes "linkage_ok C c" "ch_blocks c \<noteq> []" "extend_checkpoint_linkage C hs c = (c', r)"
  shows "linkage_ok C c'"
proof (cases "newest_checkpoint c = None \<or> checkpoint_linkage_ready c")
  case True
  then show ?thesis using assms(1,3) by (auto simp: extend_checkpoint_linkage_def split: option.splits)
next
  case False
  then obtain newest pinned where np: "newest_checkpoint c = Some (newest, pinned)" and "\<not> checkpoint_linkage_ready c" by auto
  let ?g = "block_hash C (ch_blocks c ! 0)" and ?k = "header (ch_blocks c ! 0)"
  let ?d = "c\<lparr>ch_linkage_pending := ch_linkage_pending c @ [?g], ch_linkage_next := 1, ch_linkage_prev := Some ?g\<rparr>"
  note run = assms(3) [unfolded extend_checkpoint_linkage_def np, simplified, unfolded block_by_height_def Let_def]
  show ?thesis
  proof (cases "ch_linkage_prev c")
    case (Some p)
    then have "stream_headers C newest pinned hs c = (c', r)"
      using run \<open>\<not> checkpoint_linkage_ready c\<close> assms(2) by simp
    from stream_headers_ok [OF assms(1) np this] show ?thesis .
  next
    case None
    have genesis: "ancestry C ?g 0 [?k]" by (simp add: ancestry_def block_hash_def)
    have empty: "ch_linkage_pending c = []" using assms(1) None by (simp add: linkage_ok_def Let_def progress_ok_def)
    have "progress_ok C ?g (Some ?g) 1 [?g]"
      unfolding progress_ok_def option.case using genesis
      by (intro exI [of _ "[?k]"] exI [of _ 0]) (simp add: block_hash_def)
    then have seeded: "linkage_ok C ?d" using assms(1) empty by (simp add: linkage_ok_def Let_def)
    have np_d: "newest_checkpoint ?d = Some (newest, pinned)" using np by simp
    have "c' = reset_linkage_progress ?d \<or> (newest = 0 \<and> ?g = pinned \<and> c' = install_pending [?g] ?d)
        \<or> stream_headers C newest pinned hs ?d = (c', r)"
      using run \<open>\<not> checkpoint_linkage_ready c\<close> assms(2) None empty by (simp split: if_splits)
    then show ?thesis
    proof (elim disjE conjE)
      assume "newest = 0" "?g = pinned" "c' = install_pending [?g] ?d"
      then show ?thesis using install_pending_ok [OF np_d, of C "[?k]"] genesis by (simp add: block_hash_def)
    qed (use linkage_ok_reset [OF seeded] stream_headers_ok [OF seeded np_d] in simp_all)
  qed
qed

lemma adopt_linkage_ok:
  assumes "linkage_ok C c" "ch_blocks c \<noteq> []" "adopt_local_finalized_checkpoint C burial c = (c', r)"
  shows "linkage_ok C c'"
  using assms add_checkpoints_linkage_ok [OF assms(1,2)]
  by (auto simp: adopt_local_finalized_checkpoint_def split: if_splits option.splits)

end
