(* ===== verification/Import.thy ===== *)
theory Import
  imports Producer Linkage
begin

text \<open>
  Import of a block under fork choice, \<open>chain/src/blockchain.rs\<close>: validation against the parent's
  branch, connection to the active chain with rollback on failure, disconnection by undo logs, the
  incremental reorganisation and the validation of a lighter branch, the replay from genesis, and
  \<open>import_block_tracked\<close>, which puts them together.

  An operation on the chain returns the new chain and a result.  \<open>ChainPanic\<close> is the panic of an
  \<open>expect\<close>; the chain returned with it has no meaning.  Walks along parent links carry the height of
  their start as fuel.  Debug assertions are not part of a release build and are not modelled.
\<close>

section \<open>Validation\<close>

record candidate =
  cd_target :: target
  cd_work :: nat
  cd_height :: nat

record imported =
  im_receipts :: "receipt list"
  im_reverted :: "signed_transaction list"

definition imported_empty :: imported where
  "imported_empty = \<lparr>im_receipts = [], im_reverted = []\<rparr>"

definition validate_candidate :: "'a chain_env_scheme \<Rightarrow> blockchain \<Rightarrow> block \<Rightarrow> chain_failure + candidate" where
  "validate_candidate C c b =
     (let h = header b; size = serialized_size C b
      in and_then (ok_or (Refused PrevHashMismatch) (ch_index c (prev_hash h))) (\<lambda>parent.
         and_then (ensure (size \<le> block_size_limit C c parent)
                     (Refused (BlockTooLarge size (block_size_limit C c parent)))) (\<lambda>_.
         and_then (ok_or ChainPanic (expected_target c parent (timestamp_ms h))) (\<lambda>sha_target.
         and_then (ensure (hd_height h = ei_height parent + 1)
                     (Refused (HeightMismatch (ei_height parent + 1) (hd_height h)))) (\<lambda>_.
         and_then (ensure (case bt_get (ch_checkpoints c) (hd_height h) of
                             None \<Rightarrow> True | Some pinned \<Rightarrow> block_hash C b = pinned)
                     (Refused (CheckpointMismatch (hd_height h)))) (\<lambda>_.
         and_then (ensure (timestamp_ms (header (ei_block parent)) \<le> timestamp_ms h)
                     (Refused NonMonotonicTimestamp)) (\<lambda>_.
         and_then (ensure (median_time_past_of c parent < timestamp_ms h)
                     (Refused (TimestampNotAfterMedian (median_time_past_of c parent) (timestamp_ms h)))) (\<lambda>_.
         and_then (ensure (bits h = to_compact sha_target)
                     (Refused (BadDifficultyBits (to_compact sha_target) (bits h)))) (\<lambda>_.
         and_then (ensure (branch_shielded_v2_active C c b \<longrightarrow> block_weight C b \<le> MAX_BLOCK_WEIGHT)
                     (Refused (BlockTooHeavy (block_weight C b) MAX_BLOCK_WEIGHT))) (\<lambda>_.
         and_then (ensure (is_linked_to_checkpoint c (block_hash C b) \<or> is_met_by sha_target (chain_seal C c h))
                     (Refused PowInsufficient)) (\<lambda>_.
         and_then (ensure (tx_root_matches C b) (Refused TxRootMismatch)) (\<lambda>_.
         and_then (ensure (all_signatures_valid_mode C b (branch_tx_domain_mode C c b)) (Refused BadSignatures)) (\<lambda>_.
         Inr \<lparr>cd_target = sha_target, cd_work = work_saturating_add (ei_chain_work parent) (of_target sha_target),
              cd_height = ei_height parent + 1\<rparr>)))))))))))))"

section \<open>The receipt index and the block index\<close>

definition index_block_receipts :: "nat \<Rightarrow> receipt list \<Rightarrow> blockchain \<Rightarrow> blockchain" where
  "index_block_receipts h rs c =
     (if rs = [] then c
      else c\<lparr>ch_tx_height := fold (\<lambda>r m. m(rc_tx_id r \<mapsto> h)) rs (ch_tx_height c),
             ch_receipts := bt_insert h rs (ch_receipts c)\<rparr>)"

definition rebuild_receipt_index :: "(nat \<times> receipt list) list \<Rightarrow> blockchain \<Rightarrow> blockchain" where
  "rebuild_receipt_index branch_receipts c =
     fold (\<lambda>(h, rs). index_block_receipts h rs) branch_receipts
       (c\<lparr>ch_receipts := bt_empty, ch_tx_height := Map.empty\<rparr>)"

definition insert_entry :: "'a chain_env_scheme \<Rightarrow> block \<Rightarrow> candidate \<Rightarrow> blockchain \<Rightarrow> blockchain" where
  "insert_entry C b cand c = c\<lparr>ch_index := (ch_index c)(block_hash C b \<mapsto>
     \<lparr>ei_block = b, ei_sha_target = cd_target cand, ei_chain_work = cd_work cand, ei_height = cd_height cand,
      ei_size = serialized_size C b\<rparr>)\<rparr>"

section \<open>Connecting\<close>

definition execute_block_on ::
  "'a chain_env_scheme \<Rightarrow> blockchain \<Rightarrow> ledger \<Rightarrow> block \<Rightarrow> target \<Rightarrow> signal_log \<Rightarrow> ledger \<times> (chain_failure + receipt list)" where
  "execute_block_on C c l b sha_target s =
     (let h = header b;
          ctx = block_ctx c s (hd_height h) (prev_hash h) (policy_with c sha_target) (proposer h) (timestamp_ms h)
      in map_prod id (map_sum chain_failure_of id) (run_block C ctx (transactions b) l))"

definition check_roots :: "'a chain_env_scheme \<Rightarrow> block \<Rightarrow> ledger \<Rightarrow> receipt list \<Rightarrow> chain_failure + unit" where
  "check_roots C b l rs =
     and_then (ensure (state_root l = hd_state_root (header b)) (Refused StateRootMismatch)) (\<lambda>_.
     ensure (receipts_root C rs = hd_receipts_root (header b)) (Refused ReceiptsRootMismatch))"

definition invariant_result :: "invariant_violation + 'b \<Rightarrow> chain_failure + 'b" where
  "invariant_result r = map_sum (\<lambda>v. Refused (Invariant v)) id r"

definition try_connect_block ::
  "'a chain_env_scheme \<Rightarrow> blockchain \<Rightarrow> ledger \<Rightarrow> block \<Rightarrow> target \<Rightarrow> transition_pre \<Rightarrow> ledger \<times> (chain_failure + receipt list)" where
  "try_connect_block C c l b sha_target pre = (case execute_block_on C c l b sha_target (ch_signals c) of
      (l, Inl f) \<Rightarrow> (l, Inl f)
    | (l, Inr rs) \<Rightarrow> (l,
        and_then (check_roots C b l rs) (\<lambda>_.
        and_then (invariant_result (check_transition_pre pre l)) (\<lambda>_.
        and_then (invariant_result (check_ledger l (policy_with c sha_target))) (\<lambda>_. Inr rs)))))"

definition remember_undo :: "nat \<Rightarrow> hash \<Rightarrow> undo_op list \<Rightarrow> blockchain \<Rightarrow> blockchain" where
  "remember_undo h hash log c =
     (let ring = ch_undo_ring c @ [(h, hash, log)]
      in c\<lparr>ch_undo_ring := drop (length ring - REORG_UNDO_WINDOW) ring\<rparr>)"

definition connect_to_active ::
  "'a chain_env_scheme \<Rightarrow> block \<Rightarrow> target \<Rightarrow> blockchain \<Rightarrow> blockchain \<times> (chain_failure + receipt list)" where
  "connect_to_active C b sha_target c = (case capture (ch_ledger c) of
      Inl v \<Rightarrow> (c, Inl (Refused (Invariant v)))
    | Inr pre \<Rightarrow> (case try_connect_block C c (begin_undo (ch_ledger c)) b sha_target pre of
        (l, Inr rs) \<Rightarrow>
          (remember_undo (hd_height (header b)) (block_hash C b) (fst (take_undo l))
             (c\<lparr>ch_ledger := snd (take_undo l),
                ch_signals := fst (record_mask (hd_height (header b)) (version_bits (header b)) (ch_signals c)),
                ch_blocks := ch_blocks c @ [b]\<rparr>), Inr rs)
      | (l, Inl (Refused e)) \<Rightarrow>
          (c\<lparr>ch_ledger := apply_undo C (fst (take_undo l)) (snd (take_undo l))\<rparr>, Inl (Refused e))
      | (l, Inl ChainPanic) \<Rightarrow> (c, Inl ChainPanic)))"

section \<open>Disconnecting\<close>

definition pop_block :: "'a codec_scheme \<Rightarrow> blockchain \<Rightarrow> blockchain" where
  "pop_block C c = (case last (ch_undo_ring c) of (rh, _, log) \<Rightarrow>
     c\<lparr>ch_undo_ring := butlast (ch_undo_ring c), ch_blocks := butlast (ch_blocks c),
       ch_ledger := apply_undo C log (ch_ledger c),
       ch_signals := fst (remove_mask (hd_height (header (chain_head c))) (ch_signals c)),
       ch_receipts := bt_remove rh (ch_receipts c),
       ch_tx_height := (case bt_get (ch_receipts c) rh of
           None \<Rightarrow> ch_tx_height c
         | Some rs \<Rightarrow> fold (\<lambda>r m. m(rc_tx_id r := None)) rs (ch_tx_height c))\<rparr>)"

lemma pop_block_blocks [simp]: "ch_blocks (pop_block C c) = butlast (ch_blocks c)"
  by (simp add: pop_block_def split: prod.split)

function disconnect_loop :: "'a codec_scheme \<Rightarrow> nat \<Rightarrow> blockchain \<Rightarrow> blockchain \<times> (chain_failure + block list)" where
  "disconnect_loop C target_height c =
     (if ch_blocks c = [] then (c, Inl ChainPanic)
      else if chain_height c \<le> target_height then (c, Inr [])
      else if ch_undo_ring c = [] then (c, Inl ChainPanic)
      else (case disconnect_loop C target_height (pop_block C c) of
          (c', Inl f) \<Rightarrow> (c', Inl f)
        | (c', Inr bs) \<Rightarrow> (c', Inr (chain_head c # bs))))"
  by pat_completeness auto
termination
  by (relation "measure (\<lambda>(C, h, c). length (ch_blocks c))") auto

declare disconnect_loop.simps [simp del]

definition disconnect_to :: "'a codec_scheme \<Rightarrow> nat \<Rightarrow> blockchain \<Rightarrow> blockchain \<times> (chain_failure + block list)" where
  "disconnect_to C target_height c = (case disconnect_loop C target_height c of
      (c, Inl f) \<Rightarrow> (c, Inl f)
    | (c, Inr bs) \<Rightarrow> (c\<lparr>ch_head := block_hash C (chain_head c)\<rparr>, Inr bs))"

fun reconnect_loop :: "'a chain_env_scheme \<Rightarrow> block list \<Rightarrow> blockchain \<Rightarrow> blockchain \<times> (chain_failure + unit)" where
  "reconnect_loop C [] c = (c\<lparr>ch_head := block_hash C (chain_head c)\<rparr>, Inr ())"
| "reconnect_loop C (b # bs) c = (case ch_index c (block_hash C b) of
      None \<Rightarrow> (c, Inl ChainPanic)
    | Some e \<Rightarrow> (case connect_to_active C b (ei_sha_target e) c of
        (c, Inl _) \<Rightarrow> (c, Inl ChainPanic)
      | (c, Inr rs) \<Rightarrow> reconnect_loop C bs (index_block_receipts (hd_height (header b)) rs c)))"

definition reconnect :: "'a chain_env_scheme \<Rightarrow> block list \<Rightarrow> blockchain \<Rightarrow> blockchain \<times> (chain_failure + unit)" where
  "reconnect C bs c = reconnect_loop C (rev bs) c"

section \<open>Competing branches\<close>

definition locate_fork :: "'a crypto_scheme \<Rightarrow> blockchain \<Rightarrow> block \<Rightarrow> (nat \<times> block list) option" where
  "locate_fork C c tip = (case walk_to_active C c (walk_fuel c (prev_hash (header tip))) (prev_hash (header tip)) of
      (es, Some e) \<Rightarrow> Some (ei_height e, rev (map ei_block es) @ [tip])
    | (es, None) \<Rightarrow> None)"

text \<open>The loop over the blocks of a branch, which the two incremental paths share; only the adopting
  one indexes receipts.\<close>

datatype branch_outcome =
    BranchConnected "receipt list"
  | BranchUnindexed
  | BranchFailed chain_failure

fun connect_branch ::
  "'a chain_env_scheme \<Rightarrow> bool \<Rightarrow> target \<Rightarrow> block list \<Rightarrow> blockchain \<Rightarrow> blockchain \<times> branch_outcome" where
  "connect_branch C adopt tip_target [] c = (c, BranchConnected [])"
| "connect_branch C adopt tip_target (b # bs) c =
     (case (if bs = [] then Some tip_target else map_option ei_sha_target (ch_index c (block_hash C b))) of
        None \<Rightarrow> (c, BranchUnindexed)
      | Some sha_target \<Rightarrow> (case connect_to_active C b sha_target c of
          (c, Inl f) \<Rightarrow> (c, BranchFailed f)
        | (c, Inr rs) \<Rightarrow>
            (let c = (if adopt then index_block_receipts (hd_height (header b)) rs c else c)
             in if bs = [] then (c, BranchConnected rs) else connect_branch C adopt tip_target bs c)))"

definition sync_difficulty :: "blockchain \<times> (chain_failure + 'b) \<Rightarrow> blockchain \<times> (chain_failure + 'b)" where
  "sync_difficulty p = (case p of
      (c, Inl ChainPanic) \<Rightarrow> p
    | (c, r) \<Rightarrow> (case sync_active_difficulty c of None \<Rightarrow> (c, Inl ChainPanic) | Some c \<Rightarrow> (c, r)))"

definition restore_active ::
  "'a chain_env_scheme \<Rightarrow> nat \<Rightarrow> block list \<Rightarrow> blockchain \<Rightarrow> blockchain \<times> (chain_failure + unit)" where
  "restore_active C fork_height old c = (case disconnect_to C fork_height c of
      (c, Inl f) \<Rightarrow> (c, Inl f)
    | (c, Inr _) \<Rightarrow> reconnect C old c)"

definition dropped_txs :: "'a tx_codec_scheme \<Rightarrow> block list \<Rightarrow> block list \<Rightarrow> signed_transaction list" where
  "dropped_txs C old new_blocks =
     (let new_ids = set (concat (map (\<lambda>b. map (stx_id C) (transactions b)) new_blocks))
      in filter (\<lambda>t. stx_id C t \<notin> new_ids) (concat (map transactions old)))"

definition try_incremental_reorg ::
  "'a chain_env_scheme \<Rightarrow> block \<Rightarrow> candidate \<Rightarrow> blockchain \<Rightarrow> blockchain \<times> (chain_failure + imported) option" where
  "try_incremental_reorg C tip cand c = (case locate_fork C c tip of
      None \<Rightarrow> (c, None)
    | Some (fork_height, new_blocks) \<Rightarrow>
        (let depth = chain_height c - fork_height
         in if depth = 0 \<or> length (ch_undo_ring c) < depth then (c, None)
            else (case disconnect_to C fork_height c of
                (c, Inl f) \<Rightarrow> (c, Some (Inl f))
              | (c, Inr old) \<Rightarrow> (case connect_branch C True (cd_target cand) new_blocks c of
                    (c, BranchConnected rs) \<Rightarrow>
                      map_prod id Some (sync_difficulty ((insert_entry C tip cand c)\<lparr>ch_head := block_hash C tip\<rparr>,
                        Inr \<lparr>im_receipts = rs, im_reverted = dropped_txs C old new_blocks\<rparr>))
                  | (c, BranchUnindexed) \<Rightarrow> (case restore_active C fork_height old c of
                        (c, Inl f) \<Rightarrow> (c, Some (Inl f))
                      | (c, Inr _) \<Rightarrow> (c, None))
                  | (c, BranchFailed ChainPanic) \<Rightarrow> (c, Some (Inl ChainPanic))
                  | (c, BranchFailed (Refused e)) \<Rightarrow> (case restore_active C fork_height old c of
                        (c, Inl f) \<Rightarrow> (c, Some (Inl f))
                      | (c, Inr _) \<Rightarrow> map_prod id Some (sync_difficulty (c, Inl (Refused e))))))))"

definition try_incremental_side_branch ::
  "'a chain_env_scheme \<Rightarrow> block \<Rightarrow> candidate \<Rightarrow> blockchain \<Rightarrow> blockchain \<times> (chain_failure + unit) option" where
  "try_incremental_side_branch C tip cand c = (case locate_fork C c tip of
      None \<Rightarrow> (c, None)
    | Some (fork_height, new_blocks) \<Rightarrow>
        (let depth = chain_height c - fork_height
         in if depth = 0 \<or> length (ch_undo_ring c) < depth then (c, None)
            else (case disconnect_to C fork_height c of
                (c, Inl f) \<Rightarrow> (c, Some (Inl f))
              | (c, Inr old) \<Rightarrow> (case connect_branch C False (cd_target cand) new_blocks c of
                    (c, BranchFailed ChainPanic) \<Rightarrow> (c, Some (Inl ChainPanic))
                  | (c, outcome) \<Rightarrow> (case restore_active C fork_height old c of
                        (c, Inl f) \<Rightarrow> (c, Some (Inl f))
                      | (c, Inr _) \<Rightarrow> (case outcome of
                            BranchConnected _ \<Rightarrow> map_prod id Some (sync_difficulty (c, Inr ()))
                          | BranchFailed f \<Rightarrow> map_prod id Some (sync_difficulty (c, Inl f))
                          | BranchUnindexed \<Rightarrow> (case sync_difficulty (c, Inr ()) of
                                (c, Inl f) \<Rightarrow> (c, Some (Inl f))
                              | (c, Inr _) \<Rightarrow> (c, None))))))))"

section \<open>Replay from genesis\<close>

record rebuilt =
  rb_ledger :: ledger
  rb_blocks :: "block list"
  rb_signals :: signal_log
  rb_tip_receipts :: "receipt list"
  rb_receipts :: "(nat \<times> receipt list) list"

definition verify_invariants :: "blockchain \<Rightarrow> ledger \<Rightarrow> ledger \<Rightarrow> target \<Rightarrow> chain_failure + unit" where
  "verify_invariants c before after sha_target =
     and_then (invariant_result (check_transition before after)) (\<lambda>_.
     invariant_result (check_ledger after (policy_with c sha_target)))"

fun branch_ancestors :: "blockchain \<Rightarrow> nat \<Rightarrow> hash \<Rightarrow> block list option" where
  "branch_ancestors c fuel cursor =
     (if cursor = ch_genesis_hash c then Some []
      else (case fuel of
          0 \<Rightarrow> None
        | Suc n \<Rightarrow> (case ch_index c cursor of
              None \<Rightarrow> None
            | Some e \<Rightarrow> map_option ((#) (ei_block e)) (branch_ancestors c n (prev_hash (header (ei_block e)))))))"

definition replay_one ::
  "'a chain_env_scheme \<Rightarrow> blockchain \<Rightarrow> block \<Rightarrow> target \<Rightarrow> rebuilt \<Rightarrow> chain_failure + rebuilt" where
  "replay_one C c b sha_target r = (case execute_block_on C c (rb_ledger r) b sha_target (rb_signals r) of
      (l, Inl f) \<Rightarrow> Inl f
    | (l, Inr rs) \<Rightarrow>
        and_then (check_roots C b l rs) (\<lambda>_.
        and_then (verify_invariants c (rb_ledger r) l sha_target) (\<lambda>_.
        Inr \<lparr>rb_ledger = l, rb_blocks = rb_blocks r @ [b],
             rb_signals = fst (record_mask (hd_height (header b)) (version_bits (header b)) (rb_signals r)),
             rb_tip_receipts = rs, rb_receipts = rb_receipts r @ [(hd_height (header b), rs)]\<rparr>)))"

fun replay_ancestors :: "'a chain_env_scheme \<Rightarrow> blockchain \<Rightarrow> block list \<Rightarrow> rebuilt \<Rightarrow> chain_failure + rebuilt" where
  "replay_ancestors C c [] r = Inr r"
| "replay_ancestors C c (b # bs) r =
     and_then (ok_or ChainPanic (ch_index c (block_hash C b))) (\<lambda>e.
     and_then (replay_one C c b (ei_sha_target e) r) (replay_ancestors C c bs))"

definition rebuild_branch :: "'a chain_env_scheme \<Rightarrow> blockchain \<Rightarrow> block \<Rightarrow> candidate \<Rightarrow> chain_failure + rebuilt" where
  "rebuild_branch C c tip cand =
     and_then (ok_or (Refused PrevHashMismatch)
       (branch_ancestors c (walk_fuel c (prev_hash (header tip))) (prev_hash (header tip)))) (\<lambda>newest_first.
     and_then (replay_ancestors C c (rev newest_first)
       \<lparr>rb_ledger = ch_genesis_ledger c, rb_blocks = [ch_blocks c ! 0], rb_signals = signal_log_new,
        rb_tip_receipts = [], rb_receipts = []\<rparr>) (\<lambda>r.
     replay_one C c tip (cd_target cand) r))"

section \<open>Import\<close>

definition extend_head :: "'a chain_env_scheme \<Rightarrow> block \<Rightarrow> candidate \<Rightarrow> blockchain \<Rightarrow> blockchain \<times> (chain_failure + imported)" where
  "extend_head C b cand c = (case connect_to_active C b (cd_target cand) c of
      (c, Inl f) \<Rightarrow> (c, Inl f)
    | (c, Inr rs) \<Rightarrow>
        map_prod (index_block_receipts (cd_height cand) rs) id
          (sync_difficulty ((insert_entry C b cand c)\<lparr>ch_head := block_hash C b\<rparr>,
             Inr \<lparr>im_receipts = rs, im_reverted = []\<rparr>)))"

definition adopt_rebuilt :: "'a chain_env_scheme \<Rightarrow> block \<Rightarrow> candidate \<Rightarrow> blockchain \<Rightarrow> blockchain \<times> (chain_failure + imported)" where
  "adopt_rebuilt C b cand c = (case rebuild_branch C c b cand of
      Inl f \<Rightarrow> (c, Inl f)
    | Inr r \<Rightarrow>
        (let new_hashes = set (map (block_hash C) (rb_blocks r));
             reverted = concat (map transactions (filter (\<lambda>x. block_hash C x \<notin> new_hashes) (ch_blocks c)))
         in map_prod (\<lambda>c. (rebuild_receipt_index (rb_receipts r) c)\<lparr>ch_undo_ring := []\<rparr>) id
              (sync_difficulty ((insert_entry C b cand c)\<lparr>ch_ledger := rb_ledger r, ch_blocks := rb_blocks r,
                  ch_signals := rb_signals r, ch_head := block_hash C b\<rparr>,
                Inr \<lparr>im_receipts = rb_tip_receipts r, im_reverted = reverted\<rparr>))))"

definition store_side_branch :: "'a chain_env_scheme \<Rightarrow> block \<Rightarrow> candidate \<Rightarrow> blockchain \<Rightarrow> blockchain \<times> (chain_failure + imported)" where
  "store_side_branch C b cand c = (case try_incremental_side_branch C b cand c of
      (c, Some (Inl f)) \<Rightarrow> (c, Inl f)
    | (c, Some (Inr _)) \<Rightarrow> (insert_entry C b cand c, Inr imported_empty)
    | (c, None) \<Rightarrow> (case rebuild_branch C c b cand of
          Inl f \<Rightarrow> (c, Inl f)
        | Inr _ \<Rightarrow> (insert_entry C b cand c, Inr imported_empty)))"

definition import_block_tracked :: "'a chain_env_scheme \<Rightarrow> block \<Rightarrow> blockchain \<Rightarrow> blockchain \<times> (chain_failure + imported)" where
  "import_block_tracked C b c =
     (if ch_index c (block_hash C b) \<noteq> None then (c, Inr imported_empty)
      else (case validate_candidate C c b of
          Inl f \<Rightarrow> (c, Inl f)
        | Inr cand \<Rightarrow> (case ch_index c (ch_head c) of
            None \<Rightarrow> (c, Inl ChainPanic)
          | Some head \<Rightarrow>
              if prev_hash (header b) = ch_head c then extend_head C b cand c
              else if ei_chain_work head < cd_work cand
                \<or> (cd_work cand = ei_chain_work head \<and> block_hash C b < ch_head c)
              then (case try_incremental_reorg C b cand c of
                  (c, Some r) \<Rightarrow> (c, r)
                | (c, None) \<Rightarrow> adopt_rebuilt C b cand c)
              else store_side_branch C b cand c)))"

definition import_block :: "'a chain_env_scheme \<Rightarrow> block \<Rightarrow> blockchain \<Rightarrow> blockchain \<times> (chain_failure + receipt list)" where
  "import_block C b c = map_prod id (map_sum id im_receipts) (import_block_tracked C b c)"

end
