(* ===== verification/Compact.thy ===== *)
theory Compact
  imports Mining
begin

text \<open>
  The compact form of a target, \<open>pow/src/target.rs\<close>: Bitcoin's \<open>nBits\<close> encoding.  Snapping a target to
  the compact grid keeps its leading two or three bytes, so it never fails, is idempotent and never
  makes the target easier.
\<close>

unbundle bit_operations_syntax

lemma push_or: "b < 2 ^ n \<Longrightarrow> push_bit n a OR b = a * 2 ^ n + b" for a b :: nat
proof -
  assume b: "b < 2 ^ n"
  then have "take_bit n b = b" by (rule take_bit_nat_eq_self)
  then have "\<not> bit (push_bit n a) k \<or> \<not> bit b k" for k
    by (metis bit_push_bit_iff bit_take_bit_iff not_le)
  then show ?thesis by (simp add: push_bit_eq_mult disjunctive_add [symmetric])
qed

lemma sign_bit: "n AND 0x800000 \<noteq> 0 \<longleftrightarrow> odd (n div 0x800000)" for n :: nat
  using and_exp_eq_0_iff_not_bit [of n 23] bit_iff_odd [of n 23] by simp

lemma low_bits: "n AND 0x7fffff = n mod 0x800000" for n :: nat
proof -
  have "(0x7fffff :: nat) = mask 23" by (simp add: mask_eq_exp_minus_1)
  then show ?thesis by (simp only: flip: take_bit_eq_mask) (simp add: take_bit_eq_mod)
qed

text \<open>The encoding and the decoding in arithmetic.\<close>

definition lead :: "bytes \<Rightarrow> nat \<Rightarrow> nat" where
  "lead bs k = (if k < length bs then unat (bs ! k) else 0)"

lemma lead_less: "lead bs k < 256"
proof -
  have "unat (bs ! k) < 256" using unsigned_less [of "bs ! k"] by simp
  then show ?thesis by (simp add: lead_def)
qed

lemma mantissa_value:
  "push_bit 16 (lead bs i) OR push_bit 8 (lead bs j) OR lead bs k = lead bs i * 65536 + lead bs j * 256 + lead bs k"
proof -
  have "push_bit 8 (lead bs j) OR lead bs k = lead bs j * 256 + lead bs k"
    using push_or [of "lead bs k" 8] lead_less by simp
  then show ?thesis
    using push_or [of "lead bs j * 256 + lead bs k" 16 "lead bs i"] lead_less [of bs j] lead_less [of bs k] by simp
qed

lemma high_bit: "x < 256 \<Longrightarrow> odd (x div 128) \<longleftrightarrow> 128 \<le> x" for x :: nat
proof (cases "128 \<le> x")
  case True
  moreover assume "x < 256"
  ultimately have "x div 128 = 1" by (intro div_nat_eqI) simp_all
  then show ?thesis using True by simp
qed simp

lemma to_compact_value:
  assumes "first_nonzero bs = Some f" "f < 32"
  shows "to_compact bs = (if 128 \<le> lead bs f then (33 - f) * 0x1000000 + (lead bs f * 256 + lead bs (f + 1))
    else (32 - f) * 0x1000000 + (lead bs f * 65536 + lead bs (f + 1) * 256 + lead bs (f + 2)))"
proof -
  let ?m = "lead bs f * 65536 + lead bs (f + 1) * 256 + lead bs (f + 2)"
  have b: "lead bs f < 256" "lead bs (f + 1) < 256" "lead bs (f + 2) < 256" by (rule lead_less)+
  have m: "push_bit 16 (lead bs f) OR push_bit 8 (lead bs (f + 1)) OR lead bs (f + 2) = ?m" by (rule mantissa_value)
  have "?m div 0x800000 = ?m div 65536 div 128" by (simp add: div_mult2_eq [symmetric])
  also have "?m div 65536 = lead bs f" using b by (intro div_nat_eqI) simp_all
  finally have "?m div 0x800000 = lead bs f div 128" .
  then have sign: "?m AND 0x800000 \<noteq> 0 \<longleftrightarrow> 128 \<le> lead bs f"
    unfolding sign_bit using high_bit [OF b(1)] by (simp only:)
  have drop: "drop_bit 8 ?m = lead bs f * 256 + lead bs (f + 1)" using b by (simp add: drop_bit_eq_div)
  let ?M = "push_bit 16 (lead bs f) OR push_bit 8 (lead bs (f + 1)) OR lead bs (f + 2)"
  have "to_compact bs = (if ?M AND 0x800000 \<noteq> 0 then push_bit 24 (32 - f + 1) OR drop_bit 8 ?M
      else push_bit 24 (32 - f) OR ?M)"
    unfolding to_compact_def assms(1) option.case Let_def lead_def add_0_right ..
  then have "to_compact bs = (if 128 \<le> lead bs f then push_bit 24 (32 - f + 1) OR (lead bs f * 256 + lead bs (f + 1))
      else push_bit 24 (32 - f) OR ?m)"
    unfolding m sign drop .
  moreover have "push_bit 24 n OR ?m = n * 0x1000000 + ?m" for n using push_or [of ?m 24 n] b by simp
  moreover have "push_bit 24 n OR (lead bs f * 256 + lead bs (f + 1)) = n * 0x1000000 + (lead bs f * 256 + lead bs (f + 1))" for n
    using push_or [of "lead bs f * 256 + lead bs (f + 1)" 24 n] b by simp
  moreover have "32 - f + 1 = 33 - f" using assms(2) by simp
  ultimately show ?thesis by (simp only:)
qed

lemma from_compact_value:
  assumes "m < 0x800000" "m \<noteq> 0" "sz \<le> 33" "m \<le> 0xffff \<or> sz \<le> 32"
  shows "from_compact (sz * 0x1000000 + m) =
    (if sz \<le> 3 then (let val = m div 2 ^ (8 * (3 - sz)) in
       Some (HASH_ZERO[29 := of_nat (val div 65536), 30 := of_nat (val div 256), 31 := of_nat val]))
     else Some (place_bytes sz 0 [of_nat (m div 65536), of_nat (m div 256), of_nat m] HASH_ZERO))"
proof -
  let ?n = "sz * 0x1000000 + m"
  have n: "?n = m + 0x800000 * (2 * sz)" by simp
  have parts: "drop_bit 24 ?n = sz" using assms(1) by (simp add: drop_bit_eq_div)
  have low: "?n AND 0x7fffff = m" unfolding low_bits n mod_mult_self2 using assms(1) by simp
  have "?n div 0x800000 = 2 * sz" unfolding n using assms(1) by simp
  then have "\<not> (?n AND 0x800000 \<noteq> 0)" unfolding sign_bit by simp
  then show ?thesis unfolding from_compact_def parts low Let_def using assms by (auto simp: drop_bit_eq_div)
qed

section \<open>Snapping to the grid\<close>

text \<open>How many leading bytes survive, and the target they make.\<close>

definition kept :: "bytes \<Rightarrow> nat \<Rightarrow> nat" where
  "kept bs f = (if 128 \<le> lead bs f then f + 2 else f + 3)"

definition snap :: "nat \<Rightarrow> bytes \<Rightarrow> bytes" where
  "snap n bs = take n bs @ replicate (32 - n) 0"

lemma first_nonzero_Some:
  "first_nonzero bs = Some f \<longleftrightarrow> f < length bs \<and> bs ! f \<noteq> 0 \<and> (\<forall>i < f. bs ! i = 0)"
proof (induction bs arbitrary: f)
  case (Cons b bs)
  show ?case
  proof (cases f)
    case (Suc n)
    have "(\<forall>i < Suc n. (b # bs) ! i = 0) \<longleftrightarrow> b = 0 \<and> (\<forall>i < n. bs ! i = 0)"
      by (simp add: All_less_Suc2)
    then show ?thesis using Cons.IH [of n] Suc by auto
  qed auto
qed simp

lemma first_nonzero_None: "first_nonzero bs = None \<longleftrightarrow> bs = replicate (length bs) 0"
  by (induction bs) auto

lemma lead_eq: "k < length bs \<Longrightarrow> of_nat (lead bs k) = bs ! k"
  by (simp add: lead_def)

lemma nth_snap: "length bs = 32 \<Longrightarrow> i < 32 \<Longrightarrow> snap n bs ! i = (if i < n then bs ! i else 0)"
  by (auto simp: snap_def nth_append min_def)

lemma length_snap [simp]: "length bs = 32 \<Longrightarrow> n \<le> 32 \<Longrightarrow> length (snap n bs) = 32"
  by (simp add: snap_def)

lemma snap_all: "length bs = 32 \<Longrightarrow> 32 \<le> n \<Longrightarrow> snap n bs = bs"
  by (simp add: snap_def)

lemma place_one:
  assumes "length out = 32" "i < 32"
  shows "(case checked_sub (32 + k) sz of None \<Rightarrow> out | Some idx \<Rightarrow> if idx < 32 then out[idx := b] else out) ! i
    = (if i + sz = 32 + k then b else out ! i)"
  using assms by (auto simp: checked_sub_def nth_list_update)

lemma place_length:
  "length (case checked_sub n sz of None \<Rightarrow> out | Some idx \<Rightarrow> if idx < 32 then out[idx := b] else out) = length out"
  by (simp split: option.split)

lemma length_place_bytes: "length (place_bytes sz k bs out) = length out"
  by (induction bs arbitrary: k out) (auto split: option.split)

lemma place_bytes_nth:
  assumes "length out = 32" "i < 32"
  shows "place_bytes sz 0 [x, y, z] out ! i =
    (if i + sz = 32 then x else if i + sz = 33 then y else if i + sz = 34 then z else out ! i)"
proof -
  have "place_bytes sz 0 [x, y, z] out ! i =
    (if i + sz = 32 + Suc (Suc 0) then z else if i + sz = 32 + Suc 0 then y else if i + sz = 32 + 0 then x else out ! i)"
    unfolding place_bytes.simps using assms by (simp only: place_one place_length)
  then show ?thesis by simp
qed

declare place_bytes.simps [simp del]

lemma byte_low: "(256 :: byte) = 0" "(65536 :: byte) = 0"
  by simp_all

lemma nth_HASH_ZERO: "i < 32 \<Longrightarrow> HASH_ZERO ! i = 0"
  by (simp add: HASH_ZERO_def)

lemma HASH_ZERO_update: "HASH_ZERO[i := 0] = HASH_ZERO"
proof (cases "i < 32")
  case True
  then show ?thesis using list_update_id [of HASH_ZERO i] by (simp add: nth_HASH_ZERO)
qed (simp add: HASH_ZERO_def list_update_beyond)

lemma decode_wide:
  assumes "length t = 32" "first_nonzero t = Some f" "128 \<le> lead t f"
  shows "from_compact ((33 - f) * 0x1000000 + (lead t f * 256 + lead t (f + 1))) = Some (snap (f + 2) t)"
proof -
  define a b where a_def: "a = lead t f" and b_def: "b = lead t (f + 1)"
  have ab: "a < 256" "b < 256" unfolding a_def b_def by (rule lead_less)+
  have f: "f < 32" "\<And>i. i < f \<Longrightarrow> t ! i = 0" using assms(1,2) by (simp_all add: first_nonzero_Some)
  have digits: "(a * 256 + b) div 65536 = 0" "(a * 256 + b) div 256 = a" using ab by simp_all
  have a: "of_nat a = t ! f" unfolding a_def using f assms(1) by (simp add: lead_eq)
  have b: "of_nat b = (if f + 1 < 32 then t ! (f + 1) else 0)" unfolding b_def using assms(1) by (simp add: lead_def)
  have b0: "31 \<le> f \<Longrightarrow> b = 0" unfolding b_def using assms(1) by (simp add: lead_def)
  have dec: "from_compact ((33 - f) * 0x1000000 + (a * 256 + b)) =
    (if 33 - f \<le> 3 then (let val = (a * 256 + b) div 2 ^ (8 * (3 - (33 - f))) in
       Some (HASH_ZERO[29 := of_nat (val div 65536), 30 := of_nat (val div 256), 31 := of_nat val]))
     else Some (place_bytes (33 - f) 0 [0, of_nat a, of_nat b] HASH_ZERO))"
    using ab assms(3) [folded a_def] f(1) by (subst from_compact_value) (simp_all add: digits byte_low)
  consider "f = 31" | "f = 30" | "f < 30" using f(1) by linarith
  then have "from_compact ((33 - f) * 0x1000000 + (a * 256 + b)) = Some (snap (f + 2) t)"
  proof cases
    case 1
    then have "from_compact ((33 - f) * 0x1000000 + (a * 256 + b)) = Some (HASH_ZERO[31 := t ! 31])"
      unfolding dec using 1 ab a b0 by (simp add: digits HASH_ZERO_update byte_low)
    moreover have "HASH_ZERO[31 := t ! 31] = snap (f + 2) t"
      using 1 f assms(1) by (intro nth_equalityI) (auto simp: snap_all HASH_ZERO_def nth_list_update)
    ultimately show ?thesis by simp
  next
    case 2
    then have "from_compact ((33 - f) * 0x1000000 + (a * 256 + b)) = Some (HASH_ZERO[30 := t ! 30, 31 := t ! 31])"
      unfolding dec using 2 ab a b by (simp add: digits byte_low HASH_ZERO_update)
    moreover have "HASH_ZERO[30 := t ! 30, 31 := t ! 31] = snap (f + 2) t"
      using 2 f assms(1) by (intro nth_equalityI) (auto simp: snap_all HASH_ZERO_def nth_list_update)
    ultimately show ?thesis by simp
  next
    case 3
    have "place_bytes (33 - f) 0 [0, of_nat a, of_nat b] HASH_ZERO = snap (f + 2) t"
    proof (rule nth_equalityI)
      fix i assume "i < length (place_bytes (33 - f) 0 [0, of_nat a, of_nat b] HASH_ZERO)"
      then have i: "i < 32" by (simp add: length_place_bytes HASH_ZERO_def)
      have at: "i + (33 - f) = 32 \<longleftrightarrow> Suc i = f" "i + (33 - f) = 33 \<longleftrightarrow> i = f" "i + (33 - f) = 34 \<longleftrightarrow> i = f + 1"
        using f(1) by auto
      have "place_bytes (33 - f) 0 [0, of_nat a, of_nat b] HASH_ZERO ! i
          = (if i + (33 - f) = 32 then 0 else if i + (33 - f) = 33 then of_nat a else if i + (33 - f) = 34 then of_nat b else 0)"
        using i by (subst place_bytes_nth) (simp_all add: HASH_ZERO_def)
      also have "\<dots> = snap (f + 2) t ! i"
        unfolding at using i f 3 a b assms(1) by (auto simp: nth_snap)
      finally show "place_bytes (33 - f) 0 [0, of_nat a, of_nat b] HASH_ZERO ! i = snap (f + 2) t ! i" .
    qed (use 3 assms(1) in \<open>simp add: length_place_bytes HASH_ZERO_def\<close>)
    moreover have "\<not> 33 - f \<le> 3" using 3 by linarith
    ultimately show ?thesis unfolding dec by simp
  qed
  then show ?thesis unfolding a_def b_def .
qed

lemma decode_narrow:
  assumes "length t = 32" "first_nonzero t = Some f" "lead t f < 128"
  shows "from_compact ((32 - f) * 0x1000000 + (lead t f * 65536 + lead t (f + 1) * 256 + lead t (f + 2))) = Some (snap (f + 3) t)"
proof -
  define a b c where a_def: "a = lead t f" and b_def: "b = lead t (f + 1)" and c_def: "c = lead t (f + 2)"
  let ?m = "a * 65536 + b * 256 + c"
  have abc: "a < 128" "b < 256" "c < 256" using assms(3) lead_less unfolding a_def b_def c_def by blast+
  have f: "f < 32" "\<And>i. i < f \<Longrightarrow> t ! i = 0" "t ! f \<noteq> 0" using assms(1,2) by (simp_all add: first_nonzero_Some)
  have digits: "?m div 65536 = a" "?m div 256 = a * 256 + b" using abc by simp_all
  have a: "of_nat a = t ! f" "a \<noteq> 0" unfolding a_def using f assms(1) by (simp add: lead_eq, auto simp: lead_def unat_eq_0)
  have bc: "of_nat b = (if f + 1 < 32 then t ! (f + 1) else 0)" "of_nat c = (if f + 2 < 32 then t ! (f + 2) else 0)"
    unfolding b_def c_def using assms(1) by (simp_all add: lead_def)
  have bc0: "31 \<le> f \<Longrightarrow> b = 0" "30 \<le> f \<Longrightarrow> c = 0" unfolding b_def c_def using assms(1) by (simp_all add: lead_def)
  have dec: "from_compact ((32 - f) * 0x1000000 + ?m) =
    (if 32 - f \<le> 3 then (let val = ?m div 2 ^ (8 * (3 - (32 - f))) in
       Some (HASH_ZERO[29 := of_nat (val div 65536), 30 := of_nat (val div 256), 31 := of_nat val]))
     else Some (place_bytes (32 - f) 0 [of_nat a, of_nat b, of_nat c] HASH_ZERO))"
    using abc a(2) f(1) by (subst from_compact_value) (simp_all add: digits byte_low)
  consider "f = 31" | "f = 30" | "f = 29" | "f < 29" using f(1) by linarith
  then have "from_compact ((32 - f) * 0x1000000 + ?m) = Some (snap (f + 3) t)"
  proof cases
    case 1
    then have "from_compact ((32 - f) * 0x1000000 + ?m) = Some (HASH_ZERO[31 := t ! 31])"
      unfolding dec using 1 abc a(1) bc bc0 by (simp add: digits HASH_ZERO_update byte_low)
    moreover have "HASH_ZERO[31 := t ! 31] = snap (f + 3) t"
      using 1 f assms(1) by (intro nth_equalityI) (auto simp: snap_all HASH_ZERO_def nth_list_update)
    ultimately show ?thesis by simp
  next
    case 2
    then have "from_compact ((32 - f) * 0x1000000 + ?m) = Some (HASH_ZERO[30 := t ! 30, 31 := t ! 31])"
      unfolding dec using 2 abc a(1) bc bc0 by (simp add: digits HASH_ZERO_update byte_low)
    moreover have "HASH_ZERO[30 := t ! 30, 31 := t ! 31] = snap (f + 3) t"
      using 2 f assms(1) by (intro nth_equalityI) (auto simp: snap_all HASH_ZERO_def nth_list_update)
    ultimately show ?thesis by simp
  next
    case 3
    then have "from_compact ((32 - f) * 0x1000000 + ?m) = Some (HASH_ZERO[29 := t ! 29, 30 := t ! 30, 31 := t ! 31])"
      unfolding dec using 3 abc a(1) bc bc0 by (simp add: digits HASH_ZERO_update byte_low)
    moreover have "HASH_ZERO[29 := t ! 29, 30 := t ! 30, 31 := t ! 31] = snap (f + 3) t"
      using 3 f assms(1) by (intro nth_equalityI) (auto simp: snap_all HASH_ZERO_def nth_list_update)
    ultimately show ?thesis by simp
  next
    case 4
    have "place_bytes (32 - f) 0 [of_nat a, of_nat b, of_nat c] HASH_ZERO = snap (f + 3) t"
    proof (rule nth_equalityI)
      fix i assume "i < length (place_bytes (32 - f) 0 [of_nat a, of_nat b, of_nat c] HASH_ZERO)"
      then have i: "i < 32" by (simp add: length_place_bytes HASH_ZERO_def)
      have at: "i + (32 - f) = 32 \<longleftrightarrow> i = f" "i + (32 - f) = 33 \<longleftrightarrow> i = f + 1" "i + (32 - f) = 34 \<longleftrightarrow> i = f + 2"
        using f(1) by auto
      have "place_bytes (32 - f) 0 [of_nat a, of_nat b, of_nat c] HASH_ZERO ! i
          = (if i + (32 - f) = 32 then of_nat a else if i + (32 - f) = 33 then of_nat b
             else if i + (32 - f) = 34 then of_nat c else 0)"
        using i by (subst place_bytes_nth) (simp_all add: HASH_ZERO_def)
      also have "\<dots> = snap (f + 3) t ! i"
        unfolding at using i f 4 a(1) bc assms(1) by (auto simp: nth_snap)
      finally show "place_bytes (32 - f) 0 [of_nat a, of_nat b, of_nat c] HASH_ZERO ! i = snap (f + 3) t ! i" .
    qed (use 4 assms(1) in \<open>simp add: length_place_bytes HASH_ZERO_def\<close>)
    moreover have "\<not> 32 - f \<le> 3" using 4 by linarith
    ultimately show ?thesis unfolding dec by simp
  qed
  then show ?thesis unfolding a_def b_def c_def .
qed

lemma compact_snap:
  assumes "length t = 32" "first_nonzero t = Some f"
  shows "from_compact (to_compact t) = Some (snap (kept t f) t)"
  using decode_wide [OF assms] decode_narrow [OF assms] to_compact_value [OF assms(2)] assms
  by (cases "128 \<le> lead t f") (simp_all add: kept_def first_nonzero_Some not_le)

lemma prefix_le: "us \<le> vs \<Longrightarrow> ws @ us \<le> ws @ vs" for us :: "'a :: linorder list"
  by (induction ws) auto

lemma zeros_le: "length bs = k \<Longrightarrow> replicate k 0 \<le> bs" for bs :: bytes
proof (induction k arbitrary: bs)
  case (Suc k)
  then obtain y ys where "bs = y # ys" by (cases bs) auto
  moreover have "0 < y \<longleftrightarrow> y \<noteq> 0" using word_zero_le [of y] by (auto simp: order.strict_iff_order)
  ultimately show ?case using Suc.prems Suc.IH [of ys] by auto
qed simp

lemma snap_le:
  assumes "length t = 32"
  shows "snap n t \<le> t"
proof -
  have "take n t @ replicate (32 - n) 0 \<le> take n t @ drop n t"
    using assms by (intro prefix_le zeros_le) simp
  then show ?thesis by (simp add: snap_def)
qed

lemma snap_idem:
  assumes "length t = 32" "first_nonzero t = Some f"
  shows "first_nonzero (snap (kept t f) t) = Some f" "to_compact (snap (kept t f) t) = to_compact t"
proof -
  let ?s = "snap (kept t f) t"
  have f: "f < 32" "t ! f \<noteq> 0" "\<And>i. i < f \<Longrightarrow> t ! i = 0" using assms by (auto simp: first_nonzero_Some)
  have len: "length ?s = 32" using assms(1) by (cases "kept t f \<le> 32") (simp_all add: snap_all)
  have at: "?s ! i = (if i < kept t f then t ! i else 0)" if "i < 32" for i using that assms(1) by (simp add: nth_snap)
  have kept: "f + 2 \<le> kept t f" "\<not> 128 \<le> lead t f \<Longrightarrow> kept t f = f + 3" by (simp_all add: kept_def)
  show first: "first_nonzero ?s = Some f" using f len kept(1) by (auto simp: first_nonzero_Some at)
  have lead: "lead ?s k = lead t k" if "k < kept t f" for k using that len assms(1) by (simp add: lead_def at)
  show "to_compact ?s = to_compact t"
  proof (cases "128 \<le> lead t f")
    case True
    then show ?thesis using kept(1) lead [of f] lead [of "f + 1"]
      unfolding to_compact_value [OF first f(1)] to_compact_value [OF assms(2) f(1)] by simp
  next
    case False
    then have "lead ?s f = lead t f" "lead ?s (f + 1) = lead t (f + 1)" "lead ?s (f + 2) = lead t (f + 2)"
      using kept(2) [OF False] lead [of f] lead [of "f + 1"] lead [of "f + 2"] by linarith+
    then show ?thesis
      unfolding to_compact_value [OF first f(1)] to_compact_value [OF assms(2) f(1)] by (simp only:)
  qed
qed

lemma canonical_zero: "length t = 32 \<Longrightarrow> first_nonzero t = None \<Longrightarrow> from_compact (to_compact t) = Some t"
proof -
  assume t: "length t = 32" "first_nonzero t = None"
  then have "to_compact t = 0" by (simp add: to_compact_def)
  moreover have "t = HASH_ZERO" using t by (simp add: first_nonzero_None HASH_ZERO_def)
  ultimately show ?thesis by (simp add: from_compact_def)
qed

lemma compact_facts:
  assumes "length t = 32"
  shows "\<exists>t'. from_compact (to_compact t) = Some t' \<and> length t' = 32 \<and> t' \<le> t \<and> to_compact t' = to_compact t
    \<and> from_compact (to_compact t') = Some t'"
proof (cases "first_nonzero t")
  case None
  then show ?thesis using assms canonical_zero by auto
next
  case (Some f)
  let ?s = "snap (kept t f) t"
  have "length ?s = 32" using assms by (cases "kept t f \<le> 32") (simp_all add: snap_all)
  then show ?thesis
    using compact_snap [OF assms Some] snap_le [OF assms] snap_idem(2) [OF assms Some] by (intro exI [of _ ?s]) simp
qed

text \<open>C36. Every 256-bit target has a place on the compact grid: encoding it to \<open>nBits\<close> and decoding never
  fails, gives a target that is at most the original, so difficulty is never lost, and is a
  projection: the decoded target has the same encoding and decodes to itself.  The difficulty a
  header declares is therefore exactly the target its seal is compared with.\<close>

theorem compact_roundtrip:
  assumes "length t = 32"
  shows "\<exists>t'. from_compact (to_compact t) = Some t' \<and> length t' = 32 \<and> t' \<le> t \<and> to_compact t' = to_compact t
    \<and> from_compact (to_compact t') = Some t'"
  by (rule compact_facts [OF assms])

theorem compact_roundtrip_witness:
  "\<exists>t'. from_compact (to_compact EASIEST) = Some t' \<and> t' \<le> EASIEST \<and> to_compact t' = to_compact EASIEST"
  using compact_roundtrip [of EASIEST] by (auto simp: EASIEST_def)

end
