(* ===== verification/ForkChoice.thy ===== *)
theory ForkChoice
  imports Import Compact
begin

text \<open>
  The invariants of fork choice.  The block index is a tree rooted in genesis, the active chain is
  the path from its head to genesis, and the head is the entry of greatest work, ties going to the
  smaller hash; every import and every configuration step keeps this, whether the block extends the
  head, triggers a reorganisation, is stored on a side branch or is refused.
\<close>

section \<open>Paths in the block index\<close>

fun path :: "(hash \<rightharpoonup> index_entry) \<Rightarrow> hash \<Rightarrow> hash \<Rightarrow> block list \<Rightarrow> hash \<Rightarrow> bool" where
  "path idx g h [] stop \<longleftrightarrow> h = stop"
| "path idx g h (b # bs) stop \<longleftrightarrow> h \<noteq> g \<and> (\<exists>e. idx h = Some e \<and> ei_block e = b) \<and> path idx g (prev_hash (header b)) bs stop"

definition entry_ok :: "'a crypto_scheme \<Rightarrow> (hash \<rightharpoonup> index_entry) \<Rightarrow> hash \<Rightarrow> hash \<Rightarrow> index_entry \<Rightarrow> bool" where
  "entry_ok C idx g h e \<longleftrightarrow> block_hash C (ei_block e) = h \<and> hd_height (header (ei_block e)) = ei_height e
     \<and> (if ei_height e = 0 then h = g
        else \<exists>p. idx (prev_hash (header (ei_block e))) = Some p \<and> ei_height e = Suc (ei_height p)
          \<and> ei_chain_work e = work_saturating_add (ei_chain_work p) (of_target (ei_sha_target e)))"

definition index_ok :: "'a crypto_scheme \<Rightarrow> (hash \<rightharpoonup> index_entry) \<Rightarrow> hash \<Rightarrow> bool" where
  "index_ok C idx g \<longleftrightarrow> (\<exists>e. idx g = Some e \<and> ei_height e = 0) \<and> (\<forall>h e. idx h = Some e \<longrightarrow> entry_ok C idx g h e)"

definition active_ok :: "(hash \<rightharpoonup> index_entry) \<Rightarrow> hash \<Rightarrow> hash \<Rightarrow> block list \<Rightarrow> bool" where
  "active_ok idx g head blocks \<longleftrightarrow> (\<exists>bs e. path idx g head bs g \<and> idx g = Some e \<and> blocks = ei_block e # rev bs)"

lemma path_append: "path idx g h (bs @ cs) stop \<longleftrightarrow> (\<exists>m. path idx g h bs m \<and> path idx g m cs stop)"
  by (induction bs arbitrary: h) auto

lemma path_mono: "path idx g h bs stop \<Longrightarrow> (\<And>k e. idx k = Some e \<Longrightarrow> idx' k = Some e) \<Longrightarrow> path idx' g h bs stop"
  by (induction bs arbitrary: h) auto

lemma index_okD: "index_ok C idx g \<Longrightarrow> idx h = Some e \<Longrightarrow> entry_ok C idx g h e"
  by (simp add: index_ok_def)

lemma entry_height: "entry_ok C idx g h e \<Longrightarrow> h \<noteq> g \<Longrightarrow> 0 < ei_height e"
  by (auto simp: entry_ok_def split: if_splits)

lemma genesis_height: "index_ok C idx g \<Longrightarrow> idx g = Some e \<Longrightarrow> ei_height e = 0"
  by (auto simp: index_ok_def)

text \<open>Heights fall by one along a path, and the path determines its blocks.\<close>

lemma path_height:
  assumes "index_ok C idx g"
  shows "path idx g h bs stop \<Longrightarrow> idx stop = Some e \<Longrightarrow> \<exists>e'. idx h = Some e' \<and> ei_height e' = ei_height e + length bs"
proof (induction bs arbitrary: h)
  case (Cons b bs)
  then obtain e' where e': "idx h = Some e'" "ei_block e' = b" "h \<noteq> g" by auto
  from Cons obtain p where p: "idx (prev_hash (header b)) = Some p" "ei_height p = ei_height e + length bs" by fastforce
  have "entry_ok C idx g h e'" using assms e'(1) by (rule index_okD)
  then show ?case using e' p entry_height [of C idx g h e'] by (auto simp: entry_ok_def split: if_splits)
qed simp

lemma path_hash: "index_ok C idx g \<Longrightarrow> path idx g h (b # bs) stop \<Longrightarrow> block_hash C b = h"
  by (auto simp: index_ok_def entry_ok_def)

lemma path_unique:
  assumes "path idx g h bs stop" "path idx g h cs stop'" "length bs = length cs"
  shows "bs = cs \<and> stop = stop'"
  using assms
proof (induction bs arbitrary: h cs)
  case (Cons b bs)
  then obtain d ds where "cs = d # ds" by (cases cs) auto
  with Cons.prems show ?case using Cons.IH [of "prev_hash (header b)" ds] by auto
qed simp

lemma path_members:
  assumes "index_ok C idx g" "path idx g h bs stop" "idx stop = Some e" "b \<in> set bs"
  shows "ei_height e < hd_height (header b)"
proof -
  obtain us vs where "bs = us @ b # vs" using assms(4) by (auto simp: in_set_conv_decomp)
  then obtain m where m: "path idx g m (b # vs) stop" using assms(2) by (auto simp: path_append)
  from path_height [OF assms(1) this assms(3)] obtain e' where "idx m = Some e'" "ei_height e' = ei_height e + length (b # vs)" by auto
  moreover have "entry_ok C idx g m e'" using assms(1) calculation(1) by (rule index_okD)
  ultimately show ?thesis using m by (auto simp: entry_ok_def)
qed

section \<open>The tree and the active chain\<close>

lemma entry_ok_mono:
  "entry_ok C idx g h e \<Longrightarrow> (\<And>k x. idx k = Some x \<Longrightarrow> idx' k = Some x) \<Longrightarrow> entry_ok C idx' g h e"
  by (auto simp: entry_ok_def split: if_splits)

lemma index_ok_insert:
  assumes "index_ok C idx g" "idx h = None" "entry_ok C idx g h e"
  shows "index_ok C (idx(h \<mapsto> e)) g"
proof -
  have grow: "(idx(h \<mapsto> e)) k = Some x" if "idx k = Some x" for k x using assms(2) that by auto
  have "entry_ok C (idx(h \<mapsto> e)) g k x" if "(idx(h \<mapsto> e)) k = Some x" for k x
  proof (cases "k = h")
    case True
    then have "x = e" using that by simp
    with True show ?thesis using assms(3) by (auto intro: entry_ok_mono grow)
  next
    case False
    then have "idx k = Some x" using that by simp
    from index_okD [OF assms(1) this] show ?thesis by (rule entry_ok_mono) (rule grow)
  qed
  moreover have "\<exists>x. (idx(h \<mapsto> e)) g = Some x \<and> ei_height x = 0"
    using assms(1) grow unfolding index_ok_def by blast
  ultimately show ?thesis unfolding index_ok_def by blast
qed

lemma active_ok_mono:
  "active_ok idx g head blocks \<Longrightarrow> (\<And>k x. idx k = Some x \<Longrightarrow> idx' k = Some x) \<Longrightarrow> active_ok idx' g head blocks"
  unfolding active_ok_def using path_mono by metis

lemma active_split:
  assumes "index_ok C idx g" "active_ok idx g head blocks" "i < length blocks"
  shows "path idx g head (rev (drop i (tl blocks))) (block_hash C (blocks ! i))"
    and "active_ok idx g (block_hash C (blocks ! i)) (take (Suc i) blocks)"
    and "\<exists>e. idx (block_hash C (blocks ! i)) = Some e \<and> ei_block e = blocks ! i \<and> ei_height e = i"
proof -
  obtain bs e0 where p: "path idx g head bs g" and e0: "idx g = Some e0" and blocks: "blocks = ei_block e0 # rev bs"
    using assms(2) by (auto simp: active_ok_def)
  let ?n = "length bs - i"
  have i: "i \<le> length bs" using assms(3) blocks by simp
  obtain m where m: "path idx g head (take ?n bs) m" "path idx g m (drop ?n bs) g"
    using p path_append [of idx g head "take ?n bs" "drop ?n bs" g] by auto
  have g0: "block_hash C (ei_block e0) = g" using index_okD [OF assms(1) e0] by (simp add: entry_ok_def)
  have m_hash: "m = block_hash C (blocks ! i) \<and> (\<exists>e. idx m = Some e \<and> ei_block e = blocks ! i \<and> ei_height e = i)"
  proof (cases i)
    case 0
    then show ?thesis using m(2) blocks g0 e0 genesis_height [OF assms(1) e0] by simp
  next
    case (Suc j)
    then have "blocks ! i = bs ! ?n" using i blocks by (simp add: rev_nth)
    then have d: "drop ?n bs = blocks ! i # drop (Suc ?n) bs" using Suc i by (simp add: Cons_nth_drop_Suc)
    then have p': "path idx g m (blocks ! i # drop (Suc ?n) bs) g" using m(2) by simp
    moreover from path_height [OF assms(1) m(2) e0] genesis_height [OF assms(1) e0]
    obtain e where "idx m = Some e" "ei_height e = i" using i by auto
    ultimately show ?thesis using path_hash [OF assms(1) p'] by auto
  qed
  have "rev (drop i (tl blocks)) = take ?n bs" using i blocks by (simp add: rev_drop)
  then show "path idx g head (rev (drop i (tl blocks))) (block_hash C (blocks ! i))" using m(1) m_hash by simp
  have "take (Suc i) blocks = ei_block e0 # rev (drop ?n bs)" using i blocks by (simp add: take_rev)
  then show "active_ok idx g (block_hash C (blocks ! i)) (take (Suc i) blocks)"
    unfolding active_ok_def using m(2) m_hash e0 by blast
  show "\<exists>e. idx (block_hash C (blocks ! i)) = Some e \<and> ei_block e = blocks ! i \<and> ei_height e = i" using m_hash by blast
qed

lemma active_heights:
  assumes "index_ok C idx g" "active_ok idx g head blocks" "i < length blocks"
  shows "hd_height (header (blocks ! i)) = i"
proof -
  obtain e where e: "idx (block_hash C (blocks ! i)) = Some e" "ei_block e = blocks ! i" "ei_height e = i"
    using active_split(3) [OF assms] by blast
  then show ?thesis using index_okD [OF assms(1) e(1)] by (simp add: entry_ok_def)
qed

lemma active_last:
  assumes "index_ok C idx g" "active_ok idx g head blocks"
  shows "head = block_hash C (last blocks)" "hd_height (header (last blocks)) = length blocks - 1" "blocks \<noteq> []"
proof -
  show ne: "blocks \<noteq> []" using assms(2) by (auto simp: active_ok_def)
  have l: "length blocks - 1 < length blocks" using ne by simp
  show "hd_height (header (last blocks)) = length blocks - 1"
    using active_heights [OF assms l] ne by (simp add: last_conv_nth)
  show "head = block_hash C (last blocks)"
    using active_split(1) [OF assms l] ne by (simp add: last_conv_nth)
qed

text \<open>A branch that ends on the active chain, together with the part of the active chain below it.\<close>

lemma active_branch:
  assumes "index_ok C idx g" "active_ok idx g head blocks" "i < length blocks"
    and "path idx g h bs (block_hash C (blocks ! i))"
  shows "active_ok idx g h (take (Suc i) blocks @ rev bs)"
proof -
  obtain cs e where "path idx g (block_hash C (blocks ! i)) cs g" "idx g = Some e" "take (Suc i) blocks = ei_block e # rev cs"
    using active_split(2) [OF assms(1-3)] by (auto simp: active_ok_def)
  then show ?thesis unfolding active_ok_def
    using assms(4) path_append [of idx g h bs cs g] by (intro exI [of _ "bs @ cs"] exI [of _ e]) auto
qed

section \<open>What the operations change\<close>

text \<open>Everything but the active chain, its ledger and signals, the head and the receipt index.\<close>

definition chain_view :: "blockchain \<Rightarrow> blockchain" where
  "chain_view c = c\<lparr>ch_blocks := [], ch_undo_ring := [], ch_head := [], ch_difficulty := 0, ch_receipts := bt_empty,
     ch_tx_height := Map.empty, ch_signals := signal_log_new, ch_ledger := ch_genesis_ledger c\<rparr>"

lemma chain_view_fields:
  assumes "chain_view c' = chain_view c"
  shows "ch_index c' = ch_index c" "ch_genesis_hash c' = ch_genesis_hash c" "ch_checkpoints c' = ch_checkpoints c"
    "ch_linked c' = ch_linked c" "ch_linkage_pending c' = ch_linkage_pending c" "ch_linkage_next c' = ch_linkage_next c"
    "ch_linkage_prev c' = ch_linkage_prev c" "ch_mining c' = ch_mining c" "ch_genesis_ledger c' = ch_genesis_ledger c"
  using arg_cong [OF assms, of ch_index] arg_cong [OF assms, of ch_genesis_hash] arg_cong [OF assms, of ch_checkpoints]
    arg_cong [OF assms, of ch_linked] arg_cong [OF assms, of ch_linkage_pending] arg_cong [OF assms, of ch_linkage_next]
    arg_cong [OF assms, of ch_linkage_prev] arg_cong [OF assms, of ch_mining] arg_cong [OF assms, of ch_genesis_ledger]
  by (simp_all add: chain_view_def)

lemma chain_view_updates [simp]:
  "chain_view (c\<lparr>ch_blocks := bs\<rparr>) = chain_view c" "chain_view (c\<lparr>ch_undo_ring := r\<rparr>) = chain_view c"
  "chain_view (c\<lparr>ch_head := h\<rparr>) = chain_view c" "chain_view (c\<lparr>ch_difficulty := d\<rparr>) = chain_view c"
  "chain_view (c\<lparr>ch_receipts := rs\<rparr>) = chain_view c" "chain_view (c\<lparr>ch_tx_height := th\<rparr>) = chain_view c"
  "chain_view (c\<lparr>ch_signals := s\<rparr>) = chain_view c" "chain_view (c\<lparr>ch_ledger := l\<rparr>) = chain_view c"
  by (simp_all add: chain_view_def)

lemma index_receipts_view [simp]:
  "chain_view (index_block_receipts h rs c) = chain_view c" "ch_blocks (index_block_receipts h rs c) = ch_blocks c"
  "ch_head (index_block_receipts h rs c) = ch_head c"
  by (simp_all add: index_block_receipts_def)

lemma rebuild_receipts_view [simp]:
  "chain_view (rebuild_receipt_index brs c) = chain_view c" "ch_blocks (rebuild_receipt_index brs c) = ch_blocks c"
  "ch_head (rebuild_receipt_index brs c) = ch_head c"
proof -
  have "chain_view (fold (\<lambda>(h, rs). index_block_receipts h rs) brs d) = chain_view d
      \<and> ch_blocks (fold (\<lambda>(h, rs). index_block_receipts h rs) brs d) = ch_blocks d
      \<and> ch_head (fold (\<lambda>(h, rs). index_block_receipts h rs) brs d) = ch_head d" for d
    by (induction brs arbitrary: d) auto
  then show "chain_view (rebuild_receipt_index brs c) = chain_view c" "ch_blocks (rebuild_receipt_index brs c) = ch_blocks c"
    "ch_head (rebuild_receipt_index brs c) = ch_head c" by (simp_all add: rebuild_receipt_index_def)
qed

lemma connect_frame:
  assumes "connect_to_active C b t c = (c', r)"
  shows "chain_view c' = chain_view c" "ch_head c' = ch_head c"
    "ch_blocks c' = (case r of Inr _ \<Rightarrow> ch_blocks c @ [b] | Inl _ \<Rightarrow> ch_blocks c)"
  using assms
  by (auto simp: connect_to_active_def remember_undo_def Let_def split: sum.splits prod.splits chain_failure.splits)

lemma pop_block_view [simp]: "chain_view (pop_block C c) = chain_view c"
  by (simp add: pop_block_def split: prod.split)

lemma disconnect_loop_frame:
  "disconnect_loop C n c = (c', Inr old) \<Longrightarrow>
     chain_view c' = chain_view c \<and> ch_blocks c' \<noteq> [] \<and> ch_blocks c = ch_blocks c' @ rev old
       \<and> chain_height c' \<le> n \<and> (\<forall>b \<in> set old. n < hd_height (header b))"
proof (induction C n c arbitrary: old rule: disconnect_loop.induct)
  case (1 C n c)
  note run = "1.prems" [unfolded disconnect_loop.simps [of C n c]]
  show ?case
  proof (cases "ch_blocks c = [] \<or> chain_height c \<le> n \<or> ch_undo_ring c = []")
    case True
    then show ?thesis using run by (auto split: if_splits)
  next
    case False
    then obtain bs where bs: "disconnect_loop C n (pop_block C c) = (c', Inr bs)" "old = chain_head c # bs"
      using run by (auto split: prod.splits sum.splits)
    from "1.IH" [OF _ _ _ bs(1)] False have
      ih: "chain_view c' = chain_view (pop_block C c)" "ch_blocks c' \<noteq> []" "butlast (ch_blocks c) = ch_blocks c' @ rev bs"
        "chain_height c' \<le> n" "\<forall>b \<in> set bs. n < hd_height (header b)" by auto
    have "ch_blocks c = butlast (ch_blocks c) @ [chain_head c]" using False by (simp add: chain_head_def)
    then have "ch_blocks c = ch_blocks c' @ rev old" unfolding ih(3) bs(2) by simp
    then show ?thesis using ih bs(2) False by (auto simp: chain_height_def)
  qed
qed

lemma disconnect_frame:
  assumes "disconnect_to C n c = (c', Inr old)"
  shows "chain_view c' = chain_view c" "ch_blocks c' \<noteq> []" "ch_blocks c = ch_blocks c' @ rev old"
    "chain_height c' \<le> n" "\<forall>b \<in> set old. n < hd_height (header b)" "ch_head c' = block_hash C (chain_head c')"
proof -
  obtain d where d: "disconnect_loop C n c = (d, Inr old)" "c' = d\<lparr>ch_head := block_hash C (chain_head d)\<rparr>"
    using assms by (auto simp: disconnect_to_def split: prod.splits sum.splits)
  note f = disconnect_loop_frame [OF d(1)]
  then show "chain_view c' = chain_view c" "ch_blocks c' \<noteq> []" "ch_blocks c = ch_blocks c' @ rev old"
    "\<forall>b \<in> set old. n < hd_height (header b)" by (simp_all add: d(2))
  show "chain_height c' \<le> n" "ch_head c' = block_hash C (chain_head c')"
    using f by (simp_all add: d(2) chain_height_def chain_head_def)
qed

lemma reconnect_frame:
  "reconnect_loop C bs c = (c', Inr u) \<Longrightarrow>
     chain_view c' = chain_view c \<and> ch_blocks c' = ch_blocks c @ bs \<and> ch_head c' = block_hash C (chain_head c')"
proof (induction bs arbitrary: c)
  case Nil
  then show ?case by (auto simp: chain_head_def)
next
  case (Cons b bs)
  obtain e d rs where "ch_index c (block_hash C b) = Some e" and d: "connect_to_active C b (ei_sha_target e) c = (d, Inr rs)"
    and r: "reconnect_loop C bs (index_block_receipts (hd_height (header b)) rs d) = (c', Inr u)"
    using Cons.prems by (auto split: option.splits prod.splits sum.splits)
  from Cons.IH [OF r] connect_frame [OF d] show ?case by simp
qed

lemma connect_branch_frame:
  assumes "connect_branch C adopt t bs c = (c', out)"
  shows "chain_view c' = chain_view c" "ch_head c' = ch_head c"
    "\<exists>n. ch_blocks c' = ch_blocks c @ take n bs" "out = BranchConnected rs \<Longrightarrow> ch_blocks c' = ch_blocks c @ bs"
proof -
  have "chain_view c' = chain_view c \<and> ch_head c' = ch_head c
    \<and> (\<exists>n. ch_blocks c' = ch_blocks c @ take n bs) \<and> (\<forall>rs. out = BranchConnected rs \<longrightarrow> ch_blocks c' = ch_blocks c @ bs)"
    using assms
  proof (induction bs arbitrary: c)
    case (Cons b bs)
    show ?case
    proof (cases "if bs = [] then Some t else map_option ei_sha_target (ch_index c (block_hash C b))")
      case None
      then show ?thesis using Cons.prems by (auto intro: exI [of _ 0])
    next
      case (Some t')
      obtain d r where d: "connect_to_active C b t' c = (d, r)" by fastforce
      note f = connect_frame [OF d]
      show ?thesis
      proof (cases r)
        case (Inl e)
        then show ?thesis using Cons.prems Some d f by (auto intro: exI [of _ 0])
      next
        case (Inr rs)
        let ?d = "if adopt then index_block_receipts (hd_height (header b)) rs d else d"
        have d': "chain_view ?d = chain_view c" "ch_head ?d = ch_head c" "ch_blocks ?d = ch_blocks c @ [b]"
          using f Inr by simp_all
        have step: "connect_branch C adopt t (b # bs) c
            = (if bs = [] then (?d, BranchConnected rs) else connect_branch C adopt t bs ?d)"
          unfolding connect_branch.simps Some option.case d prod.case Inr sum.case Let_def ..
        show ?thesis
        proof (cases "bs = []")
          case True
          then have "c' = ?d" "out = BranchConnected rs" using Cons.prems step by simp_all
          then show ?thesis using d' True by (auto intro: exI [of _ 1])
        next
          case False
          then have "connect_branch C adopt t bs ?d = (c', out)" using Cons.prems step by simp
          note ih = Cons.IH [OF this, unfolded d']
          then obtain n where "ch_blocks c' = (ch_blocks c @ [b]) @ take n bs" by blast
          then have "\<exists>n. ch_blocks c' = ch_blocks c @ take n (b # bs)" by (intro exI [of _ "Suc n"]) simp
          with ih show ?thesis by (elim conjE, intro conjI) (assumption | simp)+
        qed
      qed
    qed
  qed auto
  then show "chain_view c' = chain_view c" "ch_head c' = ch_head c"
    "\<exists>n. ch_blocks c' = ch_blocks c @ take n bs" "out = BranchConnected rs \<Longrightarrow> ch_blocks c' = ch_blocks c @ bs" by blast+
qed

section \<open>Walks along parent links\<close>

lemma on_active_iff:
  "on_active C c m e \<longleftrightarrow> ei_height e < length (ch_blocks c) \<and> block_hash C (ch_blocks c ! ei_height e) = m"
  by (auto simp: on_active_def block_by_height_def)

lemma genesis_on_active:
  assumes "index_ok C idx g" "active_ok idx g head (ch_blocks c)" "idx g = Some e"
  shows "on_active C c g e"
proof -
  have "ei_height e = 0" by (rule genesis_height [OF assms(1,3)])
  moreover have "block_hash C (ei_block e) = g" using index_okD [OF assms(1,3)] by (simp add: entry_ok_def)
  ultimately show ?thesis using assms(2,3) by (auto simp: on_active_iff active_ok_def)
qed

lemma walk_path:
  assumes "index_ok C (ch_index c) g" "active_ok (ch_index c) g head (ch_blocks c)"
  shows "walk_to_active C c n h = (es, Some e) \<Longrightarrow>
    \<exists>m. path (ch_index c) g h (map ei_block es) m \<and> ch_index c m = Some e \<and> on_active C c m e"
proof (induction n arbitrary: h es)
  case (Suc n)
  show ?case
  proof (cases "ch_index c h")
    case (Some x)
    show ?thesis
    proof (cases "on_active C c h x")
      case True
      then show ?thesis using Suc.prems Some by auto
    next
      case False
      then obtain fs where fs: "walk_to_active C c n (prev_hash (header (ei_block x))) = (fs, Some e)" "es = x # fs"
        using Suc.prems Some by (auto split: prod.splits)
      moreover have "h \<noteq> g" using genesis_on_active [OF assms] False Some by blast
      ultimately show ?thesis using Suc.IH [OF fs(1)] Some by auto
    qed
  qed (use Suc.prems in simp)
qed simp

text \<open>The walks end: the fuel, the height of the start, is enough.\<close>

lemma walk_ends:
  assumes "index_ok C (ch_index c) g" "active_ok (ch_index c) g head (ch_blocks c)"
  shows "ch_index c h = Some x \<Longrightarrow> ei_height x < n \<Longrightarrow> \<exists>es e. walk_to_active C c n h = (es, Some e)"
proof (induction n arbitrary: h x)
  case (Suc n)
  show ?case
  proof (cases "on_active C c h x")
    case False
    then have "h \<noteq> g" using genesis_on_active [OF assms] Suc.prems(1) by blast
    with index_okD [OF assms(1) Suc.prems(1)] obtain p where
      "ch_index c (prev_hash (header (ei_block x))) = Some p" "ei_height x = Suc (ei_height p)"
      by (auto simp: entry_ok_def split: if_splits)
    then show ?thesis using Suc.IH [of "prev_hash (header (ei_block x))" p] Suc.prems False by auto
  qed (use Suc.prems in simp)
qed simp

lemma ancestors_path:
  "branch_ancestors c n h = Some bs \<Longrightarrow> path (ch_index c) (ch_genesis_hash c) h bs (ch_genesis_hash c)"
proof (induction n arbitrary: h bs)
  case 0
  then show ?case by (simp split: if_splits)
next
  case (Suc n)
  then show ?case by (auto split: if_splits option.splits)
qed

lemma ancestors_end:
  assumes "index_ok C (ch_index c) (ch_genesis_hash c)"
  shows "ch_index c h = Some x \<Longrightarrow> ei_height x \<le> n \<Longrightarrow> \<exists>bs. branch_ancestors c n h = Some bs"
proof (induction n arbitrary: h x)
  case 0
  then have "h = ch_genesis_hash c" using index_okD [OF assms 0(1)] entry_height by fastforce
  then show ?case by simp
next
  case (Suc n)
  show ?case
  proof (cases "h = ch_genesis_hash c")
    case False
    with index_okD [OF assms Suc.prems(1)] obtain p where
      "ch_index c (prev_hash (header (ei_block x))) = Some p" "ei_height x = Suc (ei_height p)"
      by (auto simp: entry_ok_def split: if_splits)
    then show ?thesis using Suc.IH [of "prev_hash (header (ei_block x))" p] Suc.prems False by auto
  qed simp
qed

section \<open>The invariant\<close>

definition better :: "nat \<Rightarrow> hash \<Rightarrow> nat \<Rightarrow> hash \<Rightarrow> bool" where
  "better w h w' h' \<longleftrightarrow> w' < w \<or> (w = w' \<and> h < h')"

definition best_head :: "(hash \<rightharpoonup> index_entry) \<Rightarrow> hash \<Rightarrow> bool" where
  "best_head idx head \<longleftrightarrow> (\<exists>e. idx head = Some e \<and> (ei_chain_work e < 2 ^ 256 - 1 \<longrightarrow>
     (\<forall>h x. idx h = Some x \<longrightarrow> h = head \<or> better (ei_chain_work e) head (ei_chain_work x) h)))"

definition chain_ok :: "'a crypto_scheme \<Rightarrow> blockchain \<Rightarrow> bool" where
  "chain_ok C c \<longleftrightarrow> index_ok C (ch_index c) (ch_genesis_hash c)
     \<and> active_ok (ch_index c) (ch_genesis_hash c) (ch_head c) (ch_blocks c) \<and> best_head (ch_index c) (ch_head c)
     \<and> linkage_ok C c"

definition same_chain :: "blockchain \<Rightarrow> blockchain \<Rightarrow> bool" where
  "same_chain c c' \<longleftrightarrow> chain_view c' = chain_view c \<and> ch_blocks c' = ch_blocks c \<and> ch_head c' = ch_head c"

lemma chain_ok_same: "chain_ok C c \<Longrightarrow> same_chain c c' \<Longrightarrow> chain_ok C c'"
  using chain_view_fields [of c' c] linkage_ok_cong [of c' c C] by (simp add: chain_ok_def same_chain_def)

definition new_entry :: "'a chain_env_scheme \<Rightarrow> block \<Rightarrow> candidate \<Rightarrow> index_entry" where
  "new_entry C b cand = \<lparr>ei_block = b, ei_sha_target = cd_target cand, ei_chain_work = cd_work cand,
     ei_height = cd_height cand, ei_size = serialized_size C b\<rparr>"

lemma of_target_pos: "1 \<le> of_target t"
  by (simp add: of_target_def Let_def)

definition fits :: "(hash \<rightharpoonup> index_entry) \<Rightarrow> block \<Rightarrow> candidate \<Rightarrow> bool" where
  "fits idx b cand \<longleftrightarrow> (\<exists>p. idx (prev_hash (header b)) = Some p \<and> hd_height (header b) = Suc (ei_height p)
     \<and> cd_height cand = Suc (ei_height p) \<and> cd_work cand = work_saturating_add (ei_chain_work p) (of_target (cd_target cand)))"

lemma validated_fits: "validate_candidate C c b = Inr cand \<Longrightarrow> fits (ch_index c) b cand"
  by (auto simp: fits_def validate_candidate_def Let_def ensure_def ok_or_def split: if_splits option.splits)

lemma fits_entry: "fits idx b cand \<Longrightarrow> entry_ok C idx g (block_hash C b) (new_entry C b cand)"
  by (auto simp: fits_def entry_ok_def new_entry_def)

lemma fits_work: "fits idx b cand \<Longrightarrow> cd_work cand \<le> 2 ^ 256 - 1"
  unfolding fits_def work_saturating_add_def saturating_add_def by auto

lemma work_bound: "work_saturating_add a b \<le> 2 ^ 256 - 1" "a < 2 ^ 256 - 1 \<Longrightarrow> 1 \<le> b \<Longrightarrow> a < work_saturating_add a b"
  by (simp_all add: work_saturating_add_def saturating_add_def)

text \<open>A new tip that beats the head becomes the best head.\<close>

lemma best_head_new:
  assumes "best_head idx head" "idx head = Some e" "idx h = None" "ei_chain_work x \<le> 2 ^ 256 - 1"
    and "better (ei_chain_work x) h (ei_chain_work e) head \<or> ei_chain_work x = 2 ^ 256 - 1"
  shows "best_head (idx(h \<mapsto> x)) h"
proof (cases "ei_chain_work x = 2 ^ 256 - 1")
  case False
  then have x: "ei_chain_work x < 2 ^ 256 - 1" "better (ei_chain_work x) h (ei_chain_work e) head" using assms(4,5) by auto
  then have "ei_chain_work e < 2 ^ 256 - 1" by (auto simp: better_def)
  then have "k = head \<or> better (ei_chain_work e) head (ei_chain_work y) k" if "idx k = Some y" for k y
    using assms(1,2) that by (auto simp: best_head_def)
  then have "better (ei_chain_work x) h (ei_chain_work y) k" if "idx k = Some y" for k y
    using x(2) assms(2) that by (fastforce simp: better_def)
  then show ?thesis by (auto simp: best_head_def)
qed (simp add: best_head_def)

lemma best_head_keep:
  assumes "best_head idx head" "idx head = Some e" "idx h = None" "ei_chain_work x \<le> 2 ^ 256 - 1"
    and "\<not> better (ei_chain_work x) h (ei_chain_work e) head"
  shows "best_head (idx(h \<mapsto> x)) head"
  using assms by (auto simp: best_head_def better_def)

section \<open>Competing branches\<close>

lemma split_unique:
  assumes "us @ vs = ws @ ys" "us \<noteq> []" "ws \<noteq> []" "\<not> P (last us)" "\<not> P (last ws)" "\<forall>v \<in> set vs. P v" "\<forall>y \<in> set ys. P y"
  shows "us = ws"
proof -
  from assms(1) obtain zs where "us = ws @ zs \<and> zs @ vs = ys \<or> us @ zs = ws \<and> vs = zs @ ys"
    by (auto simp: append_eq_append_conv2)
  then show ?thesis
  proof
    assume z: "us = ws @ zs \<and> zs @ vs = ys"
    show ?thesis
    proof (cases "zs = []")
      case False
      then have "last us \<in> set ys" using z by auto
      then show ?thesis using assms(4,7) by blast
    qed (use z in simp)
  next
    assume z: "us @ zs = ws \<and> vs = zs @ ys"
    show ?thesis
    proof (cases "zs = []")
      case False
      then have "last ws \<in> set vs" using z by auto
      then show ?thesis using assms(5,6) by blast
    qed (use z in simp)
  qed
qed

lemma fork_path:
  assumes "chain_ok C c" "locate_fork C c tip = Some (f, new)" "fits (ch_index c) tip cand"
  obtains bs where "new = rev bs @ [tip]" "f < length (ch_blocks c)"
    "path (ch_index c) (ch_genesis_hash c) (prev_hash (header tip)) bs (block_hash C (ch_blocks c ! f))"
    "\<forall>b \<in> set new. f < hd_height (header b)"
proof -
  let ?idx = "ch_index c" and ?g = "ch_genesis_hash c"
  have ok: "index_ok C ?idx ?g" "active_ok ?idx ?g (ch_head c) (ch_blocks c)" using assms(1) by (simp_all add: chain_ok_def)
  obtain es e where w: "walk_to_active C c (walk_fuel c (prev_hash (header tip))) (prev_hash (header tip)) = (es, Some e)"
    and f: "f = ei_height e" "new = rev (map ei_block es) @ [tip]"
    using assms(2) by (auto simp: locate_fork_def split: prod.splits option.splits)
  from walk_path [OF ok w] obtain m where m: "path ?idx ?g (prev_hash (header tip)) (map ei_block es) m"
    "?idx m = Some e" "on_active C c m e" by blast
  obtain p where p: "?idx (prev_hash (header tip)) = Some p" "hd_height (header tip) = Suc (ei_height p)"
    using assms(3) by (auto simp: fits_def)
  from path_height [OF ok(1) m(1,2)] p have "f < hd_height (header tip)" by (auto simp: f(1))
  then have "\<forall>b \<in> set new. f < hd_height (header b)" using path_members [OF ok(1) m(1,2)] by (auto simp: f)
  then show thesis using that m f by (auto simp: on_active_iff)
qed

lemma disconnect_to_fork:
  assumes "chain_ok C c" "f < length (ch_blocks c)" "disconnect_to C f c = (c', Inr old)"
  shows "ch_blocks c' = take (Suc f) (ch_blocks c)" "chain_height c' = f"
proof -
  have ok: "index_ok C (ch_index c) (ch_genesis_hash c)" "active_ok (ch_index c) (ch_genesis_hash c) (ch_head c) (ch_blocks c)"
    using assms(1) by (simp_all add: chain_ok_def)
  note d = disconnect_frame [OF assms(3)]
  have last_take: "last (take (Suc f) (ch_blocks c)) = ch_blocks c ! f" using assms(2) by (simp add: take_Suc_conv_app_nth)
  show blocks: "ch_blocks c' = take (Suc f) (ch_blocks c)"
  proof (rule split_unique [where P = "\<lambda>b. f < hd_height (header b)" and ys = "drop (Suc f) (ch_blocks c)" and vs = "rev old"])
    show "ch_blocks c' @ rev old = take (Suc f) (ch_blocks c) @ drop (Suc f) (ch_blocks c)"
      unfolding d(3) [symmetric] append_take_drop_id ..
    show "\<forall>y \<in> set (drop (Suc f) (ch_blocks c)). f < hd_height (header y)"
      by (auto simp: in_set_conv_nth active_heights [OF ok])
    show "\<not> f < hd_height (header (last (take (Suc f) (ch_blocks c))))"
      unfolding last_take using active_heights [OF ok assms(2)] by simp
    show "\<not> f < hd_height (header (last (ch_blocks c')))" using d(4) by (simp add: chain_height_def chain_head_def)
  qed (use d assms(2) in auto)
  show "chain_height c' = f"
    using last_take active_heights [OF ok assms(2)] by (simp add: chain_height_def chain_head_def blocks)
qed

text \<open>Whatever part of a competing branch was connected, restoring brings the active chain back.\<close>

lemma restore_same:
  assumes "chain_ok C c" "locate_fork C c tip = Some (f, new)" "fits (ch_index c) tip cand"
    and "disconnect_to C f c = (c1, Inr old)" "connect_branch C adopt t new c1 = (c2, out)"
    and "restore_active C f old c2 = (c3, Inr u)"
  shows "same_chain c c3"
proof -
  obtain bs where f: "f < length (ch_blocks c)" and above: "\<forall>b \<in> set new. f < hd_height (header b)"
    using fork_path [OF assms(1-3)] by blast
  note d1 = disconnect_frame [OF assms(4)] and d1f = disconnect_to_fork [OF assms(1) f assms(4)]
  note b = connect_branch_frame(1-3) [OF assms(5)]
  obtain n where n: "ch_blocks c2 = ch_blocks c1 @ take n new" using b(3) by blast
  obtain c4 old' where d2: "disconnect_to C f c2 = (c4, Inr old')" and r: "reconnect_loop C (rev old) c4 = (c3, Inr u)"
    using assms(6) by (auto simp: restore_active_def reconnect_def split: prod.splits sum.splits)
  note d2f = disconnect_frame [OF d2] and rf = reconnect_frame [OF r]
  have "ch_blocks c4 = ch_blocks c1"
  proof (rule split_unique [where P = "\<lambda>b. f < hd_height (header b)" and ys = "take n new" and vs = "rev old'"])
    show "ch_blocks c4 @ rev old' = ch_blocks c1 @ take n new" using d2f(3) n by simp
    show "\<not> f < hd_height (header (last (ch_blocks c4)))" using d2f(4) by (simp add: chain_height_def chain_head_def)
    show "\<not> f < hd_height (header (last (ch_blocks c1)))" using d1(4) by (simp add: chain_height_def chain_head_def)
    show "\<forall>y \<in> set (take n new). f < hd_height (header y)" using above in_set_takeD by fast
  qed (use d1 d2f in auto)
  then have blocks: "ch_blocks c3 = ch_blocks c" using rf d1(3) by simp
  then have "ch_head c3 = ch_head c"
    using rf assms(1) active_last(1) by (fastforce simp: chain_head_def chain_ok_def)
  then show ?thesis using blocks rf d2f(1) b(1) d1(1) by (simp add: same_chain_def)
qed

section \<open>Import keeps the invariant\<close>

lemma sync_frame:
  assumes "sync_difficulty (c, r) = (c', r')" "r' \<noteq> Inl ChainPanic"
  shows "same_chain c c'" "r' = r"
  using assms
  by (auto simp: sync_difficulty_def sync_active_difficulty_def same_chain_def split: sum.splits chain_failure.splits option.splits)

lemma same_chain_trans: "same_chain c d \<Longrightarrow> same_chain d e \<Longrightarrow> same_chain c e"
  by (simp add: same_chain_def)

lemma insert_entry_eq: "insert_entry C b cand c = c\<lparr>ch_index := (ch_index c)(block_hash C b \<mapsto> new_entry C b cand)\<rparr>"
  by (simp add: insert_entry_def new_entry_def)

lemma chain_view_insert:
  "chain_view c' = chain_view c \<Longrightarrow> chain_view (insert_entry C b cand c') = chain_view (insert_entry C b cand c)"
proof -
  assume v: "chain_view c' = chain_view c"
  have "chain_view (insert_entry C b cand x) =
      (chain_view x)\<lparr>ch_index := (ch_index (chain_view x))(block_hash C b \<mapsto> new_entry C b cand)\<rparr>" for x
    by (simp add: insert_entry_eq chain_view_def)
  then show ?thesis using v by simp
qed

lemma adopted_ok:
  assumes "chain_ok C c" "fits (ch_index c) b cand" "ch_index c (block_hash C b) = None"
    and "chain_view c' = chain_view (insert_entry C b cand c)" "ch_head c' = block_hash C b"
    and "active_ok (ch_index c) (ch_genesis_hash c) (prev_hash (header b)) bs" "ch_blocks c' = bs @ [b]"
    and "ch_index c (ch_head c) = Some e"
    and "better (cd_work cand) (block_hash C b) (ei_chain_work e) (ch_head c) \<or> prev_hash (header b) = ch_head c"
  shows "chain_ok C c'"
proof -
  let ?idx = "ch_index c" and ?g = "ch_genesis_hash c" and ?h = "block_hash C b" and ?x = "new_entry C b cand"
  have c': "ch_index c' = ?idx(?h \<mapsto> ?x)" "ch_genesis_hash c' = ?g"
    using chain_view_fields(1,2) [OF assms(4)] by (simp_all add: insert_entry_eq)
  have ok: "index_ok C ?idx ?g" "best_head ?idx (ch_head c)" using assms(1) by (simp_all add: chain_ok_def)
  have grow: "(?idx(?h \<mapsto> ?x)) k = Some y" if "?idx k = Some y" for k y using assms(3) that by auto
  have "index_ok C (?idx(?h \<mapsto> ?x)) ?g" by (rule index_ok_insert [OF ok(1) assms(3) fits_entry [OF assms(2)]])
  moreover have "active_ok (?idx(?h \<mapsto> ?x)) ?g ?h (bs @ [b])"
  proof -
    have "?h \<noteq> ?g" using assms(3) ok(1) by (auto simp: index_ok_def)
    moreover obtain ps e0 where "path (?idx(?h \<mapsto> ?x)) ?g (prev_hash (header b)) ps ?g" "(?idx(?h \<mapsto> ?x)) ?g = Some e0"
      "bs = ei_block e0 # rev ps"
      using active_ok_mono [OF assms(6), of "?idx(?h \<mapsto> ?x)"] grow unfolding active_ok_def by blast
    ultimately show ?thesis unfolding active_ok_def
      by (intro exI [of _ "b # ps"] exI [of _ e0]) (simp add: new_entry_def)
  qed
  moreover have "best_head (?idx(?h \<mapsto> ?x)) ?h"
  proof (rule best_head_new [OF ok(2) assms(8,3)])
    obtain p where p: "?idx (prev_hash (header b)) = Some p"
      "cd_work cand = work_saturating_add (ei_chain_work p) (of_target (cd_target cand))"
      using assms(2) by (auto simp: fits_def)
    show "ei_chain_work ?x \<le> 2 ^ 256 - 1" unfolding new_entry_def index_entry.simps by (rule fits_work [OF assms(2)])
    have "better (cd_work cand) ?h (ei_chain_work e) (ch_head c) \<or> cd_work cand = 2 ^ 256 - 1"
      if "prev_hash (header b) = ch_head c"
      using p that assms(8) of_target_pos [of "cd_target cand"] work_bound
      by (auto simp: better_def work_saturating_add_def saturating_add_def min_def)
    then show "better (ei_chain_work ?x) ?h (ei_chain_work e) (ch_head c) \<or> ei_chain_work ?x = 2 ^ 256 - 1"
      using assms(9) by (auto simp: new_entry_def)
  qed
  moreover have "linkage_ok C c'"
  proof -
    have "ch_blocks c' ! 0 = ch_blocks c ! 0"
      using assms(1,6,7) by (auto simp: chain_ok_def active_ok_def)
    then have "linkage_ok C c' = linkage_ok C c"
      using chain_view_fields [OF assms(4)] by (intro linkage_ok_cong) (simp_all add: insert_entry_eq)
    then show ?thesis using assms(1) by (simp add: chain_ok_def)
  qed
  ultimately show ?thesis unfolding chain_ok_def c' assms(5,7) by blast
qed

lemma stored_ok:
  assumes "chain_ok C c" "fits (ch_index c) b cand" "ch_index c (block_hash C b) = None"
    and "ch_index c (ch_head c) = Some e" "\<not> better (cd_work cand) (block_hash C b) (ei_chain_work e) (ch_head c)"
  shows "chain_ok C (insert_entry C b cand c)"
proof -
  let ?idx = "ch_index c" and ?g = "ch_genesis_hash c" and ?h = "block_hash C b" and ?x = "new_entry C b cand"
  have ok: "index_ok C ?idx ?g" "active_ok ?idx ?g (ch_head c) (ch_blocks c)" "best_head ?idx (ch_head c)"
    using assms(1) by (simp_all add: chain_ok_def)
  have grow: "(?idx(?h \<mapsto> ?x)) k = Some y" if "?idx k = Some y" for k y using assms(3) that by auto
  have "ei_chain_work ?x \<le> 2 ^ 256 - 1"
    unfolding new_entry_def index_entry.simps by (rule fits_work [OF assms(2)])
  from best_head_keep [OF ok(3) assms(4,3) this] assms(5) have "best_head (?idx(?h \<mapsto> ?x)) (ch_head c)"
    by (simp add: new_entry_def)
  then show ?thesis
    using index_ok_insert [OF ok(1) assms(3) fits_entry [OF assms(2)]]
      active_ok_mono [OF ok(2), of "?idx(?h \<mapsto> ?x)"] grow assms(1)
      linkage_ok_cong [of "insert_entry C b cand c" c C]
    by (simp add: chain_ok_def insert_entry_eq)
qed

lemma extend_head_ok:
  assumes "chain_ok C c" "fits (ch_index c) b cand" "ch_index c (block_hash C b) = None"
    and "prev_hash (header b) = ch_head c" "extend_head C b cand c = (c', r)" "r \<noteq> Inl ChainPanic"
  shows "chain_ok C c'"
proof -
  obtain c1 r1 where c1: "connect_to_active C b (cd_target cand) c = (c1, r1)" by fastforce
  note f = connect_frame [OF c1]
  show ?thesis
  proof (cases r1)
    case (Inl e)
    then have "c' = c1" using assms(5) c1 by (simp add: extend_head_def)
    then show ?thesis using f Inl chain_ok_same [OF assms(1), of c1] by (simp add: same_chain_def)
  next
    case (Inr rs)
    let ?d = "(insert_entry C b cand c1)\<lparr>ch_head := block_hash C b\<rparr>"
    obtain c2 where s: "sync_difficulty (?d, Inr \<lparr>im_receipts = rs, im_reverted = []\<rparr>) = (c2, r)"
      "c' = index_block_receipts (cd_height cand) rs c2"
      using assms(5) c1 Inr by (auto simp: extend_head_def map_prod_def split: prod.splits)
    note sf = sync_frame [OF s(1) assms(6)]
    obtain e where e: "ch_index c (ch_head c) = Some e" using assms(1) by (auto simp: chain_ok_def best_head_def)
    show ?thesis
    proof (rule adopted_ok [OF assms(1-3) _ _ _ _ e, where bs = "ch_blocks c"])
      show "chain_view c' = chain_view (insert_entry C b cand c)"
        using sf(1) chain_view_insert [OF f(1)] by (simp add: s(2) same_chain_def)
      show "active_ok (ch_index c) (ch_genesis_hash c) (prev_hash (header b)) (ch_blocks c)"
        using assms(1,4) by (simp add: chain_ok_def)
    qed (use sf(1) f(3) Inr assms(4) in \<open>simp_all add: s(2) same_chain_def insert_entry_eq\<close>)
  qed
qed

lemma disconnect_panics: "disconnect_to C n c = (c', Inl f) \<Longrightarrow> f = ChainPanic"
proof -
  have "disconnect_loop C n c = (c', Inl f) \<Longrightarrow> f = ChainPanic" for c'
  proof (induction C n c rule: disconnect_loop.induct)
    case (1 C n c)
    note run = "1.prems" [unfolded disconnect_loop.simps [of C n c]]
    show ?case
    proof (cases "ch_blocks c = [] \<or> chain_height c \<le> n \<or> ch_undo_ring c = []")
      case False
      then show ?thesis using run "1.IH" by (auto split: prod.splits sum.splits)
    qed (use run in \<open>auto split: if_splits\<close>)
  qed
  then show "disconnect_to C n c = (c', Inl f) \<Longrightarrow> f = ChainPanic"
    by (auto simp: disconnect_to_def split: prod.splits sum.splits)
qed

lemma reconnect_panics: "reconnect_loop C bs c = (c', Inl f) \<Longrightarrow> f = ChainPanic"
  by (induction bs arbitrary: c) (auto split: option.splits prod.splits sum.splits)

lemma restore_panics: "restore_active C n old c = (c', Inl f) \<Longrightarrow> f = ChainPanic"
  by (auto simp: restore_active_def reconnect_def dest: disconnect_panics reconnect_panics split: prod.splits sum.splits)

lemma reorg_cases:
  assumes "try_incremental_reorg C b cand c = (c', r)" "r \<noteq> Some (Inl ChainPanic)"
  obtains (deep) "c' = c" "r = None"
  | (adopt) f new c1 old c2 rs imp where "locate_fork C c b = Some (f, new)" "disconnect_to C f c = (c1, Inr old)"
      "connect_branch C True (cd_target cand) new c1 = (c2, BranchConnected rs)"
      "same_chain ((insert_entry C b cand c2)\<lparr>ch_head := block_hash C b\<rparr>) c'" "r = Some (Inr imp)"
  | (restore) f new c1 old c2 out c3 u where "locate_fork C c b = Some (f, new)" "disconnect_to C f c = (c1, Inr old)"
      "connect_branch C True (cd_target cand) new c1 = (c2, out)" "restore_active C f old c2 = (c3, Inr u)" "same_chain c3 c'"
      "\<And>imp. r \<noteq> Some (Inr imp)"
proof (cases "locate_fork C c b")
  case None
  then show thesis using deep assms(1) by (simp add: try_incremental_reorg_def)
next
  case (Some p)
  then obtain f new where fork: "locate_fork C c b = Some (f, new)" by (cases p) simp
  obtain c1 r1 where d: "disconnect_to C f c = (c1, r1)" by fastforce
  note run = assms(1) [unfolded try_incremental_reorg_def fork option.case prod.case Let_def d]
  show thesis
  proof (cases "chain_height c - f = 0 \<or> length (ch_undo_ring c) < chain_height c - f")
    case True
    then show thesis using deep run by simp
  next
    case False
    then obtain old where old: "r1 = Inr old"
      using run assms(2) disconnect_panics [of C f c c1] d by (cases r1) auto
    obtain c2 out where b: "connect_branch C True (cd_target cand) new c1 = (c2, out)" by fastforce
    obtain c3 r3 where rest: "restore_active C f old c2 = (c3, r3)" by fastforce
    have r3: "r3 = Inl f' \<Longrightarrow> f' = ChainPanic" for f' using restore_panics rest by blast
    note run = run [unfolded if_not_P [OF False] old sum.case b rest prod.case]
    show thesis
    proof (cases out)
      case (BranchConnected rs)
      then obtain r' where s: "sync_difficulty ((insert_entry C b cand c2)\<lparr>ch_head := block_hash C b\<rparr>,
          Inr \<lparr>im_receipts = rs, im_reverted = dropped_txs C old new\<rparr>) = (c', r')" "r = Some r'"
        using run by (auto simp: map_prod_def split: prod.splits)
      then have "r' \<noteq> Inl ChainPanic" using assms(2) by simp
      from sync_frame [OF s(1) this] show thesis using adopt fork d old b BranchConnected s(2) by blast
    next
      case BranchUnindexed
      then have "c' = c3 \<and> r = None \<and> r3 = Inr ()" using run assms(2) r3 by (cases r3) auto
      then show thesis using restore [OF fork _ b] d old rest by (simp add: same_chain_def)
    next
      case (BranchFailed f')
      then obtain x u where x: "f' = Refused x" "r3 = Inr u" using run assms(2) r3 by (cases f'; cases r3) auto
      then obtain r' where s: "sync_difficulty (c3, Inl (Refused x)) = (c', r' :: chain_failure + imported)" "r = Some r'"
        using run BranchFailed by (auto simp: map_prod_def split: prod.splits)
      then have "r' \<noteq> Inl ChainPanic" using assms(2) by simp
      from sync_frame [OF s(1) this] show thesis using restore [OF fork _ b] d old rest x s(2) by simp
    qed
  qed
qed

lemma fork_active:
  assumes "chain_ok C c" "locate_fork C c b = Some (f, new)" "fits (ch_index c) b cand"
    and "disconnect_to C f c = (c1, Inr old)"
  obtains bs where "new = bs @ [b]" "active_ok (ch_index c) (ch_genesis_hash c) (prev_hash (header b)) (ch_blocks c1 @ bs)"
proof -
  obtain ps where p: "new = rev ps @ [b]" "f < length (ch_blocks c)"
    "path (ch_index c) (ch_genesis_hash c) (prev_hash (header b)) ps (block_hash C (ch_blocks c ! f))"
    using fork_path [OF assms(1-3)] by blast
  then show thesis
    using that [of "rev ps"] active_branch [of C "ch_index c" "ch_genesis_hash c" "ch_head c" "ch_blocks c" f] assms(1)
      disconnect_to_fork(1) [OF assms(1) p(2) assms(4)]
    by (simp add: chain_ok_def)
qed

lemma reorg_ok:
  assumes "chain_ok C c" "fits (ch_index c) b cand" "ch_index c (block_hash C b) = None"
    and "ch_index c (ch_head c) = Some e" "better (cd_work cand) (block_hash C b) (ei_chain_work e) (ch_head c)"
    and "try_incremental_reorg C b cand c = (c', r)" "r \<noteq> Some (Inl ChainPanic)"
  shows "chain_ok C c' \<and> (r = None \<longrightarrow> same_chain c c')"
  using assms(6,7)
proof (cases rule: reorg_cases)
  case deep
  then show ?thesis using assms(1) by (simp add: same_chain_def)
next
  case (adopt f new c1 old c2 rs imp)
  obtain bs where bs: "new = bs @ [b]"
    "active_ok (ch_index c) (ch_genesis_hash c) (prev_hash (header b)) (ch_blocks c1 @ bs)"
    using fork_active [OF assms(1) adopt(1) assms(2) adopt(2)] by blast
  have "chain_ok C c'"
  proof (rule adopted_ok [OF assms(1-3) _ _ bs(2) _ assms(4)])
    show "chain_view c' = chain_view (insert_entry C b cand c)"
      using adopt(4) chain_view_insert [of c2 c] connect_branch_frame(1) [OF adopt(3)] disconnect_frame(1) [OF adopt(2)]
      by (simp add: same_chain_def)
    show "ch_blocks c' = (ch_blocks c1 @ bs) @ [b]"
      using adopt(4) connect_branch_frame(4) [OF adopt(3)] bs(1) by (simp add: same_chain_def insert_entry_eq)
  qed (use adopt(4) assms(5) in \<open>simp_all add: same_chain_def\<close>)
  then show ?thesis using adopt(5) by simp
next
  case (restore f new c1 old c2 out c3 u)
  then have "same_chain c c'"
    using restore_same [OF assms(1) restore(1) assms(2) restore(2-4)] same_chain_trans by blast
  then show ?thesis using chain_ok_same [OF assms(1)] by blast
qed

lemma replay_one_blocks: "replay_one C c b t r = Inr r' \<Longrightarrow> rb_blocks r' = rb_blocks r @ [b]"
  by (auto simp: replay_one_def split: prod.splits sum.splits)

lemma replay_ancestors_blocks: "replay_ancestors C c bs r = Inr r' \<Longrightarrow> rb_blocks r' = rb_blocks r @ bs"
  by (induction bs arbitrary: r) (auto simp: ok_or_def dest!: replay_one_blocks split: option.splits)

lemma rebuild_blocks:
  assumes "chain_ok C c" "rebuild_branch C c b cand = Inr r"
  shows "\<exists>bs. rb_blocks r = bs @ [b] \<and> active_ok (ch_index c) (ch_genesis_hash c) (prev_hash (header b)) bs"
proof -
  obtain anc r1 where anc: "branch_ancestors c (walk_fuel c (prev_hash (header b))) (prev_hash (header b)) = Some anc"
    and r1: "replay_ancestors C c (rev anc) \<lparr>rb_ledger = ch_genesis_ledger c, rb_blocks = [ch_blocks c ! 0],
        rb_signals = signal_log_new, rb_tip_receipts = [], rb_receipts = []\<rparr> = Inr r1"
    and r: "replay_one C c b (cd_target cand) r1 = Inr r"
    using assms(2) by (auto simp: rebuild_branch_def ok_or_def split: option.splits)
  have "rb_blocks r1 = ch_blocks c ! 0 # rev anc" using replay_ancestors_blocks [OF r1] by simp
  moreover obtain e where "ch_index c (ch_genesis_hash c) = Some e" "ch_blocks c ! 0 = ei_block e"
    using assms(1) by (auto simp: chain_ok_def active_ok_def)
  ultimately have "active_ok (ch_index c) (ch_genesis_hash c) (prev_hash (header b)) (rb_blocks r1)"
    using ancestors_path [OF anc] by (auto simp: active_ok_def)
  then show ?thesis using replay_one_blocks [OF r] by blast
qed

lemma adopt_rebuilt_ok:
  assumes "chain_ok C c" "fits (ch_index c) b cand" "ch_index c (block_hash C b) = None"
    and "ch_index c (ch_head c) = Some e" "better (cd_work cand) (block_hash C b) (ei_chain_work e) (ch_head c)"
    and "adopt_rebuilt C b cand c = (c', r)" "r \<noteq> Inl ChainPanic"
  shows "chain_ok C c'"
proof (cases "rebuild_branch C c b cand")
  case (Inl f)
  then show ?thesis using assms(1,6) by (simp add: adopt_rebuilt_def)
next
  case (Inr rb)
  let ?d = "(insert_entry C b cand c)\<lparr>ch_ledger := rb_ledger rb, ch_blocks := rb_blocks rb, ch_signals := rb_signals rb,
      ch_head := block_hash C b\<rparr>"
  obtain imp c2 where s: "sync_difficulty (?d, Inr imp) = (c2, r)"
    "c' = (rebuild_receipt_index (rb_receipts rb) c2)\<lparr>ch_undo_ring := []\<rparr>"
    using assms(6) Inr by (auto simp: adopt_rebuilt_def Let_def map_prod_def split: prod.splits)
  note sf = sync_frame [OF s(1) assms(7)]
  obtain bs where bs: "rb_blocks rb = bs @ [b]" "active_ok (ch_index c) (ch_genesis_hash c) (prev_hash (header b)) bs"
    using rebuild_blocks [OF assms(1) Inr] by blast
  show ?thesis
    by (rule adopted_ok [OF assms(1-3) _ _ bs(2) _ assms(4)])
      (use sf(1) bs(1) assms(5) in \<open>simp_all add: s(2) same_chain_def\<close>)
qed

lemma side_branch_same:
  assumes "chain_ok C c" "fits (ch_index c) b cand"
    and "try_incremental_side_branch C b cand c = (c', r)" "r \<noteq> Some (Inl ChainPanic)"
  shows "same_chain c c'"
proof (cases "c' = c")
  case False
  then obtain f new where fork: "locate_fork C c b = Some (f, new)"
    using assms(3) by (auto simp: try_incremental_side_branch_def split: option.splits)
  obtain c1 r1 where d: "disconnect_to C f c = (c1, r1)" by fastforce
  note run = assms(3) [unfolded try_incremental_side_branch_def fork option.case prod.case Let_def d]
  have go: "\<not> (chain_height c - f = 0 \<or> length (ch_undo_ring c) < chain_height c - f)" using run False by auto
  then obtain old where old: "r1 = Inr old"
    using run assms(4) disconnect_panics [of C f c c1] d by (cases r1) auto
  obtain c2 out where b: "connect_branch C False (cd_target cand) new c1 = (c2, out)" by fastforce
  obtain c3 r3 where rest: "restore_active C f old c2 = (c3, r3)" by fastforce
  note run = run [unfolded if_not_P [OF go] old sum.case b rest prod.case]
  have ok: "out \<noteq> BranchFailed ChainPanic" using run assms(4) by auto
  then obtain u where u: "r3 = Inr u"
    using run assms(4) restore_panics [of C f old c2 c3] rest
    by (cases r3) (auto split: branch_outcome.splits chain_failure.splits)
  have "same_chain c3 c'"
  proof (cases out)
    case (BranchConnected rs)
    then obtain r' where "sync_difficulty (c3, Inr ()) = (c', r')" "r' \<noteq> Inl ChainPanic"
      using run u assms(4) by (auto simp: map_prod_def split: prod.splits)
    then show ?thesis by (rule sync_frame)
  next
    case BranchUnindexed
    obtain c4 r4 where s: "sync_difficulty (c3, Inr ()) = (c4, r4)" by fastforce
    then have r4: "c' = c4 \<and> (r4 = Inr () \<or> (\<exists>f. r4 = Inl f \<and> r = Some (Inl f)))"
      using run u BranchUnindexed by (cases r4) auto
    then have "r4 \<noteq> Inl ChainPanic" using assms(4) by auto
    then show ?thesis using sync_frame(1) [OF s] r4 by simp
  next
    case (BranchFailed f')
    then obtain x r' where "sync_difficulty (c3, Inl (Refused x)) = (c', r' :: chain_failure + unit)" "r' \<noteq> Inl ChainPanic"
      using run u assms(4) ok by (cases f') (auto simp: map_prod_def split: prod.splits)
    then show ?thesis by (rule sync_frame)
  qed
  moreover have "same_chain c c3"
    using restore_same [OF assms(1) fork assms(2)] d old b rest u by blast
  ultimately show ?thesis by (rule same_chain_trans [rotated])
qed (simp add: same_chain_def)

lemma import_ok:
  assumes "chain_ok C c" "import_block_tracked C b c = (c', r)" "r \<noteq> Inl ChainPanic"
  shows "chain_ok C c'"
proof (cases "ch_index c (block_hash C b) \<noteq> None \<or> (\<exists>f. validate_candidate C c b = Inl f)")
  case True
  then show ?thesis using assms(1,2) by (auto simp: import_block_tracked_def split: if_splits)
next
  case False
  then obtain cand where fresh: "ch_index c (block_hash C b) = None" and v: "validate_candidate C c b = Inr cand"
    by (cases "validate_candidate C c b") auto
  obtain e where e: "ch_index c (ch_head c) = Some e" using assms(1) by (auto simp: chain_ok_def best_head_def)
  note fit = validated_fits [OF v]
  note run = assms(2) [unfolded import_block_tracked_def, simplified fresh v e, simplified]
  show ?thesis
  proof (cases "prev_hash (header b) = ch_head c")
    case True
    then show ?thesis using extend_head_ok [OF assms(1) fit fresh True _ assms(3)] run by simp
  next
    case side: False
    show ?thesis
    proof (cases "better (cd_work cand) (block_hash C b) (ei_chain_work e) (ch_head c)")
      case win: True
      obtain c1 r1 where t: "try_incremental_reorg C b cand c = (c1, r1)" by fastforce
      then have run: "(case r1 of Some r \<Rightarrow> (c1, r) | None \<Rightarrow> adopt_rebuilt C b cand c1) = (c', r)"
        using run side win by (auto simp: better_def)
      then have "r1 \<noteq> Some (Inl ChainPanic)" using assms(3) by auto
      note ro = reorg_ok [OF assms(1) fit fresh e win t this]
      show ?thesis
      proof (cases r1)
        case None
        then have c1: "chain_ok C c1" "ch_index c1 = ch_index c" "ch_head c1 = ch_head c"
          using ro chain_view_fields(1) [of c1 c] by (simp_all add: same_chain_def)
        show ?thesis
          using adopt_rebuilt_ok [OF c1(1), of b cand e c' r] fit fresh e win run None assms(3) by (simp add: c1)
      qed (use ro run in simp)
    next
      case lose: False
      then have run: "store_side_branch C b cand c = (c', r)" using run side by (auto simp: better_def)
      obtain c1 r1 where t: "try_incremental_side_branch C b cand c = (c1, r1)" by fastforce
      have "r1 \<noteq> Some (Inl ChainPanic)" using run t assms(3) by (auto simp: store_side_branch_def)
      note same = side_branch_same [OF assms(1) fit t this]
      then have c1: "chain_ok C c1" "ch_index c1 = ch_index c" "ch_head c1 = ch_head c"
        using chain_ok_same [OF assms(1)] chain_view_fields(1) [of c1 c] by (simp_all add: same_chain_def)
      have "c' = c1 \<or> c' = insert_entry C b cand c1"
        using run t by (auto simp: store_side_branch_def split: option.splits sum.splits)
      then show ?thesis using c1 stored_ok [OF c1(1), of b cand e] fit fresh e lose by auto
    qed
  qed
qed

end
