(* ===== verification/Reachable.thy ===== *)
theory Reachable
  imports ForkChoice
begin

text \<open>
  The chains a node can reach.  \<open>reachable\<close> is the transition system of the chain manager: creation
  from a genesis configuration, imports, checkpoint linkage and configuration, in any order.  Its
  invariant gives the properties of fork choice, of the walks along parent links and of the seal
  skip.
\<close>

section \<open>Reachable chains\<close>

text \<open>A chain manager after any history: created from a configuration, then driven by imports that do
  not panic, by the linkage operations and by the setters.\<close>

inductive reachable :: "'a chain_env_scheme \<Rightarrow> genesis_config \<Rightarrow> blockchain \<Rightarrow> bool" for C cfg where
  start: "chain_new C cfg = Inr c \<Longrightarrow> reachable C cfg c"
| receive: "reachable C cfg c \<Longrightarrow> import_block_tracked C b c = (c', r) \<Longrightarrow> r \<noteq> Inl ChainPanic \<Longrightarrow> reachable C cfg c'"
| pins: "reachable C cfg c \<Longrightarrow> reachable C cfg (set_checkpoints ps c)"
| more_pins: "reachable C cfg c \<Longrightarrow> reachable C cfg (add_checkpoints C ps c)"
| install: "reachable C cfg c \<Longrightarrow> reachable C cfg (fst (install_checkpoint_linkage C hs c))"
| extend: "reachable C cfg c \<Longrightarrow> reachable C cfg (fst (extend_checkpoint_linkage C hs c))"
| adopt: "reachable C cfg c \<Longrightarrow> reachable C cfg (fst (adopt_local_finalized_checkpoint C n c))"
| mask: "reachable C cfg c \<Longrightarrow> reachable C cfg (set_signal_mask m c)"
| coinbase: "reachable C cfg c \<Longrightarrow> reachable C cfg (set_coinbase i c)"
| pq: "reachable C cfg c \<Longrightarrow> reachable C cfg (set_pq_deployment pd c)"
| tx_domain: "reachable C cfg c \<Longrightarrow> reachable C cfg (set_tx_domain_deployment d c)"
| grace: "reachable C cfg c \<Longrightarrow> reachable C cfg (set_tx_domain_grace_blocks n c)"
| fee_auction: "reachable C cfg c \<Longrightarrow> reachable C cfg (set_fee_auction_deployment d c)"
| pool_v2: "reachable C cfg c \<Longrightarrow> reachable C cfg (set_shielded_v2_deployment d c)"
| suite2: "reachable C cfg c \<Longrightarrow> reachable C cfg (set_suite2_deployment d c)"
| recovery: "reachable C cfg c \<Longrightarrow> reachable C cfg (set_suite2_recovery_deployment d c)"
| timestamps: "reachable C cfg c \<Longrightarrow> reachable C cfg (set_tx_timestamp_deployment d c)"

definition core_view where
  "core_view c = (ch_index c, ch_genesis_hash c, ch_head c, ch_blocks c)"

lemma chain_ok_core:
  "chain_ok C c \<Longrightarrow> core_view c' = core_view c \<Longrightarrow> linkage_ok C c' \<Longrightarrow> chain_ok C c'"
  by (simp add: chain_ok_def core_view_def)

lemma setters_keep:
  assumes "chain_ok C c"
  shows "chain_ok C (set_signal_mask m c)" "chain_ok C (set_coinbase i c)" "chain_ok C (set_pq_deployment pd c)"
    "chain_ok C (set_tx_domain_deployment d c)" "chain_ok C (set_tx_domain_grace_blocks n c)"
    "chain_ok C (set_fee_auction_deployment d c)" "chain_ok C (set_shielded_v2_deployment d c)"
    "chain_ok C (set_suite2_deployment d c)" "chain_ok C (set_suite2_recovery_deployment d c)"
    "chain_ok C (set_tx_timestamp_deployment d c)"
  using assms
  by (auto simp: setter_defs chain_ok_def linkage_ok_def Let_def newest_checkpoint_def newest_checkpoint_height_def)

lemma linkage_core:
  "core_view (set_checkpoints ps c) = core_view c" "core_view (fst (install_checkpoint_linkage C hs c)) = core_view c"
  "core_view (add_checkpoints C ps c) = core_view c" "core_view (fst (extend_checkpoint_linkage C hs c)) = core_view c"
  "core_view (fst (adopt_local_finalized_checkpoint C n c)) = core_view c"
proof -
  have install: "core_view (fst (install_checkpoint_linkage C hs c)) = core_view c" for hs c
    by (auto simp: install_checkpoint_linkage_def core_view_def split: option.split list.split sum.split prod.split)
  then have install': "install_checkpoint_linkage C hs c = (c', r) \<Longrightarrow> core_view c' = core_view c" for hs c c' r
    by (metis fst_conv)
  have relink: "core_view (fst (relink_checkpoint_from_local C c)) = core_view c" for c
    using install by (auto simp: relink_checkpoint_from_local_def Let_def split: prod.split sum.split dest!: install')
  then have add: "core_view (add_checkpoints C ps c) = core_view c" for ps c
    by (simp add: add_checkpoints_def) (simp add: core_view_def)
  have stream: "core_view (fst (stream_headers C newest pinned hs c)) = core_view c" for newest pinned hs c
    by (induction hs arbitrary: c)
      (auto simp: Let_def core_view_def reset_linkage_progress_def install_pending_def split: option.split)
  show "core_view (fst (install_checkpoint_linkage C hs c)) = core_view c" "core_view (add_checkpoints C ps c) = core_view c"
    by (rule install, rule add)
  show "core_view (set_checkpoints ps c) = core_view c"
    by (simp add: set_checkpoints_def core_view_def reset_linkage_progress_def)
  show "core_view (fst (extend_checkpoint_linkage C hs c)) = core_view c"
    using stream by (auto simp: extend_checkpoint_linkage_def Let_def reset_linkage_progress_def install_pending_def
        split: option.split) (auto simp: core_view_def)
  show "core_view (fst (adopt_local_finalized_checkpoint C n c)) = core_view c"
    using add by (auto simp: adopt_local_finalized_checkpoint_def split: option.split)
qed

lemma chain_new_ok: "chain_new C cfg = Inr c \<Longrightarrow> chain_ok C c"
proof -
  assume new: "chain_new C cfg = Inr c"
  then obtain g t where g: "genesis_build C cfg = Inr g" and t: "canonical_target (sha256d_target (gc_mining cfg)) = Some t"
    and fields: "ch_index c = [block_hash C (g_block g) \<mapsto> \<lparr>ei_block = g_block g, ei_sha_target = t,
        ei_chain_work = work_saturating_add 0 (of_target t), ei_height = 0, ei_size = serialized_size C (g_block g)\<rparr>]"
      "ch_genesis_hash c = block_hash C (g_block g)" "ch_head c = block_hash C (g_block g)" "ch_blocks c = [g_block g]"
      "ch_linked c = {}" "ch_linkage_prev c = None" "ch_linkage_pending c = []"
    by (auto simp: chain_new_def Let_def split: sum.splits option.splits)
  let ?b = "g_block g"
  have "hd_height (header ?b) = 0" using genesis_facts [OF g] by (simp add: is_genesis_def)
  then have "index_ok C (ch_index c) (block_hash C ?b)" by (simp add: fields index_ok_def entry_ok_def)
  moreover have "active_ok (ch_index c) (block_hash C ?b) (block_hash C ?b) [?b]" by (simp add: fields active_ok_def)
  moreover have "best_head (ch_index c) (block_hash C ?b)" unfolding best_head_def fields(1) by simp
  moreover have "linkage_ok C c" by (simp add: linkage_ok_def fields progress_ok_def)
  ultimately show ?thesis by (simp add: chain_ok_def fields(2-4))
qed

lemma chain_ok_parts: "chain_ok C c \<Longrightarrow> linkage_ok C c" "chain_ok C c \<Longrightarrow> ch_blocks c \<noteq> []"
  by (auto simp: chain_ok_def active_ok_def)

lemma reachable_ok: "reachable C cfg c \<Longrightarrow> chain_ok C c"
proof (induction rule: reachable.induct)
  case (start c)
  then show ?case by (rule chain_new_ok)
next
  case (receive c b c' r)
  from import_ok [OF receive.IH receive.hyps(2,3)] show ?case .
next
  case (pins c ps)
  from chain_ok_core [OF pins.IH linkage_core(1) set_checkpoints_linkage_ok] show ?case .
next
  case (more_pins c ps)
  note p = chain_ok_parts [OF more_pins.IH]
  from chain_ok_core [OF more_pins.IH linkage_core(3) add_checkpoints_linkage_ok [OF p]] show ?case .
next
  case (install c hs)
  note p = chain_ok_parts [OF install.IH]
  from chain_ok_core [OF install.IH linkage_core(2) install_linkage_ok [OF p prod.collapse [symmetric]]] show ?case .
next
  case (extend c hs)
  note p = chain_ok_parts [OF extend.IH]
  from chain_ok_core [OF extend.IH linkage_core(4) extend_linkage_ok [OF p prod.collapse [symmetric]]] show ?case .
next
  case (adopt c n)
  note p = chain_ok_parts [OF adopt.IH]
  from chain_ok_core [OF adopt.IH linkage_core(5) adopt_linkage_ok [OF p prod.collapse [symmetric]]] show ?case .
qed (simp_all add: setters_keep)

end
