(* ===== verification/Accept.thy ===== *)
theory Accept
  imports Reachable
begin

text \<open>
  Producer and importer agree.  The required target is always defined and lies on the compact grid;
  the block a producer builds and seals on its own chain stays within the size and weight limits,
  carries only valid signatures, commits to the roots the importer recomputes, and is accepted.
\<close>

section \<open>The required target is defined\<close>

lemma window_total:
  assumes "index_ok C idx g"
  shows "idx h = Some e \<Longrightarrow> n \<le> ei_height e \<Longrightarrow> \<exists>es before. window_entries idx n e = Some (es, before) \<and> length es = n"
proof (induction n arbitrary: h e)
  case (Suc n)
  with index_okD [OF assms Suc.prems(1)] obtain p where
    p: "idx (prev_hash (header (ei_block e))) = Some p" "ei_height e = Suc (ei_height p)"
    by (auto simp: entry_ok_def split: if_splits)
  then obtain es before where "window_entries idx n p = Some (es, before)" "length es = n" using Suc.IH [OF p(1)] Suc.prems by auto
  then show ?case using p by simp
qed simp

lemma length_solve_times [simp]: "length (solve_times ts es) = length es"
  by (induction ts es rule: solve_times.induct) (auto simp: Let_def)

lemma from_target_less: "from_target t < 2 ^ 128"
  by (simp add: from_target_def Let_def U128_MAX_def min_less_iff_disj)

definition on_grid :: "target \<Rightarrow> bool" where
  "on_grid t \<longleftrightarrow> length t = 32 \<and> from_compact (to_compact t) = Some t"

lemma canonical_on_grid: "length t = 32 \<Longrightarrow> \<exists>t'. canonical_target t = Some t' \<and> on_grid t'"
  using compact_facts [of t] by (auto simp: canonical_target_def on_grid_def)

lemma to_compact_less:
  assumes "length t = 32"
  shows "to_compact t < 2 ^ 32"
proof (cases "first_nonzero t")
  case None
  then show ?thesis by (simp add: to_compact_def)
next
  case (Some f)
  then have "f < 32" using assms by (simp add: first_nonzero_Some)
  then show ?thesis
    using to_compact_value [OF Some] lead_less [of t f] lead_less [of t "f + 1"] lead_less [of t "f + 2"] by auto
qed

lemma to_target_on_grid: "\<exists>t'. canonical_target (to_target D) = Some t' \<and> on_grid t'"
  by (rule canonical_on_grid) (simp add: to_target_def)

lemma base_target_total:
  assumes "index_ok C (ch_index c) g" "ch_index c h = Some e"
    and "length (sha256d_target (ch_mining c)) = 32" "target_block_ms (ch_mining c) < 2 ^ 64"
  shows "\<exists>t. base_target c e = Some t \<and> on_grid t"
proof (cases "ei_height e + 1 \<le> DIFFICULTY_WINDOW")
  case True
  then show ?thesis using canonical_on_grid [OF assms(3)] by (simp add: base_target_def)
next
  case False
  then have "DIFFICULTY_WINDOW \<le> ei_height e" by simp
  from window_total [OF assms(1,2) this] obtain es before where
    w: "window_entries (ch_index c) DIFFICULTY_WINDOW e = Some (es, before)" "length es = DIFFICULTY_WINDOW" by blast
  let ?diffs = "map (\<lambda>e. from_target (ei_sha_target e)) (rev es)"
  let ?solves = "solve_times (timestamp_ms (header (ei_block before))) (rev es)"
  have "?diffs \<noteq> []" "length ?solves = length ?diffs" "length ?diffs < 2 ^ 32"
    using w(2) by (auto simp: DIFFICULTY_WINDOW_def)
  moreover have "d < 2 ^ 128" if "d \<in> set ?diffs" for d using that from_target_less by auto
  ultimately obtain D where "lwma ?diffs ?solves (target_block_ms (ch_mining c)) = Some D"
    using lwma_step [of ?diffs ?solves "target_block_ms (ch_mining c)"] assms(4) by blast
  then show ?thesis using False w(1) to_target_on_grid [of D] by (simp add: base_target_def Let_def)
qed

lemma expected_target_total:
  assumes "index_ok C (ch_index c) g" "ch_index c h = Some e"
    and "length (sha256d_target (ch_mining c)) = 32" "target_block_ms (ch_mining c) < 2 ^ 64"
  shows "\<exists>t. expected_target c e ts = Some t \<and> on_grid t"
  using base_target_total [OF assms] to_target_on_grid by (fastforce simp: expected_target_def Let_def)

section \<open>Selection under the limits\<close>

definition tx_bytes :: "'a chain_env_scheme \<Rightarrow> signed_transaction list \<Rightarrow> nat" where
  "tx_bytes C stxs = sum_list (map (stx_serialized_size C) stxs)"

definition tx_checks :: "signed_transaction list \<Rightarrow> nat" where
  "tx_checks stxs = sum_list (map (\<lambda>stx. verify_weight (tx_action (stx_transaction stx))) stxs)"

lemma below_saturated: "saturating_add 64 a b \<le> m \<Longrightarrow> m < 2 ^ 64 - 1 \<Longrightarrow> a + b \<le> m \<and> saturating_add 64 a b = a + b"
  unfolding saturating_add_def by (simp add: min_def split: if_splits)

lemma block_size_limit_bounds: "BLOCK_SIZE_FLOOR \<le> block_size_limit C c e" "block_size_limit C c e \<le> BLOCK_SIZE_CEILING"
  by (auto simp: block_size_limit_def elastic_block_cap_def Let_def BLOCK_SIZE_FLOOR_def BLOCK_SIZE_CEILING_def SUITE2_SIZE_FLOOR_def)

text \<open>The invariant of the selection loop: what was included fits and runs on the probe.\<close>

definition selected :: "'a chain_env_scheme \<Rightarrow> block_context \<Rightarrow> nat \<Rightarrow> nat \<Rightarrow> selection \<Rightarrow> bool" where
  "selected C ctx base tx_budget s \<longleftrightarrow> sl_size s = tx_bytes C (sl_included s) \<and> sl_size s \<le> tx_budget
     \<and> sl_weight s = base + tx_bytes C (sl_included s) + tx_checks (sl_included s) \<and> sl_weight s \<le> MAX_BLOCK_WEIGHT
     \<and> list_all (\<lambda>stx. verify_signature_mode C stx (bc_tx_domain ctx)) (sl_included s)"

lemma admitted_signature: "apply_transaction C ctx stx l = (l', Inr r) \<Longrightarrow> verify_signature_mode C stx (bc_tx_domain ctx)"
  by (auto simp: apply_transaction_def admit_def Let_def and_then_def ensure_def split: sum.splits if_splits)

lemma select_one_selected:
  assumes "selected C ctx base tx_budget s" "tx_budget \<le> BLOCK_SIZE_CEILING" "select_one C ctx tx_budget stx s = Inr s'"
  shows "selected C ctx base tx_budget s' \<and> (sl_included s' = sl_included s \<or> sl_included s' = sl_included s @ [stx])"
proof (cases "sl_included s' = sl_included s")
  case True
  then have "sl_size s' = sl_size s \<and> sl_weight s' = sl_weight s"
    using assms(3) by (auto simp: select_one_def Let_def split: if_splits prod.splits sum.splits failure.splits)
  then show ?thesis using assms(1) True by (simp add: selected_def)
next
  case False
  let ?sz = "stx_serialized_size C stx" and ?w = "verify_weight (tx_action (stx_transaction stx))"
  from False obtain l r where run: "apply_transaction C ctx stx (sl_probe s) = (l, Inr r)"
    and size: "saturating_add 64 (sl_size s) ?sz \<le> tx_budget"
    and weight: "saturating_add 64 (sl_weight s) (saturating_add 64 ?w ?sz) \<le> MAX_BLOCK_WEIGHT"
    and s': "s' = s\<lparr>sl_probe := l, sl_size := saturating_add 64 (sl_size s) ?sz,
        sl_weight := saturating_add 64 (sl_weight s) (saturating_add 64 ?w ?sz), sl_included := sl_included s @ [stx]\<rparr>"
    using assms(3) by (auto simp: select_one_def Let_def split: if_splits prod.splits sum.splits failure.splits)
  have limits: "BLOCK_SIZE_CEILING < 2 ^ 64 - 1" "MAX_BLOCK_WEIGHT < 2 ^ 64 - 1"
    by (simp_all add: BLOCK_SIZE_CEILING_def MAX_BLOCK_WEIGHT_def)
  have 1: "sl_size s + ?sz \<le> tx_budget \<and> saturating_add 64 (sl_size s) ?sz = sl_size s + ?sz"
    using below_saturated [OF size] assms(2) limits(1) by linarith
  have 2: "sl_weight s + saturating_add 64 ?w ?sz \<le> MAX_BLOCK_WEIGHT
      \<and> saturating_add 64 (sl_weight s) (saturating_add 64 ?w ?sz) = sl_weight s + saturating_add 64 ?w ?sz"
    using below_saturated [OF weight limits(2)] .
  then have "saturating_add 64 ?w ?sz \<le> MAX_BLOCK_WEIGHT" by simp
  from below_saturated [OF this limits(2)] have 3: "saturating_add 64 ?w ?sz = ?w + ?sz" by simp
  show ?thesis
    using assms(1) 1 2 3 admitted_signature [OF run] by (simp add: s' selected_def tx_bytes_def tx_checks_def)
qed

lemma select_all_selected:
  assumes "selected C ctx base tx_budget s" "tx_budget \<le> BLOCK_SIZE_CEILING" "select_all C ctx tx_budget stxs s = Inr s'"
  shows "selected C ctx base tx_budget s' \<and> set (sl_included s') \<subseteq> set (sl_included s) \<union> set stxs"
  using assms(1,3)
proof (induction stxs arbitrary: s)
  case (Cons stx stxs)
  then obtain s1 where s1: "select_one C ctx tx_budget stx s = Inr s1" "select_all C ctx tx_budget stxs s1 = Inr s'" by auto
  note one = select_one_selected [OF Cons.prems(1) assms(2) s1(1)]
  from Cons.IH [OF _ s1(2)] one show ?case by auto
qed simp

section \<open>Sealing\<close>

lemma grind_seals:
  "grind C m n k = (m', Some b) \<Longrightarrow> \<exists>j < n + k. b = with_nonce (mc_block m) j \<and> is_met_by (mc_target m) (mc_seal C m (header b))"
proof (induction k arbitrary: m n)
  case (Suc k)
  have seal: "mc_seal C (m\<lparr>mc_block := x\<rparr>) h = mc_seal C m h" for x h by (simp add: mc_seal_def)
  have again: "with_nonce (with_nonce x i) j = with_nonce x j" for x i j by (simp add: with_nonce_def)
  show ?case
  proof (cases "is_met_by (mc_target m) (mc_seal C m (header (with_nonce (mc_block m) n)))")
    case True
    then show ?thesis using Suc.prems by (intro exI [of _ n]) (auto simp: Let_def seal)
  next
    case False
    then show ?thesis
      using Suc.prems Suc.IH [of "m\<lparr>mc_block := with_nonce (mc_block m) n\<rparr>" "Suc n"] by (auto simp: Let_def seal again)
  qed
qed simp

lemma sealed_block:
  assumes "into_sealed_block C m = Inr b"
  obtains j where "b = with_nonce (mc_block m) j" "is_met_by (mc_target m) (mc_seal C m (header b))" "j < 2 ^ 32"
proof -
  obtain m' where "grind C m 0 MAX_MINING_ITERS = (m', Some b)"
    using assms by (cases "grind C m 0 MAX_MINING_ITERS") (auto simp: into_sealed_block_def ok_or_def split: option.splits)
  from grind_seals [OF this] show thesis using that by (auto simp: MAX_MINING_ITERS_def)
qed

section \<open>Execution agrees\<close>

lemma erase_run_block: "run_block C ctx stxs (erase l) = map_prod erase id (run_block C ctx stxs l)"
  unfolding run_block_def apply_transactions_def
  by (cases "apply_coinbase C ctx l")
    (auto simp: erase_coinbase erase_transactions split: sum.split prod.split)

lemma run_block_journal:
  assumes "run_block C ctx stxs l = (l1, r)"
  obtains l2 where "run_block C ctx stxs (begin_undo l) = (l2, r)" "erase l2 = erase l1"
proof -
  obtain l2 r2 where 2: "run_block C ctx stxs (begin_undo l) = (l2, r2)" by fastforce
  have "map_prod erase id (l2, r2) = map_prod erase id (l1, r)"
    using erase_run_block [of C ctx stxs "begin_undo l"] erase_run_block [of C ctx stxs l] 2 assms by simp
  then show thesis using that 2 by simp
qed

lemma erase_checker:
  "check_ledger (erase l) m = check_ledger l m" "check_transition_pre pre (erase l) = check_transition_pre pre l"
proof -
  have "check_tokens_pre ts (erase l) = check_tokens_pre ts l" for ts
    by (induction ts l rule: check_tokens_pre.induct) (auto split: option.split)
  then show "check_transition_pre pre (erase l) = check_transition_pre pre l" by (simp add: check_transition_pre_def)
  have "check_anchors ps ws (erase l) = check_anchors ps ws l" for ps ws
    by (induction ps ws l rule: check_anchors.induct) auto
  then show "check_ledger (erase l) m = check_ledger l m" by (simp add: check_ledger_def check_token_conservation_def cong: list.case_cong)
qed

lemma checker_erased:
  assumes "erase l2 = erase l1"
  shows "check_ledger l2 m = check_ledger l1 m" "check_transition_pre pre l2 = check_transition_pre pre l1"
    "state_root l2 = state_root l1"
proof -
  show "check_ledger l2 m = check_ledger l1 m" "check_transition_pre pre l2 = check_transition_pre pre l1"
    using erase_checker assms by metis+
  show "state_root l2 = state_root l1" using erase_reads(4) [of l1] erase_reads(4) [of l2] assms by simp
qed

section \<open>Mined blocks\<close>

definition head_context :: "'a crypto_scheme \<Rightarrow> blockchain \<Rightarrow> target \<Rightarrow> account_id \<Rightarrow> nat \<Rightarrow> block_context" where
  "head_context C c t miner time_ms =
     block_ctx c (ch_signals c) (chain_height c + 1) (block_hash C (chain_head c)) (policy_with c t) miner time_ms"

lemma built:
  assumes "build_candidate_for C c txs time_ms miner = Inr (m, ex)"
  obtains e t probe reward s l rs where "ch_index c (ch_head c) = Some e" "expected_target c e time_ms = Some t"
    "apply_coinbase C (head_context C c t miner time_ms) (ch_ledger c) = (probe, Inr reward)"
    "select_all C (head_context C c t miner time_ms) (block_size_limit C c e - BLOCK_HEADER_SIZE_RESERVE) txs
       \<lparr>sl_probe = probe, sl_size = 0, sl_weight = serialized_size C (assemble C (chain_height c + 1)
          (block_hash C (chain_head c)) HASH_ZERO HASH_ZERO time_ms miner []), sl_included = [], sl_excluded = []\<rparr> = Inr s"
    "run_block C (head_context C c t miner time_ms) (sl_included s) (ch_ledger c) = (l, Inr rs)"
    "mc_block m = (let b = assemble C (chain_height c + 1) (block_hash C (chain_head c)) (state_root l) (receipts_root C rs)
        time_ms miner (sl_included s) in b\<lparr>header := (header b)\<lparr>version_bits := ch_signal_mask c, bits := to_compact t\<rparr>\<rparr>)"
    "mc_target m = t" "mc_algo m = pow_algo (ch_mining c)" "mc_key m = ch_genesis_hash c"
proof -
  obtain e t where e: "ch_index c (ch_head c) = Some e" and t: "expected_target c e time_ms = Some t"
    using assms by (auto simp: build_candidate_for_def ok_or_def split: option.splits)
  note run = assms [unfolded build_candidate_for_def e ok_or_def option.case and_then_simps t Let_def, folded head_context_def]
  obtain probe reward where p: "apply_coinbase C (head_context C c t miner time_ms) (ch_ledger c) = (probe, Inr reward)"
    using run by (auto split: prod.splits sum.splits)
  note run = run [unfolded p prod.case sum.case and_then_Inr]
  then obtain s where sel: "select_all C (head_context C c t miner time_ms) (block_size_limit C c e - BLOCK_HEADER_SIZE_RESERVE) txs
       \<lparr>sl_probe = probe, sl_size = 0, sl_weight = serialized_size C (assemble C (chain_height c + 1)
          (block_hash C (chain_head c)) HASH_ZERO HASH_ZERO time_ms miner []), sl_included = [], sl_excluded = []\<rparr> = Inr s"
    and run: "(case run_block C (head_context C c t miner time_ms) (sl_included s) (ch_ledger c) of
        (_, Inl f) \<Rightarrow> Inl (chain_failure_of f)
      | (l, Inr rs) \<Rightarrow> Inr (\<lparr>mc_block = (assemble C (chain_height c + 1) (block_hash C (chain_head c)) (state_root l)
            (receipts_root C rs) time_ms miner (sl_included s))\<lparr>header := (header (assemble C (chain_height c + 1)
              (block_hash C (chain_head c)) (state_root l) (receipts_root C rs) time_ms miner (sl_included s)))
              \<lparr>version_bits := ch_signal_mask c, bits := to_compact t\<rparr>\<rparr>,
          mc_target = sha256d_target (policy_with c t), mc_algo = pow_algo (ch_mining c), mc_key = ch_genesis_hash c\<rparr>,
          sl_excluded s)) = Inr (m, ex)" by blast
  obtain l rs where l: "run_block C (head_context C c t miner time_ms) (sl_included s) (ch_ledger c) = (l, Inr rs)"
    using run by (auto split: prod.splits sum.splits)
  note run = run [unfolded l prod.case sum.case]
  show thesis
    by (rule that [OF e t p sel l]) (use run in \<open>auto simp: Let_def policy_with_def\<close>)
qed

text \<open>The ledger of a node that keeps the invariants: what the checker reads, exact escrow counters, and
  room for the whole emission.\<close>

definition ledger_ready :: "blockchain \<Rightarrow> bool" where
  "ledger_ready c \<longleftrightarrow> books (ch_ledger c) \<and> check_ledger (ch_ledger c) (ch_mining c) = Inr () \<and> counters_fit (ch_ledger c)
     \<and> (\<exists>premine. native_supply (ch_ledger c) = premine + mined_emitted (ch_ledger c)
          \<and> premine + mining_budget_grains (ch_mining c) \<le> MAX_SUPPLY_GRAINS)"

lemma check_ledger_policy [simp]: "check_ledger l (policy_with c t) = check_ledger l (ch_mining c)"
  by (simp add: check_ledger_def policy_with_def)

lemma budget_policy [simp]: "mining_budget_grains (policy_with c t) = mining_budget_grains (ch_mining c)"
  by (simp add: policy_with_def)

lemma ready_block_passes:
  assumes "ledger_ready c" "list_all (\<lambda>stx. proposal_free (tx_action (stx_transaction stx))) stxs"
    and "run_block C ctx stxs (ch_ledger c) = (l, Inr rs)" "bc_mining ctx = policy_with c t"
  shows "check_transition (ch_ledger c) l = Inr ()" "check_ledger l (ch_mining c) = Inr ()"
proof -
  obtain premine where "native_supply (ch_ledger c) = premine + mined_emitted (ch_ledger c)"
    "premine + mining_budget_grains (ch_mining c) \<le> MAX_SUPPLY_GRAINS" using assms(1) by (auto simp: ledger_ready_def)
  then have "check_transition (ch_ledger c) l = Inr () \<and> check_ledger l (bc_mining ctx) = Inr ()"
    using checked_block [of "ch_ledger c" ctx premine stxs C l rs] assms by (simp add: ledger_ready_def)
  then show "check_transition (ch_ledger c) l = Inr ()" "check_ledger l (ch_mining c) = Inr ()"
    by (simp_all add: assms(4))
qed

lemma head_entry:
  assumes "chain_ok C c"
  obtains e where "ch_index c (ch_head c) = Some e" "ei_block e = chain_head c" "ei_height e = chain_height c"
    "ch_head c = block_hash C (chain_head c)"
proof -
  have ok: "index_ok C (ch_index c) (ch_genesis_hash c)" "active_ok (ch_index c) (ch_genesis_hash c) (ch_head c) (ch_blocks c)"
    using assms by (simp_all add: chain_ok_def)
  note l = active_last [OF ok]
  then have i: "length (ch_blocks c) - 1 < length (ch_blocks c)" by simp
  from active_split(3) [OF ok i] l show thesis
    using that by (auto simp: chain_head_def chain_height_def last_conv_nth)
qed

lemma mode_at_head:
  "prev_hash (header b) = ch_head c \<Longrightarrow> branch_tx_domain_mode C c b
     = resolved_tx_domain_mode_with c (hd_height (header b)) (ch_signals c)"
  by (auto simp: branch_tx_domain_mode_def resolved_tx_domain_mode_with_def tx_domain_activation_with_def)

lemma weight_sum: "transactions b = stxs \<Longrightarrow> block_weight C b \<le> serialized_size C b + tx_checks stxs"
  unfolding block_weight_def saturating_fold tx_checks_def by auto

definition mined_on ::
  "'a chain_env_scheme \<Rightarrow> blockchain \<Rightarrow> signed_transaction list \<Rightarrow> nat \<Rightarrow> account_id \<Rightarrow> block \<Rightarrow> bool" where
  "mined_on C c txs time_ms miner b \<longleftrightarrow>
     (\<exists>m ex. build_candidate_for C c txs time_ms miner = Inr (m, ex) \<and> into_sealed_block C m = Inr b)"

text \<open>The sizes the types of the source guarantee, and a clock that has moved past the branch.\<close>

definition timely :: "blockchain \<Rightarrow> nat \<Rightarrow> bool" where
  "timely c time_ms \<longleftrightarrow> timestamp_ms (header (chain_head c)) \<le> time_ms
     \<and> (\<forall>e. ch_index c (ch_head c) = Some e \<longrightarrow> median_time_past_of c e < time_ms)"

lemma mined_validates:
  assumes "chain_ok C c" "mined_on C c txs time_ms miner b" "well_sized (header b)" "timely c time_ms"
    and "\<And>bs. length (blake3 C bs) = 32" "bt_get (ch_checkpoints c) (chain_height c + 1) = None"
  obtains cand l rs where "validate_candidate C c b = Inr cand" "prev_hash (header b) = ch_head c" "cd_height cand = chain_height c + 1"
    "run_block C (head_context C c (cd_target cand) miner time_ms) (transactions b) (ch_ledger c) = (l, Inr rs)"
    "hd_state_root (header b) = state_root l" "hd_receipts_root (header b) = receipts_root C rs"
    "hd_height (header b) = chain_height c + 1" "proposer (header b) = miner" "timestamp_ms (header b) = time_ms"
    "set (transactions b) \<subseteq> set txs"
proof -
  obtain m ex where build: "build_candidate_for C c txs time_ms miner = Inr (m, ex)" and seal: "into_sealed_block C m = Inr b"
    using assms(2) by (auto simp: mined_on_def)
  obtain e where e: "ch_index c (ch_head c) = Some e" "ei_block e = chain_head c" "ei_height e = chain_height c"
    "ch_head c = block_hash C (chain_head c)" using head_entry [OF assms(1)] .
  obtain t probe s l rs where t: "expected_target c e time_ms = Some t"
    and sel: "select_all C (head_context C c t miner time_ms) (block_size_limit C c e - BLOCK_HEADER_SIZE_RESERVE) txs
       \<lparr>sl_probe = probe, sl_size = 0, sl_weight = serialized_size C (assemble C (chain_height c + 1)
          (block_hash C (chain_head c)) HASH_ZERO HASH_ZERO time_ms miner []), sl_included = [], sl_excluded = []\<rparr> = Inr s"
    and run: "run_block C (head_context C c t miner time_ms) (sl_included s) (ch_ledger c) = (l, Inr rs)"
    and mb: "mc_block m = (let b = assemble C (chain_height c + 1) (block_hash C (chain_head c)) (state_root l)
        (receipts_root C rs) time_ms miner (sl_included s)
        in b\<lparr>header := (header b)\<lparr>version_bits := ch_signal_mask c, bits := to_compact t\<rparr>\<rparr>)"
    and mt: "mc_target m = t" "mc_algo m = pow_algo (ch_mining c)" "mc_key m = ch_genesis_hash c"
    using built [OF build] e(1) by (metis option.inject)
  obtain j where j: "b = with_nonce (mc_block m) j" and met: "is_met_by t (mc_seal C m (header b))"
    using sealed_block [OF seal] mt(1) by metis
  let ?ctx = "head_context C c t miner time_ms"
  have h: "hd_height (header b) = chain_height c + 1" "prev_hash (header b) = ch_head c" "proposer (header b) = miner"
      "timestamp_ms (header b) = time_ms" "bits (header b) = to_compact t" "hd_state_root (header b) = state_root l"
      "hd_receipts_root (header b) = receipts_root C rs" "transactions b = sl_included s"
      "tx_root (header b) = compute_tx_root C (sl_included s)"
    by (simp_all add: j mb with_nonce_def assemble_def Let_def e(4))
  let ?empty = "assemble C (chain_height c + 1) (block_hash C (chain_head c)) HASH_ZERO HASH_ZERO time_ms miner []"
  have "well_sized (header ?empty)"
    using assms(3) h(1-4) e(4) assms(5)
    by (simp add: well_sized_def assemble_def compute_tx_root_def merkle_root_def HASH_ZERO_def)
  then have base: "serialized_size C ?empty = 168 + length miner"
    using header_length [of "header ?empty"] by (simp add: serialized_size_sum) (simp add: assemble_def)
  have name: "length miner \<le> 64" using assms(3) h(3) by (simp add: well_sized_def MAX_LEN_def)
  have limit: "block_size_limit C c e - BLOCK_HEADER_SIZE_RESERVE \<le> BLOCK_SIZE_CEILING"
    using block_size_limit_bounds(2) [of C c e] by simp
  have "selected C ?ctx (168 + length miner) (block_size_limit C c e - BLOCK_HEADER_SIZE_RESERVE)
      \<lparr>sl_probe = probe, sl_size = 0, sl_weight = 168 + length miner, sl_included = [], sl_excluded = []\<rparr>"
    using name by (simp add: selected_def tx_bytes_def tx_checks_def MAX_BLOCK_WEIGHT_def)
  note sel = select_all_selected [OF this limit sel [unfolded base]]
  have size: "serialized_size C b = 168 + length miner + tx_bytes C (sl_included s)"
    using header_length [OF assms(3)] by (simp add: serialized_size_sum h tx_bytes_def)
  have "tx_bytes C (sl_included s) \<le> block_size_limit C c e - 4096" "1048576 \<le> block_size_limit C c e"
    using sel block_size_limit_bounds(1) [of C c e]
    by (auto simp: selected_def BLOCK_HEADER_SIZE_RESERVE_def BLOCK_SIZE_FLOOR_def)
  then have fits: "serialized_size C b \<le> block_size_limit C c e" unfolding size using name by linarith
  have light: "block_weight C b \<le> MAX_BLOCK_WEIGHT"
    using sel weight_sum [OF h(8), of C] size by (simp add: selected_def)
  have signed: "all_signatures_valid_mode C b (branch_tx_domain_mode C c b)"
    using sel unfolding mode_at_head [OF h(2)]
    by (simp add: all_signatures_valid_mode_def selected_def h head_context_def block_ctx_def)
  have sealed: "is_met_by t (chain_seal C c (header b))" using met by (simp add: mc_seal_def chain_seal_def mt)
  define cand where "cand = \<lparr>cd_target = t, cd_work = work_saturating_add (ei_chain_work e) (of_target t), cd_height = ei_height e + 1\<rparr>"
  have "validate_candidate C c b = Inr cand"
    using assms(4,6) e t fits light signed sealed
    by (simp add: validate_candidate_def h and_then_def ensure_def ok_or_def timely_def tx_root_matches_def cand_def)
  moreover have "cd_target cand = t" "cd_height cand = chain_height c + 1" by (simp_all add: cand_def e)
  ultimately show thesis using that run h sel by simp
qed

lemma connect_mined:
  assumes "ledger_ready c" "list_all (\<lambda>stx. proposal_free (tx_action (stx_transaction stx))) (transactions b)"
    and "run_block C (head_context C c t (proposer (header b)) (timestamp_ms (header b))) (transactions b) (ch_ledger c)
      = (l, Inr rs)"
    and "hd_height (header b) = chain_height c + 1" "prev_hash (header b) = block_hash C (chain_head c)"
    and "hd_state_root (header b) = state_root l" "hd_receipts_root (header b) = receipts_root C rs"
  shows "\<exists>c'. connect_to_active C b t c = (c', Inr rs)"
proof -
  let ?ctx = "head_context C c t (proposer (header b)) (timestamp_ms (header b))"
  have "bc_mining ?ctx = policy_with c t" by (simp add: head_context_def block_ctx_def)
  note ok = ready_block_passes [OF assms(1-3) this]
  obtain pre where pre: "capture (ch_ledger c) = Inr pre" "check_transition_pre pre l = Inr ()"
    using ok(1) by (auto simp: check_transition_def)
  obtain l2 where l2: "run_block C ?ctx (transactions b) (begin_undo (ch_ledger c)) = (l2, Inr rs)" "erase l2 = erase l"
    using run_block_journal [OF assms(3)] .
  have "try_connect_block C c (begin_undo (ch_ledger c)) b t pre = (l2, Inr rs)"
    using l2(1) checker_erased [OF l2(2)] pre(2) ok(2) assms(4-7)
    by (simp add: try_connect_block_def execute_block_on_def Let_def head_context_def check_roots_def ensure_def
        invariant_result_def and_then_def)
  then show ?thesis by (simp add: connect_to_active_def pre(1))
qed

lemma mined_imports:
  assumes "chain_ok C c" "mined_on C c txs time_ms miner b" "well_sized (header b)" "timely c time_ms"
    and "\<And>bs. length (blake3 C bs) = 32" "bt_get (ch_checkpoints c) (chain_height c + 1) = None"
    and "length (sha256d_target (ch_mining c)) = 32" "target_block_ms (ch_mining c) < 2 ^ 64"
    and "ledger_ready c" "list_all (\<lambda>stx. proposal_free (tx_action (stx_transaction stx))) txs"
    and "ch_index c (block_hash C b) = None"
  shows "\<exists>c' imp. import_block_tracked C b c = (c', Inr imp) \<and> ch_head c' = block_hash C b \<and> ch_blocks c' = ch_blocks c @ [b]
    \<and> im_reverted imp = [] \<and> receipts_root C (im_receipts imp) = hd_receipts_root (header b)"
proof -
  obtain cand l rs where v: "validate_candidate C c b = Inr cand" "prev_hash (header b) = ch_head c"
    and run: "run_block C (head_context C c (cd_target cand) miner time_ms) (transactions b) (ch_ledger c) = (l, Inr rs)"
    and roots: "hd_state_root (header b) = state_root l" "hd_receipts_root (header b) = receipts_root C rs"
    and h: "hd_height (header b) = chain_height c + 1" "proposer (header b) = miner" "timestamp_ms (header b) = time_ms"
    and sub: "set (transactions b) \<subseteq> set txs"
    using mined_validates [OF assms(1-6)] .
  obtain e where e: "ch_index c (ch_head c) = Some e" "ch_head c = block_hash C (chain_head c)" using head_entry [OF assms(1)] .
  have "list_all (\<lambda>stx. proposal_free (tx_action (stx_transaction stx))) (transactions b)"
    using assms(10) sub by (auto simp: list_all_iff)
  then obtain c1 where c1: "connect_to_active C b (cd_target cand) c = (c1, Inr rs)"
    using connect_mined [OF assms(9), of b C "cd_target cand" l rs] run h roots v(2) e(2) by auto
  note f = connect_frame [OF c1] and fields = chain_view_fields [OF connect_frame(1) [OF c1]]
  let ?d = "(insert_entry C b cand c1)\<lparr>ch_head := block_hash C b\<rparr>"
  have "index_ok C (ch_index ?d) (ch_genesis_hash c)"
    using index_ok_insert [OF _ assms(11) fits_entry [OF validated_fits [OF v(1)]]] assms(1)
    by (simp add: insert_entry_eq fields chain_ok_def)
  moreover have new: "ch_index ?d (block_hash C b) = Some (new_entry C b cand)" by (simp add: insert_entry_eq)
  moreover have "ch_mining ?d = ch_mining c" by (simp add: insert_entry_eq fields)
  ultimately obtain t' where "base_target ?d (new_entry C b cand) = Some t'"
    using base_target_total [of C ?d "ch_genesis_hash c" "block_hash C b"] assms(7,8) by auto
  then have "sync_active_difficulty ?d = Some (?d\<lparr>ch_difficulty := from_target t'\<rparr>)"
    using new by (simp add: sync_active_difficulty_def)
  then have "import_block_tracked C b c
      = (index_block_receipts (cd_height cand) rs (?d\<lparr>ch_difficulty := from_target t'\<rparr>), Inr \<lparr>im_receipts = rs, im_reverted = []\<rparr>)"
    using assms(11) v e(1) c1 by (simp add: import_block_tracked_def extend_head_def sync_difficulty_def)
  then show ?thesis using f(3) roots(2) by (simp add: insert_entry_eq)
qed

end
