(* ===== verification/ChainSample.thy ===== *)
theory ChainSample
  imports Accept
begin

text \<open>
  A concrete chain for the witnesses: a genesis with one account, an environment whose digests have
  the right length, and a first block that its own producer mines and imports.
\<close>

definition node_env :: chain_env where
  "node_env = \<lparr>blake3 = (\<lambda>bs. replicate 32 (of_nat (length bs))), ed25519_verify_strict = \<lambda>_ _ _. True,
     ml_dsa_65_verify = \<lambda>_ _ _. True,
     hex_encode = \<lambda>_. [], borsh_public_key = \<lambda>_. [], orchard_root = concat,
     orchard_rk_verify = \<lambda>_ _. True, orchard_binding_verify = \<lambda>_ _. True, orchard_verify_proof = \<lambda>_. True,
     orchard_bundle_commitment = \<lambda>_. [], rescue_merge = \<lambda>d l r. l @ r,
     borsh_balance = \<lambda>_. [], borsh_account = \<lambda>_. [], borsh_token_info = \<lambda>_. [], borsh_policy = \<lambda>_. [],
     borsh_spend_window = \<lambda>_. [], borsh_window_pair = \<lambda>_. [], borsh_htlcs = \<lambda>_. [], borsh_nft_classes = \<lambda>_. [],
     borsh_nfts = \<lambda>_. [], borsh_multisigs = \<lambda>_. [], borsh_proposals = \<lambda>_. [], borsh_vaults = \<lambda>_. [],
     borsh_u128 = \<lambda>_. [], sha256 = (\<lambda>bs. replicate 32 0), borsh_action = \<lambda>_. [], decode_action = \<lambda>_. None,
     zk_suite2 = False, blake3_derive_key = \<lambda>_ bs. bs, verify_auth = \<lambda>_ _ _. True,
     decode_bundle = \<lambda>_ _. Inl (WireOther []), verify_spend = \<lambda>_ _. None, verify_spend_suite2 = \<lambda>_ _ _. None,
     decode_shielded = \<lambda>_. None, vm_execute = \<lambda>_ _ _ _ _. Inl VmOutOfGas,
     borsh_stx = \<lambda>_. [], randomx_hash = \<lambda>_ _. replicate 32 0\<rparr>"

lemma node_env_fields [simp]: "length (blake3 node_env bs) = 32" "pow_seal node_env algo key pre = replicate 32 0"
  by (simp_all add: node_env_def pow_seal_def sha256d_def split: pow_algo.split)

section \<open>Roots have the length of a digest\<close>

lemma recompute_root:
  assumes "\<And>bs. length (blake3 C bs) = 32" "0 < H"
  shows "length (smt_root (recompute C H key lf sibs t)) = 32"
proof -
  obtain K where K: "H = Suc K" using assms(2) by (cases H) auto
  have "length (fst (recompute_step C H key sibs level nt)) = 32" for level nt
    using assms(1) by (simp add: recompute_step_def smt_hash_node_def Let_def split: prod.split)
  then have "length (fst (fold (recompute_step C H key sibs) [1..<Suc H] (lf, t))) = 32" by (simp add: K)
  then show ?thesis by (simp add: recompute_def Let_def case_prod_unfold del: upt_Suc)
qed

definition root_sized :: "ledger \<Rightarrow> bool" where
  "root_sized l \<longleftrightarrow> length (state_root l) = 32"

lemma root_sized_commit:
  assumes "\<And>bs. length (blake3 C bs) = 32" "root_sized l"
  shows "root_sized (commit C sl ov l)"
  using assms recompute_root [of C TREE_HEIGHT]
  by (auto simp: root_sized_def state_root_def commit_def smt_insert_def smt_remove_def Let_def TREE_HEIGHT_def
      split: option.split)

lemma root_sized_coinbase:
  assumes "\<And>bs. length (blake3 C bs) = 32" "root_sized l" "apply_coinbase C ctx l = (l', r)"
  shows "root_sized l'"
proof -
  have same: "root_sized (x\<lparr>accounts := as\<rparr>) = root_sized x" "root_sized (x\<lparr>mined_emitted := n\<rparr>) = root_sized x"
    "root_sized (record_op op x) = root_sized x" for x as n op by (simp_all add: root_sized_def state_root_def record_op_def)
  show ?thesis
    using assms
    by (auto simp: apply_coinbase_def credit_def Let_def set_account_def add_mined_emitted_def commit_counter_def same
        intro!: root_sized_commit split: if_splits option.splits sum.splits)
qed

section \<open>The first blocks\<close>

lemma node_genesis: "\<exists>g. genesis_build node_env sample_genesis = Inr g \<and> root_sized (g_ledger g)
    \<and> proposer (header (g_block g)) = ''alice'' \<and> timestamp_ms (header (g_block g)) = 1000 \<and> well_sized (header (g_block g))"
proof -
  let ?l = "apply_vesting node_env (gc_vesting sample_genesis) (fund_accounts node_env (gc_accounts sample_genesis) (ledger_new node_env))"
  have vest: "?l = Inr (set_account node_env ''alice'' ((account_new sample_key 700)\<lparr>locked := 300, unlock_height := 5\<rparr>)
      (set_account node_env ''alice'' (account_new sample_key 700) (ledger_new node_env)))"
    by (simp add: sample_genesis_def fund_accounts_def Let_def account_exists_def bt_contains_def set_account_def commit_defs
        account_is_empty_def account_new_def account_default_def account_of_def checked_add_def)
  have sized: "root_sized (set_account node_env i a l)" if "\<not> account_is_empty a" for i a l
    using recompute_root [of node_env TREE_HEIGHT] that
    by (simp add: set_account_def root_sized_def state_root_def commit_def smt_insert_def Let_def TREE_HEIGHT_def)
  have "root_sized (set_account node_env ''alice'' ((account_new sample_key 700)\<lparr>locked := 300, unlock_height := 5\<rparr>) l)" for l
    by (rule sized) (simp add: account_is_empty_def account_new_def account_default_def)
  moreover have "to_compact (sha256d_target (gc_mining sample_genesis)) < 2 ^ 32"
    by (rule to_compact_less)
      (simp add: sample_genesis_def sample_mining_def mainnet_like_def from_leading_zero_bits_def Let_def)
  ultimately show ?thesis unfolding genesis_build_def vest
    by (simp add: root_sized_def well_sized_def compute_tx_root_def receipts_root_def merkle_root_def MAX_LEN_def HASH_ZERO_def and_then_def ok_or_def sample_genesis_def checked_add_def ensure_def sample_mining_def
        MAX_SUPPLY_GRAINS_value Let_def assemble_def)
qed

lemma node_chain:
  obtains c g where "chain_new node_env sample_genesis = Inr c" "genesis_build node_env sample_genesis = Inr g"
    "root_sized (g_ledger g)" "ch_ledger c = g_ledger g" "ch_mining c = sample_mining" "chain_head c = g_block g"
    "proposer (header (g_block g)) = ''alice''" "timestamp_ms (header (g_block g)) = 1000" "ch_checkpoints c = bt_empty"
    "well_sized (header (g_block g))" "ch_blocks c = [g_block g]" "dom (ch_index c) = {block_hash node_env (g_block g)}"
proof -
  obtain g where g: "genesis_build node_env sample_genesis = Inr g" "root_sized (g_ledger g)"
    "proposer (header (g_block g)) = ''alice''" "timestamp_ms (header (g_block g)) = 1000" "well_sized (header (g_block g))" using node_genesis by blast
  have "length (sha256d_target sample_mining) = 32"
    by (simp add: sample_mining_def mainnet_like_def from_leading_zero_bits_def Let_def)
  then obtain t where "canonical_target (sha256d_target (gc_mining sample_genesis)) = Some t"
    using canonical_on_grid by (auto simp: sample_genesis_def)
  moreover have "check_ledger (g_ledger g) (gc_mining sample_genesis) = Inr ()" using genesis_facts [OF g(1)] by blast
  ultimately show thesis
    using that [of _ g] g by (simp add: chain_new_def Let_def chain_head_def sample_genesis_def)
qed

lemma node_ready:
  assumes "chain_new node_env sample_genesis = Inr c"
  shows "ledger_ready c" "timely c 2000" "length (sha256d_target (ch_mining c)) = 32" "target_block_ms (ch_mining c) < 2 ^ 64"
proof -
  obtain g where g: "genesis_build node_env sample_genesis = Inr g" "ch_ledger c = g_ledger g" "ch_mining c = sample_mining"
    "chain_head c = g_block g" "timestamp_ms (header (g_block g)) = 1000"
    using node_chain assms by (metis sum.inject(2))
  have policy: "gc_mining sample_genesis = sample_mining" by (simp add: sample_genesis_def)
  show "ledger_ready c"
    using genesis_facts [OF g(1)] by (simp add: ledger_ready_def g policy ledger_sound_def)
  show "timely c 2000"
  proof -
    obtain e where e: "ch_index c (ch_head c) = Some e" "ei_block e = chain_head c" "ei_height e = chain_height c"
      using head_entry [OF chain_new_ok [OF assms]] .
    have "hd_height (header (g_block g)) = 0" using genesis_facts [OF g(1)] by (simp add: is_genesis_def)
    then have "median_time_past_of c e = 1000"
      using e by (simp add: median_time_past_of_def numeral_eq_Suc chain_height_def g Let_def)
    then show ?thesis using e(1) by (simp add: timely_def g)
  qed
  show "length (sha256d_target (ch_mining c)) = 32" "target_block_ms (ch_mining c) < 2 ^ 64"
    by (simp_all add: g sample_mining_def mainnet_like_def from_leading_zero_bits_def Let_def)
qed

lemma node_seals:
  assumes "length (mc_target m) = 32"
  shows "\<exists>b. into_sealed_block node_env m = Inr b"
proof -
  obtain k where k: "MAX_MINING_ITERS = Suc k" by (cases MAX_MINING_ITERS) (simp_all add: MAX_MINING_ITERS_def)
  have "is_met_by (mc_target m) (replicate 32 0)"
    unfolding is_met_by_def using zeros_le [OF assms] .
  then show ?thesis unfolding into_sealed_block_def k by (simp add: mc_seal_def ok_or_def Let_def)
qed

lemma node_mines:
  assumes "chain_new node_env sample_genesis = Inr c"
  obtains b where "mined_on node_env c [] 2000 ''bob'' b" "well_sized (header b)" "ch_index c (block_hash node_env b) = None"
proof -
  note ok = chain_new_ok [OF assms] and ready = node_ready [OF assms]
  obtain g where g: "genesis_build node_env sample_genesis = Inr g" "root_sized (g_ledger g)" "ch_ledger c = g_ledger g"
    "ch_mining c = sample_mining" "chain_head c = g_block g" "proposer (header (g_block g)) = ''alice''"
    "dom (ch_index c) = {block_hash node_env (g_block g)}" "well_sized (header (g_block g))"
    using node_chain assms by (metis sum.inject(2))
  obtain e where e: "ch_index c (ch_head c) = Some e" "ei_height e = chain_height c" using head_entry [OF ok] .
  have "index_ok node_env (ch_index c) (ch_genesis_hash c)" using ok by (simp add: chain_ok_def)
  from expected_target_total [OF this e(1) ready(3,4)] obtain t where
    t: "expected_target c e 2000 = Some t" "on_grid t" by blast
  let ?ctx = "head_context node_env c t ''bob'' 2000"
  have policy: "bc_mining ?ctx = policy_with c t" by (simp add: head_context_def block_ctx_def)
  have "native_supply (g_ledger g) + mining_budget_grains (ch_mining c) \<le> MAX_SUPPLY_GRAINS"
    using genesis_facts [OF g(1)] g(4) by (simp add: sample_genesis_def)
  then obtain probe reward where coin: "apply_coinbase node_env ?ctx (ch_ledger c) = (probe, Inr reward)"
    using coinbase_ok [of node_env "ch_ledger c" "native_supply (g_ledger g)" ?ctx] genesis_facts [OF g(1)] g(3) policy by auto
  then have root: "length (state_root probe) = 32"
    using root_sized_coinbase [OF node_env_fields(1) _ coin] g(2,3) by (simp add: root_sized_def)
  have run: "run_block node_env ?ctx [] (ch_ledger c) = (probe, Inr [])"
    using coin by (simp add: run_block_def apply_transactions_def)
  obtain m where m: "build_candidate_for node_env c [] 2000 ''bob'' = Inr (m, [])" "mc_target m = t"
    using e t coin run
    by (simp add: build_candidate_for_def and_then_def ok_or_def Let_def policy_with_def head_context_def)
  obtain b where b: "into_sealed_block node_env m = Inr b" using node_seals m(2) t(2) by (auto simp: on_grid_def)
  obtain j where j: "b = with_nonce (mc_block m) j" "j < 2 ^ 32" using sealed_block [OF b] .
  obtain e' t' probe' reward' s l rs where b': "ch_index c (ch_head c) = Some e'" "expected_target c e' 2000 = Some t'"
    "select_all node_env (head_context node_env c t' ''bob'' 2000) (block_size_limit node_env c e' - BLOCK_HEADER_SIZE_RESERVE) []
       \<lparr>sl_probe = probe', sl_size = 0, sl_weight = serialized_size node_env (assemble node_env (chain_height c + 1)
          (block_hash node_env (chain_head c)) HASH_ZERO HASH_ZERO 2000 ''bob'' []), sl_included = [], sl_excluded = []\<rparr> = Inr s"
    "run_block node_env (head_context node_env c t' ''bob'' 2000) (sl_included s) (ch_ledger c) = (l, Inr rs)"
    and mb: "mc_block m = (let b = assemble node_env (chain_height c + 1) (block_hash node_env (chain_head c)) (state_root l)
        (receipts_root node_env rs) 2000 ''bob'' (sl_included s)
        in b\<lparr>header := (header b)\<lparr>version_bits := ch_signal_mask c, bits := to_compact t'\<rparr>\<rparr>)"
    using built [OF m(1)] .
  have "e' = e" using b'(1) e(1) by simp
  then have t': "t' = t" using b'(2) t(1) by simp
  have sel: "sl_included s = []" using b'(3) by auto
  then have lr: "l = probe" "rs = []" using b'(4) run t' by simp_all
  have "hd_height (header (g_block g)) = 0" using genesis_facts [OF g(1)] by (simp add: is_genesis_def)
  then have "well_sized (header b)"
    using root j(2) to_compact_less [of t] t(2)
    by (simp add: well_sized_def j(1) with_nonce_def mb lr sel t' assemble_def block_hash_def header_hash_def compute_tx_root_def
        receipts_root_def merkle_root_def MAX_LEN_def chain_height_def g(5) on_grid_def)
  moreover have "ch_index c (block_hash node_env b) = None"
  proof -
    have "block_hash node_env b = replicate 32 167"
      using header_length [OF \<open>well_sized (header b)\<close>]
      by (simp add: block_hash_def header_hash_def node_env_def) (simp add: j(1) with_nonce_def mb assemble_def)
    moreover have "block_hash node_env (g_block g) = replicate 32 169"
      using header_length [OF g(8)] by (simp add: block_hash_def header_hash_def node_env_def g(6))
    ultimately have "block_hash node_env b \<notin> dom (ch_index c)" by (simp add: g(7))
    then show ?thesis by auto
  qed
  moreover have "mined_on node_env c [] 2000 ''bob'' b" using m(1) b by (auto simp: mined_on_def)
  ultimately show thesis using that by blast
qed

end
