(* ===== verification/Consensus.thy ===== *)
theory Consensus
  imports ChainSample
begin

text \<open>
  The properties of the chain manager on every reachable chain: fork choice keeps the heaviest
  branch active, the walks along parent links end, the required difficulty is always defined, a
  seal is only skipped for a proven ancestor of a pinned block, and a node accepts what it mines.
\<close>

section \<open>The active chain is linked\<close>

lemma path_start: "index_ok C idx g \<Longrightarrow> path idx g h bs g \<Longrightarrow> h = (if bs = [] then g else block_hash C (hd bs))"
  using path_hash [of C idx g h] by (cases bs) auto

lemma active_linked:
  assumes "index_ok C idx g" "active_ok idx g head blocks" "Suc i < length blocks"
  shows "prev_hash (header (blocks ! Suc i)) = block_hash C (blocks ! i)"
proof -
  have at: "path idx g (block_hash C (blocks ! k)) (rev (take k (tl blocks))) g" if k: "k < length blocks" for k
  proof -
    obtain cs and e :: index_entry where "path idx g (block_hash C (blocks ! k)) cs g" "take (Suc k) blocks = ei_block e # rev cs"
      using active_split(2) [OF assms(1,2) k] unfolding active_ok_def by blast
    moreover from this(2) have "cs = rev (take k (tl blocks))" by (cases blocks) auto
    ultimately show ?thesis by auto
  qed
  have "tl blocks ! i = blocks ! Suc i" using assms(3) by (simp add: nth_tl)
  then have "rev (take (Suc i) (tl blocks)) = blocks ! Suc i # rev (take i (tl blocks))"
    using assms(3) by (simp add: take_Suc_conv_app_nth)
  then have "path idx g (prev_hash (header (blocks ! Suc i))) (rev (take i (tl blocks))) g"
    using at [OF assms(3)] by auto
  then show ?thesis using at [of i] path_start [OF assms(1)] assms(3) by (metis Suc_lessD)
qed

lemma genesis_first:
  assumes "chain_ok C c"
  shows "block_hash C (ch_blocks c ! 0) = ch_genesis_hash c"
proof -
  obtain e where "ch_index c (ch_genesis_hash c) = Some e" "ch_blocks c ! 0 = ei_block e"
    using assms by (auto simp: chain_ok_def active_ok_def)
  moreover have "index_ok C (ch_index c) (ch_genesis_hash c)" using assms by (simp add: chain_ok_def)
  ultimately show ?thesis using index_okD [of C "ch_index c"] by (auto simp: entry_ok_def)
qed

lemma linked_headers_nth:
  "linked_headers C hs \<longleftrightarrow> (\<forall>i. Suc i < length hs \<longrightarrow> prev_hash (hs ! Suc i) = header_hash C (hs ! i))"
proof (induction C hs rule: linked_headers.induct)
  case (1 C h k hs)
  show ?case unfolding linked_headers.simps "1.IH"
  proof (intro iffI conjI allI impI; (elim conjE)?)
    fix i assume "prev_hash k = header_hash C h" "Suc i < length (h # k # hs)"
      "\<forall>i. Suc i < length (k # hs) \<longrightarrow> prev_hash ((k # hs) ! Suc i) = header_hash C ((k # hs) ! i)"
    then show "prev_hash ((h # k # hs) ! Suc i) = header_hash C ((h # k # hs) ! i)" by (cases i) auto
  next
    assume all: "\<forall>i. Suc i < length (h # k # hs) \<longrightarrow> prev_hash ((h # k # hs) ! Suc i) = header_hash C ((h # k # hs) ! i)"
    from all [rule_format, of 0] show "prev_hash k = header_hash C h" by simp
    fix i assume "Suc i < length (k # hs)"
    with all [rule_format, of "Suc i"] show "prev_hash ((k # hs) ! Suc i) = header_hash C ((k # hs) ! i)" by simp
  qed
qed simp_all

section \<open>A chain with one mined block\<close>

lemma node_imports:
  obtains c c' b imp where "reachable node_env sample_genesis c" "mined_on node_env c [] 2000 ''bob'' b" "well_sized (header b)"
    "timely c 2000" "ledger_ready c" "length (sha256d_target (ch_mining c)) = 32" "target_block_ms (ch_mining c) < 2 ^ 64"
    "ch_checkpoints c = bt_empty" "ch_index c (block_hash node_env b) = None" "length (ch_blocks c) = 1"
    "import_block_tracked node_env b c = (c', Inr imp)" "ch_blocks c' = ch_blocks c @ [b]" "reachable node_env sample_genesis c'"
proof -
  obtain c where c: "chain_new node_env sample_genesis = Inr c" "ch_checkpoints c = bt_empty" "length (ch_blocks c) = 1"
    using node_chain by (metis length_Cons list.size(3) One_nat_def)
  note ok = chain_new_ok [OF c(1)] and ready = node_ready [OF c(1)]
  obtain b where b: "mined_on node_env c [] 2000 ''bob'' b" "well_sized (header b)" "ch_index c (block_hash node_env b) = None"
    using node_mines [OF c(1)] .
  obtain c' imp where i: "import_block_tracked node_env b c = (c', Inr imp)" "ch_blocks c' = ch_blocks c @ [b]"
    using mined_imports [OF ok b(1,2) ready(2) node_env_fields(1) _ ready(3,4,1) _ b(3)] c(2) by auto
  have r: "reachable node_env sample_genesis c" using c(1) by (rule reachable.start)
  moreover have "reachable node_env sample_genesis c'" by (rule reachable.receive [OF r i(1)]) simp
  ultimately show thesis using that b ready c i by blast
qed

lemma node_two_blocks:
  obtains c where "reachable node_env sample_genesis c" "length (ch_blocks c) = 2"
proof (rule node_imports)
  fix c c' b imp
  assume "length (ch_blocks c) = 1" "ch_blocks c' = ch_blocks c @ [b]" "reachable node_env sample_genesis c'"
  then show thesis using that [of c'] by simp
qed

section \<open>Properties\<close>

text \<open>C29. Fork choice.  After any history of imports, reorganisations, stored side branches, refused
  blocks and configuration changes, the head is the indexed block of greatest cumulative work, and
  among blocks of equal work the one of smallest hash, as long as the 256-bit work counter has not
  saturated; and the active chain is the chain of blocks that leads from genesis to it, each block
  at its height and linked to the one before.\<close>

theorem fork_choice_best:
  assumes "reachable C cfg c"
  shows "\<exists>e. ch_index c (ch_head c) = Some e \<and> ei_block e = chain_head c
    \<and> (ei_chain_work e < 2 ^ 256 - 1 \<longrightarrow> (\<forall>h x. ch_index c h = Some x \<longrightarrow> h = ch_head c
          \<or> ei_chain_work x < ei_chain_work e \<or> (ei_chain_work x = ei_chain_work e \<and> ch_head c < h)))
    \<and> block_hash C (ch_blocks c ! 0) = ch_genesis_hash c
    \<and> (\<forall>i < length (ch_blocks c). hd_height (header (ch_blocks c ! i)) = i)
    \<and> (\<forall>i. Suc i < length (ch_blocks c) \<longrightarrow> prev_hash (header (ch_blocks c ! Suc i)) = block_hash C (ch_blocks c ! i))"
proof -
  have ok: "chain_ok C c" using assms by (rule reachable_ok)
  then have parts: "index_ok C (ch_index c) (ch_genesis_hash c)"
    "active_ok (ch_index c) (ch_genesis_hash c) (ch_head c) (ch_blocks c)" "best_head (ch_index c) (ch_head c)"
    by (simp_all add: chain_ok_def)
  obtain e where e: "ch_index c (ch_head c) = Some e" "ei_block e = chain_head c" using head_entry [OF ok] .
  have "ei_chain_work e < 2 ^ 256 - 1 \<longrightarrow> (\<forall>h x. ch_index c h = Some x \<longrightarrow> h = ch_head c
      \<or> ei_chain_work x < ei_chain_work e \<or> (ei_chain_work x = ei_chain_work e \<and> ch_head c < h))"
    using parts(3) e(1) unfolding best_head_def better_def by (metis option.inject)
  then show ?thesis
    using e genesis_first [OF ok] active_heights [OF parts(1,2)] active_linked [OF parts(1,2)] by blast
qed

theorem fork_choice_best_witness:
  "\<exists>c e. reachable node_env sample_genesis c \<and> length (ch_blocks c) = 2 \<and> ch_index c (ch_head c) = Some e
    \<and> hd_height (header (ch_blocks c ! 1)) = 1 \<and> ei_block e = chain_head c"
proof -
  obtain c' where r: "reachable node_env sample_genesis c'" "length (ch_blocks c') = 2" using node_two_blocks .
  from fork_choice_best [OF r(1)] r show ?thesis by (intro exI [of _ c']) auto
qed

text \<open>C33. The walks along parent links end.  On every reachable chain, from every indexed block, the walk
  to the active chain reaches a block of the active chain, and the walk to genesis reaches genesis
  after exactly as many blocks as the height of its start; the fuel of the model, which is that
  height, is never what stops them.\<close>

theorem parent_walks_end:
  assumes "reachable C cfg c" "ch_index c h = Some x"
  shows "(\<exists>es e. walk_to_active C c (walk_fuel c h) h = (es, Some e) \<and> ei_height e + length es = ei_height x
      \<and> e \<in> ran (ch_index c) \<and> ei_block e \<in> set (ch_blocks c))
    \<and> (\<exists>bs. branch_ancestors c (walk_fuel c h) h = Some bs \<and> length bs = ei_height x)"
proof -
  have ok: "index_ok C (ch_index c) (ch_genesis_hash c)" "active_ok (ch_index c) (ch_genesis_hash c) (ch_head c) (ch_blocks c)"
    using reachable_ok [OF assms(1)] by (simp_all add: chain_ok_def)
  have fuel: "ei_height x < walk_fuel c h" using assms(2) by (simp add: walk_fuel_def)
  obtain es e where w: "walk_to_active C c (walk_fuel c h) h = (es, Some e)" using walk_ends [OF ok assms(2) fuel] by blast
  from walk_path [OF ok w] obtain m where m: "path (ch_index c) (ch_genesis_hash c) h (map ei_block es) m"
    "ch_index c m = Some e" "on_active C c m e" by blast
  have "ei_height e + length es = ei_height x" using path_height [OF ok(1) m(1,2)] assms(2) by simp
  moreover have "ei_block e \<in> set (ch_blocks c)"
  proof -
    have i: "ei_height e < length (ch_blocks c)" "block_hash C (ch_blocks c ! ei_height e) = m"
      using m(3) by (simp_all add: on_active_iff)
    from active_split(3) [OF ok i(1)] i(2) m(2) have "ei_block e = ch_blocks c ! ei_height e" by auto
    then show ?thesis using i(1) by simp
  qed
  moreover obtain bs where bs: "branch_ancestors c (walk_fuel c h) h = Some bs"
    using ancestors_end [OF ok(1) assms(2)] fuel less_imp_le by blast
  obtain g where g: "ch_index c (ch_genesis_hash c) = Some g" using ok(1) by (auto simp: index_ok_def)
  have "length bs = ei_height x"
    using path_height [OF ok(1) ancestors_path [OF bs] g] genesis_height [OF ok(1) g] assms(2) by simp
  ultimately show ?thesis using w m(2) bs by (auto simp: ran_def)
qed

theorem parent_walks_end_witness:
  "\<exists>c bs. reachable node_env sample_genesis c \<and> branch_ancestors c (walk_fuel c (ch_head c)) (ch_head c) = Some bs \<and> length bs = 1"
proof -
  obtain c' where r: "reachable node_env sample_genesis c'" "length (ch_blocks c') = 2" using node_two_blocks .
  note ok = reachable_ok [OF r(1)]
  obtain e where e: "ch_index c' (ch_head c') = Some e" "ei_height e = chain_height c'" using head_entry [OF ok] .
  have "chain_height c' = 1"
    using active_last(2) [of node_env "ch_index c'" "ch_genesis_hash c'" "ch_head c'" "ch_blocks c'"] ok r(2)
    by (simp add: chain_ok_def chain_height_def chain_head_def)
  with parent_walks_end [OF r(1) e(1)] e(2) r(1) show ?thesis by (intro exI [of _ c']) auto
qed

text \<open>C32. The required difficulty is always defined.  On every reachable chain the target required of a
  child of any indexed block, at any timestamp, exists: none of the \<open>expect\<close>s on its way can fail.
  It has 256 bits and lies on the compact grid, so that a block that passes validation declares in
  its header exactly the target its seal is held to, the one required of its parent's child.\<close>

theorem difficulty_defined:
  assumes "reachable C cfg c" "length (sha256d_target (ch_mining c)) = 32" "target_block_ms (ch_mining c) < 2 ^ 64"
  shows "(ch_index c h = Some e \<longrightarrow>
      (\<exists>t. expected_target c e ts = Some t \<and> length t = 32 \<and> from_compact (to_compact t) = Some t))
    \<and> (validate_candidate C c b = Inr cand \<longrightarrow> from_compact (bits (header b)) = Some (cd_target cand)
        \<and> (\<exists>p. ch_index c (prev_hash (header b)) = Some p
             \<and> expected_target c p (timestamp_ms (header b)) = Some (cd_target cand)))"
proof -
  have ok: "index_ok C (ch_index c) (ch_genesis_hash c)" using reachable_ok [OF assms(1)] by (simp add: chain_ok_def)
  note total = expected_target_total [OF ok _ assms(2,3)]
  have "from_compact (bits (header b)) = Some (cd_target cand) \<and> (\<exists>p. ch_index c (prev_hash (header b)) = Some p
      \<and> expected_target c p (timestamp_ms (header b)) = Some (cd_target cand))" if v: "validate_candidate C c b = Inr cand"
  proof -
    obtain p where p: "ch_index c (prev_hash (header b)) = Some p"
      "expected_target c p (timestamp_ms (header b)) = Some (cd_target cand)" "bits (header b) = to_compact (cd_target cand)"
      using v by (auto simp: validate_candidate_def Let_def ensure_def ok_or_def split: if_splits option.splits)
    then show ?thesis using total [OF p(1), of "timestamp_ms (header b)"] by (auto simp: on_grid_def)
  qed
  then show ?thesis using total [of h e ts] by (auto simp: on_grid_def)
qed

theorem difficulty_defined_witness:
  "\<exists>c e t. reachable node_env sample_genesis c \<and> ch_index c (ch_head c) = Some e \<and> expected_target c e 5000 = Some t
    \<and> length t = 32"
proof -
  obtain c where c: "chain_new node_env sample_genesis = Inr c" using node_chain by blast
  obtain e where e: "ch_index c (ch_head c) = Some e" using head_entry [OF chain_new_ok [OF c]] .
  have r: "reachable node_env sample_genesis c" using c by (rule reachable.start)
  from difficulty_defined [OF r node_ready(3,4) [OF c], of "ch_head c" e 5000] e r show ?thesis by blast
qed

text \<open>C31. A seal is skipped only for a proven ancestor of a pin.  Whatever checkpoints were set or added,
  whatever header batches peers supplied and in whatever order, a block that passes validation
  either meets its target with its proof of work or lies on a chain of headers that starts at this
  chain's genesis, is linked hash by hash and ends, at the newest checkpoint height, in the pinned
  hash.\<close>

theorem seal_skip_sound:
  assumes "reachable C cfg c" "validate_candidate C c b = Inr cand"
  shows "is_met_by (cd_target cand) (chain_seal C c (header b))
    \<or> (\<exists>newest pinned hs. newest_checkpoint c = Some (newest, pinned) \<and> length hs = Suc newest
        \<and> header_hash C (hd hs) = ch_genesis_hash c
        \<and> (\<forall>i. Suc i < length hs \<longrightarrow> prev_hash (hs ! Suc i) = header_hash C (hs ! i))
        \<and> header_hash C (last hs) = pinned \<and> block_hash C b \<in> header_hash C ` set hs)"
proof -
  have ok: "chain_ok C c" using assms(1) by (rule reachable_ok)
  have "is_met_by (cd_target cand) (chain_seal C c (header b)) \<or> block_hash C b \<in> ch_linked c"
    using assms(2)
    by (auto simp: validate_candidate_def Let_def ensure_def ok_or_def is_linked_to_checkpoint_def split: if_splits option.splits)
  moreover have "pin_ancestor C (ch_genesis_hash c) (newest_checkpoint c) h" if "h \<in> ch_linked c" for h
    using ok that genesis_first [OF ok] by (auto simp: chain_ok_def linkage_ok_def Let_def)
  ultimately show ?thesis
    unfolding pin_ancestor_def ancestry_def linked_headers_nth by blast
qed

theorem seal_skip_sound_witness:
  "\<exists>c b cand. reachable node_env sample_genesis c \<and> validate_candidate node_env c b = Inr cand
    \<and> is_met_by (cd_target cand) (chain_seal node_env c (header b))"
proof (rule node_imports)
  fix c c' b imp
  assume a: "reachable node_env sample_genesis c" "ch_index c (block_hash node_env b) = None"
    "import_block_tracked node_env b c = (c', Inr imp)" "ch_checkpoints c = bt_empty"
  obtain cand where v: "validate_candidate node_env c b = Inr cand"
    using a(2,3) by (cases "validate_candidate node_env c b") (auto simp: import_block_tracked_def)
  have "newest_checkpoint c = None" by (simp add: newest_checkpoint_def a(4))
  with seal_skip_sound [OF a(1) v] a(1) v show ?thesis by auto
qed

text \<open>C30. A node accepts what it mines.  Take any reachable chain whose ledger keeps the invariants and
  any list of pooled transactions without multisig proposals and approvals; if no checkpoint is pinned
  at the next height, the producer builds a candidate at a time that is not before the head and past
  the median time, and the search for a nonce succeeds, then importing the
  sealed block succeeds, whatever transactions the producer dropped: unless the block is already
  known it becomes the head, extends the active chain, orphans nothing, and its receipts are the
  ones the header commits to.\<close>

theorem mined_block_accepted:
  assumes "reachable C cfg c" "mined_on C c txs time_ms miner b" "well_sized (header b)" "timely c time_ms"
    and "\<And>bs. length (blake3 C bs) = 32" "bt_get (ch_checkpoints c) (chain_height c + 1) = None"
    and "length (sha256d_target (ch_mining c)) = 32" "target_block_ms (ch_mining c) < 2 ^ 64"
    and "ledger_ready c" "list_all (\<lambda>stx. proposal_free (tx_action (stx_transaction stx))) txs"
  shows "\<exists>c' imp. import_block_tracked C b c = (c', Inr imp) \<and> (ch_index c (block_hash C b) = None \<longrightarrow>
      ch_head c' = block_hash C b \<and> ch_blocks c' = ch_blocks c @ [b] \<and> im_reverted imp = []
      \<and> receipts_root C (im_receipts imp) = hd_receipts_root (header b))"
proof (cases "ch_index c (block_hash C b)")
  case None
  from mined_imports [OF reachable_ok [OF assms(1)] assms(2-10) None] show ?thesis by blast
next
  case (Some e)
  then show ?thesis by (simp add: import_block_tracked_def)
qed

theorem mined_block_accepted_witness:
  "\<exists>c c' b imp. import_block_tracked node_env b c = (c', Inr imp) \<and> ch_blocks c' = ch_blocks c @ [b]"
proof (rule node_imports)
  fix c c' b imp
  assume a: "reachable node_env sample_genesis c" "mined_on node_env c [] 2000 ''bob'' b" "well_sized (header b)"
    "timely c 2000" "ledger_ready c" "length (sha256d_target (ch_mining c)) = 32" "target_block_ms (ch_mining c) < 2 ^ 64"
    "ch_checkpoints c = bt_empty" "ch_index c (block_hash node_env b) = None"
  from mined_block_accepted [OF a(1-4) node_env_fields(1) _ a(6,7,5)] a(8,9) show ?thesis by auto
qed

end
