(* ===== verification/Mempool.thy ===== *)
theory Mempool
  imports Block
begin

text \<open>
  The transaction pool of \<open>mempool/src/lib.rs\<close>: the ready region with its two indexes, the queued
  region of future nonces, admission with replacement by fee and the capacity auction, promotion,
  pruning, time-based eviction and the selection of a block template.

  The wall clock is external: an operation that reads it takes the reading \<open>now\<close> as an argument, one
  reading per operation.  The hash maps of the pool are ordered maps here; the source never depends
  on their iteration order.  Indexing into a map with an absent key is the panic \<open>PoolPanic\<close>, and so
  is a failing \<open>expect\<close>.
\<close>

section \<open>Limits, errors and the pool\<close>

definition STRANDED_TTL_MS :: nat where "STRANDED_TTL_MS = 30 * 60 * 1000"
definition MAX_QUEUED_PER_SENDER :: nat where "MAX_QUEUED_PER_SENDER = 16"
definition DEFAULT_MAX_POOL_WEIGHT :: nat where "DEFAULT_MAX_POOL_WEIGHT = 64 * 1024 * 1024"
definition MIN_RBF_BUMP_GRAINS :: nat where "MIN_RBF_BUMP_GRAINS = 1000"

definition default_queued_capacity :: "nat \<Rightarrow> nat" where
  "default_queued_capacity cap = max (cap div 16) 64"

definition default_per_sender :: "nat \<Rightarrow> nat" where
  "default_per_sender cap = max (cap div 64) 16"

datatype admitted = Ready | Queued

datatype mempool_error =
    TooLarge nat nat
  | WeightLimit nat nat
  | InvalidSignature
  | Stale nat nat
  | Duplicate
  | Full nat
  | BelowFloor balance
  | RbfUnderpriced balance
  | NonceGap nat nat
  | NonceTaken account_id nat
  | SenderLimit account_id nat
  | QueuedSenderLimit account_id nat
  | QueuedFull nat
  | Insufficient nat nat

datatype pool_failure = Refuse mempool_error | PoolPanic

record eviction_victim =
  ev_id :: hash
  ev_tip :: nat
  ev_rate :: nat
  ev_count :: nat

record queued_tx =
  q_stx :: signed_transaction
  q_at_ms :: nat
  q_at_height :: nat

record first_seen =
  fs_at_ms :: nat
  fs_at_height :: nat

type_synonym slot = "account_id \<times> nat"

record mempool =
  mp_by_id :: "(hash, signed_transaction) btree_map"
  mp_by_sender :: "(slot, hash) btree_map"
  mp_inserted_at :: "(hash, nat) btree_map"
  mp_inserted_at_height :: "(hash, nat) btree_map"
  mp_chain_height :: nat
  mp_capacity :: nat
  mp_max_per_sender :: nat
  mp_queued :: "(slot, queued_tx) btree_map"
  mp_queued_weight :: nat
  mp_queued_capacity :: nat
  mp_max_queued_per_sender :: nat
  mp_max_weight :: nat
  mp_weight :: nat
  mp_mode :: tx_domain_mode
  mp_suite2 :: bool

definition with_limits :: "nat \<Rightarrow> nat \<Rightarrow> mempool" where
  "with_limits cap per_sender =
     \<lparr>mp_by_id = bt_empty, mp_by_sender = bt_empty, mp_inserted_at = bt_empty, mp_inserted_at_height = bt_empty,
      mp_chain_height = 0, mp_capacity = cap, mp_max_per_sender = max per_sender 1, mp_queued = bt_empty,
      mp_queued_weight = 0, mp_queued_capacity = default_queued_capacity cap,
      mp_max_queued_per_sender = MAX_QUEUED_PER_SENDER, mp_max_weight = DEFAULT_MAX_POOL_WEIGHT,
      mp_weight = 0, mp_mode = Legacy, mp_suite2 = False\<rparr>"

definition mempool_new :: "nat \<Rightarrow> mempool" where
  "mempool_new cap = with_limits cap (default_per_sender cap)"

definition with_queue_limits :: "nat \<Rightarrow> nat \<Rightarrow> mempool \<Rightarrow> mempool" where
  "with_queue_limits cap per_sender m =
     m\<lparr>mp_queued_capacity := max cap 1, mp_max_queued_per_sender := max per_sender 1\<rparr>"

definition set_mode :: "tx_domain_mode \<Rightarrow> mempool \<Rightarrow> mempool" where
  "set_mode d m = m\<lparr>mp_mode := d\<rparr>"

definition set_suite2_active :: "bool \<Rightarrow> mempool \<Rightarrow> mempool" where
  "set_suite2_active b m = m\<lparr>mp_suite2 := b\<rparr>"

definition set_chain_height :: "nat \<Rightarrow> mempool \<Rightarrow> mempool" where
  "set_chain_height h m = m\<lparr>mp_chain_height := h\<rparr>"

section \<open>Bids and outflow\<close>

fun base_outflow :: "action \<Rightarrow> nat" where
  "base_outflow (Transfer _ amount) = amount"
| "base_outflow (Tipped tip inner) = saturating_add 128 tip (base_outflow inner)"
| "base_outflow (Timestamped _ inner) = base_outflow inner"
| "base_outflow (MultisigExec a _) = base_outflow a"
| "base_outflow _ = 0"

abbreviation stx_outflow :: "signed_transaction \<Rightarrow> nat" where
  "stx_outflow stx \<equiv> base_outflow (tx_action (stx_transaction stx))"

definition effective_tip :: "signed_transaction \<Rightarrow> balance" where
  "effective_tip stx = (case tx_action (stx_transaction stx) of Tipped tip _ \<Rightarrow> tip | _ \<Rightarrow> 0)"

abbreviation signer_of :: "signed_transaction \<Rightarrow> account_id" where
  "signer_of stx \<equiv> tx_signer (stx_transaction stx)"

abbreviation nonce_of :: "signed_transaction \<Rightarrow> nat" where
  "nonce_of stx \<equiv> tx_nonce (stx_transaction stx)"

abbreviation slot_of :: "signed_transaction \<Rightarrow> slot" where
  "slot_of stx \<equiv> (signer_of stx, nonce_of stx)"

section \<open>Reading the pool\<close>

definition of_sender :: "(slot, 'v) btree_map \<Rightarrow> account_id \<Rightarrow> (slot \<times> 'v) list" where
  "of_sender t s = filter (\<lambda>(k, _). fst k = s) (bt_entries t)"

definition senders :: "(slot, 'v) btree_map \<Rightarrow> account_id list" where
  "senders t = remdups_adj (map (\<lambda>(k, _). fst k) (bt_entries t))"

definition bt_len :: "('k::linorder, 'v) btree_map \<Rightarrow> nat" where
  "bt_len t = length (bt_entries t)"

definition sender_count :: "mempool \<Rightarrow> account_id \<Rightarrow> nat" where
  "sender_count m s = length (of_sender (mp_by_sender m) s)"

definition queued_count :: "mempool \<Rightarrow> account_id \<Rightarrow> nat" where
  "queued_count m s = length (of_sender (mp_queued m) s)"

definition pool_len :: "mempool \<Rightarrow> nat" where
  "pool_len m = bt_len (mp_by_id m)"

definition pending_outflow :: "mempool \<Rightarrow> account_id \<Rightarrow> nat" where
  "pending_outflow m s = fold (\<lambda>(_, i) acc. case bt_get (mp_by_id m) i of
       None \<Rightarrow> acc
     | Some stx \<Rightarrow> saturating_add 128 acc (stx_outflow stx)) (of_sender (mp_by_sender m) s) 0"

definition queued_outflow :: "mempool \<Rightarrow> account_id \<Rightarrow> nat" where
  "queued_outflow m s = fold (\<lambda>(_, q) acc. saturating_add 128 acc (stx_outflow (q_stx q))) (of_sender (mp_queued m) s) 0"

fun next_free :: "mempool \<Rightarrow> account_id \<Rightarrow> nat \<Rightarrow> nat \<Rightarrow> nat" where
  "next_free m s 0 n = n"
| "next_free m s (Suc togo) n =
     (if \<not> bt_contains (mp_by_sender m) (s, n) then n else next_free m s togo (saturating_add 64 n 1))"

definition next_nonce :: "mempool \<Rightarrow> account_id \<Rightarrow> nat \<Rightarrow> nat" where
  "next_nonce m s on_chain = next_free m s (Suc (mp_max_per_sender m)) on_chain"

definition mp_first_seen :: "'a tx_codec_scheme \<Rightarrow> mempool \<Rightarrow> hash \<Rightarrow> first_seen option" where
  "mp_first_seen C m i = (case bt_get (mp_inserted_at m) i of
      Some t \<Rightarrow> Some \<lparr>fs_at_ms = t, fs_at_height = (case bt_get (mp_inserted_at_height m) i of Some h \<Rightarrow> h | None \<Rightarrow> 0)\<rparr>
    | None \<Rightarrow> map_option (\<lambda>q. \<lparr>fs_at_ms = q_at_ms q, fs_at_height = q_at_height q\<rparr>)
        (find (\<lambda>q. stx_id C (q_stx q) = i) (bt_values (mp_queued m))))"

section \<open>The capacity auction's victim\<close>

definition consider_sender ::
  "'a chain_env_scheme \<Rightarrow> mempool \<Rightarrow> account_id \<Rightarrow> account_id \<Rightarrow> eviction_victim option \<Rightarrow> pool_failure + eviction_victim option" where
  "consider_sender C m exclude s best =
     (if s = exclude then Inr best
      else (case rev (of_sender (mp_by_sender m) s) of
          [] \<Rightarrow> Inr best
        | (_, i) # _ \<Rightarrow> and_then (ok_or PoolPanic (bt_get (mp_by_id m) i)) (\<lambda>victim.
            let tip = effective_tip victim;
                rate = fee_rate tip (tx_weight C victim);
                cnt = sender_count m s;
                better = (case best of None \<Rightarrow> True
                  | Some b \<Rightarrow> rate < ev_rate b \<or> (rate = ev_rate b \<and> ev_count b < cnt))
            in Inr (if better then Some \<lparr>ev_id = i, ev_tip = tip, ev_rate = rate, ev_count = cnt\<rparr> else best))))"

fun victim_among ::
  "'a chain_env_scheme \<Rightarrow> mempool \<Rightarrow> account_id \<Rightarrow> account_id list \<Rightarrow> eviction_victim option \<Rightarrow> pool_failure + eviction_victim option" where
  "victim_among C m exclude [] best = Inr best"
| "victim_among C m exclude (s # ss) best =
     and_then (consider_sender C m exclude s best) (victim_among C m exclude ss)"

definition find_victim :: "'a chain_env_scheme \<Rightarrow> mempool \<Rightarrow> account_id \<Rightarrow> pool_failure + eviction_victim option" where
  "find_victim C m exclude = victim_among C m exclude (senders (mp_by_sender m)) None"

section \<open>Entering and leaving the regions\<close>

definition mp_remove :: "'a chain_env_scheme \<Rightarrow> hash \<Rightarrow> mempool \<Rightarrow> mempool \<times> signed_transaction option" where
  "mp_remove C i m = (case bt_get (mp_by_id m) i of
      None \<Rightarrow> (m, None)
    | Some stx \<Rightarrow> (m\<lparr>mp_by_id := bt_remove i (mp_by_id m),
         mp_weight := saturating_sub (mp_weight m) (tx_weight C stx),
         mp_by_sender := bt_remove (slot_of stx) (mp_by_sender m),
         mp_inserted_at := bt_remove i (mp_inserted_at m),
         mp_inserted_at_height := bt_remove i (mp_inserted_at_height m)\<rparr>, Some stx))"

abbreviation mp_drop :: "'a chain_env_scheme \<Rightarrow> hash \<Rightarrow> mempool \<Rightarrow> mempool" where
  "mp_drop C i m \<equiv> fst (mp_remove C i m)"

definition admit_ready :: "'a chain_env_scheme \<Rightarrow> nat \<Rightarrow> slot \<Rightarrow> hash \<Rightarrow> signed_transaction \<Rightarrow> mempool \<Rightarrow> mempool" where
  "admit_ready C now k i stx m =
     m\<lparr>mp_weight := saturating_add 64 (mp_weight m) (tx_weight C stx),
       mp_by_sender := bt_insert k i (mp_by_sender m),
       mp_by_id := bt_insert i stx (mp_by_id m),
       mp_inserted_at := bt_insert i now (mp_inserted_at m),
       mp_inserted_at_height := bt_insert i (mp_chain_height m) (mp_inserted_at_height m)\<rparr>"

definition evict_highest_nonce :: "'a chain_env_scheme \<Rightarrow> account_id \<Rightarrow> mempool \<Rightarrow> mempool" where
  "evict_highest_nonce C s m = (case rev (of_sender (mp_by_sender m) s) of
      [] \<Rightarrow> m
    | (_, i) # _ \<Rightarrow> mp_drop C i m)"

definition total_weight :: "mempool \<Rightarrow> nat" where
  "total_weight m = saturating_add 64 (mp_weight m) (mp_queued_weight m)"

definition check_total_weight :: "mempool \<Rightarrow> nat \<Rightarrow> pool_failure + unit" where
  "check_total_weight m weight = ensure (weight \<le> mp_max_weight m) (Refuse (WeightLimit weight (mp_max_weight m)))"

definition check_queued_weight :: "mempool \<Rightarrow> nat \<Rightarrow> pool_failure + unit" where
  "check_queued_weight m weight =
     (let limit = mp_max_weight m div 4
      in and_then (ensure (weight \<le> limit) (Refuse (WeightLimit weight limit))) (\<lambda>_.
           check_total_weight m (saturating_add 64 (mp_weight m) weight)))"

definition admit_queued :: "'a chain_env_scheme \<Rightarrow> slot \<Rightarrow> queued_tx \<Rightarrow> mempool \<Rightarrow> mempool" where
  "admit_queued C k q m =
     m\<lparr>mp_queued_weight := saturating_add 64 (mp_queued_weight m) (tx_weight C (q_stx q)),
       mp_queued := bt_insert k q (mp_queued m)\<rparr>"

definition remove_queued :: "'a chain_env_scheme \<Rightarrow> slot \<Rightarrow> mempool \<Rightarrow> mempool \<times> queued_tx option" where
  "remove_queued C k m = (case bt_get (mp_queued m) k of
      None \<Rightarrow> (m, None)
    | Some q \<Rightarrow> (m\<lparr>mp_queued := bt_remove k (mp_queued m),
         mp_queued_weight := saturating_sub (mp_queued_weight m) (tx_weight C (q_stx q))\<rparr>, Some q))"

abbreviation unqueue :: "'a chain_env_scheme \<Rightarrow> slot \<Rightarrow> mempool \<Rightarrow> mempool" where
  "unqueue C k m \<equiv> fst (remove_queued C k m)"

definition retain_queued :: "'a chain_env_scheme \<Rightarrow> (slot \<Rightarrow> queued_tx \<Rightarrow> bool) \<Rightarrow> mempool \<Rightarrow> mempool" where
  "retain_queued C keep m =
     fold (\<lambda>(k, q) m. if keep k q then m else unqueue C k m) (bt_entries (mp_queued m)) m"

section \<open>The queued region\<close>

definition park :: "mempool \<Rightarrow> nat \<Rightarrow> signed_transaction \<Rightarrow> queued_tx" where
  "park m now stx = \<lparr>q_stx = stx, q_at_ms = now, q_at_height = mp_chain_height m\<rparr>"

definition outbid :: "signed_transaction \<Rightarrow> signed_transaction \<Rightarrow> pool_failure + unit" where
  "outbid old stx =
     (let old_tip = effective_tip old; new_tip = effective_tip stx; required = saturating_add 128 old_tip MIN_RBF_BUMP_GRAINS
      in and_then (ensure (old_tip < new_tip) (Refuse (NonceTaken (signer_of stx) (nonce_of stx)))) (\<lambda>_.
           ensure (required \<le> new_tip) (Refuse (RbfUnderpriced required))))"

definition afford :: "balance \<Rightarrow> nat \<Rightarrow> pool_failure + unit" where
  "afford bal committed = ensure (committed \<le> bal) (Refuse (Insufficient bal committed))"

definition replace_queued ::
  "'a chain_env_scheme \<Rightarrow> queued_tx \<Rightarrow> signed_transaction \<Rightarrow> balance \<Rightarrow> mempool \<Rightarrow> pool_failure + unit" where
  "replace_queued C old stx bal m =
     and_then (ensure (stx_id C (q_stx old) \<noteq> stx_id C stx) (Refuse Duplicate)) (\<lambda>_.
     and_then (outbid (q_stx old) stx) (\<lambda>_.
     and_then (afford bal (saturating_add 128 (saturating_sub
         (saturating_add 128 (pending_outflow m (signer_of stx)) (queued_outflow m (signer_of stx)))
         (stx_outflow (q_stx old))) (stx_outflow stx))) (\<lambda>_.
     check_queued_weight m (saturating_add 64 (saturating_sub (mp_queued_weight m) (tx_weight C (q_stx old)))
       (tx_weight C stx)))))"

definition own_displacement ::
  "'a chain_env_scheme \<Rightarrow> signed_transaction \<Rightarrow> mempool \<Rightarrow> pool_failure + (slot list \<times> nat)" where
  "own_displacement C stx m =
     (if mp_max_queued_per_sender m \<le> queued_count m (signer_of stx)
      then (case rev (of_sender (mp_queued m) (signer_of stx)) of
          [] \<Rightarrow> Inl PoolPanic
        | (k, q) # _ \<Rightarrow>
            if snd k \<le> nonce_of stx
            then Inl (Refuse (QueuedSenderLimit (signer_of stx) (mp_max_queued_per_sender m)))
            else Inr ([k], saturating_sub (mp_queued_weight m) (tx_weight C (q_stx q))))
      else Inr ([], mp_queued_weight m))"

definition cheapest_queued :: "mempool \<Rightarrow> slot list \<Rightarrow> (nat \<times> slot \<times> queued_tx) option" where
  "cheapest_queued m displaced =
     fold (\<lambda>(k, q) best. case best of
         Some b \<Rightarrow> if fst b < effective_tip (q_stx q) then Some b else Some (effective_tip (q_stx q), k, q)
       | None \<Rightarrow> Some (effective_tip (q_stx q), k, q))
       (filter (\<lambda>(k, _). k \<notin> set displaced) (bt_entries (mp_queued m))) None"

definition global_displacement ::
  "'a chain_env_scheme \<Rightarrow> signed_transaction \<Rightarrow> mempool \<Rightarrow> slot list \<times> nat \<Rightarrow> pool_failure + (slot list \<times> nat)" where
  "global_displacement C stx m plan = (case plan of (displaced, projected) \<Rightarrow>
     if mp_queued_capacity m \<le> saturating_sub (bt_len (mp_queued m)) (length displaced)
     then (case cheapest_queued m displaced of
         None \<Rightarrow> Inl PoolPanic
       | Some (tip, k, q) \<Rightarrow>
           if effective_tip stx \<le> tip then Inl (Refuse (QueuedFull (mp_queued_capacity m)))
           else Inr (k # displaced, saturating_sub projected (tx_weight C (q_stx q))))
     else Inr plan)"

definition plan_displacement ::
  "'a chain_env_scheme \<Rightarrow> signed_transaction \<Rightarrow> balance \<Rightarrow> mempool \<Rightarrow> pool_failure + slot list" where
  "plan_displacement C stx bal m =
     and_then (afford bal (saturating_add 128
         (saturating_add 128 (pending_outflow m (signer_of stx)) (queued_outflow m (signer_of stx)))
         (stx_outflow stx))) (\<lambda>_.
     and_then (own_displacement C stx m) (\<lambda>plan.
     and_then (global_displacement C stx m plan) (\<lambda>(displaced, projected).
     and_then (check_queued_weight m (saturating_add 64 projected (tx_weight C stx))) (\<lambda>_. Inr (sort displaced)))))"

definition insert_queued ::
  "'a chain_env_scheme \<Rightarrow> nat \<Rightarrow> signed_transaction \<Rightarrow> balance \<Rightarrow> mempool \<Rightarrow> mempool \<times> (pool_failure + admitted)" where
  "insert_queued C now stx bal m =
     (if bt_contains (mp_by_sender m) (slot_of stx)
      then (m, Inl (Refuse (NonceTaken (signer_of stx) (nonce_of stx))))
      else (case bt_get (mp_queued m) (slot_of stx) of
          Some old \<Rightarrow> (case replace_queued C old stx bal m of
              Inl e \<Rightarrow> (m, Inl e)
            | Inr _ \<Rightarrow> (admit_queued C (slot_of stx) (park m now stx) (unqueue C (slot_of stx) m), Inr Queued))
        | None \<Rightarrow> (case plan_displacement C stx bal m of
              Inl e \<Rightarrow> (m, Inl e)
            | Inr displaced \<Rightarrow>
                (admit_queued C (slot_of stx) (park m now stx) (fold (unqueue C) displaced m), Inr Queued))))"

section \<open>Admission\<close>

definition over_capacity :: "nat \<Rightarrow> mempool \<Rightarrow> bool" where
  "over_capacity weight m \<longleftrightarrow>
     mp_capacity m \<le> pool_len m \<or> mp_max_weight m < saturating_add 64 (total_weight m) weight"

fun auction ::
  "'a chain_env_scheme \<Rightarrow> account_id \<Rightarrow> nat \<Rightarrow> nat \<Rightarrow> nat \<Rightarrow> mempool \<Rightarrow> mempool \<times> (pool_failure + unit)" where
  "auction C s weight rate 0 m =
     (m, if over_capacity weight m then Inl (Refuse (Full (mp_capacity m))) else Inr ())"
| "auction C s weight rate (Suc budget) m =
     (if \<not> over_capacity weight m then (m, Inr ())
      else if budget = 0 then (m, Inl (Refuse (Full (mp_capacity m))))
      else (case find_victim C m s of
          Inl f \<Rightarrow> (m, Inl f)
        | Inr None \<Rightarrow> (m, Inl (Refuse (Full (mp_capacity m))))
        | Inr (Some v) \<Rightarrow>
            if ev_rate v < rate \<or> (rate = ev_rate v \<and> ev_rate v = 0 \<and> 1 < ev_count v)
            then auction C s weight rate budget (mp_drop C (ev_id v) m)
            else if 0 < ev_rate v then (m, Inl (Refuse (BelowFloor (ev_tip v))))
            else (m, Inl (Refuse (Full (mp_capacity m))))))"

definition replace_ready ::
  "'a chain_env_scheme \<Rightarrow> nat \<Rightarrow> hash \<Rightarrow> signed_transaction \<Rightarrow> balance \<Rightarrow> mempool \<Rightarrow> mempool \<times> (pool_failure + admitted)" where
  "replace_ready C now old_id stx bal m =
     (case and_then (ok_or PoolPanic (bt_get (mp_by_id m) old_id)) (\<lambda>old.
        and_then (outbid old stx) (\<lambda>_.
        and_then (afford bal (saturating_add 128 (saturating_sub (pending_outflow m (signer_of stx)) (stx_outflow old))
          (stx_outflow stx))) (\<lambda>_.
        check_total_weight m (saturating_add 64 (saturating_sub (total_weight m) (tx_weight C old)) (tx_weight C stx)))))
      of Inl e \<Rightarrow> (m, Inl e)
       | Inr _ \<Rightarrow> (admit_ready C now (slot_of stx) (stx_id C stx) stx (mp_drop C old_id m), Inr Ready))"

definition admit_fresh ::
  "'a chain_env_scheme \<Rightarrow> nat \<Rightarrow> signed_transaction \<Rightarrow> balance \<Rightarrow> mempool \<Rightarrow> mempool \<times> (pool_failure + admitted)" where
  "admit_fresh C now stx bal m =
     (case and_then (afford bal (saturating_add 128 (pending_outflow m (signer_of stx)) (stx_outflow stx))) (\<lambda>_.
        ensure (sender_count m (signer_of stx) < mp_max_per_sender m)
          (Refuse (SenderLimit (signer_of stx) (mp_max_per_sender m))))
      of Inl e \<Rightarrow> (m, Inl e)
       | Inr _ \<Rightarrow>
           let weight = tx_weight C stx
           in (case auction C (signer_of stx) weight (fee_rate (effective_tip stx) weight)
                 (saturating_add 64 (pool_len m) 1) m
               of (m, Inl e) \<Rightarrow> (m, Inl e)
                | (m, Inr _) \<Rightarrow> (admit_ready C now (slot_of stx) (stx_id C stx) stx m, Inr Ready)))"

definition insert_inner ::
  "'a chain_env_scheme \<Rightarrow> nat \<Rightarrow> signed_transaction \<Rightarrow> nat \<Rightarrow> balance \<Rightarrow> mempool \<Rightarrow> mempool \<times> (pool_failure + admitted)" where
  "insert_inner C now stx current_nonce bal m =
     (if \<not> verify_signature_mode C stx (mp_mode m) then (m, Inl (Refuse InvalidSignature))
      else if nonce_of stx < current_nonce then (m, Inl (Refuse (Stale current_nonce (nonce_of stx))))
      else if bt_contains (mp_by_id m) (stx_id C stx) then (m, Inl (Refuse Duplicate))
      else (case bt_get (mp_by_sender m) (slot_of stx) of
          Some old_id \<Rightarrow> replace_ready C now old_id stx bal m
        | None \<Rightarrow>
            if saturating_add 64 current_nonce (sender_count m (signer_of stx)) < nonce_of stx
            then insert_queued C now stx bal m
            else admit_fresh C now stx bal m))"

section \<open>Promotion\<close>

definition transient :: "mempool_error \<Rightarrow> bool" where
  "transient e = (case e of Full _ \<Rightarrow> True | WeightLimit _ _ \<Rightarrow> True | BelowFloor _ \<Rightarrow> True | SenderLimit _ _ \<Rightarrow> True
    | _ \<Rightarrow> False)"

lemma mp_remove_queued [simp]: "mp_queued (mp_drop C i m) = mp_queued m"
  by (simp add: mp_remove_def split: option.split)

lemma auction_queued [simp]: "mp_queued (fst (auction C s weight rate budget m)) = mp_queued m"
  by (induction C s weight rate budget m rule: auction.induct) (auto split: sum.split option.split)

lemma auction_queued': "auction C s weight rate budget m = (m', r) \<Longrightarrow> mp_queued m' = mp_queued m"
  using auction_queued [of C s weight rate budget m] by simp

lemma insert_ready_queued:
  assumes "insert_inner C now stx n bal m = (m', Inr Ready)"
  shows "mp_queued m' = mp_queued m"
proof -
  have fresh: "mp_queued m' = mp_queued m" if "admit_fresh C now stx bal m = (m', Inr Ready)"
    using that by (auto simp: admit_fresh_def admit_ready_def Let_def split: sum.splits prod.splits dest: auction_queued')
  have replaced: "mp_queued m' = mp_queued m" if "replace_ready C now i stx bal m = (m', Inr Ready)" for i
    using that by (auto simp: replace_ready_def admit_ready_def split: sum.splits)
  show ?thesis
    using assms fresh replaced
    by (auto simp: insert_inner_def insert_queued_def split: if_splits option.splits sum.splits)
qed

lemma bt_remove_len: "bt_get t k = Some v \<Longrightarrow> bt_len (bt_remove k t) < bt_len t"
  unfolding bt_len_def by transfer (auto intro!: length_filter_less dest: map_of_SomeD)

lemma remove_queued_shorter: "remove_queued C k m = (m', Some q) \<Longrightarrow> bt_len (mp_queued m') < bt_len (mp_queued m)"
  by (auto simp: remove_queued_def bt_remove_len split: option.splits)

function promote ::
  "'a chain_env_scheme \<Rightarrow> nat \<Rightarrow> account_id \<Rightarrow> nat \<Rightarrow> balance \<Rightarrow> mempool \<Rightarrow> mempool \<times> (pool_failure + unit)" where
  "promote C now s current_nonce bal m =
     (let k = (s, saturating_add 64 current_nonce (sender_count m s))
      in case remove_queued C k m of
           (m', None) \<Rightarrow> (m', Inr ())
         | (m', Some q) \<Rightarrow> (case insert_inner C now (q_stx q) current_nonce bal m' of
               (m'', Inr Ready) \<Rightarrow> promote C now s current_nonce bal m''
             | (m'', Inr Queued) \<Rightarrow> (m'', Inr ())
             | (m'', Inl PoolPanic) \<Rightarrow> (m'', Inl PoolPanic)
             | (m'', Inl (Refuse e)) \<Rightarrow> (if transient e then admit_queued C k q m'' else m'', Inr ())))"
  by pat_completeness auto

termination
  by (relation "measure (\<lambda>(C, now, s, n, bal, m). bt_len (mp_queued m))")
    (auto dest!: remove_queued_shorter [OF sym] insert_ready_queued [OF sym])

declare promote.simps [simp del]

definition mp_insert ::
  "'a chain_env_scheme \<Rightarrow> nat \<Rightarrow> signed_transaction \<Rightarrow> nat \<Rightarrow> balance \<Rightarrow> mempool \<Rightarrow> mempool \<times> (pool_failure + admitted)" where
  "mp_insert C now stx current_nonce bal m =
     (let weight = tx_weight C stx;
          limit = (if mp_suite2 m \<and> is_suite2_action (tx_action (stx_transaction stx)) then MAX_SUITE2_TX_WEIGHT else MAX_TX_WEIGHT)
      in if limit < weight then (m, Inl (Refuse (TooLarge weight limit)))
         else (case insert_inner C now stx current_nonce bal m of
             (m, Inl e) \<Rightarrow> (m, Inl e)
           | (m, Inr Queued) \<Rightarrow> (m, Inr Queued)
           | (m, Inr Ready) \<Rightarrow> (case promote C now (signer_of stx) current_nonce bal m of
               (m, Inl f) \<Rightarrow> (m, Inl f)
             | (m, Inr _) \<Rightarrow> (m, Inr Ready))))"

section \<open>Maintenance\<close>

definition prune_stale :: "'a chain_env_scheme \<Rightarrow> (account_id \<Rightarrow> nat) \<Rightarrow> mempool \<Rightarrow> mempool" where
  "prune_stale C current_nonce m =
     (let stale = map snd (filter (\<lambda>((s, n), _). n < current_nonce s) (bt_entries (mp_by_sender m)))
      in retain_queued C (\<lambda>(s, n) _. current_nonce s \<le> n) (fold (mp_drop C) stale m))"

lemma mp_drop_len: "pool_len (mp_drop C i m) \<le> pool_len m"
  unfolding pool_len_def
  by (auto simp: mp_remove_def split: option.split dest: bt_remove_len)

lemma evict_highest_nonce_len: "pool_len (evict_highest_nonce C s m) \<le> pool_len m"
  by (auto simp: evict_highest_nonce_def mp_drop_len split: list.split)

function fit_balance :: "'a chain_env_scheme \<Rightarrow> account_id \<Rightarrow> nat \<Rightarrow> mempool \<Rightarrow> mempool" where
  "fit_balance C s cap m =
     (if cap < pending_outflow m s
      then (let m' = evict_highest_nonce C s m
            in if pool_len m' = pool_len m then m' else fit_balance C s cap m')
      else m)"
  by pat_completeness auto

termination
  by (relation "measure (\<lambda>(C, s, cap, m). pool_len m)") (auto simp: le_neq_trans evict_highest_nonce_len)

declare fit_balance.simps [simp del]

fun promote_each ::
  "'a chain_env_scheme \<Rightarrow> nat \<Rightarrow> (account_id \<Rightarrow> nat) \<Rightarrow> (account_id \<Rightarrow> balance) \<Rightarrow> account_id list \<Rightarrow> mempool \<Rightarrow> mempool \<times> (pool_failure + unit)" where
  "promote_each C now current_nonce bal [] m = (m, Inr ())"
| "promote_each C now current_nonce bal (s # ss) m = (case promote C now s (current_nonce s) (bal s) m of
      (m, Inl f) \<Rightarrow> (m, Inl f)
    | (m, Inr _) \<Rightarrow> promote_each C now current_nonce bal ss m)"

definition prune ::
  "'a chain_env_scheme \<Rightarrow> nat \<Rightarrow> (account_id \<Rightarrow> nat) \<Rightarrow> (account_id \<Rightarrow> balance) \<Rightarrow> mempool \<Rightarrow> mempool \<times> (pool_failure + unit)" where
  "prune C now current_nonce bal m =
     (let m = prune_stale C current_nonce m;
          m = fold (\<lambda>s. fit_balance C s (bal s)) (senders (mp_by_sender m)) m
      in promote_each C now current_nonce bal (senders (mp_queued m)) m)"

fun gap_from :: "mempool \<Rightarrow> account_id \<Rightarrow> nat \<Rightarrow> nat \<Rightarrow> nat" where
  "gap_from m s 0 n = n"
| "gap_from m s (Suc togo) n =
     (if bt_contains (mp_by_sender m) (s, n) then gap_from m s togo ((n + 1) mod 2 ^ 64) else n)"

definition stranded_of :: "(account_id \<Rightarrow> nat) \<Rightarrow> nat \<Rightarrow> nat \<Rightarrow> mempool \<Rightarrow> account_id \<Rightarrow> hash list" where
  "stranded_of current_nonce now ttl m s =
     (let gap = gap_from m s (Suc (sender_count m s)) (current_nonce s)
      in map snd (filter (\<lambda>((_, n), i). gap \<le> n \<and>
           ttl \<le> saturating_sub now (case bt_get (mp_inserted_at m) i of Some t \<Rightarrow> t | None \<Rightarrow> now))
         (of_sender (mp_by_sender m) s)))"

definition evict_stranded ::
  "'a chain_env_scheme \<Rightarrow> nat \<Rightarrow> (account_id \<Rightarrow> nat) \<Rightarrow> nat \<Rightarrow> mempool \<Rightarrow> mempool \<times> nat" where
  "evict_stranded C now current_nonce ttl m =
     (let stranded = concat (map (stranded_of current_nonce now ttl m) (senders (mp_by_sender m)));
          m1 = fold (mp_drop C) stranded m;
          m2 = retain_queued C (\<lambda>_ q. saturating_sub now (q_at_ms q) < ttl) m1
      in (m2, length stranded + (bt_len (mp_queued m1) - bt_len (mp_queued m2))))"

definition remove_pending :: "'a chain_env_scheme \<Rightarrow> hash \<Rightarrow> mempool \<Rightarrow> mempool \<times> signed_transaction option" where
  "remove_pending C i m = (case mp_remove C i m of
      (m, Some stx) \<Rightarrow> (m, Some stx)
    | (m, None) \<Rightarrow> (case find (\<lambda>(_, q). stx_id C (q_stx q) = i) (bt_entries (mp_queued m)) of
        None \<Rightarrow> (m, None)
      | Some (k, _) \<Rightarrow> map_prod id (map_option q_stx) (remove_queued C k m)))"

definition snapshot :: "mempool \<Rightarrow> signed_transaction list" where
  "snapshot m = List.map_filter (bt_get (mp_by_id m)) (bt_values (mp_by_sender m)) @ map q_stx (bt_values (mp_queued m))"

fun restore ::
  "'a chain_env_scheme \<Rightarrow> nat \<Rightarrow> (account_id \<Rightarrow> nat) \<Rightarrow> (account_id \<Rightarrow> balance) \<Rightarrow> signed_transaction list \<Rightarrow> mempool \<Rightarrow> mempool \<times> (pool_failure + unit)" where
  "restore C now current_nonce bal [] m = (m, Inr ())"
| "restore C now current_nonce bal (stx # stxs) m =
     (case mp_insert C now stx (current_nonce (signer_of stx)) (bal (signer_of stx)) m of
        (m, Inl PoolPanic) \<Rightarrow> (m, Inl PoolPanic)
      | (m, _) \<Rightarrow> restore C now current_nonce bal stxs m)"

section \<open>The block template\<close>

fun run_from :: "mempool \<Rightarrow> account_id \<Rightarrow> nat \<Rightarrow> nat \<Rightarrow> pool_failure + signed_transaction list" where
  "run_from m s 0 n = Inr []"
| "run_from m s (Suc togo) n = (case bt_get (mp_by_sender m) (s, n) of
      None \<Rightarrow> Inr []
    | Some i \<Rightarrow> and_then (ok_or PoolPanic (bt_get (mp_by_id m) i)) (\<lambda>stx.
        and_then (run_from m s togo ((n + 1) mod 2 ^ 64)) (\<lambda>q. Inr (stx # q))))"

fun ready_queues ::
  "mempool \<Rightarrow> (account_id \<Rightarrow> nat) \<Rightarrow> account_id list \<Rightarrow> pool_failure + (account_id \<times> signed_transaction list) list" where
  "ready_queues m current_nonce [] = Inr []"
| "ready_queues m current_nonce (s # ss) =
     and_then (run_from m s (Suc (sender_count m s)) (current_nonce s)) (\<lambda>q.
     and_then (ready_queues m current_nonce ss) (\<lambda>qs. Inr (if q = [] then qs else (s, q) # qs)))"

definition top_bid :: "(account_id \<times> signed_transaction list) list \<Rightarrow> (account_id \<times> nat) option" where
  "top_bid qs = fold (\<lambda>(s, q) best. let tip = effective_tip (hd q)
     in case best of None \<Rightarrow> Some (s, tip) | Some (_, t) \<Rightarrow> if t < tip then Some (s, tip) else best) qs None"

fun pop_queue ::
  "account_id \<Rightarrow> (account_id \<times> signed_transaction list) list \<Rightarrow> signed_transaction list \<times> (account_id \<times> signed_transaction list) list" where
  "pop_queue w [] = ([], [])"
| "pop_queue w ((s, q) # qs) =
     (if s = w then ([hd q], if tl q = [] then qs else (s, tl q) # qs)
      else map_prod id ((#) (s, q)) (pop_queue w qs))"

fun fill_template :: "nat \<Rightarrow> (account_id \<times> signed_transaction list) list \<Rightarrow> signed_transaction list" where
  "fill_template 0 qs = []"
| "fill_template (Suc n) qs = (case top_bid qs of
      None \<Rightarrow> []
    | Some (w, _) \<Rightarrow> fst (pop_queue w qs) @ fill_template n (snd (pop_queue w qs)))"

definition mp_select :: "mempool \<Rightarrow> (account_id \<Rightarrow> nat) \<Rightarrow> nat \<Rightarrow> pool_failure + signed_transaction list" where
  "mp_select m current_nonce limit =
     and_then (ready_queues m current_nonce (senders (mp_by_sender m))) (\<lambda>qs. Inr (fill_template limit qs))"

end
