(* ===== verification/MempoolSafe.thy ===== *)
theory MempoolSafe
  imports Mempool "HOL-Library.Multiset"
begin

text \<open>
  The contract of the transaction pool.  The locale \<open>admission\<close> states what a property of a pool must
  keep when an entry is evicted, replaced, admitted or parked, under the guards the code has
  established at that point; the lemmas of the locale carry it through admission, promotion and
  restoring, and show on the way that none of them panics.  It is interpreted for the exactness of
  the indexes and counters with the bounds of the pool, and for the ready region being one affordable
  gap-free run per sender.
\<close>

section \<open>Counting\<close>

lemma length_filter_sum: "length (filter P ys) = sum_list (map (\<lambda>y. of_bool (P y)) ys)"
  by (induction ys) auto

lemma bt_len_sum: "bt_len t = bt_sum (\<lambda>_ _. 1) t"
  by (simp add: bt_len_def entry_sum_def case_prod_unfold sum_list_triv)

lemma of_sender_sum: "length (of_sender t s) = bt_sum (\<lambda>k _. of_bool (fst k = s)) t"
  by (simp add: of_sender_def entry_sum_def case_prod_unfold length_filter_sum)

lemma bt_len_insert: "bt_get t k = None \<Longrightarrow> bt_len (bt_insert k v t) = Suc (bt_len t)"
  using bt.sum_ins [of "\<lambda>_ _. 1" k v t] by (simp add: bt_len_sum)

lemma bt_len_remove: "bt_get t k = Some v \<Longrightarrow> Suc (bt_len (bt_remove k t)) = bt_len t"
  using bt.sum_del [of "\<lambda>_ _. 1" k t] by (simp add: bt_len_sum)

lemma of_sender_insert:
  "bt_get t k = None \<Longrightarrow> length (of_sender (bt_insert k v t) s) = length (of_sender t s) + of_bool (fst k = s)"
  using bt.sum_ins [of "\<lambda>k _. of_bool (fst k = s)" k v t] by (simp add: of_sender_sum)

lemma of_sender_remove:
  "bt_get t k = Some v \<Longrightarrow> length (of_sender (bt_remove k t) s) + of_bool (fst k = s) = length (of_sender t s)"
  using bt.sum_del [of "\<lambda>k _. of_bool (fst k = s)" k t] by (simp add: of_sender_sum)

lemma of_sender_iff: "(k, v) \<in> set (of_sender t s) \<longleftrightarrow> fst k = s \<and> bt_get t k = Some v"
  by (auto simp: of_sender_def bt_entries_iff)

lemma of_sender_sorted: "sorted_wrt (<) (map fst (of_sender t s))"
  using sorted_filter_keys [OF bt.ents_sorted, of "\<lambda>(k, _). fst k = s" t] by (simp add: of_sender_def)

lemma map_of_of_sender: "map_of (of_sender t s) = (\<lambda>k. if fst k = s then bt_get t k else None)"
  unfolding of_sender_def map_of_filter_key [of "\<lambda>k. fst k = s"] by (simp add: fun_eq_iff bt.map_of_ents)

lemma of_sender_cong: "(\<And>n. bt_get t (s, n) = bt_get t' (s, n)) \<Longrightarrow> of_sender t s = of_sender t' s"
  by (rule sorted_keys_map_of_eq [OF of_sender_sorted of_sender_sorted]) (auto simp: map_of_of_sender fun_eq_iff)

lemma senders_iff: "s \<in> set (senders t) \<longleftrightarrow> of_sender t s \<noteq> []"
  by (auto simp: senders_def of_sender_def filter_empty_conv case_prod_unfold image_iff)

lemma last_of_sender:
  assumes "rev (of_sender t s) = (k, v) # r"
  shows "bt_get t k = Some v" "fst k = s" "bt_get t (s, n) = Some w \<Longrightarrow> n \<le> snd k"
proof -
  have l: "of_sender t s = rev r @ [(k, v)]" using assms by (metis rev.simps(2) rev_rev_ident)
  then show k: "bt_get t k = Some v" "fst k = s" using of_sender_iff [of k v t s] by auto
  assume "bt_get t (s, n) = Some w"
  then have "((s, n), w) \<in> set (of_sender t s)" by (simp add: of_sender_iff)
  then have "(s, n) = k \<or> (s, n) < k" using of_sender_sorted [of t s] by (auto simp: l sorted_wrt_append)
  then show "n \<le> snd k" using k(2) by (cases k) auto
qed

section \<open>Exact indexes and counters\<close>

definition indexes_agree ::
  "'a chain_env_scheme \<Rightarrow> (hash, signed_transaction) btree_map \<Rightarrow> (slot, hash) btree_map \<Rightarrow> bool" where
  "indexes_agree C ids slots \<longleftrightarrow>
     (\<forall>i stx. bt_get ids i = Some stx \<longrightarrow> stx_id C stx = i \<and> bt_get slots (slot_of stx) = Some i)
   \<and> (\<forall>k i. bt_get slots k = Some i \<longrightarrow> (\<exists>stx. bt_get ids i = Some stx \<and> slot_of stx = k))"

definition same_keys :: "('k::linorder, 'v) btree_map \<Rightarrow> ('k, 'w) btree_map \<Rightarrow> bool" where
  "same_keys t t' \<longleftrightarrow> (\<forall>k. bt_contains t k \<longleftrightarrow> bt_contains t' k)"

definition parked_right :: "(slot, queued_tx) btree_map \<Rightarrow> bool" where
  "parked_right t \<longleftrightarrow> (\<forall>k q. bt_get t k = Some q \<longrightarrow> slot_of (q_stx q) = k)"

abbreviation ready_weight :: "'a chain_env_scheme \<Rightarrow> (hash, signed_transaction) btree_map \<Rightarrow> nat" where
  "ready_weight C t \<equiv> bt_sum (\<lambda>_. tx_weight C) t"

abbreviation parked_weight :: "'a chain_env_scheme \<Rightarrow> (slot, queued_tx) btree_map \<Rightarrow> nat" where
  "parked_weight C t \<equiv> bt_sum (\<lambda>_ q. tx_weight C (q_stx q)) t"

definition pool_exact :: "'a chain_env_scheme \<Rightarrow> mempool \<Rightarrow> bool" where
  "pool_exact C m \<longleftrightarrow> indexes_agree C (mp_by_id m) (mp_by_sender m)
   \<and> same_keys (mp_inserted_at m) (mp_by_id m) \<and> same_keys (mp_inserted_at_height m) (mp_by_id m)
   \<and> parked_right (mp_queued m) \<and> mp_weight m = ready_weight C (mp_by_id m)
   \<and> mp_queued_weight m = parked_weight C (mp_queued m)"

definition pool_bounded :: "mempool \<Rightarrow> bool" where
  "pool_bounded m \<longleftrightarrow> pool_len m \<le> mp_capacity m \<and> (\<forall>s. sender_count m s \<le> mp_max_per_sender m)
   \<and> bt_len (mp_queued m) \<le> mp_queued_capacity m \<and> (\<forall>s. queued_count m s \<le> mp_max_queued_per_sender m)
   \<and> mp_weight m + mp_queued_weight m \<le> mp_max_weight m \<and> mp_queued_weight m \<le> mp_max_weight m div 4
   \<and> mp_max_weight m < 2 ^ 64 - 1 \<and> 0 < mp_queued_capacity m \<and> 0 < mp_max_queued_per_sender m"

definition pool_ok :: "'a chain_env_scheme \<Rightarrow> mempool \<Rightarrow> bool" where
  "pool_ok C m \<longleftrightarrow> pool_exact C m \<and> pool_bounded m"

definition fresh_in :: "'a chain_env_scheme \<Rightarrow> signed_transaction \<Rightarrow> mempool \<Rightarrow> bool" where
  "fresh_in C stx m \<longleftrightarrow> bt_get (mp_by_id m) (stx_id C stx) = None \<and> bt_get (mp_by_sender m) (slot_of stx) = None"

lemma agree_byD: "indexes_agree C ids slots \<Longrightarrow> bt_get ids i = Some stx \<Longrightarrow> stx_id C stx = i \<and> bt_get slots (slot_of stx) = Some i"
  by (simp add: indexes_agree_def)

lemma agree_slotD:
  assumes "indexes_agree C ids slots" "bt_get slots k = Some i"
  obtains stx where "bt_get ids i = Some stx" "slot_of stx = k" "stx_id C stx = i"
  using assms unfolding indexes_agree_def by blast

lemma agree_slot_inj:
  assumes a: "indexes_agree C ids slots" and "bt_get ids i = Some stx" "bt_get ids j = Some stx'" "slot_of stx = slot_of stx'"
  shows "i = j"
  using agree_byD [OF a assms(2)] agree_byD [OF a assms(3)] assms(4) by simp

lemma agree_remove:
  assumes a: "indexes_agree C ids slots" and i: "bt_get ids i = Some stx"
  shows "indexes_agree C (bt_remove i ids) (bt_remove (slot_of stx) slots)"
  unfolding indexes_agree_def
proof (intro conjI allI impI)
  fix j stx' assume "bt_get (bt_remove i ids) j = Some stx'"
  then have j: "j \<noteq> i" "bt_get ids j = Some stx'" by (auto split: if_splits)
  with agree_slot_inj [OF a i j(2)] have "slot_of stx' \<noteq> slot_of stx" by metis
  then show "bt_get (bt_remove (slot_of stx) slots) (slot_of stx') = Some j" "stx_id C stx' = j"
    using agree_byD [OF a j(2)] by simp_all
next
  fix k j assume "bt_get (bt_remove (slot_of stx) slots) k = Some j"
  then have k: "k \<noteq> slot_of stx" "bt_get slots k = Some j" by (auto split: if_splits)
  obtain stx' where "bt_get ids j = Some stx'" "slot_of stx' = k" using agree_slotD [OF a k(2)] .
  then show "\<exists>stx. bt_get (bt_remove i ids) j = Some stx \<and> slot_of stx = k" using k(1) i by (auto split: if_splits)
qed

lemma agree_insert:
  assumes a: "indexes_agree C ids slots" and f: "bt_get ids (stx_id C stx) = None" "bt_get slots (slot_of stx) = None"
  shows "indexes_agree C (bt_insert (stx_id C stx) stx ids) (bt_insert (slot_of stx) (stx_id C stx) slots)"
  unfolding indexes_agree_def
proof (intro conjI allI impI)
  fix j stx' assume j: "bt_get (bt_insert (stx_id C stx) stx ids) j = Some stx'"
  show "stx_id C stx' = j" "bt_get (bt_insert (slot_of stx) (stx_id C stx) slots) (slot_of stx') = Some j"
    using j agree_byD [OF a, of j stx'] f(2) by (simp_all split: if_splits) (metis option.distinct(1))
next
  fix k j assume k: "bt_get (bt_insert (slot_of stx) (stx_id C stx) slots) k = Some j"
  show "\<exists>stx'. bt_get (bt_insert (stx_id C stx) stx ids) j = Some stx' \<and> slot_of stx' = k"
  proof (cases "k = slot_of stx")
    case False
    with k obtain stx' where "bt_get ids j = Some stx'" "slot_of stx' = k" using agree_slotD [OF a] by (metis bt.get_ins)
    then show ?thesis using f(1) by auto
  qed (use k in simp)
qed

lemma same_keys_insert: "same_keys t t' \<Longrightarrow> same_keys (bt_insert k v t) (bt_insert k w t')"
  by (simp add: same_keys_def bt_contains_def)

lemma same_keys_remove: "same_keys t t' \<Longrightarrow> same_keys (bt_remove k t) (bt_remove k t')"
  by (simp add: same_keys_def bt_contains_def)

lemma parked_right_insert: "parked_right t \<Longrightarrow> slot_of (q_stx q) = k \<Longrightarrow> parked_right (bt_insert k q t)"
  by (auto simp: parked_right_def)

lemma parked_right_remove: "parked_right t \<Longrightarrow> parked_right (bt_remove k t)"
  by (auto simp: parked_right_def split: if_splits)

lemma ready_weight_remove:
  "bt_get t i = Some stx \<Longrightarrow> ready_weight C (bt_remove i t) + tx_weight C stx = ready_weight C t"
  using bt.sum_del [of "\<lambda>_. tx_weight C" i t] by simp

lemma ready_weight_insert:
  "bt_get t i = None \<Longrightarrow> ready_weight C (bt_insert i stx t) = ready_weight C t + tx_weight C stx"
  using bt.sum_ins [of "\<lambda>_. tx_weight C" i stx t] by simp

lemma parked_weight_remove:
  "bt_get t k = Some q \<Longrightarrow> parked_weight C (bt_remove k t) + tx_weight C (q_stx q) = parked_weight C t"
  using bt.sum_del [of "\<lambda>_ q. tx_weight C (q_stx q)" k t] by simp

lemma parked_weight_insert:
  "bt_get t k = None \<Longrightarrow> parked_weight C (bt_insert k q t) = parked_weight C t + tx_weight C (q_stx q)"
  using bt.sum_ins [of "\<lambda>_ q. tx_weight C (q_stx q)" k q t] by simp

lemmas region_keeps = agree_remove agree_insert same_keys_insert same_keys_remove parked_right_insert parked_right_remove

lemma exact_drop: "pool_exact C m \<Longrightarrow> pool_exact C (mp_drop C i m)"
  unfolding pool_exact_def mp_remove_def
  by (cases "bt_get (mp_by_id m) i") (auto simp: region_keeps saturating_sub_def dest: ready_weight_remove [of _ _ _ C])

lemma exact_admit:
  assumes "pool_exact C m" "fresh_in C stx m" "mp_weight m + tx_weight C stx < 2 ^ 64"
  shows "pool_exact C (admit_ready C now (slot_of stx) (stx_id C stx) stx m)"
  using assms unfolding pool_exact_def admit_ready_def fresh_in_def
  by (auto simp: region_keeps saturating_add_def ready_weight_insert)

lemma exact_unqueue: "pool_exact C m \<Longrightarrow> pool_exact C (unqueue C k m)"
  unfolding pool_exact_def remove_queued_def
  by (cases "bt_get (mp_queued m) k") (auto simp: region_keeps saturating_sub_def dest: parked_weight_remove [of _ _ _ C])

lemma exact_park:
  assumes "pool_exact C m" "bt_get (mp_queued m) k = None" "slot_of (q_stx q) = k"
    "mp_queued_weight m + tx_weight C (q_stx q) < 2 ^ 64"
  shows "pool_exact C (admit_queued C k q m)"
  using assms unfolding pool_exact_def admit_queued_def
  by (auto simp: region_keeps saturating_add_def parked_weight_insert)

section \<open>What each primitive changes\<close>

lemma drop_config [simp]:
  "mp_capacity (mp_drop C i m) = mp_capacity m" "mp_max_per_sender (mp_drop C i m) = mp_max_per_sender m"
  "mp_queued_capacity (mp_drop C i m) = mp_queued_capacity m" "mp_max_queued_per_sender (mp_drop C i m) = mp_max_queued_per_sender m"
  "mp_max_weight (mp_drop C i m) = mp_max_weight m" "mp_queued_weight (mp_drop C i m) = mp_queued_weight m"
  "mp_chain_height (mp_drop C i m) = mp_chain_height m" "mp_mode (mp_drop C i m) = mp_mode m"
  by (simp_all add: mp_remove_def split: option.split)

lemma unqueue_config [simp]:
  "mp_capacity (unqueue C k m) = mp_capacity m" "mp_max_per_sender (unqueue C k m) = mp_max_per_sender m"
  "mp_queued_capacity (unqueue C k m) = mp_queued_capacity m" "mp_max_queued_per_sender (unqueue C k m) = mp_max_queued_per_sender m"
  "mp_max_weight (unqueue C k m) = mp_max_weight m" "mp_weight (unqueue C k m) = mp_weight m"
  "mp_by_id (unqueue C k m) = mp_by_id m" "mp_by_sender (unqueue C k m) = mp_by_sender m"
  "mp_chain_height (unqueue C k m) = mp_chain_height m" "mp_mode (unqueue C k m) = mp_mode m"
  "mp_inserted_at (unqueue C k m) = mp_inserted_at m"
  by (simp_all add: remove_queued_def split: option.split)

lemma exactD:
  assumes "pool_exact C m"
  shows "indexes_agree C (mp_by_id m) (mp_by_sender m)" "parked_right (mp_queued m)"
    "mp_weight m = ready_weight C (mp_by_id m)" "mp_queued_weight m = parked_weight C (mp_queued m)"
  using assms by (simp_all add: pool_exact_def)

lemma okD: assumes "pool_ok C m" shows "pool_exact C m" "pool_bounded m"
  using assms by (simp_all add: pool_ok_def)

lemma drop_present:
  assumes "pool_exact C m" "bt_get (mp_by_id m) i = Some stx"
  shows "Suc (pool_len (mp_drop C i m)) = pool_len m" "mp_weight (mp_drop C i m) + tx_weight C stx = mp_weight m"
    "sender_count (mp_drop C i m) s + of_bool (signer_of stx = s) = sender_count m s"
    "mp_by_id (mp_drop C i m) = bt_remove i (mp_by_id m)" "mp_by_sender (mp_drop C i m) = bt_remove (slot_of stx) (mp_by_sender m)"
proof -
  have k: "bt_get (mp_by_sender m) (slot_of stx) = Some i" using agree_byD [OF exactD(1) [OF assms(1)] assms(2)] by simp
  show d: "mp_by_id (mp_drop C i m) = bt_remove i (mp_by_id m)" "mp_by_sender (mp_drop C i m) = bt_remove (slot_of stx) (mp_by_sender m)"
    using assms(2) by (simp_all add: mp_remove_def)
  show "Suc (pool_len (mp_drop C i m)) = pool_len m" using assms(2) by (simp add: pool_len_def d bt_len_remove)
  show "mp_weight (mp_drop C i m) + tx_weight C stx = mp_weight m"
    using assms(2) ready_weight_remove [OF assms(2), of C] exactD(3) [OF assms(1)] by (simp add: mp_remove_def saturating_sub_def)
  show "sender_count (mp_drop C i m) s + of_bool (signer_of stx = s) = sender_count m s"
    using of_sender_remove [OF k, of s] by (simp add: sender_count_def d)
qed

lemma drop_absent: "bt_get (mp_by_id m) i = None \<Longrightarrow> mp_drop C i m = m"
  by (simp add: mp_remove_def)

lemma ok_drop:
  assumes "pool_ok C m"
  shows "pool_ok C (mp_drop C i m)"
proof (cases "bt_get (mp_by_id m) i")
  case (Some stx)
  note d = drop_present [OF okD(1) [OF assms] Some]
  have "sender_count (mp_drop C i m) s \<le> sender_count m s" for s using d(3) [of s] by simp
  then show ?thesis using exact_drop [OF okD(1) [OF assms]] okD(2) [OF assms] d(1,2)
    unfolding pool_ok_def pool_bounded_def queued_count_def by (auto intro: order_trans)
qed (use assms in \<open>simp add: drop_absent\<close>)

lemma unqueue_present:
  assumes "pool_exact C m" "bt_get (mp_queued m) k = Some q"
  shows "Suc (bt_len (mp_queued (unqueue C k m))) = bt_len (mp_queued m)"
    "mp_queued_weight (unqueue C k m) + tx_weight C (q_stx q) = mp_queued_weight m"
    "queued_count (unqueue C k m) s + of_bool (fst k = s) = queued_count m s"
    "mp_queued (unqueue C k m) = bt_remove k (mp_queued m)"
proof -
  show d: "mp_queued (unqueue C k m) = bt_remove k (mp_queued m)" using assms(2) by (simp add: remove_queued_def)
  show "Suc (bt_len (mp_queued (unqueue C k m))) = bt_len (mp_queued m)" using assms(2) by (simp add: d bt_len_remove)
  show "mp_queued_weight (unqueue C k m) + tx_weight C (q_stx q) = mp_queued_weight m"
    using assms(2) parked_weight_remove [OF assms(2), of C] exactD(4) [OF assms(1)] by (simp add: remove_queued_def saturating_sub_def)
  show "queued_count (unqueue C k m) s + of_bool (fst k = s) = queued_count m s"
    using of_sender_remove [OF assms(2), of s] by (simp add: queued_count_def d)
qed

lemma unqueue_absent: "bt_get (mp_queued m) k = None \<Longrightarrow> unqueue C k m = m"
  by (simp add: remove_queued_def)

lemma ok_unqueue:
  assumes "pool_ok C m"
  shows "pool_ok C (unqueue C k m)"
proof (cases "bt_get (mp_queued m) k")
  case (Some q)
  note d = unqueue_present [OF okD(1) [OF assms] Some]
  have "queued_count (unqueue C k m) s \<le> mp_max_queued_per_sender m" for s
    using d(3) [of s] okD(2) [OF assms] unfolding pool_bounded_def by (metis le_add1 order_trans)
  then show ?thesis using exact_unqueue [OF okD(1) [OF assms]] okD(2) [OF assms] d(1,2)
    unfolding pool_ok_def pool_bounded_def sender_count_def pool_len_def by (auto intro: order_trans)
qed (use assms in \<open>simp add: unqueue_absent\<close>)

section \<open>Guards\<close>

definition may_enter :: "'a chain_env_scheme \<Rightarrow> mempool \<Rightarrow> signed_transaction \<Rightarrow> nat \<Rightarrow> balance \<Rightarrow> bool" where
  "may_enter C m stx n bal \<longleftrightarrow> fresh_in C stx m \<and> n \<le> nonce_of stx
     \<and> nonce_of stx \<le> saturating_add 64 n (sender_count m (signer_of stx))
     \<and> saturating_add 128 (pending_outflow m (signer_of stx)) (stx_outflow stx) \<le> bal
     \<and> sender_count m (signer_of stx) < mp_max_per_sender m \<and> \<not> over_capacity (tx_weight C stx) m"

definition may_replace ::
  "'a chain_env_scheme \<Rightarrow> mempool \<Rightarrow> hash \<Rightarrow> signed_transaction \<Rightarrow> signed_transaction \<Rightarrow> nat \<Rightarrow> balance \<Rightarrow> bool" where
  "may_replace C m old_id old stx n bal \<longleftrightarrow> bt_get (mp_by_id m) old_id = Some old \<and> slot_of old = slot_of stx
     \<and> bt_get (mp_by_id m) (stx_id C stx) = None \<and> n \<le> nonce_of stx
     \<and> saturating_add 128 (pending_outflow m (signer_of stx) - stx_outflow old) (stx_outflow stx) \<le> bal
     \<and> saturating_add 64 (total_weight m - tx_weight C old) (tx_weight C stx) \<le> mp_max_weight m"

definition may_park :: "'a chain_env_scheme \<Rightarrow> mempool \<Rightarrow> slot \<Rightarrow> queued_tx \<Rightarrow> bool" where
  "may_park C m k q \<longleftrightarrow> slot_of (q_stx q) = k \<and> bt_get (mp_queued m) k = None
     \<and> queued_count m (fst k) < mp_max_queued_per_sender m \<and> bt_len (mp_queued m) < mp_queued_capacity m
     \<and> mp_queued_weight m + tx_weight C (q_stx q) \<le> mp_max_weight m div 4
     \<and> mp_weight m + mp_queued_weight m + tx_weight C (q_stx q) \<le> mp_max_weight m"

lemma saturated_le: "saturating_add w a b \<le> c \<Longrightarrow> c < 2 ^ w - 1 \<Longrightarrow> saturating_add w a b = a + b \<and> a + b \<le> c"
  by (auto simp: saturating_add_def min_def split: if_splits)

lemma ok_total_weight: "pool_ok C m \<Longrightarrow> total_weight m = mp_weight m + mp_queued_weight m"
  by (auto simp: pool_ok_def pool_bounded_def total_weight_def saturating_add_def)

lemma ok_room:
  assumes "pool_ok C m" "\<not> over_capacity weight m"
  shows "pool_len m < mp_capacity m" "mp_weight m + mp_queued_weight m + weight \<le> mp_max_weight m"
  using assms ok_total_weight [OF assms(1)] okD(2) [OF assms(1)] saturated_le [of 64 "total_weight m" weight "mp_max_weight m"]
  by (auto simp: over_capacity_def pool_bounded_def)

lemma admit_config [simp]:
  "mp_capacity (admit_ready C now k i stx m) = mp_capacity m" "mp_max_per_sender (admit_ready C now k i stx m) = mp_max_per_sender m"
  "mp_queued_capacity (admit_ready C now k i stx m) = mp_queued_capacity m"
  "mp_max_queued_per_sender (admit_ready C now k i stx m) = mp_max_queued_per_sender m"
  "mp_max_weight (admit_ready C now k i stx m) = mp_max_weight m" "mp_queued (admit_ready C now k i stx m) = mp_queued m"
  "mp_queued_weight (admit_ready C now k i stx m) = mp_queued_weight m"
  "mp_by_id (admit_ready C now k i stx m) = bt_insert i stx (mp_by_id m)"
  "mp_by_sender (admit_ready C now k i stx m) = bt_insert k i (mp_by_sender m)"
  by (simp_all add: admit_ready_def)

lemma ok_admit:
  assumes ok: "pool_ok C m" and f: "fresh_in C stx m" and room: "pool_len m < mp_capacity m"
    "sender_count m (signer_of stx) < mp_max_per_sender m" "mp_weight m + mp_queued_weight m + tx_weight C stx \<le> mp_max_weight m"
  shows "pool_ok C (admit_ready C now (slot_of stx) (stx_id C stx) stx m)"
proof -
  note b = okD(2) [OF ok, unfolded pool_bounded_def]
  have w: "mp_weight m + tx_weight C stx < 2 ^ 64 - 1" using b room(3) by linarith
  have weight: "mp_weight (admit_ready C now (slot_of stx) (stx_id C stx) stx m) = mp_weight m + tx_weight C stx"
    using w by (simp add: admit_ready_def saturating_add_def)
  have len: "pool_len (admit_ready C now (slot_of stx) (stx_id C stx) stx m) = Suc (pool_len m)"
    using f by (simp add: pool_len_def bt_len_insert fresh_in_def)
  have "sender_count (admit_ready C now (slot_of stx) (stx_id C stx) stx m) s \<le> mp_max_per_sender m" for s
    using f room(2) b of_sender_insert [of "mp_by_sender m" "slot_of stx" "stx_id C stx" s]
    by (auto simp: sender_count_def fresh_in_def)
  moreover have "pool_exact C (admit_ready C now (slot_of stx) (stx_id C stx) stx m)"
    using w by (intro exact_admit okD(1) [OF ok] f) simp
  ultimately show ?thesis using b room(1,3) by (simp add: pool_ok_def pool_bounded_def weight len queued_count_def)
qed

lemma ok_enter: "pool_ok C m \<Longrightarrow> may_enter C m stx n bal \<Longrightarrow> pool_ok C (admit_ready C now (slot_of stx) (stx_id C stx) stx m)"
  by (rule ok_admit) (auto simp: may_enter_def ok_room)

lemma replaced_fresh:
  assumes "pool_exact C m" "may_replace C m old_id old stx n bal"
  shows "fresh_in C stx (mp_drop C old_id m)"
  using drop_present(4,5) [OF assms(1), of old_id old] assms(2) by (auto simp: fresh_in_def may_replace_def)

lemma ok_replace:
  assumes ok: "pool_ok C m" and r: "may_replace C m old_id old stx n bal"
  shows "pool_ok C (admit_ready C now (slot_of stx) (stx_id C stx) stx (mp_drop C old_id m))"
proof (rule ok_admit [OF ok_drop [OF ok] replaced_fresh [OF okD(1) [OF ok] r]])
  have old: "bt_get (mp_by_id m) old_id = Some old" "slot_of old = slot_of stx" using r by (simp_all add: may_replace_def)
  note d = drop_present [OF okD(1) [OF ok] old(1)] and b = okD(2) [OF ok, unfolded pool_bounded_def]
  show "pool_len (mp_drop C old_id m) < mp_capacity (mp_drop C old_id m)" using d(1) b by simp
  show "sender_count (mp_drop C old_id m) (signer_of stx) < mp_max_per_sender (mp_drop C old_id m)"
    using d(3) [of "signer_of stx"] old(2) b by (simp add: less_eq_Suc_le)
  have "total_weight m - tx_weight C old + tx_weight C stx \<le> mp_max_weight m"
    using r b saturated_le [of 64 "total_weight m - tx_weight C old" "tx_weight C stx" "mp_max_weight m"] by (simp add: may_replace_def)
  then show "mp_weight (mp_drop C old_id m) + mp_queued_weight (mp_drop C old_id m) + tx_weight C stx \<le> mp_max_weight (mp_drop C old_id m)"
    using d(2) ok_total_weight [OF ok] by simp
qed

lemma ok_park:
  assumes ok: "pool_ok C m" and p: "may_park C m k q"
  shows "pool_ok C (admit_queued C k q m)"
proof -
  note b = okD(2) [OF ok, unfolded pool_bounded_def] and p' = p [unfolded may_park_def]
  have w: "mp_queued_weight m + tx_weight C (q_stx q) < 2 ^ 64 - 1" using b p' by linarith
  have weight: "mp_queued_weight (admit_queued C k q m) = mp_queued_weight m + tx_weight C (q_stx q)"
    using w by (simp add: admit_queued_def saturating_add_def)
  have len: "bt_len (mp_queued (admit_queued C k q m)) = Suc (bt_len (mp_queued m))"
    using p' by (simp add: admit_queued_def bt_len_insert)
  have "queued_count (admit_queued C k q m) s \<le> mp_max_queued_per_sender m" for s
    using p' b of_sender_insert [of "mp_queued m" k q s] by (auto simp: queued_count_def admit_queued_def)
  moreover have "pool_exact C (admit_queued C k q m)" using w p' by (intro exact_park okD(1) [OF ok]) simp_all
  moreover have "mp_by_id (admit_queued C k q m) = mp_by_id m" "mp_by_sender (admit_queued C k q m) = mp_by_sender m"
    "mp_weight (admit_queued C k q m) = mp_weight m" "mp_capacity (admit_queued C k q m) = mp_capacity m"
    "mp_max_per_sender (admit_queued C k q m) = mp_max_per_sender m" "mp_max_weight (admit_queued C k q m) = mp_max_weight m"
    "mp_queued_capacity (admit_queued C k q m) = mp_queued_capacity m"
    "mp_max_queued_per_sender (admit_queued C k q m) = mp_max_queued_per_sender m"
    by (simp_all add: admit_queued_def)
  ultimately show ?thesis using b p' by (simp add: pool_ok_def pool_bounded_def weight len sender_count_def pool_len_def)
qed

section \<open>The victim is another sender's tail\<close>

definition tail_of :: "mempool \<Rightarrow> account_id \<Rightarrow> hash \<Rightarrow> bool" where
  "tail_of m s i \<longleftrightarrow> (\<exists>k r. rev (of_sender (mp_by_sender m) s) = (k, i) # r)"

definition victim_ok :: "mempool \<Rightarrow> account_id \<Rightarrow> eviction_victim option \<Rightarrow> bool" where
  "victim_ok m s best \<longleftrightarrow> (\<forall>v. best = Some v \<longrightarrow> (\<exists>t. t \<noteq> s \<and> tail_of m t (ev_id v)))"

lemma consider_ok:
  assumes "pool_exact C m" "victim_ok m s best"
  shows "\<exists>best'. consider_sender C m s t best = Inr best' \<and> victim_ok m s best'"
proof (cases "t = s \<or> rev (of_sender (mp_by_sender m) t) = []")
  case False
  then obtain k i r where tail: "t \<noteq> s" "rev (of_sender (mp_by_sender m) t) = (k, i) # r" by (cases "rev (of_sender (mp_by_sender m) t)") auto
  obtain stx where "bt_get (mp_by_id m) i = Some stx"
    using agree_slotD [OF exactD(1) [OF assms(1)] last_of_sender(1) [OF tail(2)]] by metis
  moreover have "tail_of m t i" using tail(2) by (auto simp: tail_of_def)
  ultimately show ?thesis using assms(2) tail
    by (auto simp: consider_sender_def ok_or_def and_then_def victim_ok_def Let_def)
qed (use assms(2) in \<open>auto simp: consider_sender_def\<close>)

lemma victim_among_ok:
  assumes "pool_exact C m" "victim_ok m s best"
  shows "\<exists>best'. victim_among C m s ss best = Inr best' \<and> victim_ok m s best'"
  using assms(2)
proof (induction ss arbitrary: best)
  case (Cons t ss)
  obtain b where "consider_sender C m s t best = Inr b" "victim_ok m s b" using consider_ok [OF assms(1) Cons.prems] by blast
  with Cons.IH [of b] show ?case by (simp add: and_then_def)
qed simp

lemma find_victim_ok:
  assumes "pool_exact C m"
  obtains best where "find_victim C m s = Inr best" "\<And>v. best = Some v \<Longrightarrow> \<exists>t. t \<noteq> s \<and> tail_of m t (ev_id v)"
  using victim_among_ok [OF assms, of s None "senders (mp_by_sender m)"] unfolding find_victim_def victim_ok_def by auto

section \<open>What the auction leaves alone\<close>

definition keeps_sender :: "account_id \<Rightarrow> mempool \<Rightarrow> mempool \<Rightarrow> bool" where
  "keeps_sender s m m' \<longleftrightarrow> (\<forall>n. bt_get (mp_by_sender m') (s, n) = bt_get (mp_by_sender m) (s, n))
     \<and> (\<forall>n i. bt_get (mp_by_sender m) (s, n) = Some i \<longrightarrow> bt_get (mp_by_id m') i = bt_get (mp_by_id m) i)
     \<and> (\<forall>i. bt_get (mp_by_id m) i = None \<longrightarrow> bt_get (mp_by_id m') i = None)"

definition shrinks :: "mempool \<Rightarrow> mempool \<Rightarrow> bool" where
  "shrinks m m' \<longleftrightarrow> mp_queued m' = mp_queued m \<and> mp_queued_weight m' = mp_queued_weight m \<and> mp_weight m' \<le> mp_weight m
     \<and> mp_max_weight m' = mp_max_weight m \<and> mp_queued_capacity m' = mp_queued_capacity m
     \<and> mp_max_queued_per_sender m' = mp_max_queued_per_sender m \<and> mp_max_per_sender m' = mp_max_per_sender m
     \<and> mp_capacity m' = mp_capacity m"

lemma keeps_sender_refl [simp]: "keeps_sender s m m"
  by (simp add: keeps_sender_def)

lemma keeps_sender_trans: "keeps_sender s m m' \<Longrightarrow> keeps_sender s m' m'' \<Longrightarrow> keeps_sender s m m''"
  unfolding keeps_sender_def by metis

lemma shrinks_refl [simp]: "shrinks m m"
  by (simp add: shrinks_def)

lemma shrinks_trans: "shrinks m m' \<Longrightarrow> shrinks m' m'' \<Longrightarrow> shrinks m m''"
  unfolding shrinks_def by auto

lemma drop_shrinks: "shrinks m (mp_drop C i m)"
  by (simp add: shrinks_def mp_remove_def saturating_sub_def split: option.split)

lemma tail_entry:
  assumes "pool_exact C m" "tail_of m t i"
  obtains stx where "bt_get (mp_by_id m) i = Some stx" "signer_of stx = t" "bt_get (mp_by_sender m) (slot_of stx) = Some i"
    "\<And>n j. bt_get (mp_by_sender m) (t, n) = Some j \<Longrightarrow> n \<le> nonce_of stx"
proof -
  obtain k r where kr: "rev (of_sender (mp_by_sender m) t) = (k, i) # r" using assms(2) by (auto simp: tail_of_def)
  obtain stx where "bt_get (mp_by_id m) i = Some stx" "slot_of stx = k"
    using agree_slotD [OF exactD(1) [OF assms(1)] last_of_sender(1) [OF kr]] by metis
  then show thesis using that [of stx] last_of_sender [OF kr] by (metis fst_conv snd_conv)
qed

lemma drop_other:
  assumes "pool_exact C m" "tail_of m t i" "t \<noteq> s"
  shows "keeps_sender s m (mp_drop C i m)"
proof -
  obtain stx where stx: "bt_get (mp_by_id m) i = Some stx" "signer_of stx = t" "bt_get (mp_by_sender m) (slot_of stx) = Some i"
    by (rule tail_entry [OF assms(1,2)])
  have "j \<noteq> i" if "bt_get (mp_by_sender m) (s, n) = Some j" for n j
    using agree_slotD [OF exactD(1) [OF assms(1)] that] stx(1,2) assms(3) by (metis fst_conv option.inject)
  then show ?thesis using stx assms(3) drop_present(4,5) [OF assms(1) stx(1)] by (auto simp: keeps_sender_def)
qed

lemma keeps_sender_reads:
  assumes "keeps_sender s m m'"
  shows "sender_count m' s = sender_count m s" "pending_outflow m' s = pending_outflow m s"
proof -
  have e: "of_sender (mp_by_sender m') s = of_sender (mp_by_sender m) s"
    using assms by (intro of_sender_cong) (simp add: keeps_sender_def)
  then show "sender_count m' s = sender_count m s" by (simp add: sender_count_def)
  show "pending_outflow m' s = pending_outflow m s" unfolding pending_outflow_def e
    by (intro fold_cong) (use assms in \<open>auto simp: keeps_sender_def of_sender_iff\<close>)
qed

lemma auction_frame:
  assumes "pool_exact C m" "auction C s weight rate budget m = (m', r)"
  shows "pool_exact C m' \<and> keeps_sender s m m' \<and> shrinks m m' \<and> r \<noteq> Inl PoolPanic \<and> (r = Inr () \<longrightarrow> \<not> over_capacity weight m')"
  using assms
proof (induction C s weight rate budget m rule: auction.induct)
  case (2 C s weight rate budget m)
  show ?case
  proof (cases "over_capacity weight m \<and> budget \<noteq> 0")
    case True
    obtain best where best: "find_victim C m s = Inr best" "\<And>v. best = Some v \<Longrightarrow> \<exists>t. t \<noteq> s \<and> tail_of m t (ev_id v)"
      by (rule find_victim_ok [OF "2.prems"(1), of s]) blast
    show ?thesis
    proof (cases "\<exists>v. best = Some v \<and> (ev_rate v < rate \<or> (rate = ev_rate v \<and> ev_rate v = 0 \<and> 1 < ev_count v))")
      case outbids: True
      then obtain v where v: "best = Some v" "ev_rate v < rate \<or> (rate = ev_rate v \<and> ev_rate v = 0 \<and> 1 < ev_count v)" by blast
      obtain t where t: "t \<noteq> s" "tail_of m t (ev_id v)" using best(2) [OF v(1)] by blast
      have "auction C s weight rate budget (mp_drop C (ev_id v) m) = (m', r)" using "2.prems"(2) True v best(1) by auto
      then have "pool_exact C m' \<and> keeps_sender s (mp_drop C (ev_id v) m) m' \<and> shrinks (mp_drop C (ev_id v) m) m'
          \<and> r \<noteq> Inl PoolPanic \<and> (r = Inr () \<longrightarrow> \<not> over_capacity weight m')"
        using "2.IH" [OF _ _ best(1) v] True exact_drop [OF "2.prems"(1)] by blast
      then show ?thesis
        using keeps_sender_trans [OF drop_other [OF "2.prems"(1) t(2,1)]] shrinks_trans [OF drop_shrinks] by blast
    next
      case False
      then have "m' = m \<and> r \<noteq> Inl PoolPanic \<and> r \<noteq> Inr ()"
        using "2.prems"(2) True best(1) by (cases best) (auto split: if_splits)
      then show ?thesis using "2.prems"(1) by simp
    qed
  qed (use "2.prems" in \<open>auto split: if_splits\<close>)
qed (auto split: if_splits)

section \<open>Displacement in the queued region\<close>

lemma unqueue_commute: "unqueue C k (unqueue C k' m) = unqueue C k' (unqueue C k m)"
proof (cases "k = k' \<or> bt_get (mp_queued m) k = None \<or> bt_get (mp_queued m) k' = None")
  case False
  then obtain q q' where "k \<noteq> k'" "bt_get (mp_queued m) k = Some q" "bt_get (mp_queued m) k' = Some q'" by auto
  moreover have "bt_remove k (bt_remove k' (mp_queued m)) = bt_remove k' (bt_remove k (mp_queued m))" by (rule bt.ext) simp
  ultimately show ?thesis by (simp add: remove_queued_def saturating_sub_def diff_commute)
qed (auto simp: remove_queued_def split: option.splits if_splits)

lemma fold_unqueue_sort: "fold (unqueue C) (sort ks) m = fold (unqueue C) ks m"
proof -
  have "fold (unqueue C) (sort ks) = fold (unqueue C) ks"
    by (rule fold_multiset_equiv) (auto simp: fun_eq_iff unqueue_commute)
  then show ?thesis by simp
qed

definition displaces :: "'a chain_env_scheme \<Rightarrow> mempool \<Rightarrow> slot list \<times> nat \<Rightarrow> bool" where
  "displaces C m plan \<longleftrightarrow> (case plan of (ks, projected) \<Rightarrow>
     (\<forall>k \<in> set ks. bt_contains (mp_queued m) k) \<and> mp_queued_weight (fold (unqueue C) ks m) = projected
     \<and> bt_len (mp_queued (fold (unqueue C) ks m)) + length ks = bt_len (mp_queued m)
     \<and> (\<forall>k. bt_get (mp_queued (fold (unqueue C) ks m)) k = (if k \<in> set ks then None else bt_get (mp_queued m) k)))"

lemma displaces_Nil [simp]: "displaces C m ([], mp_queued_weight m)"
  by (simp add: displaces_def)

lemma fold_unqueue_exact: "pool_exact C m \<Longrightarrow> pool_exact C (fold (unqueue C) ks m)"
  by (induction ks arbitrary: m) (simp_all add: exact_unqueue)

lemma fold_unqueue_ok: "pool_ok C m \<Longrightarrow> pool_ok C (fold (unqueue C) ks m)"
  by (induction ks arbitrary: m) (simp_all add: ok_unqueue)

lemma fold_unqueue_config [simp]:
  "mp_capacity (fold (unqueue C) ks m) = mp_capacity m" "mp_max_per_sender (fold (unqueue C) ks m) = mp_max_per_sender m"
  "mp_queued_capacity (fold (unqueue C) ks m) = mp_queued_capacity m"
  "mp_max_queued_per_sender (fold (unqueue C) ks m) = mp_max_queued_per_sender m"
  "mp_max_weight (fold (unqueue C) ks m) = mp_max_weight m" "mp_weight (fold (unqueue C) ks m) = mp_weight m"
  by (induction ks arbitrary: m) simp_all

lemma fold_unqueue_swap: "fold (unqueue C) ks (unqueue C k m) = unqueue C k (fold (unqueue C) ks m)"
  by (induction ks arbitrary: m) (simp_all add: unqueue_commute [of C _ k])

lemma displaces_Cons:
  assumes e: "pool_exact C m" and d: "displaces C m (ks, projected)" and q: "bt_get (mp_queued m) k = Some q" "k \<notin> set ks"
  shows "displaces C m (k # ks, projected - tx_weight C (q_stx q))"
proof -
  define m' where "m' = fold (unqueue C) ks m"
  have "bt_get (mp_queued m') k = Some q" using d q by (simp add: displaces_def m'_def del: split_paired_All)
  note u = unqueue_present [OF fold_unqueue_exact [OF e, of ks, folded m'_def] this]
  have f: "fold (unqueue C) (k # ks) m = unqueue C k m'"
    by (simp add: m'_def fold_unqueue_swap)
  show ?thesis using d q u(1,2,4) unfolding displaces_def f case_prod_conv m'_def [symmetric]
    by (auto simp: bt_contains_def simp del: split_paired_All split: if_splits)
qed

lemma own_displaces:
  assumes ok: "pool_ok C m" and p: "own_displacement C stx m = Inr plan"
  shows "displaces C m plan \<and> queued_count (fold (unqueue C) (fst plan) m) (signer_of stx) < mp_max_queued_per_sender m
    \<and> slot_of stx \<notin> set (fst plan)"
proof (cases "mp_max_queued_per_sender m \<le> queued_count m (signer_of stx)")
  case True
  then obtain k q r where l: "rev (of_sender (mp_queued m) (signer_of stx)) = (k, q) # r" and n: "nonce_of stx < snd k"
    and plan: "plan = ([k], mp_queued_weight m - tx_weight C (q_stx q))"
    using p by (auto simp: own_displacement_def saturating_sub_def split: list.splits if_splits)
  have k: "bt_get (mp_queued m) k = Some q" "fst k = signer_of stx" using last_of_sender [OF l] by auto
  have "queued_count (unqueue C k m) (signer_of stx) + 1 = queued_count m (signer_of stx)"
    using unqueue_present(3) [OF okD(1) [OF ok] k(1), of "signer_of stx"] k(2) by simp
  moreover have "queued_count m (signer_of stx) \<le> mp_max_queued_per_sender m" using okD(2) [OF ok] by (simp add: pool_bounded_def)
  ultimately show ?thesis using displaces_Cons [OF okD(1) [OF ok] displaces_Nil k(1)] n by (auto simp: plan)
qed (use p in \<open>auto simp: own_displacement_def\<close>)

lemma cheapest_member:
  assumes "cheapest_queued m ks = Some (tip, k, q)"
  shows "bt_get (mp_queued m) k = Some q \<and> k \<notin> set ks"
proof -
  have "fold (\<lambda>(k, q) best. case best of
         Some b \<Rightarrow> if fst b < effective_tip (q_stx q) then Some b else Some (effective_tip (q_stx q), k, q)
       | None \<Rightarrow> Some (effective_tip (q_stx q), k, q)) es best = Some (tip, k, q)
    \<Longrightarrow> (k, q) \<in> set es \<or> best = Some (tip, k, q)" for es and best :: "(nat \<times> slot \<times> queued_tx) option"
    by (induction es arbitrary: best) (fastforce split: option.splits if_splits)+
  from this [of "filter (\<lambda>(k, _). k \<notin> set ks) (bt_entries (mp_queued m))" None] assms show ?thesis
    by (auto simp: cheapest_queued_def bt_entries_iff)
qed

lemma unqueue_count: "pool_exact C m \<Longrightarrow> queued_count (unqueue C k m) s \<le> queued_count m s"
proof (cases "bt_get (mp_queued m) k")
  case (Some q)
  assume "pool_exact C m"
  then show ?thesis using unqueue_present(3) [OF _ Some, of C s] by simp
qed (simp add: unqueue_absent)

lemma global_displaces:
  assumes ok: "pool_ok C m" and d: "displaces C m plan" and p: "global_displacement C stx m plan = Inr plan'"
  shows "displaces C m plan' \<and> bt_len (mp_queued (fold (unqueue C) (fst plan') m)) < mp_queued_capacity m
    \<and> queued_count (fold (unqueue C) (fst plan') m) s \<le> queued_count (fold (unqueue C) (fst plan) m) s"
proof -
  obtain ks projected where plan: "plan = (ks, projected)" by force
  have len: "bt_len (mp_queued (fold (unqueue C) ks m)) + length ks = bt_len (mp_queued m)" using d by (simp add: displaces_def plan)
  have full: "bt_len (mp_queued m) \<le> mp_queued_capacity m" "0 < mp_queued_capacity m" using okD(2) [OF ok] by (simp_all add: pool_bounded_def)
  show ?thesis
  proof (cases "mp_queued_capacity m \<le> bt_len (mp_queued m) - length ks")
    case True
    then obtain tip k q where v: "cheapest_queued m ks = Some (tip, k, q)" "plan' = (k # ks, projected - tx_weight C (q_stx q))"
      using p by (auto simp: global_displacement_def plan saturating_sub_def split: option.splits if_splits)
    have d': "displaces C m plan'"
      using displaces_Cons [OF okD(1) [OF ok] d [unfolded plan]] cheapest_member [OF v(1)] by (simp add: v(2))
    then have "bt_len (mp_queued (fold (unqueue C) (fst plan') m)) + Suc (length ks) = bt_len (mp_queued m)"
      by (simp add: displaces_def v(2))
    moreover have "queued_count (fold (unqueue C) (fst plan') m) s \<le> queued_count (fold (unqueue C) ks m) s"
      using unqueue_count [OF fold_unqueue_exact [OF okD(1) [OF ok]]] by (simp add: v(2) fold_unqueue_swap)
    ultimately show ?thesis using d' full by (simp add: plan)
  next
    case False
    then have "plan' = plan" using p by (auto simp: global_displacement_def plan saturating_sub_def)
    then show ?thesis using d len full False by (simp add: plan)
  qed
qed

lemma check_queued_ok:
  assumes ok: "pool_ok C m" and w: "check_queued_weight m (saturating_add 64 projected weight) = Inr u"
  shows "projected + weight \<le> mp_max_weight m div 4 \<and> mp_weight m + projected + weight \<le> mp_max_weight m"
proof -
  have lim: "mp_max_weight m < 2 ^ 64 - 1" using okD(2) [OF ok] by (simp add: pool_bounded_def)
  then have "mp_max_weight m div 4 < 2 ^ 64 - 1" by linarith
  moreover have "saturating_add 64 projected weight \<le> mp_max_weight m div 4"
    "saturating_add 64 (mp_weight m) (saturating_add 64 projected weight) \<le> mp_max_weight m"
    using w by (simp_all add: check_queued_weight_def check_total_weight_def Let_def)
  ultimately show ?thesis
    using lim saturated_le [of 64 projected weight "mp_max_weight m div 4"] saturated_le [of 64 "mp_weight m" "projected + weight" "mp_max_weight m"]
    by simp
qed

lemma park_slot [simp]: "q_stx (park m now stx) = stx"
  by (simp add: park_def)

lemma plan_parks:
  assumes ok: "pool_ok C m" and free: "bt_get (mp_queued m) (slot_of stx) = None" and p: "plan_displacement C stx bal m = Inr ks"
  shows "may_park C (fold (unqueue C) ks m) (slot_of stx) (park m now stx)"
proof -
  obtain plan ks' projected where o: "own_displacement C stx m = Inr plan" and g: "global_displacement C stx m plan = Inr (ks', projected)"
    and w: "check_queued_weight m (saturating_add 64 projected (tx_weight C stx)) = Inr ()" and ks: "ks = sort ks'"
    using p by (auto simp: plan_displacement_def)
  note own = own_displaces [OF ok o]
  note glob = global_displaces [OF ok _ g, of "signer_of stx"]
  have d: "displaces C m (ks', projected)" using own glob by blast
  have free': "bt_get (mp_queued (fold (unqueue C) ks' m)) (slot_of stx) = None"
    using d free unfolding displaces_def case_prod_conv by (simp del: split_paired_All)
  have "mp_queued_weight (fold (unqueue C) ks' m) = projected" using d by (simp add: displaces_def)
  then show ?thesis using own glob check_queued_ok [OF ok w] free' by (simp add: may_park_def ks fold_unqueue_sort)
qed

lemma replace_parks:
  assumes ok: "pool_ok C m" and old: "bt_get (mp_queued m) (slot_of stx) = Some old" and r: "replace_queued C old stx bal m = Inr u"
  shows "may_park C (unqueue C (slot_of stx) m) (slot_of stx) (park m now stx)"
proof -
  note d = unqueue_present [OF okD(1) [OF ok] old] and b = okD(2) [OF ok, unfolded pool_bounded_def]
  have "check_queued_weight m (saturating_add 64 (mp_queued_weight m - tx_weight C (q_stx old)) (tx_weight C stx)) = Inr ()"
    using r by (auto simp: replace_queued_def saturating_sub_def)
  from check_queued_ok [OF ok this] have w: "mp_queued_weight (unqueue C (slot_of stx) m) + tx_weight C stx \<le> mp_max_weight m div 4"
    "mp_weight m + mp_queued_weight (unqueue C (slot_of stx) m) + tx_weight C stx \<le> mp_max_weight m"
    using d(2) by linarith+
  have "Suc (queued_count (unqueue C (slot_of stx) m) (signer_of stx)) = queued_count m (signer_of stx)"
    using d(3) [of "signer_of stx"] by simp
  then have "queued_count (unqueue C (slot_of stx) m) (signer_of stx) < mp_max_queued_per_sender m" using b by (metis Suc_le_lessD)
  then show ?thesis using w d(1,4) b by (simp add: may_park_def)
qed

lemma cheapest_exists:
  assumes "\<exists>k q. bt_get (mp_queued m) k = Some q \<and> k \<notin> set ks"
  shows "cheapest_queued m ks \<noteq> None"
proof -
  have keep: "fold (\<lambda>(k, q) best. case best of
         Some b \<Rightarrow> if fst b < effective_tip (q_stx q) then Some b else Some (effective_tip (q_stx q), k, q)
       | None \<Rightarrow> Some (effective_tip (q_stx q), k, q)) es best \<noteq> None"
    if "best \<noteq> None \<or> es \<noteq> []" for es and best :: "(nat \<times> slot \<times> queued_tx) option"
    using that by (induction es arbitrary: best) (auto split: option.split)
  obtain k q where "(k, q) \<in> set (filter (\<lambda>(k, _). k \<notin> set ks) (bt_entries (mp_queued m)))"
    using assms by (auto simp: bt_entries_iff)
  then have "filter (\<lambda>(k, _). k \<notin> set ks) (bt_entries (mp_queued m)) \<noteq> []" by (metis empty_iff list.set(1))
  then show ?thesis unfolding cheapest_queued_def by (intro keep) blast
qed

lemma bt_len_pos: "0 < bt_len t \<Longrightarrow> \<exists>k v. bt_get t k = Some v"
  by (cases "bt_entries t") (auto simp: bt_len_def bt_entries_iff [symmetric])

lemma checks_no_panic [simp]:
  "afford bal n \<noteq> Inl PoolPanic" "outbid old stx \<noteq> Inl PoolPanic" "check_total_weight m w \<noteq> Inl PoolPanic"
  "check_queued_weight m w \<noteq> Inl PoolPanic" "replace_queued C q stx bal m \<noteq> Inl PoolPanic"
  by (auto simp: afford_def outbid_def check_total_weight_def check_queued_weight_def replace_queued_def Let_def)

lemma plan_no_panic:
  assumes ok: "pool_ok C m"
  shows "plan_displacement C stx bal m \<noteq> Inl PoolPanic"
proof -
  have own: "own_displacement C stx m \<noteq> Inl PoolPanic"
    using okD(2) [OF ok] by (auto simp: own_displacement_def pool_bounded_def queued_count_def split: list.split)
  have glob: "global_displacement C stx m plan \<noteq> Inl PoolPanic" if o: "own_displacement C stx m = Inr plan" for plan
  proof -
    obtain ks projected where plan: "plan = (ks, projected)" by force
    have "cheapest_queued m ks \<noteq> None" if full: "mp_queued_capacity m \<le> bt_len (mp_queued m) - length ks"
    proof -
      have d: "displaces C m (ks, projected)" using own_displaces [OF ok o] by (simp add: plan)
      then have "bt_len (mp_queued (fold (unqueue C) ks m)) + length ks = bt_len (mp_queued m)" by (simp add: displaces_def)
      moreover have "0 < mp_queued_capacity m" using okD(2) [OF ok] by (simp add: pool_bounded_def)
      ultimately have "0 < bt_len (mp_queued (fold (unqueue C) ks m))" using full by linarith
      then obtain k q where "bt_get (mp_queued (fold (unqueue C) ks m)) k = Some q" using bt_len_pos by blast
      then show ?thesis using d unfolding displaces_def case_prod_conv
        by (intro cheapest_exists exI [of _ k] exI [of _ q]) (auto simp del: split_paired_All split: if_splits)
    qed
    then show ?thesis by (auto simp: global_displacement_def plan saturating_sub_def split: option.split)
  qed
  show ?thesis using own glob by (auto simp: plan_displacement_def)
qed

lemma refused_shrinks:
  assumes "pool_exact C m" "insert_inner C now stx n bal m = (m', Inl e)"
  shows "shrinks m m'"
proof -
  have "shrinks m m'" if "admit_fresh C now stx bal m = (m', Inl e)"
    using that auction_frame [OF assms(1)]
    by (auto simp: admit_fresh_def Let_def split: sum.splits prod.splits)
  then show ?thesis using assms(2)
    by (auto simp: insert_inner_def insert_queued_def replace_ready_def split: if_splits option.splits sum.splits)
qed

lemma put_back_parks:
  assumes ok: "pool_ok C m" and q: "bt_get (mp_queued m) k = Some q" and sh: "shrinks (unqueue C k m) m'"
  shows "may_park C m' k q"
proof -
  note d = unqueue_present [OF okD(1) [OF ok] q] and b = okD(2) [OF ok, unfolded pool_bounded_def]
  have "slot_of (q_stx q) = k" using exactD(2) [OF okD(1) [OF ok]] q by (simp add: parked_right_def del: split_paired_All)
  moreover have "Suc (queued_count m' (fst k)) = queued_count m (fst k)"
    using d(3) [of "fst k"] sh by (simp add: queued_count_def shrinks_def)
  moreover have "Suc (bt_len (mp_queued m')) = bt_len (mp_queued m)" "bt_get (mp_queued m') k = None"
    "mp_queued_weight m' + tx_weight C (q_stx q) = mp_queued_weight m" "mp_weight m' \<le> mp_weight m"
    using d(1,2,4) sh by (simp_all add: shrinks_def)
  moreover have "queued_count m (fst k) \<le> mp_max_queued_per_sender m" using b by blast
  ultimately show ?thesis using b sh unfolding may_park_def shrinks_def unqueue_config by linarith
qed

section \<open>Admission keeps what its primitives keep\<close>

locale admission =
  fixes C :: "'a chain_env_scheme"
    and P :: "mempool \<Rightarrow> bool"
    and nonce_at :: "account_id \<Rightarrow> nat"
    and bal_at :: "account_id \<Rightarrow> balance"
  assumes sound: "P m \<Longrightarrow> pool_ok C m"
    and evict: "P m \<Longrightarrow> tail_of m s i \<Longrightarrow> P (mp_drop C i m)"
    and enter: "P m \<Longrightarrow> may_enter C m stx (nonce_at (signer_of stx)) (bal_at (signer_of stx))
      \<Longrightarrow> P (admit_ready C now (slot_of stx) (stx_id C stx) stx m)"
    and replace: "P m \<Longrightarrow> may_replace C m old_id old stx (nonce_at (signer_of stx)) (bal_at (signer_of stx))
      \<Longrightarrow> P (admit_ready C now (slot_of stx) (stx_id C stx) stx (mp_drop C old_id m))"
    and unpark: "P m \<Longrightarrow> P (unqueue C k m)"
    and parks: "P m \<Longrightarrow> may_park C m k q \<Longrightarrow> P (admit_queued C k q m)"
begin

lemma auction_keeps: "P m \<Longrightarrow> auction C s weight rate budget m = (m', r) \<Longrightarrow> P m'"
proof (induction budget arbitrary: m)
  case (Suc budget)
  show ?case
  proof (cases "over_capacity weight m \<and> budget \<noteq> 0")
    case True
    obtain best where best: "find_victim C m s = Inr best" "\<And>v. best = Some v \<Longrightarrow> \<exists>t. t \<noteq> s \<and> tail_of m t (ev_id v)"
      by (rule find_victim_ok [OF okD(1) [OF sound [OF Suc.prems(1)]], of s]) blast
    then have "P (mp_drop C (ev_id v) m)" if "best = Some v" for v using evict [OF Suc.prems(1)] that by blast
    then show ?thesis using Suc True best(1) by (cases best) (auto split: if_splits)
  qed (use Suc.prems in \<open>auto split: if_splits\<close>)
qed (auto split: if_splits)

lemma fold_unpark: "P m \<Longrightarrow> P (fold (unqueue C) ks m)"
  by (induction ks arbitrary: m) (simp_all add: unpark)

lemma insert_queued_keeps:
  assumes "P m" "insert_queued C now stx bal m = (m', r)"
  shows "P m' \<and> r \<noteq> Inl PoolPanic"
proof -
  have "P (admit_queued C (slot_of stx) (park m now stx) (unqueue C (slot_of stx) m))"
    if "bt_get (mp_queued m) (slot_of stx) = Some old" "replace_queued C old stx bal m = Inr u" for old u
    using parks [OF unpark [OF assms(1)] replace_parks [OF sound [OF assms(1)] that]] .
  moreover have "P (admit_queued C (slot_of stx) (park m now stx) (fold (unqueue C) ks m))"
    if "bt_get (mp_queued m) (slot_of stx) = None" "plan_displacement C stx bal m = Inr ks" for ks
    using parks [OF fold_unpark [OF assms(1)] plan_parks [OF sound [OF assms(1)] that]] .
  moreover have "plan_displacement C stx bal m \<noteq> Inl PoolPanic" by (rule plan_no_panic [OF sound [OF assms(1)]])
  moreover have "replace_queued C q stx bal m \<noteq> Inl PoolPanic" for q by simp
  ultimately show ?thesis using assms unfolding insert_queued_def
    by (auto split: if_splits option.splits sum.splits)
qed

lemma replace_ready_keeps:
  assumes P: "P m" and old: "bt_get (mp_by_sender m) (slot_of stx) = Some old_id" and n: "nonce_at (signer_of stx) \<le> nonce_of stx"
    and f: "bt_get (mp_by_id m) (stx_id C stx) = None" and r: "replace_ready C now old_id stx (bal_at (signer_of stx)) m = (m', r)"
  shows "P m' \<and> r \<noteq> Inl PoolPanic"
proof -
  obtain old where o: "bt_get (mp_by_id m) old_id = Some old" "slot_of old = slot_of stx"
    using agree_slotD [OF exactD(1) [OF okD(1) [OF sound [OF P]]] old] by metis
  have "may_replace C m old_id old stx (nonce_at (signer_of stx)) (bal_at (signer_of stx))"
    if "outbid old stx = Inr ()" "afford (bal_at (signer_of stx)) (saturating_add 128 (saturating_sub (pending_outflow m (signer_of stx)) (stx_outflow old)) (stx_outflow stx)) = Inr ()"
      "check_total_weight m (saturating_add 64 (saturating_sub (total_weight m) (tx_weight C old)) (tx_weight C stx)) = Inr ()"
    using that o f n by (simp add: may_replace_def afford_def check_total_weight_def saturating_sub_def)
  then show ?thesis using r P o replace [OF P, of old_id old stx now] unfolding replace_ready_def
    by (auto simp: ok_or_def split: sum.splits)
qed

lemma admit_fresh_keeps:
  assumes P: "P m" and f: "fresh_in C stx m" and n: "nonce_at (signer_of stx) \<le> nonce_of stx"
    "nonce_of stx \<le> saturating_add 64 (nonce_at (signer_of stx)) (sender_count m (signer_of stx))"
    and r: "admit_fresh C now stx (bal_at (signer_of stx)) m = (m', r)"
  shows "P m' \<and> r \<noteq> Inl PoolPanic"
proof (cases "saturating_add 128 (pending_outflow m (signer_of stx)) (stx_outflow stx) \<le> bal_at (signer_of stx)
    \<and> sender_count m (signer_of stx) < mp_max_per_sender m")
  case True
  obtain m1 r1 where a: "auction C (signer_of stx) (tx_weight C stx) (fee_rate (effective_tip stx) (tx_weight C stx))
      (saturating_add 64 (pool_len m) 1) m = (m1, r1)" by force
  note fr = auction_frame [OF okD(1) [OF sound [OF P]] a]
  have reads: "sender_count m1 (signer_of stx) = sender_count m (signer_of stx)"
    "pending_outflow m1 (signer_of stx) = pending_outflow m (signer_of stx)" using keeps_sender_reads fr by blast+
  have "fresh_in C stx m1" using f fr by (auto simp: fresh_in_def keeps_sender_def)
  then have "may_enter C m1 stx (nonce_at (signer_of stx)) (bal_at (signer_of stx))" if "r1 = Inr ()"
    using True n fr that by (auto simp: may_enter_def reads shrinks_def)
  then have "P (admit_ready C now (slot_of stx) (stx_id C stx) stx m1)" if "r1 = Inr ()"
    using enter [OF auction_keeps [OF P a]] that by blast
  then show ?thesis using r True fr auction_keeps [OF P a] unfolding admit_fresh_def Let_def
    by (cases r1) (auto simp: afford_def and_then_def ensure_def a simp del: One_nat_def)
next
  case False
  then show ?thesis using r P by (auto simp: admit_fresh_def afford_def and_then_def ensure_def split: if_splits)
qed

lemma insert_inner_keeps:
  assumes P: "P m" and r: "insert_inner C now stx (nonce_at (signer_of stx)) (bal_at (signer_of stx)) m = (m', r)"
  shows "P m' \<and> r \<noteq> Inl PoolPanic"
proof (cases "verify_signature_mode C stx (mp_mode m) \<and> nonce_at (signer_of stx) \<le> nonce_of stx \<and> bt_get (mp_by_id m) (stx_id C stx) = None")
  case True
  then have guard: "nonce_at (signer_of stx) \<le> nonce_of stx" "bt_get (mp_by_id m) (stx_id C stx) = None" by blast+
  show ?thesis
  proof (cases "bt_get (mp_by_sender m) (slot_of stx)")
    case None
    then have "fresh_in C stx m" using guard by (simp add: fresh_in_def)
    then show ?thesis using r True None admit_fresh_keeps [OF P _ guard(1), of now] insert_queued_keeps [OF P]
      by (auto simp: insert_inner_def bt_contains_def split: if_splits)
  next
    case (Some old_id)
    then show ?thesis using r True replace_ready_keeps [OF P Some guard] by (auto simp: insert_inner_def bt_contains_def)
  qed
qed (use P r in \<open>auto simp: insert_inner_def bt_contains_def split: if_splits\<close>)

lemma promote_keeps: "P m \<Longrightarrow> promote C now s (nonce_at s) (bal_at s) m = (m', r) \<Longrightarrow> P m' \<and> r = Inr ()"
proof (induction "bt_len (mp_queued m)" arbitrary: m rule: less_induct)
  case less
  define k where "k = (s, saturating_add 64 (nonce_at s) (sender_count m s))"
  note run = less.prems(2) [unfolded promote.simps [of C now s "nonce_at s" "bal_at s" m] Let_def, folded k_def]
  show ?case
  proof (cases "bt_get (mp_queued m) k")
    case None
    then show ?thesis using run less.prems(1) by (simp add: remove_queued_def)
  next
    case (Some q)
    define m1 where "m1 = unqueue C k m"
    have rq: "remove_queued C k m = (m1, Some q)" using Some by (simp add: remove_queued_def m1_def)
    have ok: "pool_ok C m" using sound less.prems(1) .
    have s: "signer_of (q_stx q) = s"
      using exactD(2) [OF okD(1) [OF ok]] Some by (auto simp: parked_right_def k_def)
    obtain m2 r2 where i: "insert_inner C now (q_stx q) (nonce_at s) (bal_at s) m1 = (m2, r2)" by force
    have keep: "P m2 \<and> r2 \<noteq> Inl PoolPanic"
      using insert_inner_keeps [OF unpark [OF less.prems(1)], of now "q_stx q"] i by (simp add: s m1_def)
    show ?thesis
    proof (cases r2)
      case (Inl f)
      then obtain e where f: "r2 = Inl (Refuse e)" using keep by (cases f) auto
      have "shrinks (unqueue C k m) m2" by (rule refused_shrinks [OF exact_unqueue [OF okD(1) [OF ok]] i [unfolded f m1_def]])
      then have "P (admit_queued C k q m2)" using parks keep put_back_parks [OF ok Some] by blast
      then show ?thesis using run keep by (simp add: rq i f split: if_splits)
    next
      case (Inr a)
      show ?thesis
      proof (cases a)
        case Ready
        have "bt_len (mp_queued m2) < bt_len (mp_queued m)"
          using remove_queued_shorter [OF rq] insert_ready_queued [OF i [unfolded Inr Ready]] by simp
        moreover have "promote C now s (nonce_at s) (bal_at s) m2 = (m', r)" using run by (simp add: rq i Inr Ready)
        ultimately show ?thesis using less.hyps keep by blast
      qed (use run keep in \<open>auto simp: rq i Inr\<close>)
    qed
  qed
qed

lemma insert_keeps:
  assumes "P m" "mp_insert C now stx (nonce_at (signer_of stx)) (bal_at (signer_of stx)) m = (m', r)"
  shows "P m' \<and> r \<noteq> Inl PoolPanic"
proof -
  obtain m1 r1 where i: "insert_inner C now stx (nonce_at (signer_of stx)) (bal_at (signer_of stx)) m = (m1, r1)" by force
  have keep: "P m1 \<and> r1 \<noteq> Inl PoolPanic" using insert_inner_keeps [OF assms(1) i] .
  obtain m2 r2 where p: "promote C now (signer_of stx) (nonce_at (signer_of stx)) (bal_at (signer_of stx)) m1 = (m2, r2)" by force
  show ?thesis using assms keep promote_keeps [OF _ p]
    by (auto simp: mp_insert_def Let_def i p split: if_splits sum.splits admitted.splits)
qed

lemma promote_each_keeps: "P m \<Longrightarrow> promote_each C now nonce_at bal_at ss m = (m', r) \<Longrightarrow> P m' \<and> r = Inr ()"
proof (induction ss arbitrary: m)
  case (Cons s ss)
  obtain m1 r1 where p: "promote C now s (nonce_at s) (bal_at s) m = (m1, r1)" by force
  have "P m1 \<and> r1 = Inr ()" using promote_keeps [OF Cons.prems(1) p] .
  then show ?case using Cons.IH [of m1] Cons.prems(2) by (simp add: p)
qed simp

lemma restore_keeps: "P m \<Longrightarrow> restore C now nonce_at bal_at stxs m = (m', r) \<Longrightarrow> P m' \<and> r = Inr ()"
proof (induction stxs arbitrary: m)
  case (Cons stx stxs)
  obtain m1 r1 where p: "mp_insert C now stx (nonce_at (signer_of stx)) (bal_at (signer_of stx)) m = (m1, r1)" by force
  have "P m1 \<and> r1 \<noteq> Inl PoolPanic" using insert_keeps [OF Cons.prems(1) p] .
  then have "restore C now nonce_at bal_at stxs m1 = (m', r)" using Cons.prems(2)
    by (auto simp: p split: sum.splits pool_failure.splits)
  then show ?case using Cons.IH \<open>P m1 \<and> _\<close> by blast
qed simp

end

interpretation sound_pool: admission C "pool_ok C" nonce_at bal_at for C nonce_at bal_at
  by unfold_locales (auto intro: ok_drop ok_enter ok_replace ok_unqueue ok_park)

end
