(* ===== verification/MempoolRuns.thy ===== *)
theory MempoolRuns
  imports MempoolSafe
begin

text \<open>
  The pool over its whole life: the maintenance operations keep it sound, admission and pruning keep
  every sender's ready entries one affordable run of nonces that starts at the account's nonce, and
  the block template is drawn from the heads of these runs.
\<close>

section \<open>Maintenance keeps the pool sound\<close>

lemma fold_drop_ok: "pool_ok C m \<Longrightarrow> pool_ok C (fold (mp_drop C) ids m)"
  by (induction ids arbitrary: m) (simp_all add: ok_drop)

lemma retain_fold: "\<exists>ks. retain_queued C keep m = fold (unqueue C) ks m"
proof -
  have "\<exists>ks. fold (\<lambda>(k, q) m. if keep k q then m else unqueue C k m) es m = fold (unqueue C) ks m" for es
  proof (induction es arbitrary: m)
    case (Cons e es)
    obtain k q where e: "e = (k, q)" by (cases e)
    obtain ks where "fold (\<lambda>(k, q) m. if keep k q then m else unqueue C k m) es (if keep k q then m else unqueue C k m)
        = fold (unqueue C) ks (if keep k q then m else unqueue C k m)" using Cons by blast
    then show ?case by (intro exI [of _ "if keep k q then ks else k # ks"]) (simp add: e)
  qed (auto intro: exI [of _ "[]"])
  then show ?thesis by (simp add: retain_queued_def)
qed

lemma fold_unqueue_ready [simp]:
  "mp_by_id (fold (unqueue C) ks m) = mp_by_id m" "mp_by_sender (fold (unqueue C) ks m) = mp_by_sender m"
  by (induction ks arbitrary: m) simp_all

lemma retain_ready [simp]:
  "mp_by_id (retain_queued C keep m) = mp_by_id m" "mp_by_sender (retain_queued C keep m) = mp_by_sender m"
  using retain_fold [of C keep m] by auto

lemma retain_ok: "pool_ok C m \<Longrightarrow> pool_ok C (retain_queued C keep m)"
  using retain_fold [of C keep m] fold_unqueue_ok [of C m] by auto

lemma prune_stale_ok: "pool_ok C m \<Longrightarrow> pool_ok C (prune_stale C f m)"
  by (simp add: prune_stale_def Let_def retain_ok fold_drop_ok)

lemma evict_highest_ok: "pool_ok C m \<Longrightarrow> pool_ok C (evict_highest_nonce C s m)"
  by (simp add: evict_highest_nonce_def ok_drop split: list.split)

lemma fit_balance_ok: "pool_ok C m \<Longrightarrow> pool_ok C (fit_balance C s cap m)"
proof (induction C s cap m rule: fit_balance.induct)
  case (1 C s cap m)
  then show ?case using evict_highest_ok [of C m s] fit_balance.simps [of C s cap m] by (auto simp: Let_def)
qed

lemma fold_fit_ok: "pool_ok C m \<Longrightarrow> pool_ok C (fold (\<lambda>s. fit_balance C s (g s)) ss m)"
  by (induction ss arbitrary: m) (simp_all add: fit_balance_ok)

lemma prune_ok: "pool_ok C m \<Longrightarrow> prune C now f g m = (m', r) \<Longrightarrow> pool_ok C m' \<and> r = Inr ()"
  unfolding prune_def Let_def
  by (rule sound_pool.promote_each_keeps [OF fold_fit_ok [OF prune_stale_ok]])

lemma evict_stranded_ok: "pool_ok C m \<Longrightarrow> pool_ok C (fst (evict_stranded C now f ttl m))"
  by (simp add: evict_stranded_def Let_def retain_ok fold_drop_ok)

lemma remove_pending_ok: "pool_ok C m \<Longrightarrow> pool_ok C (fst (remove_pending C i m))"
proof -
  assume ok: "pool_ok C m"
  obtain m1 r where r: "mp_remove C i m = (m1, r)" by force
  have "pool_ok C m1" using ok_drop [OF ok, of i] by (simp add: r)
  then show ?thesis using ok_unqueue by (auto simp: remove_pending_def r split: option.split prod.split)
qed

lemma with_limits_ok: "pool_ok C (with_limits cap n)"
  by (simp add: pool_ok_def pool_exact_def pool_bounded_def with_limits_def indexes_agree_def same_keys_def parked_right_def
      pool_len_def bt_len_def sender_count_def queued_count_def of_sender_def bt_contains_def default_queued_capacity_def
      MAX_QUEUED_PER_SENDER_def DEFAULT_MAX_POOL_WEIGHT_def)

lemma with_queue_limits_ok:
  "pool_ok C m \<Longrightarrow> mp_queued m = bt_empty \<Longrightarrow> pool_ok C (with_queue_limits a b m)"
  by (simp add: pool_ok_def pool_exact_def pool_bounded_def with_queue_limits_def pool_len_def bt_len_def sender_count_def
      queued_count_def of_sender_def less_max_iff_disj)

lemma setters_ok:
  "pool_ok C m \<Longrightarrow> pool_ok C (set_mode d m)" "pool_ok C m \<Longrightarrow> pool_ok C (set_suite2_active b m)"
  "pool_ok C m \<Longrightarrow> pool_ok C (set_chain_height h m)"
  by (simp_all add: pool_ok_def pool_exact_def pool_bounded_def set_mode_def set_suite2_active_def set_chain_height_def
      pool_len_def sender_count_def queued_count_def)

section \<open>The life of a pool\<close>

inductive pool_reachable :: "'a chain_env_scheme \<Rightarrow> mempool \<Rightarrow> bool" for C where
  start: "pool_reachable C (with_limits cap n)"
| queue_limits: "pool_reachable C (with_queue_limits a b (with_limits cap n))"
| submitted: "pool_reachable C m \<Longrightarrow> mp_insert C now stx n bal m = (m', r) \<Longrightarrow> pool_reachable C m'"
| restored: "pool_reachable C m \<Longrightarrow> restore C now f g stxs m = (m', r) \<Longrightarrow> pool_reachable C m'"
| removed: "pool_reachable C m \<Longrightarrow> pool_reachable C (mp_drop C i m)"
| rejected: "pool_reachable C m \<Longrightarrow> pool_reachable C (fst (remove_pending C i m))"
| stale: "pool_reachable C m \<Longrightarrow> pool_reachable C (prune_stale C f m)"
| pruned: "pool_reachable C m \<Longrightarrow> prune C now f g m = (m', r) \<Longrightarrow> pool_reachable C m'"
| stranded: "pool_reachable C m \<Longrightarrow> pool_reachable C (fst (evict_stranded C now f ttl m))"
| mode: "pool_reachable C m \<Longrightarrow> pool_reachable C (set_mode d m)"
| suite2: "pool_reachable C m \<Longrightarrow> pool_reachable C (set_suite2_active b m)"
| height: "pool_reachable C m \<Longrightarrow> pool_reachable C (set_chain_height h m)"

lemma insert_ok: "pool_ok C m \<Longrightarrow> mp_insert C now stx n bal m = (m', r) \<Longrightarrow> pool_ok C m' \<and> r \<noteq> Inl PoolPanic"
  by (rule sound_pool.insert_keeps [where nonce_at = "\<lambda>_. n" and bal_at = "\<lambda>_. bal"])

lemma pool_reachable_ok: "pool_reachable C m \<Longrightarrow> pool_ok C m"
proof (induction rule: pool_reachable.induct)
  case (queue_limits a b cap n)
  show ?case by (intro with_queue_limits_ok with_limits_ok) (simp add: with_limits_def)
next
  case (submitted m now stx n bal m' r)
  then show ?case using insert_ok by blast
next
  case (restored m now f g stxs m' r)
  then show ?case using sound_pool.restore_keeps by blast
next
  case (pruned m now f g m' r)
  then show ?case using prune_ok by blast
qed (simp_all add: with_limits_ok ok_drop remove_pending_ok prune_stale_ok evict_stranded_ok setters_ok)

section \<open>What a sender's entries move\<close>

definition out_at :: "(hash, signed_transaction) btree_map \<Rightarrow> hash \<Rightarrow> nat" where
  "out_at ids i = (case bt_get ids i of Some stx \<Rightarrow> stx_outflow stx | None \<Rightarrow> 0)"

abbreviation outflow_sum :: "mempool \<Rightarrow> account_id \<Rightarrow> nat" where
  "outflow_sum m s \<equiv> bt_sum (\<lambda>k i. if fst k = s then out_at (mp_by_id m) i else 0) (mp_by_sender m)"

lemma bt_sum_cong: "(\<And>k v. bt_get t k = Some v \<Longrightarrow> f k v = g k v) \<Longrightarrow> bt_sum f t = bt_sum g t"
  unfolding entry_sum_def by (intro arg_cong [of _ _ sum_list] map_cong) (auto simp: bt_entries_iff)

lemma saturated_sum:
  "a \<le> 2 ^ w - 1 \<Longrightarrow> fold (\<lambda>x acc. saturating_add w acc (h x)) zs a = min (a + sum_list (map h zs)) (2 ^ w - 1)"
  by (induction zs arbitrary: a) (auto simp: saturating_add_def add.assoc min_def)

lemma pending_outflow_sum: "pending_outflow m s = min (outflow_sum m s) (2 ^ 128 - 1)"
proof -
  define big where "big = (2 ^ 128 - 1 :: nat)"
  have sat: "saturating_add 128 a x = min (a + x) big" for a x by (simp only: saturating_add_def big_def)
  have step: "fold (\<lambda>(_, i) acc. case bt_get (mp_by_id m) i of None \<Rightarrow> acc | Some stx \<Rightarrow> saturating_add 128 acc (stx_outflow stx)) es a
      = min (a + sum_list (map (\<lambda>(_, i). out_at (mp_by_id m) i) es)) big" if "a \<le> big" for es a
    using that
    by (induction es arbitrary: a) (auto simp: out_at_def sat add.assoc min_def split: option.split)
  have "outflow_sum m s = sum_list (map (\<lambda>(_, i). out_at (mp_by_id m) i) (of_sender (mp_by_sender m) s))"
    by (simp add: of_sender_def entry_sum_def case_prod_unfold sum_list_map_filter')
  then show ?thesis unfolding pending_outflow_def big_def [symmetric] by (subst step) simp_all
qed

lemma outflow_drop:
  assumes e: "pool_exact C m" and i: "bt_get (mp_by_id m) i = Some stx"
  shows "outflow_sum (mp_drop C i m) s + (if signer_of stx = s then stx_outflow stx else 0) = outflow_sum m s"
proof -
  let ?f = "\<lambda>k i. if fst k = s then out_at (mp_by_id m) i else 0"
  note d = drop_present(4,5) [OF e i] and a = exactD(1) [OF e]
  have "outflow_sum (mp_drop C i m) s = bt_sum ?f (bt_remove (slot_of stx) (mp_by_sender m))"
    unfolding d
  proof (rule bt_sum_cong)
    fix k j assume k: "bt_get (bt_remove (slot_of stx) (mp_by_sender m)) k = Some j"
    then have "k \<noteq> slot_of stx" "bt_get (mp_by_sender m) k = Some j" by (auto split: if_splits)
    then have "j \<noteq> i" using agree_slotD [OF a] i by (metis option.inject)
    then show "(if fst k = s then out_at (bt_remove i (mp_by_id m)) j else 0) = ?f k j" by (simp add: out_at_def)
  qed
  moreover have "bt_get (mp_by_sender m) (slot_of stx) = Some i" using agree_byD [OF a i] by blast
  ultimately show ?thesis using bt.sum_del [of ?f "slot_of stx" "mp_by_sender m"] i by (simp add: out_at_def split: if_splits)
qed

lemma outflow_admit:
  assumes e: "pool_exact C m" and f: "fresh_in C stx m"
  shows "outflow_sum (admit_ready C now (slot_of stx) (stx_id C stx) stx m) s
    = outflow_sum m s + (if signer_of stx = s then stx_outflow stx else 0)"
proof -
  let ?f = "\<lambda>k i. if fst k = s then out_at (bt_insert (stx_id C stx) stx (mp_by_id m)) i else 0"
  have "outflow_sum m s = bt_sum ?f (mp_by_sender m)"
  proof (rule bt_sum_cong)
    fix k j assume "bt_get (mp_by_sender m) k = Some j"
    then have "j \<noteq> stx_id C stx" using agree_slotD [OF exactD(1) [OF e]] f by (metis fresh_in_def option.distinct(1))
    then show "(if fst k = s then out_at (mp_by_id m) j else 0) = ?f k j" by (simp add: out_at_def)
  qed
  then show ?thesis using bt.sum_ins [of ?f "slot_of stx" "stx_id C stx" "mp_by_sender m"] f
    unfolding admit_config by (simp add: fresh_in_def out_at_def split: if_splits)
qed

section \<open>Affordable runs\<close>

definition runs :: "(account_id \<Rightarrow> nat) \<Rightarrow> mempool \<Rightarrow> bool" where
  "runs f m \<longleftrightarrow> (\<forall>s n. bt_contains (mp_by_sender m) (s, n) \<longleftrightarrow> f s \<le> n \<and> n < f s + sender_count m s)"

definition affordable :: "(account_id \<Rightarrow> balance) \<Rightarrow> mempool \<Rightarrow> bool" where
  "affordable g m \<longleftrightarrow> (\<forall>s. pending_outflow m s \<le> g s)"

definition run_pool :: "'a chain_env_scheme \<Rightarrow> (account_id \<Rightarrow> nat) \<Rightarrow> (account_id \<Rightarrow> balance) \<Rightarrow> mempool \<Rightarrow> bool" where
  "run_pool C f g m \<longleftrightarrow> pool_ok C m \<and> runs f m \<and> affordable g m"

lemma runs_evict:
  assumes ok: "pool_ok C m" and r: "runs f m" and t: "tail_of m s i"
  shows "runs f (mp_drop C i m)"
proof -
  obtain stx where stx: "bt_get (mp_by_id m) i = Some stx" "signer_of stx = s" "bt_get (mp_by_sender m) (slot_of stx) = Some i"
    and top: "\<And>n j. bt_get (mp_by_sender m) (s, n) = Some j \<Longrightarrow> n \<le> nonce_of stx"
    by (rule tail_entry [OF okD(1) [OF ok] t]) blast
  note d = drop_present [OF okD(1) [OF ok] stx(1)]
  have c: "Suc (sender_count (mp_drop C i m) s) = sender_count m s" using d(3) [of s] stx(2) by simp
  have "bt_contains (mp_by_sender m) (s, f s + sender_count (mp_drop C i m) s)" using r c by (simp add: runs_def)
  then have "f s + sender_count (mp_drop C i m) s \<le> nonce_of stx" using top by (auto simp: bt_contains_def)
  moreover have "f s \<le> nonce_of stx" "nonce_of stx < f s + sender_count m s"
    using r stx unfolding runs_def bt_contains_def by (metis option.distinct(1))+
  ultimately have n: "nonce_of stx = f s + sender_count (mp_drop C i m) s" using c by linarith
  have "bt_contains (mp_by_sender (mp_drop C i m)) (t, k) \<longleftrightarrow> f t \<le> k \<and> k < f t + sender_count (mp_drop C i m) t" for t k
  proof (cases "t = s")
    case True
    then show ?thesis using r n c by (auto simp: runs_def d(5) bt_contains_def stx(2))
  next
    case False
    then have "sender_count (mp_drop C i m) t = sender_count m t" using d(3) [of t] stx(2) by simp
    then show ?thesis using r False by (simp add: runs_def d(5) bt_contains_def stx(2))
  qed
  then show ?thesis by (simp add: runs_def)
qed

lemma runs_enter:
  assumes r: "runs f m" and e: "may_enter C m stx (f (signer_of stx)) bal"
  shows "runs f (admit_ready C now (slot_of stx) (stx_id C stx) stx m)"
proof -
  let ?s = "signer_of stx"
  note e' = e [unfolded may_enter_def]
  have "nonce_of stx \<le> f ?s + sender_count m ?s" using e' by (auto simp: saturating_add_def)
  moreover have "\<not> bt_contains (mp_by_sender m) (slot_of stx)" using e' by (simp add: fresh_in_def bt_contains_def)
  ultimately have n: "nonce_of stx = f ?s + sender_count m ?s" using r e' by (auto simp: runs_def)
  have "sender_count (admit_ready C now (slot_of stx) (stx_id C stx) stx m) t = sender_count m t + of_bool (?s = t)" for t
    using e' of_sender_insert [of "mp_by_sender m" "slot_of stx" "stx_id C stx" t] by (simp add: sender_count_def fresh_in_def)
  then show ?thesis using r n by (auto simp: runs_def bt_contains_def)
qed

lemma runs_replace:
  assumes ok: "pool_ok C m" and r: "runs f m" and e: "may_replace C m old_id old stx n bal"
  shows "runs f (admit_ready C now (slot_of stx) (stx_id C stx) stx (mp_drop C old_id m))"
proof -
  have old: "bt_get (mp_by_id m) old_id = Some old" "slot_of old = slot_of stx" using e by (simp_all add: may_replace_def)
  note d = drop_present [OF okD(1) [OF ok] old(1)]
  have slot: "bt_get (mp_by_sender m) (slot_of stx) = Some old_id" using agree_byD [OF exactD(1) [OF okD(1) [OF ok]] old(1)] old(2) by simp
  have "bt_get (mp_by_sender (mp_drop C old_id m)) (slot_of stx) = None" using old(2) by (simp add: d(5))
  from of_sender_insert [OF this, of "stx_id C stx"]
  have "sender_count (admit_ready C now (slot_of stx) (stx_id C stx) stx (mp_drop C old_id m)) t = sender_count m t" for t
    using d(3) [of t] old(2) by (simp add: sender_count_def)
  then show ?thesis using r slot old(2) by (auto simp: runs_def d(5) bt_contains_def)
qed

lemma affordable_drop: assumes "pool_exact C m" "affordable g m" shows "affordable g (mp_drop C i m)"
proof (cases "bt_get (mp_by_id m) i")
  case (Some stx)
  have "outflow_sum (mp_drop C i m) s \<le> outflow_sum m s" for s using outflow_drop [OF assms(1) Some, of s] by simp
  then show ?thesis using assms(2) unfolding affordable_def pending_outflow_sum by (meson min.mono order_refl order_trans)
qed (use assms in \<open>simp add: drop_absent\<close>)

lemma affordable_enter:
  assumes ok: "pool_ok C m" and g: "affordable g m" and e: "may_enter C m stx n (g (signer_of stx))"
  shows "affordable g (admit_ready C now (slot_of stx) (stx_id C stx) stx m)"
proof -
  define big where "big = (2 ^ 128 - 1 :: nat)"
  have "min (min (outflow_sum m (signer_of stx)) big + stx_outflow stx) big \<le> g (signer_of stx)"
    using e unfolding may_enter_def pending_outflow_sum saturating_add_def big_def by blast
  moreover have "min (outflow_sum m s) big \<le> g s" for s using g by (simp add: affordable_def pending_outflow_sum big_def)
  moreover have "fresh_in C stx m" using e by (simp add: may_enter_def)
  ultimately have "min (outflow_sum m s + (if signer_of stx = s then stx_outflow stx else 0)) big \<le> g s" for s
    by (cases "signer_of stx = s") (auto simp: min_def split: if_splits)
  then show ?thesis unfolding affordable_def pending_outflow_sum outflow_admit [OF okD(1) [OF ok] \<open>fresh_in C stx m\<close>] big_def [symmetric]
    by blast
qed

lemma affordable_replace:
  assumes ok: "pool_ok C m" and g: "affordable g m" and e: "may_replace C m old_id old stx n (g (signer_of stx))"
  shows "affordable g (admit_ready C now (slot_of stx) (stx_id C stx) stx (mp_drop C old_id m))"
proof -
  define big where "big = (2 ^ 128 - 1 :: nat)"
  let ?m = "mp_drop C old_id m"
  have old: "bt_get (mp_by_id m) old_id = Some old" "slot_of old = slot_of stx" using e by (simp_all add: may_replace_def)
  note out = outflow_drop [OF okD(1) [OF ok] old(1)]
    and new = outflow_admit [OF exact_drop [OF okD(1) [OF ok], of old_id] replaced_fresh [OF okD(1) [OF ok] e]]
  have chk: "min (min (outflow_sum m (signer_of stx)) big - stx_outflow old + stx_outflow stx) big \<le> g (signer_of stx)"
    using e unfolding may_replace_def pending_outflow_sum saturating_add_def big_def by blast
  have all: "min (outflow_sum m s) big \<le> g s" for s using g by (simp add: affordable_def pending_outflow_sum big_def)
  have "min (outflow_sum ?m s + (if signer_of stx = s then stx_outflow stx else 0)) big \<le> g s" for s
    using out [of s] old(2) chk all [of s] by (cases "signer_of stx = s") (auto simp: min_def split: if_splits)
  then show ?thesis unfolding affordable_def pending_outflow_sum new big_def [symmetric] by blast
qed

lemma run_pool_cong:
  "pool_ok C m' \<Longrightarrow> mp_by_id m' = mp_by_id m \<Longrightarrow> mp_by_sender m' = mp_by_sender m \<Longrightarrow> run_pool C f g m \<Longrightarrow> run_pool C f g m'"
  by (simp add: run_pool_def runs_def affordable_def sender_count_def pending_outflow_def)

lemma admit_queued_ready [simp]: "mp_by_id (admit_queued C k q m) = mp_by_id m" "mp_by_sender (admit_queued C k q m) = mp_by_sender m"
  by (simp_all add: admit_queued_def)

interpretation run_admission: admission C "run_pool C f g" f g for C f g
proof unfold_locales
  fix m assume P: "run_pool C f g m"
  then have parts: "pool_ok C m" "runs f m" "affordable g m" by (simp_all add: run_pool_def)
  show "pool_ok C m" by (rule parts)
  show "run_pool C f g (mp_drop C i m)" if "tail_of m s i" for s i
    unfolding run_pool_def
    by (intro conjI ok_drop [OF parts(1)] runs_evict [OF parts(1,2) that] affordable_drop [OF okD(1) [OF parts(1)] parts(3)])
  show "run_pool C f g (admit_ready C now (slot_of stx) (stx_id C stx) stx m)"
    if "may_enter C m stx (f (signer_of stx)) (g (signer_of stx))" for stx now
    unfolding run_pool_def
    by (intro conjI ok_enter [OF parts(1) that] runs_enter [OF parts(2) that] affordable_enter [OF parts(1,3) that])
  show "run_pool C f g (admit_ready C now (slot_of stx) (stx_id C stx) stx (mp_drop C old_id m))"
    if "may_replace C m old_id old stx (f (signer_of stx)) (g (signer_of stx))" for old_id old stx now
    unfolding run_pool_def
    by (intro conjI ok_replace [OF parts(1) that] runs_replace [OF parts(1,2) that] affordable_replace [OF parts(1,3) that])
  show "run_pool C f g (unqueue C k m)" for k by (rule run_pool_cong [OF ok_unqueue [OF parts(1)] _ _ P]) simp_all
  show "run_pool C f g (admit_queued C k q m)" if "may_park C m k q" for k q
    by (rule run_pool_cong [OF ok_park [OF parts(1) that] _ _ P]) simp_all
qed

section \<open>Pruning restores the runs after the state moved\<close>

definition runs_above :: "(account_id \<Rightarrow> nat) \<Rightarrow> mempool \<Rightarrow> bool" where
  "runs_above f m \<longleftrightarrow> (\<forall>s. \<exists>e. \<forall>n. f s \<le> n \<longrightarrow> (bt_contains (mp_by_sender m) (s, n) \<longleftrightarrow> n < e))"

lemma runs_advance: "runs f m \<Longrightarrow> (\<And>s. f s \<le> f' s) \<Longrightarrow> runs_above f' m"
  unfolding runs_def runs_above_def by (meson order_trans)

lemma runs_above_drop:
  assumes "pool_exact C m" "runs_above f m" "\<And>stx. bt_get (mp_by_id m) i = Some stx \<Longrightarrow> nonce_of stx < f (signer_of stx)"
  shows "runs_above f (mp_drop C i m)"
proof (cases "bt_get (mp_by_id m) i")
  case (Some stx)
  have "bt_contains (mp_by_sender (mp_drop C i m)) (s, n) = bt_contains (mp_by_sender m) (s, n)" if "f s \<le> n" for s n
    using assms(3) [OF Some] that by (auto simp: drop_present(5) [OF assms(1) Some] bt_contains_def)
  then show ?thesis using assms(2) by (simp add: runs_above_def)
qed (use assms in \<open>simp add: drop_absent\<close>)

lemma contiguous_count:
  assumes "\<And>n. bt_contains t (s, n) \<longleftrightarrow> a \<le> n \<and> n < e"
  shows "length (of_sender t s) = e - a"
proof -
  have "set (map fst (of_sender t s)) = Pair s ` {a..<e}"
    using assms by (auto simp: of_sender_iff bt_contains_def image_iff) (metis fst_conv of_sender_iff)+
  moreover have "distinct (map fst (of_sender t s))" by (rule sorted_keys_distinct [OF of_sender_sorted])
  ultimately have "length (of_sender t s) = card (Pair s ` {a..<e})" by (metis distinct_card length_map)
  then show ?thesis by (simp add: card_image inj_on_def)
qed

lemma runs_above_drops:
  "pool_exact C m \<Longrightarrow> runs_above f m \<Longrightarrow> (\<And>i stx. i \<in> set ids \<Longrightarrow> bt_get (mp_by_id m) i = Some stx \<Longrightarrow> nonce_of stx < f (signer_of stx))
     \<Longrightarrow> runs_above f (fold (mp_drop C) ids m)"
proof (induction ids arbitrary: m)
  case (Cons i ids)
  have "runs_above f (mp_drop C i m)" using Cons.prems(1,2) by (rule runs_above_drop) (rule Cons.prems(3), simp_all)
  moreover have "nonce_of stx < f (signer_of stx)" if "j \<in> set ids" "bt_get (mp_by_id (mp_drop C i m)) j = Some stx" for j stx
    using Cons.prems(3) [of j stx] that by (auto simp: mp_remove_def split: option.splits if_splits)
  ultimately show ?case using Cons.IH exact_drop [OF Cons.prems(1)] by simp
qed simp

lemma drop_gone: "pool_exact C m \<Longrightarrow> bt_get (mp_by_sender m) k = Some i \<Longrightarrow> bt_get (mp_by_sender (mp_drop C i m)) k = None"
  by (erule agree_slotD [OF exactD(1)]) (auto simp: mp_remove_def)

lemma drop_sender_mono: "bt_get (mp_by_sender (mp_drop C i m)) k = Some j \<Longrightarrow> bt_get (mp_by_sender m) k = Some j"
  by (auto simp: mp_remove_def split: option.splits if_splits)

lemma drops_sender_mono: "bt_get (mp_by_sender (fold (mp_drop C) ids m)) k = Some j \<Longrightarrow> bt_get (mp_by_sender m) k = Some j"
  by (induction ids arbitrary: m) (auto dest: drop_sender_mono)

lemma drops_gone:
  "pool_exact C m \<Longrightarrow> bt_get (mp_by_sender m) k = Some i \<Longrightarrow> i \<in> set ids \<Longrightarrow> bt_get (mp_by_sender (fold (mp_drop C) ids m)) k = None"
proof (induction ids arbitrary: m)
  case (Cons j ids)
  show ?case
  proof (cases "bt_get (mp_by_sender (mp_drop C j m)) k")
    case None
    then show ?thesis using drops_sender_mono [of C ids "mp_drop C j m" k] by (cases "bt_get (mp_by_sender (fold (mp_drop C) ids (mp_drop C j m))) k") auto
  next
    case (Some x)
    then have "x = i" "i \<noteq> j" using drop_sender_mono [OF Some] Cons.prems(2) drop_gone [OF Cons.prems(1,2)] by auto
    then show ?thesis using Cons Some exact_drop [OF Cons.prems(1)] by simp
  qed
qed simp

lemma prune_stale_runs:
  assumes ok: "pool_ok C m" and r: "runs_above f m"
  shows "runs f (prune_stale C f m)"
proof -
  define stale where "stale = map snd (filter (\<lambda>((s, n), _). n < f s) (bt_entries (mp_by_sender m)))"
  define m' where "m' = fold (mp_drop C) stale m"
  have stale: "i \<in> set stale \<longleftrightarrow> (\<exists>s n. bt_get (mp_by_sender m) (s, n) = Some i \<and> n < f s)" for i
    by (auto simp: stale_def bt_entries_iff image_iff)
  have low: "nonce_of stx < f (signer_of stx)" if i: "i \<in> set stale" "bt_get (mp_by_id m) i = Some stx" for i stx
  proof -
    obtain s n where sn: "bt_get (mp_by_sender m) (s, n) = Some i" "n < f s" using i(1) stale by blast
    obtain stx' where "bt_get (mp_by_id m) i = Some stx'" "slot_of stx' = (s, n)"
      using agree_slotD [OF exactD(1) [OF okD(1) [OF ok]] sn(1)] by metis
    then show ?thesis using i(2) sn(2) by auto
  qed
  have above: "runs_above f m'" unfolding m'_def by (rule runs_above_drops [OF okD(1) [OF ok] r low])
  have none: "\<not> bt_contains (mp_by_sender m') (s, n)" if "n < f s" for s n
  proof
    assume "bt_contains (mp_by_sender m') (s, n)"
    then obtain i where i: "bt_get (mp_by_sender m') (s, n) = Some i" by (auto simp: bt_contains_def)
    then have "bt_get (mp_by_sender m) (s, n) = Some i" unfolding m'_def by (rule drops_sender_mono)
    moreover from this have "i \<in> set stale" using that stale by blast
    ultimately show False using i drops_gone [OF okD(1) [OF ok]] unfolding m'_def by fastforce
  qed
  have "bt_contains (mp_by_sender m') (s, n) \<longleftrightarrow> f s \<le> n \<and> n < f s + sender_count m' s" for s n
  proof -
    obtain e where e: "\<And>n. f s \<le> n \<Longrightarrow> bt_contains (mp_by_sender m') (s, n) \<longleftrightarrow> n < e" using above unfolding runs_above_def by blast
    have iff: "bt_contains (mp_by_sender m') (s, n) \<longleftrightarrow> f s \<le> n \<and> n < e" for n using e none not_le by blast
    have "sender_count m' s = e - f s" using contiguous_count [OF iff] by (simp add: sender_count_def)
    then show ?thesis using iff [of n] by auto
  qed
  then have "runs f m'" by (simp add: runs_def)
  moreover have "prune_stale C f m = retain_queued C (\<lambda>(s, n) _. f s \<le> n) m'"
    by (simp only: prune_stale_def Let_def stale_def m'_def)
  ultimately show ?thesis by (simp add: runs_def sender_count_def)
qed

section \<open>Fitting a sender's run to its balance\<close>

lemma tail_exists: "sender_count m s \<noteq> 0 \<Longrightarrow> \<exists>k i r. rev (of_sender (mp_by_sender m) s) = (k, i) # r"
  by (cases "rev (of_sender (mp_by_sender m) s)") (auto simp: sender_count_def)

lemma no_entries_no_outflow: "sender_count m s = 0 \<Longrightarrow> pending_outflow m s = 0"
  by (simp add: sender_count_def pending_outflow_def)

lemma evict_tail:
  assumes "pool_ok C m" "sender_count m s \<noteq> 0"
  obtains i where "tail_of m s i" "evict_highest_nonce C s m = mp_drop C i m" "pool_len (mp_drop C i m) < pool_len m"
proof -
  obtain k i r where t: "rev (of_sender (mp_by_sender m) s) = (k, i) # r" using tail_exists [OF assms(2)] by blast
  then have tail: "tail_of m s i" by (auto simp: tail_of_def)
  obtain stx where "bt_get (mp_by_id m) i = Some stx" by (rule tail_entry [OF okD(1) [OF assms(1)] tail]) 
  then have "pool_len (mp_drop C i m) < pool_len m" using drop_present(1) [OF okD(1) [OF assms(1)]] by (metis lessI)
  then show thesis using that tail t by (simp add: evict_highest_nonce_def)
qed

lemma drop_outflow_le: "pool_exact C m \<Longrightarrow> pending_outflow (mp_drop C i m) t \<le> pending_outflow m t"
  using affordable_drop [of C m "pending_outflow m" i] by (simp add: affordable_def)

lemma fit_balance_keeps:
  "pool_ok C m \<Longrightarrow> runs f m \<Longrightarrow> runs f (fit_balance C s cap m) \<and> pending_outflow (fit_balance C s cap m) s \<le> cap
     \<and> (\<forall>t. pending_outflow (fit_balance C s cap m) t \<le> pending_outflow m t)"
proof (induction "pool_len m" arbitrary: m rule: less_induct)
  case less
  show ?case
  proof (cases "cap < pending_outflow m s")
    case True
    then have "sender_count m s \<noteq> 0" using no_entries_no_outflow [of m s] by auto
    from evict_tail [OF less.prems(1) this] obtain i where i: "tail_of m s i" "evict_highest_nonce C s m = mp_drop C i m"
      "pool_len (mp_drop C i m) < pool_len m" .
    then have step: "fit_balance C s cap m = fit_balance C s cap (mp_drop C i m)"
      using True by (subst fit_balance.simps) (simp add: Let_def)
    from less.hyps [OF i(3) ok_drop [OF less.prems(1)] runs_evict [OF less.prems i(1)]] show ?thesis
      using drop_outflow_le [OF okD(1) [OF less.prems(1)]] unfolding step by (meson order_trans)
  next
    case False
    then have "fit_balance C s cap m = m" by (subst fit_balance.simps) simp
    then show ?thesis using less.prems(2) False by simp
  qed
qed

lemma fold_fit_keeps:
  assumes "pool_ok C m" "runs f m"
  shows "runs f (fold (\<lambda>s. fit_balance C s (g s)) ss m)
    \<and> (\<forall>t. pending_outflow (fold (\<lambda>s. fit_balance C s (g s)) ss m) t \<le> pending_outflow m t)
    \<and> (\<forall>t \<in> set ss. pending_outflow (fold (\<lambda>s. fit_balance C s (g s)) ss m) t \<le> g t)"
  using assms
proof (induction ss arbitrary: m)
  case (Cons s ss)
  let ?m = "fit_balance C s (g s) m"
  have "pool_ok C ?m" "runs f ?m" "pending_outflow ?m s \<le> g s" "\<And>t. pending_outflow ?m t \<le> pending_outflow m t"
    using fit_balance_ok [OF Cons.prems(1)] fit_balance_keeps [OF Cons.prems] by blast+
  with Cons.IH [of ?m] show ?case by (auto intro: order_trans)
qed simp

lemma prune_runs:
  assumes ok: "pool_ok C m" and r: "runs_above f m" and p: "prune C now f g m = (m', x)"
  shows "run_pool C f g m' \<and> x = Inr ()"
proof -
  let ?m1 = "prune_stale C f m"
  let ?m2 = "fold (\<lambda>s. fit_balance C s (g s)) (senders (mp_by_sender ?m1)) ?m1"
  note m1 = prune_stale_ok [OF ok, of f] prune_stale_runs [OF ok r]
  note fit = fold_fit_keeps [OF m1, of g "senders (mp_by_sender ?m1)"]
  have "pending_outflow ?m2 t \<le> g t" for t
  proof (cases "t \<in> set (senders (mp_by_sender ?m1))")
    case False
    then have "pending_outflow ?m1 t = 0" by (intro no_entries_no_outflow) (simp add: senders_iff sender_count_def)
    then show ?thesis using fit by (metis le_zero_eq zero_le)
  qed (use fit in blast)
  then have "run_pool C f g ?m2" using fit fold_fit_ok [OF m1(1)] by (simp add: run_pool_def affordable_def)
  then show ?thesis using p run_admission.promote_each_keeps unfolding prune_def Let_def by blast
qed

section \<open>A pool that follows the account state\<close>

inductive pool_history :: "'a chain_env_scheme \<Rightarrow> (account_id \<Rightarrow> nat) \<Rightarrow> (account_id \<Rightarrow> balance) \<Rightarrow> mempool \<Rightarrow> bool" for C where
  opened: "pool_history C f g (with_limits cap n)"
| submit: "pool_history C f g m \<Longrightarrow> mp_insert C now stx (f (signer_of stx)) (g (signer_of stx)) m = (m', r) \<Longrightarrow> pool_history C f g m'"
| reload: "pool_history C f g m \<Longrightarrow> restore C now f g stxs m = (m', r) \<Longrightarrow> pool_history C f g m'"
| commit: "pool_history C f g m \<Longrightarrow> (\<And>s. f s \<le> f' s)
    \<Longrightarrow> (\<And>i stx. i \<in> set ids \<Longrightarrow> bt_get (mp_by_id m) i = Some stx \<Longrightarrow> nonce_of stx < f' (signer_of stx))
    \<Longrightarrow> prune C now f' g' (fold (mp_drop C) ids m) = (m', r) \<Longrightarrow> pool_history C f' g' m'"
| tick: "pool_history C f g m \<Longrightarrow> (\<And>s. f s + sender_count m s < 2 ^ 64) \<Longrightarrow> pool_history C f g (fst (evict_stranded C now f ttl m))"
| retune: "pool_history C f g m \<Longrightarrow> pool_history C f g (set_chain_height h (set_suite2_active b (set_mode d m)))"

lemma gap_of_run:
  assumes r: "runs f m" and b: "f s + sender_count m s < 2 ^ 64"
  shows "gap_from m s (Suc (sender_count m s)) (f s) = f s + sender_count m s"
proof -
  have "j \<le> sender_count m s \<Longrightarrow> gap_from m s (Suc j) (f s + sender_count m s - j) = f s + sender_count m s" for j
  proof (induction j)
    case 0
    then show ?case using r by (simp add: runs_def)
  next
    case (Suc j)
    have "bt_contains (mp_by_sender m) (s, f s + sender_count m s - Suc j)" using r Suc.prems by (simp add: runs_def)
    moreover have "(f s + sender_count m s - Suc j + 1) mod 2 ^ 64 = f s + sender_count m s - j" using b Suc.prems by simp
    ultimately show ?case using Suc by (simp del: power_numeral)
  qed
  from this [of "sender_count m s"] show ?thesis by simp
qed

lemma nothing_stranded:
  assumes r: "runs f m" and b: "f s + sender_count m s < 2 ^ 64"
  shows "stranded_of f now ttl m s = []"
proof -
  have "\<not> f s + sender_count m s \<le> n" if "((s', n), i) \<in> set (of_sender (mp_by_sender m) s)" for s' n i
  proof -
    have "bt_contains (mp_by_sender m) (s, n)" using that by (auto simp: of_sender_iff bt_contains_def)
    then show ?thesis using r by (simp add: runs_def)
  qed
  then show ?thesis unfolding stranded_of_def gap_of_run [OF r b] Let_def by (auto simp: filter_empty_conv)
qed

lemma stranded_keeps_ready:
  assumes r: "runs f m" and b: "\<And>s. f s + sender_count m s < 2 ^ 64"
  shows "mp_by_id (fst (evict_stranded C now f ttl m)) = mp_by_id m" "mp_by_sender (fst (evict_stranded C now f ttl m)) = mp_by_sender m"
proof -
  have "map (stranded_of f now ttl m) ss = replicate (length ss) []" for ss
    using nothing_stranded [OF r b] by (induction ss) simp_all
  then show "mp_by_id (fst (evict_stranded C now f ttl m)) = mp_by_id m" "mp_by_sender (fst (evict_stranded C now f ttl m)) = mp_by_sender m"
    by (simp_all add: evict_stranded_def Let_def)
qed

lemma run_pool_opened: "run_pool C f g (with_limits cap n)"
  unfolding run_pool_def
  by (intro conjI with_limits_ok) (simp_all add: runs_def affordable_def with_limits_def sender_count_def of_sender_def
      pending_outflow_def bt_contains_def)

lemma history_run_pool: "pool_history C f g m \<Longrightarrow> run_pool C f g m"
proof (induction rule: pool_history.induct)
  case (opened f g cap n)
  show ?case by (rule run_pool_opened)
next
  case (submit f g m now stx m' r)
  then show ?case using run_admission.insert_keeps by blast
next
  case (reload f g m now stxs m' r)
  then show ?case using run_admission.restore_keeps by blast
next
  case (commit f g m f' ids now g' m' r)
  have ok: "pool_ok C m" "runs f m" using commit.IH by (simp_all add: run_pool_def)
  have "runs_above f' (fold (mp_drop C) ids m)"
    by (rule runs_above_drops [OF okD(1) [OF ok(1)] runs_advance [OF ok(2) commit.hyps(2)] commit.hyps(3)])
  then show ?case using prune_runs [OF fold_drop_ok [OF ok(1)] _ commit.hyps(4)] by blast
next
  case (tick f g m now ttl)
  have ok: "pool_ok C m" "runs f m" using tick.IH by (simp_all add: run_pool_def)
  show ?case by (rule run_pool_cong [OF evict_stranded_ok [OF ok(1)] stranded_keeps_ready [OF ok(2) tick.hyps(2)] tick.IH])
next
  case (retune f g m h b d)
  then have ok: "pool_ok C m" by (simp add: run_pool_def)
  show ?case by (rule run_pool_cong [OF setters_ok(3) [OF setters_ok(2) [OF setters_ok(1) [OF ok]]] _ _ retune.IH])
    (simp_all add: set_mode_def set_suite2_active_def set_chain_height_def)
qed

end
