(* ===== verification/Template.thy ===== *)
theory Template
  imports MempoolRuns Sample
begin

text \<open>
  The block template that \<open>Mempool::select\<close> draws from the pool, and the properties of the pool: its
  soundness through any sequence of operations, the affordable gap-free runs it keeps while it
  follows the account state, and the auction order of the template.
\<close>

section \<open>The greedy merge of the runs\<close>

definition queue_of :: "(account_id \<times> signed_transaction list) list \<Rightarrow> account_id \<Rightarrow> signed_transaction list" where
  "queue_of qs s = (case map_of qs s of Some q \<Rightarrow> q | None \<Rightarrow> [])"

definition queues_ok :: "(account_id \<times> signed_transaction list) list \<Rightarrow> bool" where
  "queues_ok qs \<longleftrightarrow> sorted_wrt (<) (map fst qs) \<and> (\<forall>(s, q) \<in> set qs. q \<noteq> [] \<and> (\<forall>stx \<in> set q. signer_of stx = s))"

lemma top_bid_snoc:
  "top_bid (qs @ [(s, q)]) = (case top_bid qs of None \<Rightarrow> Some (s, effective_tip (hd q))
     | Some (w, t) \<Rightarrow> if t < effective_tip (hd q) then Some (s, effective_tip (hd q)) else Some (w, t))"
  by (simp add: top_bid_def Let_def split: option.split)

lemma top_bid_greatest:
  assumes "qs \<noteq> []" "sorted_wrt (<) (map fst qs)"
  shows "\<exists>w q. top_bid qs = Some (w, effective_tip (hd q)) \<and> (w, q) \<in> set qs
    \<and> (\<forall>(s, p) \<in> set qs. effective_tip (hd p) < effective_tip (hd q) \<or> (effective_tip (hd p) = effective_tip (hd q) \<and> w \<le> s))"
  using assms
proof (induction qs rule: rev_induct)
  case (snoc x qs)
  obtain s p where x: "x = (s, p)" by (cases x)
  show ?case
  proof (cases "qs = []")
    case True
    then show ?thesis by (simp add: x top_bid_def)
  next
    case False
    then obtain w q where w: "top_bid qs = Some (w, effective_tip (hd q))" "(w, q) \<in> set qs"
      and best: "\<forall>(s, p) \<in> set qs. effective_tip (hd p) < effective_tip (hd q) \<or> (effective_tip (hd p) = effective_tip (hd q) \<and> w \<le> s)"
      using snoc by (auto simp: sorted_wrt_append)
    have "w \<le> s" using snoc.prems(2) w(2) by (auto simp: x sorted_wrt_append intro: less_imp_le)
    show ?thesis
    proof (cases "effective_tip (hd q) < effective_tip (hd p)")
      case True
      then have "top_bid (qs @ [x]) = Some (s, effective_tip (hd p))" by (simp add: x top_bid_snoc w(1))
      moreover have "\<forall>(t, r) \<in> set qs. effective_tip (hd r) < effective_tip (hd p)" using best True by (auto dest: bspec)
      ultimately show ?thesis by (intro exI [of _ s] exI [of _ p]) (auto simp: x)
    next
      case False
      then have "top_bid (qs @ [x]) = Some (w, effective_tip (hd q))" by (simp add: x top_bid_snoc w(1))
      then show ?thesis using w(2) best False \<open>w \<le> s\<close> by (intro exI [of _ w] exI [of _ q]) (auto simp: x not_less le_less)
    qed
  qed
qed simp

lemma pop_queue_spec:
  assumes "queues_ok qs" "(w, q) \<in> set qs"
  shows "fst (pop_queue w qs) = [hd q] \<and> queues_ok (snd (pop_queue w qs))
    \<and> queue_of (snd (pop_queue w qs)) = (queue_of qs)(w := tl q) \<and> fst ` set (snd (pop_queue w qs)) \<subseteq> fst ` set qs"
  using assms
proof (induction w qs rule: pop_queue.induct)
  case (2 w s p qs)
  have sorted: "\<forall>t \<in> fst ` set qs. s < t" and ok: "queues_ok qs" "p \<noteq> []" "\<forall>stx \<in> set p. signer_of stx = s"
    using "2.prems"(1) by (auto simp: queues_ok_def)
  show ?case
  proof (cases "s = w")
    case True
    then have "p = q" using "2.prems"(2) sorted by force
    moreover have "map_of qs w = None" using sorted True by (auto simp: map_of_eq_None_iff)
    ultimately show ?thesis using True ok sorted by (auto simp: queues_ok_def queue_of_def fun_eq_iff dest: list.set_sel(2))
  next
    case False
    then have "(w, q) \<in> set qs" using "2.prems"(2) by auto
    note IH = "2.IH" [OF False ok(1) this]
    have "queues_ok ((s, p) # snd (pop_queue w qs))" using IH ok sorted by (fastforce simp: queues_ok_def)
    moreover have "queue_of ((s, p) # snd (pop_queue w qs)) = (queue_of ((s, p) # qs))(w := tl q)"
      using IH False by (auto simp: queue_of_def fun_eq_iff)
    moreover have "pop_queue w ((s, p) # qs) = (fst (pop_queue w qs), (s, p) # snd (pop_queue w qs))"
      using False by (simp add: map_prod_def case_prod_unfold)
    ultimately show ?thesis using IH by (simp del: pop_queue.simps) blast
  qed
qed simp

definition greedy :: "(account_id \<Rightarrow> signed_transaction list) \<Rightarrow> signed_transaction list \<Rightarrow> bool" where
  "greedy Q out \<longleftrightarrow> (\<forall>i < length out. \<forall>s. let k = length (filter (\<lambda>x. signer_of x = s) (take i out)) in
     k < length (Q s) \<longrightarrow> effective_tip (Q s ! k) < effective_tip (out ! i)
       \<or> (effective_tip (Q s ! k) = effective_tip (out ! i) \<and> signer_of (out ! i) \<le> s))"

lemma greedy_Cons:
  assumes "\<forall>s. Q s \<noteq> [] \<longrightarrow> effective_tip (hd (Q s)) < effective_tip x \<or> (effective_tip (hd (Q s)) = effective_tip x \<and> signer_of x \<le> s)"
    and "Q (signer_of x) = x # q" "greedy (Q(signer_of x := q)) out"
  shows "greedy Q (x # out)"
  unfolding greedy_def
proof (intro allI impI)
  fix i s assume i: "i < length (x # out)"
  show "let k = length (filter (\<lambda>x. signer_of x = s) (take i (x # out))) in k < length (Q s) \<longrightarrow>
      effective_tip (Q s ! k) < effective_tip ((x # out) ! i)
      \<or> (effective_tip (Q s ! k) = effective_tip ((x # out) ! i) \<and> signer_of ((x # out) ! i) \<le> s)"
  proof (cases i)
    case 0
    then show ?thesis using assms(1) by (auto simp: hd_conv_nth)
  next
    case (Suc j)
    then have "j < length out" using i by simp
    with assms(3) have "let k = length (filter (\<lambda>x. signer_of x = s) (take j out)) in k < length ((Q(signer_of x := q)) s) \<longrightarrow>
        effective_tip ((Q(signer_of x := q)) s ! k) < effective_tip (out ! j)
        \<or> (effective_tip ((Q(signer_of x := q)) s ! k) = effective_tip (out ! j) \<and> signer_of (out ! j) \<le> s)"
      unfolding greedy_def by blast
    then show ?thesis using assms(2) Suc by (cases "s = signer_of x") (auto simp: Let_def)
  qed
qed

lemma fill_template_spec:
  assumes "queues_ok qs"
  shows "length (fill_template n qs) \<le> n \<and> greedy (queue_of qs) (fill_template n qs)
    \<and> (\<forall>s. \<exists>k. filter (\<lambda>x. signer_of x = s) (fill_template n qs) = take k (queue_of qs s))
    \<and> (length (fill_template n qs) < n \<longrightarrow> (\<forall>s. filter (\<lambda>x. signer_of x = s) (fill_template n qs) = queue_of qs s))"
  using assms
proof (induction n arbitrary: qs)
  case 0
  then show ?case by (auto simp: greedy_def intro: exI [of _ 0])
next
  case (Suc n)
  show ?case
  proof (cases "qs = []")
    case True
    then show ?thesis by (simp add: top_bid_def greedy_def queue_of_def)
  next
    case False
    have sorted: "sorted_wrt (<) (map fst qs)" using Suc.prems by (simp add: queues_ok_def)
    obtain w q where w: "top_bid qs = Some (w, effective_tip (hd q))" "(w, q) \<in> set qs"
      and best: "\<forall>(s, p) \<in> set qs. effective_tip (hd p) < effective_tip (hd q) \<or> (effective_tip (hd p) = effective_tip (hd q) \<and> w \<le> s)"
      using top_bid_greatest [OF False sorted] by blast
    have q: "q \<noteq> []" "signer_of (hd q) = w" using Suc.prems w(2) by (auto simp: queues_ok_def)
    have Qw: "queue_of qs w = hd q # tl q"
      using w(2) q(1) sorted_keys_distinct [OF sorted] by (simp add: queue_of_def)
    have heads: "\<forall>s. queue_of qs s \<noteq> [] \<longrightarrow> effective_tip (hd (queue_of qs s)) < effective_tip (hd q)
        \<or> (effective_tip (hd (queue_of qs s)) = effective_tip (hd q) \<and> w \<le> s)"
      using best by (fastforce simp: queue_of_def split: option.splits dest: map_of_SomeD)
    define rest where "rest = snd (pop_queue w qs)"
    note pop = pop_queue_spec [OF Suc.prems w(2), folded rest_def]
    have out: "fill_template (Suc n) qs = hd q # fill_template n rest" using w(1) pop by (simp add: rest_def)
    note IH = Suc.IH [of rest]
    have Q: "queue_of rest = (queue_of qs)(w := tl q)" "queues_ok rest" using pop by blast+
    have greedy: "greedy (queue_of qs) (hd q # fill_template n rest)"
      by (rule greedy_Cons [of "queue_of qs" "hd q" "tl q" "fill_template n rest", unfolded q(2), OF heads Qw])
        (use IH Q in metis)
    have "\<exists>k. filter (\<lambda>x. signer_of x = s) (hd q # fill_template n rest) = take k (queue_of qs s)" for s
    proof -
      obtain k where "filter (\<lambda>x. signer_of x = s) (fill_template n rest) = take k (queue_of rest s)" using IH Q(2) by blast
      then show ?thesis using Q(1) q(2) Qw by (cases "s = w") (auto intro: exI [of _ "Suc k"] exI [of _ k])
    qed
    moreover have "filter (\<lambda>x. signer_of x = s) (hd q # fill_template n rest) = queue_of qs s" if "length (fill_template n rest) < n" for s
      using that IH Q q(2) Qw by (cases "s = w") auto
    ultimately show ?thesis using greedy IH Q(2) unfolding out by auto
  qed
qed

section \<open>The runs of the pool\<close>

definition entry_at :: "mempool \<Rightarrow> slot \<Rightarrow> signed_transaction" where
  "entry_at m k = the (bt_get (mp_by_id m) (the (bt_get (mp_by_sender m) k)))"

text \<open>The nonces of a sender that are pooled without a gap from the account's nonce on, and the
  transactions that hold them.  A transaction is mineable when no nonce before its own is missing.\<close>

definition run_len :: "(account_id \<Rightarrow> nat) \<Rightarrow> mempool \<Rightarrow> account_id \<Rightarrow> nat" where
  "run_len f m s = (LEAST k. \<not> bt_contains (mp_by_sender m) (s, f s + k))"

definition run_of :: "(account_id \<Rightarrow> nat) \<Rightarrow> mempool \<Rightarrow> account_id \<Rightarrow> signed_transaction list" where
  "run_of f m s = map (\<lambda>n. entry_at m (s, n)) [f s..<f s + run_len f m s]"

definition mineable :: "(account_id \<Rightarrow> nat) \<Rightarrow> mempool \<Rightarrow> signed_transaction \<Rightarrow> bool" where
  "mineable f m stx = (f (signer_of stx) \<le> nonce_of stx
     \<and> list_all (\<lambda>n. bt_contains (mp_by_sender m) (signer_of stx, n)) [f (signer_of stx)..<nonce_of stx])"

lemma run_len_facts:
  shows run_len_in: "k < run_len f m s \<Longrightarrow> bt_contains (mp_by_sender m) (s, f s + k)"
    and run_len_out: "\<not> bt_contains (mp_by_sender m) (s, f s + run_len f m s)"
    and run_len_le: "run_len f m s \<le> sender_count m s"
proof -
  have "\<exists>k \<le> sender_count m s. \<not> bt_contains (mp_by_sender m) (s, f s + k)"
  proof (rule ccontr)
    assume "\<not> ?thesis"
    then have all: "bt_contains (mp_by_sender m) (s, f s + k)" if "k \<le> sender_count m s" for k using that by blast
    have "(s, n) \<in> fst ` set (of_sender (mp_by_sender m) s)" if "n \<in> {f s..f s + sender_count m s}" for n
    proof -
      have "n = f s + (n - f s)" "n - f s \<le> sender_count m s" using that by (simp_all add: le_diff_conv add.commute)
      then obtain v where "bt_get (mp_by_sender m) (s, n) = Some v" using all unfolding bt_contains_def by (metis not_None_eq)
      then have "((s, n), v) \<in> set (of_sender (mp_by_sender m) s)" by (simp add: of_sender_iff)
      then show ?thesis by force
    qed
    then have "Pair s ` {f s..f s + sender_count m s} \<subseteq> fst ` set (of_sender (mp_by_sender m) s)" by blast
    then have "card (Pair s ` {f s..f s + sender_count m s}) \<le> card (fst ` set (of_sender (mp_by_sender m) s))"
      by (intro card_mono) simp_all
    also have "\<dots> \<le> sender_count m s"
      unfolding sender_count_def by (metis card_image_le card_length finite_set le_trans)
    finally show False by (simp add: card_image inj_on_def)
  qed
  then obtain k where k: "k \<le> sender_count m s" "\<not> bt_contains (mp_by_sender m) (s, f s + k)" by blast
  show "\<not> bt_contains (mp_by_sender m) (s, f s + run_len f m s)" unfolding run_len_def using k(2) by (rule LeastI)
  show "run_len f m s \<le> sender_count m s" 
    unfolding run_len_def using Least_le [where P = "\<lambda>k. \<not> bt_contains (mp_by_sender m) (s, f s + k)", OF k(2)] k(1) by (rule le_trans)
qed (auto simp: run_len_def dest: not_less_Least)

lemma run_len_run: "runs f m \<Longrightarrow> run_len f m s = sender_count m s"
  using run_len_out [of m s f] run_len_le [of f m s] by (force simp: runs_def)

lemma entry_at_pooled:
  assumes "pool_exact C m" "bt_contains (mp_by_sender m) k"
  shows "bt_get (mp_by_sender m) k = Some (stx_id C (entry_at m k))" "bt_get (mp_by_id m) (stx_id C (entry_at m k)) = Some (entry_at m k)"
    "slot_of (entry_at m k) = k"
proof -
  obtain i where i: "bt_get (mp_by_sender m) k = Some i" using assms(2) by (auto simp: bt_contains_def)
  obtain stx where stx: "bt_get (mp_by_id m) i = Some stx" "slot_of stx = k" "stx_id C stx = i"
    using agree_slotD [OF exactD(1) [OF assms(1)] i] .
  then have "entry_at m k = stx" using i by (simp add: entry_at_def)
  then show "bt_get (mp_by_sender m) k = Some (stx_id C (entry_at m k))" "bt_get (mp_by_id m) (stx_id C (entry_at m k)) = Some (entry_at m k)"
    "slot_of (entry_at m k) = k" using i stx by simp_all
qed

lemma run_member:
  assumes "pool_exact C m" "stx \<in> set (run_of f m s)"
  shows "signer_of stx = s" "bt_get (mp_by_id m) (stx_id C stx) = Some stx"
proof -
  obtain k where k: "k < run_len f m s" "stx = entry_at m (s, f s + k)"
    using assms(2) by (auto simp: run_of_def le_iff_add)
  note at = entry_at_pooled [OF assms(1) run_len_in [OF k(1)]]
  show "signer_of stx = s" "bt_get (mp_by_id m) (stx_id C stx) = Some stx" using at(2,3) k(2) by simp_all
qed

lemma run_nth: "k < run_len f m s \<Longrightarrow> run_of f m s ! k = entry_at m (s, f s + k)"
  by (simp add: run_of_def)

lemma pooled_entry:
  assumes e: "pool_exact C m" and i: "bt_get (mp_by_id m) i = Some stx"
  shows "bt_contains (mp_by_sender m) (slot_of stx)" "entry_at m (slot_of stx) = stx"
proof -
  have k: "bt_get (mp_by_sender m) (slot_of stx) = Some i" using agree_byD [OF exactD(1) [OF e] i] by blast
  then show "bt_contains (mp_by_sender m) (slot_of stx)" "entry_at m (slot_of stx) = stx"
    using i by (simp_all add: bt_contains_def entry_at_def)
qed

lemma mineable_in_run:
  assumes e: "pool_exact C m" and i: "bt_get (mp_by_id m) i = Some stx" and n: "mineable f m stx"
  shows "stx \<in> set (run_of f m (signer_of stx))"
proof -
  let ?s = "signer_of stx"
  obtain k where k: "nonce_of stx = f ?s + k" using n by (auto simp: mineable_def le_iff_add)
  have "bt_contains (mp_by_sender m) (?s, f ?s + j)" if "j \<le> k" for j
    using n pooled_entry(1) [OF e i] that k by (cases "j = k") (auto simp: mineable_def list_all_iff)
  then have "k < run_len f m ?s" using run_len_out [of m ?s f] by (metis not_le)
  then have "k < length (run_of f m ?s)" "run_of f m ?s ! k = stx"
    using pooled_entry(2) [OF e i] by (simp_all add: run_of_def k)
  then show ?thesis by (metis nth_mem)
qed

lemma run_from_run:
  assumes e: "pool_exact C m" and b: "f s + sender_count m s < 2 ^ 64"
  shows "run_from m s (Suc (sender_count m s)) (f s) = Inr (run_of f m s)"
proof -
  define top where "top = f s + run_len f m s"
  have "j \<le> run_len f m s \<Longrightarrow> run_from m s (Suc (j + d)) (top - j) = Inr (map (\<lambda>n. entry_at m (s, n)) [top - j..<top])" for j d
  proof (induction j)
    case 0
    have "bt_get (mp_by_sender m) (s, top) = None"
      using run_len_out [of m s f] by (simp add: bt_contains_def top_def)
    then show ?case by simp
  next
    case (Suc j)
    have "bt_contains (mp_by_sender m) (s, top - Suc j)"
      using run_len_in [of "run_len f m s - Suc j" f m s] Suc.prems by (simp add: top_def)
    note at = entry_at_pooled [OF e this]
    have next_nonce: "(top - Suc j + 1) mod 2 ^ 64 = top - j"
      using b Suc.prems run_len_le [of f m s] by (simp add: top_def)
    have "[top - Suc j..<top] = (top - Suc j) # [top - j..<top]"
      using Suc.prems by (subst upt_conv_Cons) (simp_all add: top_def Suc_diff_Suc)
    then show ?case using Suc at(1,2) unfolding run_from.simps(2) [of m s "Suc j + d"] next_nonce
      by (simp add: ok_or_def and_then_def del: run_from.simps)
  qed
  from this [of "run_len f m s" "sender_count m s - run_len f m s"] run_len_le [of f m s] show ?thesis
    by (simp add: top_def run_of_def)
qed

lemma ready_queues_run:
  assumes e: "pool_exact C m" and b: "\<And>s. f s + sender_count m s < 2 ^ 64"
  shows "ready_queues m f ss = Inr (map (\<lambda>s. (s, run_of f m s)) (filter (\<lambda>s. run_of f m s \<noteq> []) ss))"
  by (induction ss) (simp_all add: run_from_run [of C m f, OF e b] and_then_def del: run_from.simps)

lemma strict_remdups_adj: "sorted ys \<Longrightarrow> sorted_wrt (<) (remdups_adj ys)" for ys :: "'b::linorder list"
  by (induction ys rule: remdups_adj.induct) (auto simp: le_less)

lemma sorted_senders: "sorted_wrt (<) (senders t)"
proof -
  have "sorted (map (fst \<circ> fst) (bt_entries t))"
    using bt.ents_sorted [of t] unfolding sorted_wrt_map
    by (rule sorted_wrt_mono_rel [rotated]) (auto simp: less_prod_def')
  then show ?thesis by (simp add: senders_def case_prod_unfold comp_def strict_remdups_adj)
qed

lemma select_run:
  assumes e: "pool_exact C m" and b: "\<And>s. f s + sender_count m s < 2 ^ 64"
  obtains qs where "mp_select m f limit = Inr (fill_template limit qs)" "queues_ok qs" "queue_of qs = run_of f m"
proof -
  define ss where "ss = filter (\<lambda>s. run_of f m s \<noteq> []) (senders (mp_by_sender m))"
  define qs where "qs = map (\<lambda>s. (s, run_of f m s)) ss"
  have sorted: "sorted_wrt (<) ss" unfolding ss_def by (rule sorted_wrt_filter [OF sorted_senders])
  have "queues_ok qs" using sorted run_member(1) [OF e] by (auto simp: queues_ok_def qs_def comp_def ss_def)
  moreover have "queue_of qs s = run_of f m s" for s
  proof (cases "s \<in> set ss")
    case True
    then show ?thesis by (simp add: queue_of_def qs_def map_of_map_restrict)
  next
    case False
    then have "run_of f m s = []" using run_len_le [of f m s] by (auto simp: ss_def senders_iff sender_count_def run_of_def)
    moreover have "map_of qs s = None" using False by (auto simp: qs_def map_of_eq_None_iff)
    ultimately show ?thesis by (simp add: queue_of_def)
  qed
  moreover have "mp_select m f limit = Inr (fill_template limit qs)"
    by (simp add: mp_select_def ready_queues_run [OF e b] and_then_def qs_def ss_def)
  ultimately show thesis using that by blast
qed

lemma next_nonce_run:
  assumes r: "runs f m" and b: "f s + sender_count m s < 2 ^ 64" and cap: "sender_count m s \<le> mp_max_per_sender m"
  shows "next_nonce m s (f s) = f s + sender_count m s"
proof -
  define top where "top = f s + sender_count m s"
  have "j \<le> sender_count m s \<Longrightarrow> next_free m s (Suc (j + d)) (top - j) = top" for j d
  proof (induction j)
    case 0
    have "\<not> bt_contains (mp_by_sender m) (s, top)" using r by (simp add: runs_def top_def)
    then show ?case by simp
  next
    case (Suc j)
    have "bt_contains (mp_by_sender m) (s, top - Suc j)" using r Suc.prems by (simp add: runs_def top_def)
    moreover have "saturating_add 64 (top - Suc j) 1 = top - j" using b Suc.prems by (simp add: top_def saturating_add_def)
    ultimately show ?case using Suc by simp
  qed
  from this [of "sender_count m s" "mp_max_per_sender m - sender_count m s"] show ?thesis
    using cap by (simp add: next_nonce_def top_def)
qed

lemma template_facts:
  assumes e: "pool_exact C m"
    and spec: "length out \<le> limit \<and> greedy (run_of f m) out
      \<and> (\<forall>s. \<exists>k. filter (\<lambda>x. signer_of x = s) out = take k (run_of f m s))
      \<and> (length out < limit \<longrightarrow> (\<forall>s. filter (\<lambda>x. signer_of x = s) out = run_of f m s))"
  shows "(\<forall>stx \<in> set out. bt_get (mp_by_id m) (stx_id C stx) = Some stx)
    \<and> (\<forall>s. map (\<lambda>x. nonce_of x) (filter (\<lambda>x. signer_of x = s) out) = [f s..<f s + length (filter (\<lambda>x. signer_of x = s) out)])
    \<and> (length out < limit \<longrightarrow> (\<forall>i stx. bt_get (mp_by_id m) i = Some stx \<and> mineable f m stx \<longrightarrow> stx \<in> set out))
    \<and> (\<forall>i < length out. \<forall>j stx. bt_get (mp_by_id m) j = Some stx
          \<and> nonce_of stx = f (signer_of stx) + length (filter (\<lambda>x. signer_of x = signer_of stx) (take i out))
        \<longrightarrow> effective_tip stx < effective_tip (out ! i)
          \<or> (effective_tip stx = effective_tip (out ! i) \<and> signer_of (out ! i) \<le> signer_of stx))"
proof (intro conjI ballI allI impI)
  fix stx assume "stx \<in> set out"
  then have "stx \<in> set (filter (\<lambda>x. signer_of x = signer_of stx) out)" by simp
  then have "stx \<in> set (run_of f m (signer_of stx))" using spec by (metis in_set_takeD)
  then show "bt_get (mp_by_id m) (stx_id C stx) = Some stx" by (rule run_member(2) [OF e])
next
  fix s
  obtain k where k: "filter (\<lambda>x. signer_of x = s) out = take k (run_of f m s)" using spec by blast
  have "nonce_of (entry_at m (s, n)) = n" if "n \<in> set [f s..<f s + run_len f m s]" for n
    using that entry_at_pooled(3) [OF e run_len_in [of "n - f s" f m s]] by (simp add: less_diff_conv2)
  then have "map (\<lambda>x. nonce_of x) (run_of f m s) = [f s..<f s + run_len f m s]"
    by (auto simp: run_of_def comp_def intro!: map_idI)
  then have "map (\<lambda>x. nonce_of x) (take k (run_of f m s)) = take k [f s..<f s + run_len f m s]" by (simp add: take_map [symmetric])
  then show "map (\<lambda>x. nonce_of x) (filter (\<lambda>x. signer_of x = s) out) = [f s..<f s + length (filter (\<lambda>x. signer_of x = s) out)]"
    unfolding k by (simp add: take_upt run_of_def min_def)
next
  fix i stx assume "length out < limit" and i: "bt_get (mp_by_id m) i = Some stx \<and> mineable f m stx"
  then have "filter (\<lambda>x. signer_of x = signer_of stx) out = run_of f m (signer_of stx)" using spec by blast
  moreover have "stx \<in> set (run_of f m (signer_of stx))" using mineable_in_run [OF e] i by blast
  ultimately show "stx \<in> set out" by (metis filter_is_subset subsetD)
next
  fix i j stx assume i: "i < length out" and a: "bt_get (mp_by_id m) j = Some stx
      \<and> nonce_of stx = f (signer_of stx) + length (filter (\<lambda>x. signer_of x = signer_of stx) (take i out))"
  let ?s = "signer_of stx"
  define k where "k = length (filter (\<lambda>x. signer_of x = ?s) (take i out))"
  note at = pooled_entry [OF e conjunct1 [OF a]]
  have n: "nonce_of stx = f ?s + k" using a by (simp add: k_def)
  have "length (filter (\<lambda>x. signer_of x = ?s) out) \<le> run_len f m ?s"
    using spec by (metis length_map length_take length_upt add_diff_cancel_left' min.cobounded1 run_of_def)
  moreover have "k \<le> length (filter (\<lambda>x. signer_of x = ?s) out)"
    unfolding k_def by (metis append_take_drop_id filter_append le_add1 length_append)
  moreover have "k \<noteq> run_len f m ?s" using at(1) run_len_out [of m ?s f] unfolding n by metis
  ultimately have k: "k < run_len f m ?s" by simp
  then have "k < length (run_of f m ?s)" "run_of f m ?s ! k = stx" using at(2) unfolding n by (simp_all add: run_of_def)
  then show "effective_tip stx < effective_tip (out ! i)
      \<or> (effective_tip stx = effective_tip (out ! i) \<and> signer_of (out ! i) \<le> signer_of stx)"
    using spec i unfolding greedy_def Let_def k_def by metis
qed

lemma runs_mineable:
  assumes "pool_exact C m" "runs f m" "bt_get (mp_by_id m) i = Some stx"
  shows "mineable f m stx"
  using pooled_entry(1) [OF assms(1,3)] assms(2) by (auto simp: mineable_def runs_def list_all_iff)

section \<open>A pool with one transaction\<close>

definition pool_env :: chain_env where
  "pool_env = exec_env.extend sample_env (chain_env.fields (\<lambda>_. replicate 10 0) (\<lambda>_ _. []))"

definition pool_tx :: signed_transaction where
  "pool_tx = sample_tx ''alice'' 0 (Transfer ''bob'' 100)"

lemma pool_tx_fields [simp]: "signer_of pool_tx = ''alice''" "nonce_of pool_tx = 0" "tx_action (stx_transaction pool_tx) = Transfer ''bob'' 100"
  "verify_signature_mode pool_env pool_tx Legacy" "tx_weight pool_env pool_tx = 10"
  by (simp_all add: pool_tx_def sample_tx_def verify_signature_mode_def verifies_def verify_signature_in_def pk_verify_def sample_key_def
      pool_env_def exec_env.defs chain_env.defs sample_env_def tx_weight_def stx_serialized_size_def saturating_add_def)

lemma pool_admits:
  "mp_insert pool_env 5 pool_tx 0 900000 (with_limits 100 16)
     = (admit_ready pool_env 5 (slot_of pool_tx) (stx_id pool_env pool_tx) pool_tx (with_limits 100 16), Inr Ready)"
proof -
  have "insert_inner pool_env 5 pool_tx 0 900000 (with_limits 100 16)
      = (admit_ready pool_env 5 (slot_of pool_tx) (stx_id pool_env pool_tx) pool_tx (with_limits 100 16), Inr Ready)"
    by (simp add: insert_inner_def admit_fresh_def with_limits_def bt_contains_def sender_count_def of_sender_def saturating_add_def
        and_then_def afford_def ensure_def pending_outflow_def over_capacity_def pool_len_def bt_len_def total_weight_def
        DEFAULT_MAX_POOL_WEIGHT_def Let_def)
  moreover have "promote pool_env 5 s 0 900000 (admit_ready pool_env 5 k i stx (with_limits 100 16))
      = (admit_ready pool_env 5 k i stx (with_limits 100 16), Inr ())" for s k i stx
    by (subst promote.simps) (simp add: remove_queued_def with_limits_def admit_ready_def)
  ultimately show ?thesis by (simp add: mp_insert_def Let_def MAX_TX_WEIGHT_def MAX_BLOCK_WEIGHT_def)
qed

lemma pooled_history:
  obtains m where "pool_history pool_env (\<lambda>_. 0) (\<lambda>_. 900000) m" "pool_reachable pool_env m" "pool_len m = 1"
    "bt_get (mp_by_id m) (stx_id pool_env pool_tx) = Some pool_tx" "\<And>s. sender_count m s = of_bool (s = ''alice'')"
proof -
  let ?m = "admit_ready pool_env 5 (slot_of pool_tx) (stx_id pool_env pool_tx) pool_tx (with_limits 100 16)"
  have "pool_history pool_env (\<lambda>_. 0) (\<lambda>_. 900000) ?m"
    by (rule pool_history.submit [OF pool_history.opened [of _ _ _ 100 16] pool_admits [folded pool_tx_fields(1)]])
  moreover have "pool_reachable pool_env ?m" by (rule pool_reachable.submitted [OF pool_reachable.start pool_admits])
  moreover have "pool_len ?m = 1" by (simp add: pool_len_def bt_len_insert with_limits_def) (simp add: bt_len_def)
  moreover have "sender_count ?m s = of_bool (s = ''alice'')" for s
    by (simp add: sender_count_def of_sender_insert with_limits_def) (auto simp: of_sender_def)
  ultimately show thesis by (intro that [of ?m]) simp_all
qed

section \<open>Properties\<close>

text \<open>C37. The pool never loses track of itself.  After any sequence of submissions, restores, removals,
  prunings, time-based evictions and configuration changes, at any clock readings and account
  states: the index by identifier and the index by sender and nonce agree in both directions; the
  two running weight totals are the exact sums over the regions; the pool respects its bounds on
  transactions, on transactions per sender, on parked transactions in total and per sender, and on
  memory; and no operation panics on a missing entry.\<close>

theorem pool_sound:
  assumes "pool_reachable C m"
  shows "(\<forall>i stx. bt_get (mp_by_id m) i = Some stx \<longrightarrow> stx_id C stx = i \<and> bt_get (mp_by_sender m) (slot_of stx) = Some i)
    \<and> (\<forall>k i. bt_get (mp_by_sender m) k = Some i \<longrightarrow> (\<exists>stx. bt_get (mp_by_id m) i = Some stx \<and> slot_of stx = k))
    \<and> mp_weight m = bt_sum (\<lambda>_. tx_weight C) (mp_by_id m)
    \<and> mp_queued_weight m = bt_sum (\<lambda>_ q. tx_weight C (q_stx q)) (mp_queued m)
    \<and> mp_weight m + mp_queued_weight m \<le> mp_max_weight m \<and> pool_len m \<le> mp_capacity m
    \<and> bt_len (mp_queued m) \<le> mp_queued_capacity m
    \<and> (\<forall>s. sender_count m s \<le> mp_max_per_sender m \<and> queued_count m s \<le> mp_max_queued_per_sender m)
    \<and> snd (mp_insert C now stx n bal m) \<noteq> Inl PoolPanic \<and> snd (prune C now f g m) = Inr ()
    \<and> snd (restore C now f g stxs m) = Inr ()"
proof -
  have ok: "pool_ok C m" using assms by (rule pool_reachable_ok)
  have "snd (mp_insert C now stx n bal m) \<noteq> Inl PoolPanic" "snd (prune C now f g m) = Inr ()" "snd (restore C now f g stxs m) = Inr ()"
    using insert_ok [OF ok, of now stx n bal] prune_ok [OF ok, of now f g] sound_pool.restore_keeps [OF ok, of now f g stxs]
    by (metis prod.collapse)+
  then show ?thesis using exactD [OF okD(1) [OF ok]] okD(2) [OF ok] unfolding indexes_agree_def pool_bounded_def by blast
qed

theorem pool_sound_witness:
  "\<exists>m. pool_reachable pool_env m \<and> pool_len m = 1 \<and> mp_weight m = bt_sum (\<lambda>_. tx_weight pool_env) (mp_by_id m)
    \<and> snd (mp_insert pool_env 6 pool_tx 0 900000 m) \<noteq> Inl PoolPanic"
proof (rule pooled_history)
  fix m assume m: "pool_reachable pool_env m" "pool_len m = 1"
  from pool_sound [OF m(1), of 6 pool_tx 0 900000] m show ?thesis by blast
qed

text \<open>C38. The ready region is mineable.  While the pool follows the account state - submissions and restores
  judged against current nonces and balances, and a prune after each committed block, whose
  transactions are removed and whose nonces only advance - every sender's ready transactions are
  exactly one gap-free run of nonces that starts at the account's nonce, and together they move no
  more than the account holds.  So the nonce the pool tells a wallet to sign next is the end of that
  run, and time-based eviction finds nothing stranded.  Replacement by fee, the capacity auction
  and promotion never open a hole.  Removing a single transaction by its identifier outside a committed block, as the node
  does for one it rejects, can open one and is not a step of this history.\<close>

theorem ready_runs:
  assumes "pool_history C f g m" "f s + sender_count m s < 2 ^ 64"
  shows "(\<forall>n. bt_contains (mp_by_sender m) (s, n) \<longleftrightarrow> f s \<le> n \<and> n < f s + sender_count m s)
    \<and> pending_outflow m s \<le> g s \<and> next_nonce m s (f s) = f s + sender_count m s \<and> stranded_of f now ttl m s = []"
proof -
  have p: "pool_ok C m" "runs f m" "affordable g m" using history_run_pool [OF assms(1)] by (simp_all add: run_pool_def)
  have "sender_count m s \<le> mp_max_per_sender m" using okD(2) [OF p(1)] by (simp add: pool_bounded_def)
  then show ?thesis using p(2,3) next_nonce_run [OF p(2) assms(2)] nothing_stranded [OF p(2) assms(2)]
    by (simp add: runs_def affordable_def)
qed

theorem ready_runs_witness:
  "\<exists>m. pool_history pool_env (\<lambda>_. 0) (\<lambda>_. 900000) m \<and> bt_contains (mp_by_sender m) (''alice'', 0) \<and> next_nonce m ''alice'' 0 = 1"
proof (rule pooled_history)
  fix m assume m: "pool_history pool_env (\<lambda>_. 0) (\<lambda>_. 900000) m" "\<And>s. sender_count m s = of_bool (s = ''alice'')"
  from ready_runs [OF m(1), of "''alice''" 0 0] m show ?thesis by auto
qed

text \<open>C39. The block template is the auction, on every pool that can arise, holes included, as long as no
  sender's nonces reach the end of their 64-bit range.  \<open>select\<close> never panics and returns at most the
  requested number of transactions, all of them pooled; each sender's are in nonce order without a
  gap from the account's nonce on, so nothing behind a missing nonce is ever proposed; if room is left, every
  mineable transaction was taken, which is one with no nonce missing between the account's nonce
  and its own; and at every position the chosen transaction bids at least as much as the next
  mineable transaction of every sender, ties going to the smaller account identifier.  On a pool that
  followed the account state (\<open>pool_history\<close>) every ready transaction is mineable.\<close>

theorem template_is_auction:
  assumes "pool_reachable C m" "\<And>s. f s + sender_count m s < 2 ^ 64"
  shows "(\<exists>out. mp_select m f limit = Inr out \<and> length out \<le> limit
    \<and> (\<forall>stx \<in> set out. bt_get (mp_by_id m) (stx_id C stx) = Some stx)
    \<and> (\<forall>s. map (\<lambda>x. nonce_of x) (filter (\<lambda>x. signer_of x = s) out)
          = [f s..<f s + length (filter (\<lambda>x. signer_of x = s) out)])
    \<and> (length out < limit \<longrightarrow> (\<forall>i stx. bt_get (mp_by_id m) i = Some stx \<and> mineable f m stx \<longrightarrow> stx \<in> set out))
    \<and> (\<forall>i < length out. \<forall>j stx. bt_get (mp_by_id m) j = Some stx
          \<and> nonce_of stx = f (signer_of stx) + length (filter (\<lambda>x. signer_of x = signer_of stx) (take i out))
        \<longrightarrow> effective_tip stx < effective_tip (out ! i)
          \<or> (effective_tip stx = effective_tip (out ! i) \<and> signer_of (out ! i) \<le> signer_of stx)))
    \<and> (\<forall>g i stx. pool_history C f g m \<and> bt_get (mp_by_id m) i = Some stx \<longrightarrow> mineable f m stx)"
proof (rule conjI)
  note e = okD(1) [OF pool_reachable_ok [OF assms(1)]]
  show "\<forall>g i stx. pool_history C f g m \<and> bt_get (mp_by_id m) i = Some stx \<longrightarrow> mineable f m stx"
    using runs_mineable [OF e] history_run_pool unfolding run_pool_def by blast
  obtain qs where qs: "mp_select m f limit = Inr (fill_template limit qs)" "queues_ok qs" "queue_of qs = run_of f m"
    using select_run [OF e assms(2)] .
  define out where "out = fill_template limit qs"
  note spec = fill_template_spec [OF qs(2), of limit, folded out_def, unfolded qs(3)]
  show "\<exists>out. mp_select m f limit = Inr out \<and> length out \<le> limit
    \<and> (\<forall>stx \<in> set out. bt_get (mp_by_id m) (stx_id C stx) = Some stx)
    \<and> (\<forall>s. map (\<lambda>x. nonce_of x) (filter (\<lambda>x. signer_of x = s) out)
          = [f s..<f s + length (filter (\<lambda>x. signer_of x = s) out)])
    \<and> (length out < limit \<longrightarrow> (\<forall>i stx. bt_get (mp_by_id m) i = Some stx \<and> mineable f m stx \<longrightarrow> stx \<in> set out))
    \<and> (\<forall>i < length out. \<forall>j stx. bt_get (mp_by_id m) j = Some stx
          \<and> nonce_of stx = f (signer_of stx) + length (filter (\<lambda>x. signer_of x = signer_of stx) (take i out))
        \<longrightarrow> effective_tip stx < effective_tip (out ! i)
          \<or> (effective_tip stx = effective_tip (out ! i) \<and> signer_of (out ! i) \<le> signer_of stx))"
    by (intro exI [of _ out] conjI [OF qs(1) [folded out_def]] conjI [OF conjunct1 [OF spec]] template_facts [OF e spec])
qed

theorem template_is_auction_witness:
  "\<exists>m out. pool_reachable pool_env m \<and> mp_select m (\<lambda>_. 0) 10 = Inr out \<and> out \<noteq> [] \<and> length out \<le> 10"
proof (rule pooled_history)
  fix m assume m: "pool_history pool_env (\<lambda>_. 0) (\<lambda>_. 900000) m" "pool_reachable pool_env m"
    "bt_get (mp_by_id m) (stx_id pool_env pool_tx) = Some pool_tx" "\<And>s. sender_count m s = of_bool (s = ''alice'')"
  have "0 + sender_count m s < 2 ^ 64" for s using m(4) [of s] by simp
  from template_is_auction [OF m(2) this, of 10] obtain out where "mp_select m (\<lambda>_. 0) 10 = Inr out" "length out \<le> 10"
    "length out < 10 \<longrightarrow> pool_tx \<in> set out" using m(1,3) by blast
  with m(2) show ?thesis by (cases out) auto
qed

end
