(* ===== verification/Spec2Isabelle.thy ===== *)
theory Spec2Isabelle
  imports Consensus Template
begin

text \<open>
  A verification development for the SOV chain, the Rust workspace under \<open>src/chain/crates\<close>: a
  proof-of-work chain with accounts, issued assets, vaults, escrows, two shielded pools, intents and
  WebAssembly contracts.

  \<^bold>\<open>The program and its parts.\<close>  A transaction enters a node through the mempool, which keeps per
  sender a run of transactions ready to be mined and draws block templates from it.  The chain manager
  turns a template into a candidate block, seals it, and imports it exactly as it imports a block of a
  peer: the block is validated against its parent, executed on the ledger under an undo journal, compared
  with the roots of its header, tested by the invariant checker, and then connected, stored on a side
  branch or refused.  Execution is the state transition function of the runtime; it charges gas, runs one
  arm per kind of action and mints the coinbase.  The ledger commits to its stores with a sparse Merkle
  tree.  Governance signals in the headers activate protocol upgrades.

  \<^bold>\<open>Modelling conventions.\<close>
  \<^item> A \<open>u64\<close>, \<open>u128\<close> or \<open>usize\<close> is a \<open>nat\<close>; the checked and saturating operations of the source are
    the definitions of \<open>Prelude\<close>, with the bound of the type written out.  Bytes are 8-bit words, and
    bit fields of headers are words of their width.
  \<^item> A \<open>BTreeMap\<close> is the type \<open>btree_map\<close> of sorted association lists (\<open>Prelude\<close>); its contract is the
    locale \<open>ordered_map\<close>, interpreted there on the model's own operations.
  \<^item> A method on \<open>&mut self\<close> returns the new state with its result.  Errors are values of a sum type with
    the source's error enum on the left.  A panic of the source is a value of its own (\<open>Panic\<close>,
    \<open>BlockPanic\<close>, \<open>V2Panicked\<close>, \<open>ChainPanic\<close>, \<open>PoolPanic\<close>), so that its absence can be a theorem.
  \<^item> Code outside the repository is an argument: hash functions and signature verifiers (record
    \<open>crypto\<close>), the Orchard verifier (\<open>pool_prims\<close>), serializers (\<open>codec\<close>, \<open>tx_codec\<close>), the STARK
    verifiers of pool v2 (\<open>v2_prims\<close>), the contract interpreter (\<open>exec_env\<close>)
    and the transaction serializer and RandomX (\<open>chain_env\<close>), each record extending the one before.  What a
    theorem needs of them, such as digests of 32 bytes, is a named hypothesis, and the witness of the
    theorem instantiates it with concrete functions (\<open>Sample\<close>, \<open>ChainSample\<close>, \<open>Template\<close>).
  \<^item> The wall clock is an argument of the operation that reads it.

  \<^bold>\<open>Foundations.\<close>
  \<^item> \<open>Primitives\<close>: amounts, the supply cap, account identifiers and signing domains
    (\<open>primitives/src\<close>).  Identifier validation is exact; signing preimages are injective.
  \<^item> \<open>Crypto\<close>: keys, signatures, Merkle trees (\<open>crypto/src\<close>).  Inclusion proofs are complete and short.
  \<^item> \<open>Pow\<close>, \<open>Compact\<close>: targets, \<open>nBits\<close>, mining (\<open>pow/src\<close>).  Mining finds the first nonce that
    qualifies; compact encoding is a projection that never eases a target.
  \<^item> \<open>Mining\<close>: difficulty, retargeting, work and the halving schedule (\<open>mining/src\<close>), with bounds on
    each adjustment and the cap on emission.
  \<^item> \<open>Governance\<close>: the signal log and the window state machine (\<open>governance/src/lib.rs\<close>).  Activation is
    earned by a full window or a mandatory timeout, and is final.
  \<^item> \<open>Smt\<close>: the sparse Merkle tree (\<open>state/src/smt.rs\<close>), refined against the complete tree, with sound
    and complete proofs.
  \<^item> \<open>Compliance\<close>: transfer controls, velocity windows and multisig policy (\<open>compliance/src\<close>).
  \<^item> \<open>Shielded\<close>, \<open>ShieldedPq\<close>, \<open>CarrierV2\<close>: the states of the two pools, the commitment frontier with its
    reference tree, and the verification of a v2 bundle (\<open>shielded/src\<close>, \<open>shielded-pq/src\<close>,
    \<open>runtime/src/shielded_v2.rs\<close>).  The frontier computes the root of the complete tree, and a nullifier
    is accepted once.

  \<^bold>\<open>Ledger and execution.\<close>
  \<^item> \<open>Ledger\<close>: every store of \<open>state/src/ledger.rs\<close> with its writes and the undo operation each of them
    logs.  \<open>Journal\<close>: the locale \<open>journalled_store\<close>, interpreted on the ledger's writes, proves that the
    log undoes any sequence of them.
  \<^item> \<open>Types\<close>, \<open>Gas\<close>, \<open>Execution\<close>, \<open>Arms\<close>, \<open>Runtime\<close>: actions, transactions and receipts
    (\<open>types/src\<close>, \<open>intents/src\<close>), gas (\<open>runtime/src/gas.rs\<close>) and the state transition of
    \<open>runtime/src/execution.rs\<close>: one definition per arm, \<open>apply_transaction\<close>, \<open>apply_coinbase\<close> and
    \<open>apply_transactions\<close>.
  \<^item> \<open>ArmContract\<close>: the locale \<open>dispatch_contract\<close> states what a relation between the state before and
    after an arm must satisfy for it to hold of a whole transaction and block.  It is interpreted for
    supply (\<open>Supply\<close>), issued assets (\<open>Tokens\<close>), undo (\<open>Rollback\<close>), atomicity (\<open>Atomicity\<close>), the second
    pool (\<open>Pool\<close>) and the asset registry (\<open>Checked\<close>).
  \<^item> \<open>Determinism\<close>: execution yields the same ledger and receipts with and without a journal, which is
    why producer and importer agree.
  \<^item> \<open>Verify\<close>, \<open>Checked\<close>: the invariant checker of \<open>verify/src/invariants.rs\<close>.  It accepts exactly the
    documented invariants, and every block without multisig proposals passes it.  Proposals are
    excluded for a reason: one that pays its own signer destroys value, one that a vault sends for itself
    creates value (\<open>proposal_paying_signer_destroys_value\<close>, \<open>proposal_from_own_vault_creates_value\<close>), and the
    checker refuses a block with the former (\<open>drift_is_caught\<close>).

  \<^bold>\<open>The chain manager.\<close>
  \<^item> \<open>Block\<close>: headers and their encoding, assembly, weights and fee rates (\<open>types/src/block.rs\<close>,
    \<open>types/src/weight.rs\<close>).  \<open>Genesis\<close>: \<open>chain/src/genesis.rs\<close>.
  \<^item> \<open>ChainRules\<close>, \<open>Linkage\<close>, \<open>Producer\<close>, \<open>Import\<close>: \<open>chain/src/blockchain.rs\<close>: the state of the manager,
    activation gates, required target and size limit; checkpoints and the proofs of ancestry behind the
    seal skip; candidate blocks and sealing; and import with connection, disconnection, incremental and
    full reorganisation.
  \<^item> \<open>ForkChoice\<close>, \<open>Reachable\<close>, \<open>Accept\<close>, \<open>ChainSample\<close>, \<open>Consensus\<close>: the inductive predicate
    \<open>reachable\<close> is the transition system of the manager (creation, imports, linkage and configuration in
    any order); its invariant gives that the active chain is the linked path to the heaviest block, that
    the required target is always defined, that a seal is skipped only below a proven pin, and that a node
    accepts the block it mines.  Imports that end in \<open>ChainPanic\<close> abort the process and are not steps of
    the transition system.

  \<^bold>\<open>The mempool.\<close>
  \<^item> \<open>Mempool\<close>: \<open>mempool/src/lib.rs\<close>: admission, replacement by fee, the capacity auction, the queued
    region and its promotion, pruning, eviction by time, restoring, and the block template.
  \<^item> \<open>MempoolSafe\<close>, \<open>MempoolRuns\<close>: the locale \<open>admission\<close> collects what an invariant must satisfy to
    survive an insertion; it is interpreted for the bounds and index agreement (\<open>sound_pool\<close>) and for the
    affordable gap-free runs of each sender (\<open>run_admission\<close>).  The inductive predicates
    \<open>pool_reachable\<close> and \<open>pool_history\<close> are the histories of a pool.
  \<^item> \<open>Template\<close>: the template is the greedy merge of the senders' gap-free runs by bid, on every
    reachable pool, also one with holes.

  \<^bold>\<open>Bounds and fuel.\<close>  The walks along parent links take the height of their start as fuel;
  \<open>parent_walks_end\<close> proves that this is exactly enough on every reachable chain.  The scan for the next
  free nonce of a sender takes one more than the number of that sender's entries, which cannot all be
  passed.  The loops of the capacity auction and of block sealing carry the budgets the source gives
  them.  Mining is bounded by its iteration argument.  All other recursion is structural or has a
  termination proof.

  \<^bold>\<open>Not modelled.\<close>
  \<^item> The boot paths of the chain manager over a block log and snapshots: file formats and trusted replay
    of blocks the node has already validated.
  \<^item> Its floating-point hashrate estimate, and the read-only reports of chain and mempool.
  \<^item> Peer-to-peer networking, RPC, daemon and node (\<open>network\<close>, \<open>rpc\<close>, \<open>node\<close>): sockets, threads, timers
    and process wiring around the modelled components.
  \<^item> Wallets and provers (\<open>wallet\<close>, and the client side of the two pools): key derivation and proving
    over external libraries.
  \<^item> The WebAssembly interpreter and the circuits, which are external and enter as parameters.
  \<^item> The byte decoders of bundles (\<open>shielded-pq/src/wire.rs\<close> and the Orchard reader of pool v1): the
    runtime is verified for any decoder, so \<open>decode_bundle\<close> and \<open>decode_shielded\<close> are arguments.
  \<^item> The projections of \<open>reserve\<close>, which no other crate uses, and the applications and scripts outside
    \<open>src/chain/crates\<close>.
  \<^item> Debug assertions, which a release build drops.
\<close>

end
